(* ===== verification/Prelude.thy ===== *)
theory Prelude
  imports Main "HOL-Library.Word" "HOL-Library.Char_ord" "HOL-Library.List_Lexorder"
    "HOL-Library.Product_Lexorder" "HOL-Library.Sublist"
begin

text \<open>
  Shared vocabulary of the development: the machine types of the C++ sources, the sequencing of
  fallible computations, \<open>std::map\<close> as a key-ordered association list, and the text conversions
  the code takes from the C++ standard library (\<open>std::to_string\<close>, \<open>std::stoull\<close>).
\<close>

unbundle bit_operations_syntax

section \<open>Machine types\<close>

text \<open>
  Unsigned integers of the code are words of their width. A signed \<open>int64_t\<close> (or \<open>int16_t\<close>)
  is an \<^typ>\<open>int\<close>; every cast between the two is written out: \<open>static_cast<int64_t>(w)\<close> is
  \<^term>\<open>sint w\<close> and \<open>static_cast<uint64_t>(i)\<close> is \<^term>\<open>word_of_int i\<close>.
  A \<open>std::string\<close> is a \<^typ>\<open>string\<close>: a \<^typ>\<open>char\<close> is a byte.
\<close>

type_synonym byte = "8 word"
type_synonym bytes = "8 word list"
type_synonym u8 = "8 word"
type_synonym u16 = "16 word"
type_synonym u32 = "32 word"
type_synonym u64 = "64 word"
type_synonym i16 = int
type_synonym i64 = int

text \<open>The key of every table of partitions: topic and partition id.\<close>

type_synonym topic_partition = "string \<times> u32"

definition in_i16 :: "int \<Rightarrow> bool" where
  "in_i16 i \<longleftrightarrow> - (2 ^ 15) \<le> i \<and> i < 2 ^ 15"

definition in_i64 :: "int \<Rightarrow> bool" where
  "in_i64 i \<longleftrightarrow> - (2 ^ 63) \<le> i \<and> i < 2 ^ 63"

lemma sint_word_of_int16 [simp]: "in_i16 i \<Longrightarrow> sint (word_of_int i :: u16) = i"
  by (simp add: in_i16_def sint_sbintrunc' signed_take_bit_int_eq_self)

lemma sint_in_i16: "in_i16 (sint (w :: u16))"
  using sint_greater_eq [of w] sint_less [of w] by (simp add: in_i16_def)

lemma sint_in_i64: "in_i64 (sint (w :: u64))"
  using sint_greater_eq [of w] sint_less [of w] by (simp add: in_i64_def)

lemma sint_word_of_int64 [simp]: "in_i64 i \<Longrightarrow> sint (word_of_int i :: u64) = i"
  by (simp add: in_i64_def sint_sbintrunc' signed_take_bit_int_eq_self)

lemma sint_small_u64: "unat (w :: u64) < 2 ^ 63 \<Longrightarrow> sint w = int (unat w)"
proof -
  assume "unat w < 2 ^ 63"
  then have "int (unat w) < 2 ^ 63" by (metis of_nat_less_iff of_nat_numeral of_nat_power)
  moreover have "- (2 ^ 63) \<le> int (unat w)" by (rule order_trans [of _ 0]) simp_all
  ultimately have "in_i64 (int (unat w))" by (simp only: in_i64_def)
  then have "sint (word_of_int (int (unat w)) :: u64) = int (unat w)" by (rule sint_word_of_int64)
  then show ?thesis by simp
qed

lemma unat_of_nat_u32 [simp]: "n < 2 ^ 32 \<Longrightarrow> unat (of_nat n :: u32) = n"
  by (simp add: unat_of_nat take_bit_nat_eq_self)

lemma unat_of_nat_u16 [simp]: "n < 2 ^ 16 \<Longrightarrow> unat (of_nat n :: u16) = n"
  by (simp add: unat_of_nat take_bit_nat_eq_self)

lemma unat_of_nat_u64 [simp]: "n < 2 ^ 64 \<Longrightarrow> unat (of_nat n :: u64) = n"
  by (simp add: unat_of_nat take_bit_nat_eq_self)

section \<open>Fallible computations\<close>

text \<open>
  A computation that may throw returns \<open>Inl\<close> of the exception or \<open>Inr\<close> of its value;
  \<open>bindE\<close> is the sequencing of two statements: an exception skips the rest.
\<close>

definition bindE :: "'e + 'a \<Rightarrow> ('a \<Rightarrow> 'e + 'b) \<Rightarrow> 'e + 'b" where
  "bindE m f = (case m of Inl e \<Rightarrow> Inl e | Inr a \<Rightarrow> f a)"

lemma bindE_simps [simp]:
  "bindE (Inl e) f = Inl e"
  "bindE (Inr a) f = f a"
  by (simp_all add: bindE_def)

lemma bindE_eq_Inr: "bindE m f = Inr b \<longleftrightarrow> (\<exists>a. m = Inr a \<and> f a = Inr b)"
  by (cases m) auto

lemma bindE_eq_Inl: "bindE m f = Inl e \<longleftrightarrow> m = Inl e \<or> (\<exists>a. m = Inr a \<and> f a = Inl e)"
  by (cases m) auto

section \<open>Ordered maps\<close>

text \<open>
  \<open>std::map\<close> iterates its entries in ascending key order, which the code relies on (the
  smallest member id leads a group, the assignment files are written in key order). It is modelled
  by the list of its entries in that order: \<open>m[k] = v\<close> is \<open>omap_put\<close>, \<open>m.erase(k)\<close>
  is \<open>omap_erase\<close>, \<open>m.find(k)\<close> is \<^term>\<open>map_of\<close>, iteration is the list itself.
\<close>

type_synonym ('k, 'v) omap = "('k \<times> 'v) list"

fun omap_put :: "'k::linorder \<Rightarrow> 'v \<Rightarrow> ('k, 'v) omap \<Rightarrow> ('k, 'v) omap" where
  "omap_put k v [] = [(k, v)]"
| "omap_put k v ((k', v') # m) =
     (if k < k' then (k, v) # (k', v') # m
      else if k = k' then (k, v) # m
      else (k', v') # omap_put k v m)"

definition omap_erase :: "'k \<Rightarrow> ('k, 'v) omap \<Rightarrow> ('k, 'v) omap" where
  "omap_erase k m = filter (\<lambda>e. fst e \<noteq> k) m"

definition omap_ok :: "('k::linorder, 'v) omap \<Rightarrow> bool" where
  "omap_ok m \<longleftrightarrow> sorted_wrt (<) (map fst m)"

lemma map_of_omap_put [simp]: "map_of (omap_put k v m) = (map_of m)(k \<mapsto> v)"
  by (induction k v m rule: omap_put.induct) (auto simp: fun_eq_iff)

lemma map_of_omap_erase [simp]: "map_of (omap_erase k m) = (map_of m)(k := None)"
  by (induction m) (auto simp: omap_erase_def fun_eq_iff)

lemma keys_omap_put [simp]: "fst ` set (omap_put k v m) = insert k (fst ` set m)"
  by (induction k v m rule: omap_put.induct) auto

lemma keys_omap_erase [simp]: "fst ` set (omap_erase k m) = fst ` set m - {k}"
  by (auto simp: omap_erase_def)

lemma set_omap_put: "set (omap_put k v m) \<subseteq> insert (k, v) (set m)"
  by (induction k v m rule: omap_put.induct) auto

lemma omap_ok_Nil [simp]: "omap_ok []"
  by (simp add: omap_ok_def)

lemma omap_ok_Cons: "omap_ok ((k, v) # m) \<longleftrightarrow> (\<forall>k' \<in> fst ` set m. k < k') \<and> omap_ok m"
  by (auto simp: omap_ok_def)

lemma omap_ok_put [simp, intro]: "omap_ok m \<Longrightarrow> omap_ok (omap_put k v m)"
  by (induction k v m rule: omap_put.induct) (auto simp: omap_ok_Cons)

lemma omap_ok_erase [simp, intro]: "omap_ok m \<Longrightarrow> omap_ok (omap_erase k m)"
  unfolding omap_ok_def omap_erase_def
  by (induction m) auto

lemma omap_ok_distinct: "omap_ok m \<Longrightarrow> distinct (map fst m)"
  by (simp add: omap_ok_def strict_sorted_iff)

lemma omap_as_keys: "distinct (map fst m) \<Longrightarrow> map (\<lambda>k. (k, the (map_of m k))) (map fst m) = m"
  by (auto simp: o_def intro!: map_idI)

lemma omap_ext:
  assumes "omap_ok m" "omap_ok m'" "map_of m = map_of m'"
  shows "m = m'"
proof -
  have "map fst m = map fst m'"
  proof (rule strict_sorted_equal)
    show "sorted_wrt (<) (map fst m)" "sorted_wrt (<) (map fst m')"
      using assms(1,2) by (simp_all add: omap_ok_def)
    show "set (map fst m) = set (map fst m')"
      using assms(3) by (metis dom_map_of_conv_image_fst list.set_map)
  qed
  then show ?thesis
    using omap_as_keys [OF omap_ok_distinct [OF assms(1)]]
      omap_as_keys [OF omap_ok_distinct [OF assms(2)]] assms(3) by metis
qed

text \<open>Reading a map back in key order gives the map.\<close>

lemma omap_put_last: "\<forall>k' \<in> fst ` set m. k' < k \<Longrightarrow> omap_put k v m = m @ [(k, v)]"
  by (induction k v m rule: omap_put.induct) auto

lemma foldl_omap_put_sorted: "omap_ok (m @ es) \<Longrightarrow> foldl (\<lambda>m (k, v). omap_put k v m) m es = m @ es"
proof (induction es arbitrary: m)
  case (Cons e es)
  obtain k v where e: "e = (k, v)" by (cases e)
  have "omap_put k v m = m @ [e]"
    unfolding e using Cons.prems by (intro omap_put_last) (auto simp: omap_ok_def sorted_wrt_append e)
  then show ?case using Cons.IH [of "m @ [e]"] Cons.prems by (simp add: e)
qed simp

lemma map_of_filter_distinct:
  "distinct (map fst m) \<Longrightarrow> map_of (filter P m) k = (case map_of m k of None \<Rightarrow> None | Some v \<Rightarrow> if P (k, v) then Some v else None)"
  by (induction m) (auto split: option.splits dest: map_of_SomeD simp: image_iff)

end
