(* ===== verification/Codec.thy ===== *)
theory Codec
  imports Prelude
begin

text \<open>
  The big-endian codec of \<open>src/common/codec.h\<close> and \<open>codec.cpp\<close>: the \<open>put_x\<close> functions
  append to a byte vector, the \<open>Reader\<close> walks a fixed buffer and throws \<open>DecodeError\<close> when it
  runs out. The locale \<open>codec\<close> is the contract between a writer and its reader; every
  message of the protocol layer is an instance of it.
\<close>

unbundle bit_operations_syntax

section \<open>Writers\<close>

definition put_u8 :: "bytes \<Rightarrow> u8 \<Rightarrow> bytes" where
  "put_u8 buf v = buf @ [v]"

definition put_u16 :: "bytes \<Rightarrow> u16 \<Rightarrow> bytes" where
  "put_u16 buf v = (buf @ [ucast (drop_bit 8 v)]) @ [ucast v]"

definition put_u32 :: "bytes \<Rightarrow> u32 \<Rightarrow> bytes" where
  "put_u32 buf v =
     (((buf @ [ucast (drop_bit 24 v)]) @ [ucast (drop_bit 16 v)]) @ [ucast (drop_bit 8 v)]) @ [ucast v]"

definition put_u64 :: "bytes \<Rightarrow> u64 \<Rightarrow> bytes" where
  "put_u64 buf v =
     foldl (\<lambda>b shift. b @ [ucast (drop_bit shift v)]) buf [56, 48, 40, 32, 24, 16, 8, 0]"

definition put_i16 :: "bytes \<Rightarrow> i16 \<Rightarrow> bytes" where
  "put_i16 buf v = put_u16 buf (word_of_int v)"

definition put_i64 :: "bytes \<Rightarrow> i64 \<Rightarrow> bytes" where
  "put_i64 buf v = put_u64 buf (word_of_int v)"

definition put_bytes :: "bytes \<Rightarrow> bytes \<Rightarrow> bytes" where
  "put_bytes buf d = buf @ d"

text \<open>\<open>reinterpret_cast\<close> between the characters of a \<open>std::string\<close> and bytes.\<close>

definition byte_of_char :: "char \<Rightarrow> byte" where
  "byte_of_char c = of_nat (of_char c)"

definition char_of_byte :: "byte \<Rightarrow> char" where
  "char_of_byte b = char_of (unat b)"

definition string_bytes :: "string \<Rightarrow> bytes" where
  "string_bytes s = map byte_of_char s"

definition bytes_string :: "bytes \<Rightarrow> string" where
  "bytes_string bs = map char_of_byte bs"

definition put_string :: "bytes \<Rightarrow> string \<Rightarrow> bytes" where
  "put_string buf s = put_bytes (put_u16 buf (of_nat (length s))) (string_bytes s)"

definition put_blob :: "bytes \<Rightarrow> bytes \<Rightarrow> bytes" where
  "put_blob buf b = put_bytes (put_u32 buf (of_nat (length b))) b"

section \<open>The reader\<close>

record reader =
  rdata :: bytes
  rpos :: nat

datatype decode_error = Underflow nat nat | CrcMismatch

type_synonym 'a get = "reader \<Rightarrow> decode_error + ('a \<times> reader)"

definition mk_reader :: "bytes \<Rightarrow> reader" where
  "mk_reader d = \<lparr>rdata = d, rpos = 0\<rparr>"

definition remaining :: "reader \<Rightarrow> nat" where
  "remaining r = length (rdata r) - rpos r"

definition need :: "nat \<Rightarrow> reader \<Rightarrow> decode_error + unit" where
  "need n r = (if remaining r < n then Inl (Underflow n (remaining r)) else Inr ())"

definition advance :: "reader \<Rightarrow> nat \<Rightarrow> reader" where
  "advance r n = r\<lparr>rpos := rpos r + n\<rparr>"

definition byte_at :: "reader \<Rightarrow> nat \<Rightarrow> byte" where
  "byte_at r i = rdata r ! (rpos r + i)"

definition get_u8 :: "u8 get" where
  "get_u8 r = bindE (need 1 r) (\<lambda>_. Inr (byte_at r 0, advance r 1))"

definition get_u16 :: "u16 get" where
  "get_u16 r = bindE (need 2 r) (\<lambda>_.
     Inr (push_bit 8 (ucast (byte_at r 0)) OR ucast (byte_at r 1), advance r 2))"

definition get_u32 :: "u32 get" where
  "get_u32 r = bindE (need 4 r) (\<lambda>_.
     Inr (push_bit 24 (ucast (byte_at r 0)) OR push_bit 16 (ucast (byte_at r 1)) OR
          push_bit 8 (ucast (byte_at r 2)) OR ucast (byte_at r 3), advance r 4))"

definition get_u64 :: "u64 get" where
  "get_u64 r = bindE (need 8 r) (\<lambda>_.
     Inr (foldl (\<lambda>v i. push_bit 8 v OR ucast (byte_at r i)) 0 [0..<8], advance r 8))"

definition get_i16 :: "i16 get" where
  "get_i16 r = bindE (get_u16 r) (\<lambda>(v, r). Inr (sint v, r))"

definition get_i64 :: "i64 get" where
  "get_i64 r = bindE (get_u64 r) (\<lambda>(v, r). Inr (sint v, r))"

definition get_raw :: "nat \<Rightarrow> bytes get" where
  "get_raw n r = bindE (need n r) (\<lambda>_. Inr (take n (drop (rpos r) (rdata r)), advance r n))"

definition get_string :: "string get" where
  "get_string r = bindE (get_u16 r) (\<lambda>(n, r). bindE (need (unat n) r) (\<lambda>_.
     Inr (bytes_string (take (unat n) (drop (rpos r) (rdata r))), advance r (unat n))))"

definition get_blob :: "bytes get" where
  "get_blob r = bindE (get_u32 r) (\<lambda>(n, r). bindE (need (unat n) r) (\<lambda>_.
     Inr (take (unat n) (drop (rpos r) (rdata r)), advance r (unat n))))"

text \<open>
  Decoders of messages are sequences of getters on one reader: \<open>x = r.get_u32();\<close> then the rest.
  \<open>get_times\<close> is the loop \<open>for (i = 0; i < count; ++i) xs.push_back(get(r))\<close>.
\<close>

definition bindG :: "'a get \<Rightarrow> ('a \<Rightarrow> 'b get) \<Rightarrow> 'b get" where
  "bindG g f = (\<lambda>r. bindE (g r) (\<lambda>(v, r). f v r))"

definition retG :: "'a \<Rightarrow> 'a get" where
  "retG v = (\<lambda>r. Inr (v, r))"

fun get_times :: "nat \<Rightarrow> 'a get \<Rightarrow> 'a list get" where
  "get_times 0 g = retG []"
| "get_times (Suc n) g = bindG g (\<lambda>x. bindG (get_times n g) (\<lambda>xs. retG (x # xs)))"

section \<open>The contract of a reader\<close>

definition unread :: "reader \<Rightarrow> bytes" where
  "unread r = drop (rpos r) (rdata r)"

definition reader_ok :: "reader \<Rightarrow> bool" where
  "reader_ok r \<longleftrightarrow> rpos r \<le> length (rdata r)"

text \<open>
  \<open>parses g bs v\<close>: wherever the unread bytes start with \<open>bs\<close>, \<open>g\<close> returns \<open>v\<close> and consumes exactly
  \<open>bs\<close>; where only a proper prefix of \<open>bs\<close> is left, \<open>g\<close> throws.
  \<open>within g\<close>: a successful \<open>g\<close> leaves the buffer alone and its cursor inside the buffer.
\<close>

definition parses :: "'a get \<Rightarrow> bytes \<Rightarrow> 'a \<Rightarrow> bool" where
  "parses g bs v \<longleftrightarrow>
     (\<forall>r rest. unread r = bs @ rest \<longrightarrow> g r = Inr (v, advance r (length bs))) \<and>
     (\<forall>r. strict_prefix (unread r) bs \<longrightarrow> (\<exists>e. g r = Inl e))"

definition within :: "'a get \<Rightarrow> bool" where
  "within g \<longleftrightarrow> (\<forall>r v r'. reader_ok r \<longrightarrow> g r = Inr (v, r') \<longrightarrow>
     rdata r' = rdata r \<and> rpos r \<le> rpos r' \<and> reader_ok r')"

lemma parsesD: "parses g bs v \<Longrightarrow> unread r = bs @ rest \<Longrightarrow> g r = Inr (v, advance r (length bs))"
  by (simp add: parses_def)

lemma parses_shortD: "parses g bs v \<Longrightarrow> strict_prefix (unread r) bs \<Longrightarrow> \<exists>e. g r = Inl e"
  by (simp add: parses_def)

lemma withinD:
  assumes "within g" "reader_ok r" "g r = Inr (v, r')"
  shows "rdata r' = rdata r" "rpos r \<le> rpos r'" "reader_ok r'"
  using assms unfolding within_def by blast+

lemma unread_advance [simp]: "unread (advance r n) = drop n (unread r)"
  by (simp add: unread_def advance_def add.commute [of n])

lemma advance_advance [simp]: "advance (advance r m) n = advance r (m + n)"
  by (simp add: advance_def)

lemma advance_0 [simp]: "advance r 0 = r"
  by (simp add: advance_def)

lemma advance_fields [simp]: "rdata (advance r n) = rdata r" "rpos (advance r n) = rpos r + n"
  by (simp_all add: advance_def)

lemma unread_mk_reader [simp]: "unread (mk_reader d) = d"
  by (simp add: unread_def mk_reader_def)

lemma mk_reader_fields [simp]: "rdata (mk_reader d) = d" "rpos (mk_reader d) = 0"
  by (simp_all add: mk_reader_def)

lemma reader_ok_mk_reader [simp]: "reader_ok (mk_reader d)"
  by (simp add: reader_ok_def)

lemma remaining_unread: "remaining r = length (unread r)"
  by (simp add: remaining_def unread_def)

lemma need_ok: "n \<le> length (unread r) \<Longrightarrow> need n r = Inr ()"
  by (simp add: need_def remaining_unread)

lemma need_short: "length (unread r) < n \<Longrightarrow> need n r = Inl (Underflow n (length (unread r)))"
  by (simp add: need_def remaining_unread)

lemma byte_at_unread: "i < length (unread r) \<Longrightarrow> byte_at r i = unread r ! i"
  by (simp add: byte_at_def unread_def)

lemma strict_prefix_length: "strict_prefix xs ys \<Longrightarrow> length xs < length ys"
  by (rule prefix_length_less)

lemma parsesI:
  assumes "\<And>r rest. unread r = bs @ rest \<Longrightarrow> g r = Inr (v, advance r (length bs))"
    and "\<And>r. strict_prefix (unread r) bs \<Longrightarrow> \<exists>e. g r = Inl e"
  shows "parses g bs v"
  using assms by (auto simp: parses_def)

lemma parses_retG: "parses (retG v) [] v"
  by (rule parsesI) (auto simp: retG_def)

lemma parses_bindG:
  assumes g: "parses g bs v" and f: "parses (f v) bs' w"
  shows "parses (bindG g f) (bs @ bs') w"
proof (rule parsesI)
  fix r rest assume r: "unread r = (bs @ bs') @ rest"
  then have "g r = Inr (v, advance r (length bs))"
    using parsesD [OF g, of r "bs' @ rest"] by simp
  moreover have "f v (advance r (length bs)) = Inr (w, advance (advance r (length bs)) (length bs'))"
    using r by (intro parsesD [OF f]) simp
  ultimately show "bindG g f r = Inr (w, advance r (length (bs @ bs')))"
    by (simp add: bindG_def)
next
  fix r assume r: "strict_prefix (unread r) (bs @ bs')"
  show "\<exists>e. bindG g f r = Inl e"
  proof (cases "strict_prefix (unread r) bs")
    case True
    then obtain e where "g r = Inl e" using parses_shortD [OF g] by blast
    then show ?thesis by (simp add: bindG_def)
  next
    case False
    have "\<exists>u. unread r = bs @ u \<and> strict_prefix u bs'"
    proof (cases "prefix (unread r) bs")
      case True
      then have "unread r = bs" using False by (auto simp: strict_prefix_def)
      then show ?thesis using r by (auto simp: strict_prefix_def)
    next
      case False
      then show ?thesis using r by (auto simp: strict_prefix_def prefix_append)
    qed
    then obtain u where u: "unread r = bs @ u" "strict_prefix u bs'" by blast
    then have "g r = Inr (v, advance r (length bs))" by (intro parsesD [OF g])
    moreover obtain e where "f v (advance r (length bs)) = Inl e"
      using parses_shortD [OF f, of "advance r (length bs)"] u by auto
    ultimately show ?thesis by (simp add: bindG_def)
  qed
qed

lemma parses_bindG_ret: "parses g bs v \<Longrightarrow> parses (bindG g (\<lambda>x. retG (h x))) bs (h v)"
  using parses_bindG [OF _ parses_retG] by fastforce

text \<open>The last getter of a message, whose fields make up the given message.\<close>

lemma parses_last: "parses g bs v \<Longrightarrow> h v = w \<Longrightarrow> parses (bindG g (\<lambda>x. retG (h x))) bs w"
  using parses_bindG_ret [of g bs v h] by simp

lemma within_retG: "within (retG v)"
  by (auto simp: within_def retG_def)

lemma within_bindG: "within g \<Longrightarrow> (\<And>v. within (f v)) \<Longrightarrow> within (bindG g f)"
  unfolding within_def bindG_def bindE_eq_Inr
proof (intro allI impI)
  fix r v r'
  assume g: "\<forall>r v r'. reader_ok r \<longrightarrow> g r = Inr (v, r') \<longrightarrow>
      rdata r' = rdata r \<and> rpos r \<le> rpos r' \<and> reader_ok r'"
    and f: "\<And>v. \<forall>r w r'. reader_ok r \<longrightarrow> f v r = Inr (w, r') \<longrightarrow>
      rdata r' = rdata r \<and> rpos r \<le> rpos r' \<and> reader_ok r'"
    and r: "reader_ok r" "\<exists>a. g r = Inr a \<and> (case a of (v, r) \<Rightarrow> f v r) = Inr (v, r')"
  from r(2) obtain a where a: "g r = Inr a" "(case a of (v, r) \<Rightarrow> f v r) = Inr (v, r')" by blast
  obtain x s where "a = (x, s)" by (cases a)
  with a have s: "g r = Inr (x, s)" "f x s = Inr (v, r')" by simp_all
  from g r(1) s(1) have gs: "rdata s = rdata r \<and> rpos r \<le> rpos s \<and> reader_ok s" by blast
  with f s(2) have "rdata r' = rdata s \<and> rpos s \<le> rpos r' \<and> reader_ok r'" by blast
  with gs show "rdata r' = rdata r \<and> rpos r \<le> rpos r' \<and> reader_ok r'" by simp
qed

lemma within_get_times: "within g \<Longrightarrow> within (get_times n g)"
  by (induction n) (auto intro!: within_retG within_bindG)

lemma parses_get_times:
  assumes "\<And>v. v \<in> set vs \<Longrightarrow> parses g (enc v) v"
  shows "parses (get_times (length vs) g) (concat (map enc vs)) vs"
  using assms
proof (induction vs)
  case Nil
  then show ?case by (simp add: parses_retG)
next
  case (Cons v vs)
  then show ?case
    by (auto intro!: parses_bindG parses_bindG_ret)
qed

section \<open>The codec interface\<close>

named_theorems put_apps \<open>a writer appends to its buffer\<close>
named_theorems codec_parses \<open>a reader takes back what its writer wrote\<close>
named_theorems codec_within \<open>a reader stays inside its buffer\<close>

text \<open>
  What the code relies on between \<open>encode_x\<close> and \<open>decode_x\<close>: the writer only appends, the reader
  takes back every encodable value and throws on every truncation, and it never leaves the buffer.
\<close>

text \<open>
  What the contract gives a caller: whatever a writer put at the reading position comes back and the reader stands
  right behind it; a message cut short is an error.
\<close>

definition faithful :: "(bytes \<Rightarrow> 'a \<Rightarrow> bytes) \<Rightarrow> 'a get \<Rightarrow> ('a \<Rightarrow> bool) \<Rightarrow> bool" where
  "faithful put get ok \<longleftrightarrow>
     (\<forall>v r rest. ok v \<longrightarrow> unread r = put [] v @ rest \<longrightarrow> get r = Inr (v, advance r (length (put [] v)))) \<and>
     (\<forall>v n. ok v \<longrightarrow> n < length (put [] v) \<longrightarrow> (\<exists>e. get (mk_reader (take n (put [] v))) = Inl e))"

locale codec =
  fixes put :: "bytes \<Rightarrow> 'a \<Rightarrow> bytes" and get :: "'a get" and ok :: "'a \<Rightarrow> bool"
  assumes put_append: "put buf v = buf @ put [] v"
    and get_put: "ok v \<Longrightarrow> parses get (put [] v) v"
    and get_within: "within get"
begin

lemma put_app: "NO_MATCH [] buf \<Longrightarrow> put buf v = buf @ put [] v"
  by (rule put_append)

lemma roundtrip:
  "ok v \<Longrightarrow> get (mk_reader (put [] v @ rest)) =
     Inr (v, advance (mk_reader (put [] v @ rest)) (length (put [] v)))"
  by (rule parsesD [OF get_put]) simp_all

lemma truncated:
  assumes "ok v" "n < length (put [] v)"
  shows "\<exists>e. get (mk_reader (take n (put [] v))) = Inl e"
  using assms
  by (intro parses_shortD [OF get_put]) (auto simp: strict_prefix_def take_is_prefix)

lemma faithful: "faithful put get ok"
  using parsesD [OF get_put] truncated by (simp add: faithful_def)

lemma prefix_free: "ok v \<Longrightarrow> ok w \<Longrightarrow> put [] w = put [] v @ rest \<Longrightarrow> v = w"
  using roundtrip [of v rest] roundtrip [of w "[]"] by simp

lemma put_inject: "ok v \<Longrightarrow> ok w \<Longrightarrow> put [] v = put [] w \<longleftrightarrow> v = w"
  using prefix_free [of v w "[]"] by auto

lemma foldl_put: "foldl put buf vs = buf @ concat (map (put []) vs)"
proof (induction vs arbitrary: buf)
  case Nil
  then show ?case by simp
next
  case (Cons v vs)
  then show ?case by (simp add: put_append [of buf v])
qed

lemma parses_times:
  "list_all ok vs \<Longrightarrow> n = length vs \<Longrightarrow> parses (get_times n get) (concat (map (put []) vs)) vs"
  by (auto simp: list_all_iff intro!: parses_get_times get_put)

lemma within_times: "within (get_times n get)"
  by (rule within_get_times [OF get_within])

end

text \<open>
  The other direction: whatever bytes arrive, a value that a reader accepts is one its writer can carry.
  A buffer is shorter than \<open>2 ^ 32\<close> bytes, since the frame it came in has a 4-byte length.
  \<open>type_sound\<close> is what a server relies on when it decodes what it was sent and passes it on: from any position of the
  buffer, a decoder that returns leaves the buffer alone, has moved its cursor forwards and not past the end, and
  the value written again is read back as the same value.
\<close>

definition yields :: "'a get \<Rightarrow> ('a \<Rightarrow> bool) \<Rightarrow> bool" where
  "yields g P \<longleftrightarrow> (\<forall>r v r'. reader_ok r \<longrightarrow> length (rdata r) < 2 ^ 32 \<longrightarrow> g r = Inr (v, r') \<longrightarrow>
     P v \<and> rdata r' = rdata r \<and> reader_ok r')"

definition type_sound :: "(bytes \<Rightarrow> 'a \<Rightarrow> bytes) \<Rightarrow> 'a get \<Rightarrow> ('a \<Rightarrow> bool) \<Rightarrow> bool" where
  "type_sound put get ok \<longleftrightarrow>
     (\<forall>r v r'. rpos r \<le> length (rdata r) \<longrightarrow> length (rdata r) < 2 ^ 32 \<longrightarrow> get r = Inr (v, r') \<longrightarrow>
        ok v \<and> rdata r' = rdata r \<and> rpos r \<le> rpos r' \<and> rpos r' \<le> length (rdata r) \<and>
        (\<forall>rest. get (mk_reader (put [] v @ rest)) = Inr (v, advance (mk_reader (put [] v @ rest)) (length (put [] v)))))"

named_theorems codec_typed \<open>a reader returns encodable values only\<close>

lemma yieldsI:
  assumes "within g"
    and "\<And>r v r'. reader_ok r \<Longrightarrow> length (rdata r) < 2 ^ 32 \<Longrightarrow> g r = Inr (v, r') \<Longrightarrow> P v"
  shows "yields g P"
  using assms unfolding yields_def within_def by blast

lemma yields_step:
  assumes "yields g P" "reader_ok r" "length (rdata r) < 2 ^ 32" "g r = Inr (v, r')"
  shows "P v" "rdata r' = rdata r" "reader_ok r'"
  using assms unfolding yields_def by blast+

lemma yields_weaken: "yields g P \<Longrightarrow> (\<And>v. P v \<Longrightarrow> Q v) \<Longrightarrow> yields g Q"
  unfolding yields_def by blast

lemma yieldsD: "yields g P \<Longrightarrow> reader_ok r \<Longrightarrow> length (rdata r) < 2 ^ 32 \<Longrightarrow> g r = Inr (v, r') \<Longrightarrow> P v"
  by (rule yields_step(1))

lemma yields_any: "within g \<Longrightarrow> yields g (\<lambda>_. True)"
  by (rule yieldsI) simp_all

lemma yields_retG: "P v \<Longrightarrow> yields (retG v) P"
  by (simp add: yields_def retG_def)

lemma yields_bindG:
  assumes g: "yields g P" and f: "\<And>v. P v \<Longrightarrow> yields (f v) Q"
  shows "yields (bindG g f) Q"
  unfolding yields_def
proof (intro allI impI)
  fix r w r' assume r: "reader_ok r" "length (rdata r) < 2 ^ 32" and b: "bindG g f r = Inr (w, r')"
  from b obtain v s where v: "g r = Inr (v, s)" and w: "f v s = Inr (w, r')"
    by (auto simp: bindG_def bindE_eq_Inr split: prod.splits)
  note s = yields_step [OF g r v]
  have "length (rdata s) < 2 ^ 32" using r(2) s(2) by simp
  from yields_step [OF f [OF s(1)] s(3) this w] s(2)
  show "Q w \<and> rdata r' = rdata r \<and> reader_ok r'" by simp
qed

lemma yields_get_times: "yields g P \<Longrightarrow> yields (get_times n g) (\<lambda>xs. length xs = n \<and> list_all P xs)"
proof (induction n)
  case 0
  then show ?case by (simp add: yields_retG)
next
  case (Suc n)
  show ?case
    unfolding get_times.simps
    by (rule yields_bindG [OF Suc.prems], rule yields_bindG [OF Suc.IH [OF Suc.prems]], rule yields_retG) simp
qed

locale typed_codec = codec put get ok
  for put :: "bytes \<Rightarrow> 'a \<Rightarrow> bytes" and get :: "'a get" and ok :: "'a \<Rightarrow> bool" +
  assumes get_typed: "yields get ok"
begin

lemma type_sound: "type_sound put get ok"
  unfolding type_sound_def
proof (intro allI impI)
  fix r v r' assume r: "rpos r \<le> length (rdata r)" "length (rdata r) < 2 ^ 32" "get r = Inr (v, r')"
  then have ok: "reader_ok r" by (simp add: reader_ok_def)
  have v: "ok v" by (rule yieldsD [OF get_typed ok r(2,3)])
  show "ok v \<and> rdata r' = rdata r \<and> rpos r \<le> rpos r' \<and> rpos r' \<le> length (rdata r) \<and>
      (\<forall>rest. get (mk_reader (put [] v @ rest)) = Inr (v, advance (mk_reader (put [] v @ rest)) (length (put [] v))))"
    using withinD [OF get_within ok r(3)] v by (simp add: roundtrip reader_ok_def)
qed

end

section \<open>Integers, strings and blobs keep the contract\<close>

lemma parses_fixed:
  assumes "length bs = n"
    and "\<And>r rest. unread r = bs @ rest \<Longrightarrow> g r = bindE (need n r) (\<lambda>_. Inr (v, advance r n))"
    and "\<And>r. \<exists>h. g r = bindE (need n r) h"
  shows "parses g bs v"
proof (rule parsesI)
  fix r rest assume "unread r = bs @ rest"
  then show "g r = Inr (v, advance r (length bs))"
    using assms(1) by (simp add: assms(2) need_ok)
next
  fix r assume "strict_prefix (unread r) bs"
  then have "length (unread r) < n" using assms(1) strict_prefix_length by blast
  moreover obtain h where "g r = bindE (need n r) h" using assms(3) by blast
  ultimately show "\<exists>e. g r = Inl e" by (simp add: need_short)
qed

lemma within_need:
  assumes "\<And>r. g r = bindE (need n r) (\<lambda>_. Inr (h r, advance r n))"
  shows "within g"
  unfolding within_def assms
  by (auto simp: bindE_eq_Inr need_def remaining_def reader_ok_def advance_def split: if_splits)

lemma u16_join: "push_bit 8 (ucast (ucast (drop_bit 8 v) :: u8)) OR ucast (ucast v :: u8) = (v :: u16)"
  by (rule bit_word_eqI) (auto simp: bit_simps)

lemma byte_lane:
  fixes v :: "'a::len word"
  shows "bit (push_bit k (ucast (ucast (drop_bit k v) :: u8)) :: 'a word) n \<longleftrightarrow> k \<le> n \<and> n < k + 8 \<and> bit v n"
    and "bit (ucast (ucast v :: u8) :: 'a word) n \<longleftrightarrow> n < 8 \<and> bit v n"
  by (auto simp: bit_simps dest: bit_imp_le_length)

lemma u32_join:
  "push_bit 24 (ucast (ucast (drop_bit 24 v) :: u8)) OR push_bit 16 (ucast (ucast (drop_bit 16 v) :: u8)) OR
   push_bit 8 (ucast (ucast (drop_bit 8 v) :: u8)) OR ucast (ucast v :: u8) = (v :: u32)" (is "?l = _")
proof (rule bit_word_eqI)
  fix n assume "n < LENGTH(32)"
  then consider "n < 8" | "8 \<le> n" "n < 16" | "16 \<le> n" "n < 24" | "24 \<le> n" "n < 32" by fastforce
  then show "bit ?l n = bit v n"
    by cases (simp_all add: bit_or_iff byte_lane)
qed

lemma u64_join:
  "((((((push_bit 56 (ucast (ucast (drop_bit 56 v) :: u8)) OR push_bit 48 (ucast (ucast (drop_bit 48 v) :: u8))) OR
     push_bit 40 (ucast (ucast (drop_bit 40 v) :: u8))) OR push_bit 32 (ucast (ucast (drop_bit 32 v) :: u8))) OR
     push_bit 24 (ucast (ucast (drop_bit 24 v) :: u8))) OR push_bit 16 (ucast (ucast (drop_bit 16 v) :: u8))) OR
     push_bit 8 (ucast (ucast (drop_bit 8 v) :: u8))) OR ucast (ucast v :: u8) = (v :: u64)" (is "?l = _")
proof (rule bit_word_eqI)
  fix n assume "n < LENGTH(64)"
  then consider "n < 8" | "8 \<le> n" "n < 16" | "16 \<le> n" "n < 24" | "24 \<le> n" "n < 32"
    | "32 \<le> n" "n < 40" | "40 \<le> n" "n < 48" | "48 \<le> n" "n < 56" | "56 \<le> n" "n < 64" by fastforce
  then show "bit ?l n = bit v n"
    by cases (simp_all add: bit_or_iff byte_lane)
qed

lemma upt_8: "[0..<8] = [0, 1, 2, 3, 4, 5, 6, 7 :: nat]"
  by (simp add: upt_rec numeral_eq_Suc)

interpretation u8: typed_codec put_u8 get_u8 "\<lambda>_. True"
proof unfold_locales
  fix buf v show "put_u8 buf v = buf @ put_u8 [] v" by (simp add: put_u8_def)
next
  fix v show "parses get_u8 (put_u8 [] v) v"
    by (rule parses_fixed [where n = 1])
      (auto simp: put_u8_def get_u8_def byte_at_unread bindE_def split: sum.splits)
next
  show within: "within get_u8" by (rule within_need) (simp add: get_u8_def)
  show "yields get_u8 (\<lambda>_. True)" by (rule yields_any [OF within])
qed

interpretation u16: typed_codec put_u16 get_u16 "\<lambda>_. True"
proof unfold_locales
  fix buf v show "put_u16 buf v = buf @ put_u16 [] v" by (simp add: put_u16_def)
next
  fix v show "parses get_u16 (put_u16 [] v) v"
    by (rule parses_fixed [where n = 2])
      (auto simp: put_u16_def get_u16_def byte_at_unread u16_join)
next
  show within: "within get_u16" by (rule within_need) (simp add: get_u16_def)
  show "yields get_u16 (\<lambda>_. True)" by (rule yields_any [OF within])
qed

interpretation u32: typed_codec put_u32 get_u32 "\<lambda>_. True"
proof unfold_locales
  fix buf v show "put_u32 buf v = buf @ put_u32 [] v" by (simp add: put_u32_def)
next
  fix v show "parses get_u32 (put_u32 [] v) v"
    by (rule parses_fixed [where n = 4])
      (auto simp: put_u32_def get_u32_def byte_at_unread u32_join)
next
  show within: "within get_u32" by (rule within_need) (simp add: get_u32_def)
  show "yields get_u32 (\<lambda>_. True)" by (rule yields_any [OF within])
qed

interpretation u64: typed_codec put_u64 get_u64 "\<lambda>_. True"
proof unfold_locales
  fix buf v show "put_u64 buf v = buf @ put_u64 [] v" by (simp add: put_u64_def)
next
  fix v show "parses get_u64 (put_u64 [] v) v"
    by (rule parses_fixed [where n = 8])
      (auto simp: put_u64_def get_u64_def byte_at_unread upt_8 u64_join)
next
  show within: "within get_u64" by (rule within_need) (simp add: get_u64_def)
  show "yields get_u64 (\<lambda>_. True)" by (rule yields_any [OF within])
qed

lemma get_i16_bind: "get_i16 = bindG get_u16 (\<lambda>v. retG (sint v))"
  by (simp add: get_i16_def bindG_def retG_def fun_eq_iff)

lemma get_i64_bind: "get_i64 = bindG get_u64 (\<lambda>v. retG (sint v))"
  by (simp add: get_i64_def bindG_def retG_def fun_eq_iff)

interpretation i16: typed_codec put_i16 get_i16 in_i16
proof unfold_locales
  fix buf v show "put_i16 buf v = buf @ put_i16 [] v"
    unfolding put_i16_def by (rule u16.put_append)
next
  fix v assume "in_i16 v"
  then show "parses get_i16 (put_i16 [] v) v"
    using parses_bindG_ret [OF u16.get_put [of "word_of_int v"], of sint]
    by (simp add: put_i16_def get_i16_bind)
next
  show "within get_i16"
    by (auto simp: get_i16_bind intro: within_bindG within_retG u16.get_within)
next
  show "yields get_i16 in_i16"
    unfolding get_i16_bind by (rule yields_bindG [OF u16.get_typed yields_retG]) (rule sint_in_i16)
qed

interpretation i64: typed_codec put_i64 get_i64 in_i64
proof unfold_locales
  fix buf v show "put_i64 buf v = buf @ put_i64 [] v"
    unfolding put_i64_def by (rule u64.put_append)
next
  fix v assume "in_i64 v"
  then show "parses get_i64 (put_i64 [] v) v"
    using parses_bindG_ret [OF u64.get_put [of "word_of_int v"], of sint]
    by (simp add: put_i64_def get_i64_bind)
next
  show "within get_i64"
    by (auto simp: get_i64_bind intro: within_bindG within_retG u64.get_within)
next
  show "yields get_i64 in_i64"
    unfolding get_i64_bind by (rule yields_bindG [OF u64.get_typed yields_retG]) (rule sint_in_i64)
qed

lemma char_of_byte_of_char [simp]: "char_of_byte (byte_of_char c) = c"
  by (simp add: char_of_byte_def byte_of_char_def unat_of_nat take_bit_nat_eq_self)

lemma bytes_string_bytes [simp]: "bytes_string (string_bytes s) = s"
  by (simp add: bytes_string_def string_bytes_def o_def)

lemma length_string_bytes [simp]: "length (string_bytes s) = length s"
  by (simp add: string_bytes_def)

lemma parses_get_raw: "n = length bs \<Longrightarrow> parses (get_raw n) bs bs"
  by (rule parses_fixed [where n = n]) (auto simp: get_raw_def unread_def)

lemma within_get_raw: "within (get_raw n)"
  by (rule within_need) (simp add: get_raw_def)

lemma get_string_bind: "get_string = bindG get_u16 (\<lambda>n. bindG (get_raw (unat n)) (\<lambda>b. retG (bytes_string b)))"
  by (simp add: get_string_def get_raw_def bindG_def retG_def fun_eq_iff bindE_def split: sum.splits)

lemma get_blob_bind: "get_blob = bindG get_u32 (\<lambda>n. get_raw (unat n))"
  by (simp add: get_blob_def get_raw_def bindG_def retG_def fun_eq_iff bindE_def split: sum.splits)

lemma yields_get_raw: "yields (get_raw n) (\<lambda>b. length b = n)"
  by (rule yieldsI [OF within_get_raw])
    (auto simp: get_raw_def bindE_eq_Inr need_def remaining_def split: if_splits)

text \<open>
  Length prefixes: a string is encodable when its length fits the 2-byte prefix, a blob when it fits
  4 bytes (the casts in \<open>put_string\<close> and \<open>put_blob\<close> truncate the length silently otherwise).
\<close>

definition string_ok :: "string \<Rightarrow> bool" where
  "string_ok s \<longleftrightarrow> length s < 2 ^ 16"

definition blob_ok :: "bytes \<Rightarrow> bool" where
  "blob_ok b \<longleftrightarrow> length b < 2 ^ 32"

interpretation str: typed_codec put_string get_string string_ok
proof unfold_locales
  fix buf s show "put_string buf s = buf @ put_string [] s"
    unfolding put_string_def put_bytes_def by (subst u16.put_append) simp
next
  fix s assume s: "string_ok s"
  let ?n = "of_nat (length s) :: u16"
  have n: "unat ?n = length (string_bytes s)"
    using s by (simp add: string_ok_def unat_of_nat_u16)
  have "parses (bindG (get_raw (unat ?n)) (\<lambda>b. retG (bytes_string b))) (string_bytes s)
      (bytes_string (string_bytes s))"
    by (rule parses_bindG_ret [OF parses_get_raw [OF n]])
  then show "parses get_string (put_string [] s) s"
    unfolding get_string_bind put_string_def put_bytes_def
    by (intro parses_bindG [OF u16.get_put]) simp_all
next
  show "within get_string"
    by (auto simp: get_string_bind intro!: within_bindG within_retG u16.get_within within_get_raw)
next
  show "yields get_string string_ok"
    unfolding get_string_bind
  proof (rule yields_bindG [OF u16.get_typed], rule yields_bindG [OF yields_get_raw], rule yields_retG)
    fix n :: u16 and b :: bytes assume "length b = unat n"
    then show "string_ok (bytes_string b)"
      using unsigned_less [of n, where ?'a = nat] by (simp add: string_ok_def bytes_string_def)
  qed
qed

interpretation blob: typed_codec put_blob get_blob blob_ok
proof unfold_locales
  fix buf b show "put_blob buf b = buf @ put_blob [] b"
    unfolding put_blob_def put_bytes_def by (subst u32.put_append) simp
next
  fix b assume b: "blob_ok b"
  let ?n = "of_nat (length b) :: u32"
  have n: "unat ?n = length b"
    using b by (simp add: blob_ok_def unat_of_nat_u32)
  show "parses get_blob (put_blob [] b) b"
    unfolding get_blob_bind put_blob_def put_bytes_def
    by (intro parses_bindG [OF u32.get_put] parses_get_raw [OF n]) simp_all
next
  show "within get_blob"
    by (auto simp: get_blob_bind intro!: within_bindG u32.get_within within_get_raw)
next
  show "yields get_blob blob_ok"
    unfolding get_blob_bind
  proof (rule yields_bindG [OF u32.get_typed])
    fix n :: u32
    show "yields (get_raw (unat n)) blob_ok"
      using unsigned_less [of n, where ?'a = nat]
      by (intro yields_weaken [OF yields_get_raw]) (simp add: blob_ok_def)
  qed
qed

lemmas [put_apps] = u8.put_app u16.put_app u32.put_app u64.put_app i16.put_app i64.put_app
  str.put_app blob.put_app

lemmas [codec_parses] = u8.get_put u16.get_put u32.get_put u64.get_put i16.get_put i64.get_put
  str.get_put blob.get_put parses_bindG parses_last parses_retG u32.parses_times

lemmas [codec_within] = u8.get_within u16.get_within u32.get_within u64.get_within i16.get_within
  i64.get_within str.get_within blob.get_within within_bindG within_retG u32.within_times

lemmas [codec_typed] = u8.get_typed u16.get_typed u32.get_typed u64.get_typed i16.get_typed
  i64.get_typed str.get_typed blob.get_typed

lemma length_put [simp]:
  "length (put_u8 [] a) = 1" "length (put_u16 [] b) = 2" "length (put_u32 [] c) = 4"
  "length (put_u64 [] d) = 8" "length (put_i16 [] e) = 2" "length (put_i64 [] f) = 8"
  "length (put_string [] s) = 2 + length s" "length (put_blob [] bl) = 4 + length bl"
  by (simp_all add: put_u8_def put_u16_def put_u32_def put_u64_def put_i16_def put_i64_def
      put_string_def put_blob_def put_bytes_def)

end
