(* ===== verification/Crc32.thy ===== *)
theory Crc32
  imports Prelude
begin

text \<open>
  The table-driven CRC-32 of \<open>src/common/crc32.cpp\<close>, its equivalence with the bit-by-bit
  division by the generator polynomial, and what that gives the storage layer: two buffers that
  differ only inside a window of at most four bytes never have the same checksum.
\<close>

unbundle bit_operations_syntax

section \<open>The code\<close>

definition kPoly :: u32 where
  "kPoly = 0xEDB88320"

definition crc_bit :: "u32 \<Rightarrow> u32" where
  "crc_bit c = (if c AND 1 \<noteq> 0 then kPoly XOR drop_bit 1 c else drop_bit 1 c)"

definition table_entry :: "u32 \<Rightarrow> u32" where
  "table_entry i = foldl (\<lambda>c k. crc_bit c) i [0..<8::nat]"

definition make_table :: "u32 list" where
  "make_table = map (\<lambda>i. table_entry (of_nat i)) [0..<256]"

definition kTable :: "u32 list" where
  "kTable = make_table"

definition crc_step :: "u32 \<Rightarrow> byte \<Rightarrow> u32" where
  "crc_step c b = kTable ! unat ((c XOR ucast b) AND 0xFF) XOR drop_bit 8 c"

definition crc32 :: "bytes \<Rightarrow> u32" where
  "crc32 data = foldl crc_step 0xFFFFFFFF data XOR 0xFFFFFFFF"

section \<open>The table is eight division steps\<close>

lemma crc_bit_alt: "crc_bit c = drop_bit 1 c XOR (if bit c 0 then kPoly else 0)"
  by (simp add: crc_bit_def and_one_eq bit_0 odd_iff_mod_2_eq_one xor.commute)

lemma crc_bit_xor: "crc_bit (x XOR y) = crc_bit x XOR crc_bit y"
  by (simp add: crc_bit_alt bit_xor_iff ac_simps)

lemma crc_bits_xor: "(crc_bit ^^ n) (x XOR y) = (crc_bit ^^ n) x XOR (crc_bit ^^ n) y"
  by (induction n) (simp_all add: crc_bit_xor)

lemma table_entry_bits: "table_entry i = (crc_bit ^^ 8) i"
  by (simp add: table_entry_def upt_rec numeral_eq_Suc)

lemma kTable_nth: "n < 256 \<Longrightarrow> kTable ! n = table_entry (of_nat n)"
  by (simp add: kTable_def make_table_def)

lemma and_FF: "(x :: u32) AND 0xFF = take_bit 8 x"
  by (simp add: take_bit_eq_mask mask_eq_exp_minus_1)

lemma and_FF_less: "unat (x AND 0xFF :: u32) < 256"
proof -
  have "unat (x AND 0xFF) = take_bit 8 (unat x)"
    by (simp add: and_FF unsigned_take_bit_eq)
  then show ?thesis using take_bit_nat_less_exp [of 8 "unat x"] by simp
qed

lemma low_byte: "push_bit 8 (drop_bit 8 c) XOR take_bit 8 c = (c::u32)"
  by (rule bit_word_eqI) (auto simp: bit_simps)

lemma crc_bits_shift:
  assumes "take_bit k z = z"
  shows "k + n \<le> 32 \<Longrightarrow> (crc_bit ^^ n) (push_bit n z) = z"
proof (induction n)
  case 0 show ?case by simp
next
  case (Suc n)
  have z: "bit z j \<Longrightarrow> j < k" for j using assms by (metis bit_take_bit_iff)
  have "crc_bit (push_bit (Suc n) z) = push_bit n z"
  proof (rule bit_word_eqI)
    fix m assume "m < LENGTH(32)"
    then show "bit (crc_bit (push_bit (Suc n) z)) m = bit (push_bit n z) m"
      using Suc.prems z [of "m - n"] by (auto simp: crc_bit_alt bit_simps simp del: push_bit_Suc)
  qed
  then show ?case using Suc by (simp add: funpow_Suc_right del: funpow.simps push_bit_Suc)
qed

lemma crc_bit_top: "bit (crc_bit x) 31 = bit x 0"
  by (auto simp: crc_bit_alt kPoly_def bit_simps dest: bit_imp_le_length)

lemma crc_step_bits: "crc_step c b = (crc_bit ^^ 8) (c XOR ucast b)"
proof -
  let ?x = "c XOR ucast b :: u32"
  have "drop_bit 8 ?x = drop_bit 8 c"
    by (rule bit_word_eqI) (auto simp: bit_simps dest: bit_imp_le_length)
  moreover have "crc_step c b = table_entry (take_bit 8 ?x) XOR drop_bit 8 c"
    by (simp add: crc_step_def kTable_nth and_FF_less) (simp add: and_FF)
  moreover have "(crc_bit ^^ 8) (push_bit 8 (drop_bit 8 ?x)) = drop_bit 8 ?x"
    by (rule crc_bits_shift [where k = 24]) 
       (rule bit_word_eqI, auto simp: bit_simps dest: bit_imp_le_length)
  moreover have "(crc_bit ^^ 8) ?x = (crc_bit ^^ 8) (push_bit 8 (drop_bit 8 ?x)) XOR (crc_bit ^^ 8) (take_bit 8 ?x)"
    unfolding crc_bits_xor [symmetric] low_byte ..
  ultimately show ?thesis by (simp only: table_entry_bits xor.commute)
qed

section \<open>Injectivity and burst detection\<close>

lemma xor_cancel:
  fixes a b c :: u32
  shows "a XOR c = b XOR c \<longleftrightarrow> a = b" and "c XOR a = c XOR b \<longleftrightarrow> a = b"
proof -
  show right: "a XOR c = b XOR c \<longleftrightarrow> a = b"
  proof
    assume "a XOR c = b XOR c"
    then have "(a XOR c) XOR c = (b XOR c) XOR c" by simp
    then show "a = b" by (simp only: xor.assoc xor_self_eq xor.right_neutral)
  qed simp
  then show "c XOR a = c XOR b \<longleftrightarrow> a = b" by (simp only: xor.commute [of c])
qed

lemma inj_crc_bit: "inj crc_bit"
proof (rule injI)
  fix c d assume e: "crc_bit c = crc_bit d"
  then have 0: "bit c 0 = bit d 0" by (metis crc_bit_top)
  with e have 1: "drop_bit 1 c = drop_bit 1 d" by (auto simp: crc_bit_alt xor_cancel)
  show "c = d"
  proof (rule bit_word_eqI)
    fix n
    show "bit c n = bit d n"
    proof (cases n)
      case 0
      then show ?thesis using \<open>bit c 0 = bit d 0\<close> by simp
    next
      case (Suc m)
      have "bit (drop_bit 1 c) m = bit (drop_bit 1 d) m" using 1 by simp
      then show ?thesis using Suc by (simp add: bit_simps)
    qed
  qed
qed

lemma inj_crc_bits: "inj (crc_bit ^^ n)"
  by (rule inj_fn [OF inj_crc_bit])

lemma crc_fold_inj: "foldl crc_step c bs = foldl crc_step d bs \<longleftrightarrow> c = d"
proof (induction bs arbitrary: c d)
  case Nil
  then show ?case by simp
next
  case (Cons b bs)
  have "crc_step c b = crc_step d b \<longleftrightarrow> c = d"
    by (simp add: crc_step_bits inj_eq [OF inj_crc_bits] xor_cancel)
  with Cons show ?case by simp
qed

fun pack_le :: "bytes \<Rightarrow> u32" where
  "pack_le [] = 0"
| "pack_le (b # bs) = ucast b XOR push_bit 8 (pack_le bs)"

lemma pack_le_bound: "length bs \<le> 4 \<Longrightarrow> bit (pack_le bs) n \<Longrightarrow> n < 8 * length bs"
proof (induction bs arbitrary: n)
  case Nil
  then show ?case by simp
next
  case (Cons b bs)
  from Cons.prems(2) have "bit b n \<or> 8 \<le> n \<and> bit (pack_le bs) (n - 8)"
    by (auto simp: bit_simps)
  then show ?case
  proof
    assume "bit b n"
    then show ?thesis using bit_imp_le_length [of b n] by simp
  next
    assume "8 \<le> n \<and> bit (pack_le bs) (n - 8)"
    then show ?thesis using Cons.IH [of "n - 8"] Cons.prems(1) by simp
  qed
qed

lemma crc_fold_pack:
  "length bs \<le> 4 \<Longrightarrow> foldl crc_step c bs = (crc_bit ^^ (8 * length bs)) (c XOR pack_le bs)"
proof (induction bs arbitrary: c)
  case Nil
  then show ?case by simp
next
  case (Cons b bs)
  have "take_bit 24 (pack_le bs) = pack_le bs"
  proof (rule bit_word_eqI)
    fix n
    show "bit (take_bit 24 (pack_le bs)) n = bit (pack_le bs) n"
      using pack_le_bound [of bs n] Cons.prems by (auto simp: bit_simps)
  qed
  then have shift: "(crc_bit ^^ 8) (push_bit 8 (pack_le bs)) = pack_le bs"
    by (rule crc_bits_shift) simp
  have "foldl crc_step c (b # bs) = (crc_bit ^^ (8 * length bs)) (crc_step c b XOR pack_le bs)"
    using Cons by simp
  also have "crc_step c b XOR pack_le bs = (crc_bit ^^ 8) (c XOR ucast b XOR push_bit 8 (pack_le bs))"
    by (simp only: crc_step_bits crc_bits_xor shift xor.assoc)
  finally have "foldl crc_step c (b # bs) =
      (crc_bit ^^ (8 * length bs)) ((crc_bit ^^ 8) (c XOR ucast b XOR push_bit 8 (pack_le bs)))" .
  moreover have "8 * length (b # bs) = 8 * length bs + 8" by simp
  ultimately show ?case by (simp only: funpow_add o_apply pack_le.simps)
qed

lemma pack_le_inj: "length bs = length cs \<Longrightarrow> length bs \<le> 4 \<Longrightarrow> pack_le bs = pack_le cs \<Longrightarrow> bs = cs"
proof (induction bs cs rule: list_induct2)
  case Nil
  then show ?case by simp
next
  case (Cons b bs c cs)
  have bits: "bit (ucast b XOR push_bit 8 (pack_le bs)) n = bit (ucast c XOR push_bit 8 (pack_le cs)) n" for n
    using Cons.prems by simp
  have "b = c"
  proof (rule bit_word_eqI)
    fix n assume "n < LENGTH(8)"
    then show "bit b n = bit c n" using bits [of n] by (simp add: bit_simps)
  qed
  moreover have "pack_le bs = pack_le cs"
  proof (rule bit_word_eqI)
    fix n assume n: "n < LENGTH(32)"
    show "bit (pack_le bs) n = bit (pack_le cs) n"
    proof (cases "n < 24")
      case True
      then show ?thesis using bits [of "n + 8"] by (auto simp: bit_simps dest: bit_imp_le_length)
    next
      case False
      then show ?thesis
        using pack_le_bound [of bs n] pack_le_bound [of cs n] Cons.prems Cons.hyps by auto
    qed
  qed
  ultimately show ?case using Cons by simp
qed

text \<open>Two buffers that differ only inside a window of at most four bytes have different checksums.\<close>

lemma crc32_window:
  assumes "length u = length v" "length u \<le> 4" "u \<noteq> v"
  shows "crc32 (pre @ u @ post) \<noteq> crc32 (pre @ v @ post)"
proof
  let ?c = "foldl crc_step 0xFFFFFFFF pre"
  assume "crc32 (pre @ u @ post) = crc32 (pre @ v @ post)"
  then have "foldl crc_step ?c u = foldl crc_step ?c v"
    by (simp add: crc32_def xor_cancel crc_fold_inj)
  then have "pack_le u = pack_le v"
    using assms by (simp add: crc_fold_pack inj_eq [OF inj_crc_bits] xor_cancel)
  with assms pack_le_inj [of u v] show False by simp
qed

end
