(* ===== verification/LogRecord.thy ===== *)
theory LogRecord
  imports Codec Crc32
begin

text \<open>
  The record frame of \<open>src/storage/record.h\<close> and \<open>record.cpp\<close>, on disk and on the wire:
  \<open>totalLen(4) crc32(4) offset(8) timestamp(8) keyLen(4) key valueLen(4) value\<close>.
  It is an instance of the codec interface; besides, a frame whose body was changed inside a
  four-byte window is rejected by the checksum.
\<close>

unbundle bit_operations_syntax

record log_record =
  rec_offset :: u64
  rec_timestamp :: u64
  rec_key :: bytes
  rec_value :: bytes

definition record_body :: "log_record \<Rightarrow> bytes" where
  "record_body rec =
     put_blob (put_blob (put_u64 (put_u64 [] (rec_offset rec)) (rec_timestamp rec)) (rec_key rec)) (rec_value rec)"

definition encode_record :: "bytes \<Rightarrow> log_record \<Rightarrow> bytes" where
  "encode_record buf rec =
     (let body = record_body rec;
          crc = crc32 body;
          totalLen = of_nat (4 + length body)
      in put_u32 (put_u32 buf totalLen) crc @ body)"

definition decode_body :: "log_record get" where
  "decode_body =
     bindG get_u64 (\<lambda>offset. bindG get_u64 (\<lambda>timestamp. bindG get_blob (\<lambda>key. bindG get_blob (\<lambda>value.
       retG \<lparr>rec_offset = offset, rec_timestamp = timestamp, rec_key = key, rec_value = value\<rparr>))))"

text \<open>
  \<open>decode_record\<close>: the frame is cut out of the reader first, then decoded with a reader of its own;
  bytes after the value inside the frame are ignored, as in the code.
\<close>

definition decode_frame :: "bytes \<Rightarrow> decode_error + log_record" where
  "decode_frame frame =
     bindE (get_u32 (mk_reader frame)) (\<lambda>(storedCrc, body).
       let actualCrc = crc32 (drop 4 frame)
       in if actualCrc \<noteq> storedCrc then Inl CrcMismatch
          else bindE (decode_body body) (\<lambda>(rec, _). Inr rec))"

definition decode_record :: "log_record get" where
  "decode_record r =
     bindE (get_u32 r) (\<lambda>(totalLen, r).
     bindE (get_raw (unat totalLen) r) (\<lambda>(frame, r).
     bindE (decode_frame frame) (\<lambda>rec. Inr (rec, r))))"

section \<open>Frames\<close>

definition frame_size :: "log_record \<Rightarrow> nat" where
  "frame_size rec = 32 + length (rec_key rec) + length (rec_value rec)"

definition record_ok :: "log_record \<Rightarrow> bool" where
  "record_ok rec \<longleftrightarrow> frame_size rec < 2 ^ 32"

lemma length_record_body: "length (record_body rec) = frame_size rec - 8"
  by (simp add: record_body_def put_apps frame_size_def)

lemma frame_size_ge: "32 \<le> frame_size rec"
  by (simp add: frame_size_def)

lemma encode_record_bytes:
  "encode_record buf rec = buf @ put_u32 [] (of_nat (4 + length (record_body rec))) @
     put_u32 [] (crc32 (record_body rec)) @ record_body rec"
  by (simp add: encode_record_def Let_def put_apps)

lemma length_encode_record [simp]: "length (encode_record [] rec) = frame_size rec"
  using frame_size_ge [of rec] by (simp add: encode_record_bytes length_record_body)

lemma parses_decode_body: "record_ok rec \<Longrightarrow> parses decode_body (record_body rec) rec"
  by (cases rec) (auto simp: decode_body_def record_body_def put_apps record_ok_def frame_size_def
      blob_ok_def intro!: codec_parses)

lemma decode_frame_ok:
  assumes "record_ok rec"
  shows "decode_frame (put_u32 [] (crc32 (record_body rec)) @ record_body rec) = Inr rec"
proof -
  let ?crc = "crc32 (record_body rec)"
  let ?r = "mk_reader (put_u32 [] ?crc @ record_body rec)"
  have "get_u32 ?r = Inr (?crc, advance ?r 4)"
    using u32.roundtrip [of ?crc "record_body rec"] by simp
  moreover have "decode_body (advance ?r 4) = Inr (rec, advance (advance ?r 4) (length (record_body rec)))"
    by (rule parsesD [OF parses_decode_body [OF assms], where rest = "[]"]) simp
  ultimately show ?thesis by (simp add: decode_frame_def)
qed

lemma decode_frame_corrupt:
  assumes "length body' = length (record_body rec)" "crc32 body' \<noteq> crc32 (record_body rec)"
  shows "decode_frame (put_u32 [] (crc32 (record_body rec)) @ body') = Inl CrcMismatch"
proof -
  let ?crc = "crc32 (record_body rec)"
  let ?r = "mk_reader (put_u32 [] ?crc @ body')"
  have "get_u32 ?r = Inr (?crc, advance ?r 4)"
    using u32.roundtrip [of ?crc body'] by simp
  with assms show ?thesis by (simp add: decode_frame_def)
qed

lemma decode_record_framed:
  assumes "length frame < 2 ^ 32" "unread r = put_u32 [] (of_nat (length frame)) @ frame @ rest"
  shows "decode_record r = bindE (decode_frame frame) (\<lambda>rec. Inr (rec, advance r (4 + length frame)))"
proof -
  have "get_u32 r = Inr (of_nat (length frame), advance r 4)"
    using parsesD [OF u32.get_put assms(2)] by simp
  moreover have "get_raw (length frame) (advance r 4) = Inr (frame, advance (advance r 4) (length frame))"
    by (rule parsesD [OF parses_get_raw [OF refl], where rest = rest]) (simp add: assms(2))
  ultimately show ?thesis using assms(1) by (simp add: decode_record_def unat_of_nat_u32)
qed

lemma parses_decode_record:
  assumes "record_ok rec"
  shows "parses decode_record (encode_record [] rec) rec"
proof (rule parsesI)
  let ?frame = "put_u32 [] (crc32 (record_body rec)) @ record_body rec"
  have len: "length ?frame = 4 + length (record_body rec)" "length ?frame < 2 ^ 32"
    using assms frame_size_ge [of rec] by (simp_all add: length_record_body record_ok_def)
  { fix r rest assume r: "unread r = encode_record [] rec @ rest"
    then have "decode_record r = bindE (decode_frame ?frame) (\<lambda>rec. Inr (rec, advance r (4 + length ?frame)))"
      using len by (intro decode_record_framed [where rest = rest]) (simp_all add: encode_record_bytes)
    with len(1) show "decode_record r = Inr (rec, advance r (length (encode_record [] rec)))"
      by (simp add: decode_frame_ok [OF assms] encode_record_bytes) }
  { fix r assume r: "strict_prefix (unread r) (encode_record [] rec)"
    have "parses (bindG get_u32 (\<lambda>n. get_raw (unat n))) (put_u32 [] (of_nat (length ?frame)) @ ?frame) ?frame"
      using len(2)
      by (intro parses_bindG [OF u32.get_put parses_get_raw]) (simp_all only: unat_of_nat_u32)
    moreover have "put_u32 [] (of_nat (length ?frame)) @ ?frame = encode_record [] rec"
      by (simp add: encode_record_bytes len(1))
    ultimately obtain e where e: "bindG get_u32 (\<lambda>n. get_raw (unat n)) r = Inl e"
      using parses_shortD r by metis
    then show "\<exists>e. decode_record r = Inl e"
      by (auto simp: decode_record_def bindG_def bindE_eq_Inl split: prod.splits) }
qed

lemma within_decode_record: "within decode_record"
  unfolding within_def
proof (intro allI impI)
  fix r v r' assume r: "reader_ok r" "decode_record r = Inr (v, r')"
  then obtain frame where "bindG get_u32 (\<lambda>n. get_raw (unat n)) r = Inr (frame, r')"
    by (auto simp: decode_record_def bindG_def bindE_eq_Inr split: prod.splits)
  moreover have "within (bindG get_u32 (\<lambda>n. get_raw (unat n)))"
    by (intro within_bindG u32.get_within within_get_raw)
  ultimately show "rdata r' = rdata r \<and> rpos r \<le> rpos r' \<and> reader_ok r'"
    using r(1) unfolding within_def by blast
qed

text \<open>A decoded record fits the frame it came out of, so it can be written again.\<close>

lemma get_u32_moves: "get_u32 r = Inr (v, r') \<Longrightarrow> r' = advance r 4 \<and> 4 \<le> remaining r"
  by (auto simp: get_u32_def bindE_eq_Inr need_def split: if_splits)

lemma get_u64_moves: "get_u64 r = Inr (v, r') \<Longrightarrow> r' = advance r 8 \<and> 8 \<le> remaining r"
  by (auto simp: get_u64_def bindE_eq_Inr need_def split: if_splits)

lemma get_raw_moves: "get_raw n r = Inr (b, r') \<Longrightarrow> r' = advance r n \<and> n \<le> remaining r \<and> length b = n"
  by (auto simp: get_raw_def bindE_eq_Inr need_def remaining_def split: if_splits)

lemma get_blob_moves:
  "get_blob r = Inr (b, r') \<Longrightarrow> r' = advance r (4 + length b) \<and> 4 + length b \<le> remaining r"
  unfolding get_blob_bind
  by (auto simp: bindG_def bindE_eq_Inr remaining_def dest!: get_u32_moves get_raw_moves)

lemma decode_body_size:
  assumes "decode_body r = Inr (v, r')"
  shows "frame_size v - 8 \<le> remaining r"
  using assms unfolding decode_body_def bindG_def retG_def
  by (auto simp: bindE_eq_Inr remaining_def frame_size_def dest!: get_u64_moves get_blob_moves)

lemma decode_frame_size: "decode_frame frame = Inr v \<Longrightarrow> frame_size v \<le> length frame + 4"
  unfolding decode_frame_def
  by (auto simp: bindE_eq_Inr Let_def remaining_def split: if_splits dest!: get_u32_moves decode_body_size)

lemma yields_decode_record: "yields decode_record record_ok"
proof (rule yieldsI [OF within_decode_record])
  fix r v r' assume r: "reader_ok r" "length (rdata r) < 2 ^ 32" "decode_record r = Inr (v, r')"
  then obtain n s frame where "get_u32 r = Inr (n, s)" "get_raw (unat n) s = Inr (frame, r')" "decode_frame frame = Inr v"
    by (auto simp: decode_record_def bindE_eq_Inr)
  then have "4 + length frame \<le> length (rdata r)" "frame_size v \<le> length frame + 4"
    by (auto simp: remaining_def dest!: get_u32_moves get_raw_moves decode_frame_size)
  with r(2) show "record_ok v" by (simp add: record_ok_def)
qed

interpretation lrec: typed_codec encode_record decode_record record_ok
proof unfold_locales
  fix buf v show "encode_record buf v = buf @ encode_record [] v"
    by (simp add: encode_record_bytes)
next
  fix v assume "record_ok v"
  then show "parses decode_record (encode_record [] v) v" by (rule parses_decode_record)
next
  show "within decode_record" by (rule within_decode_record)
next
  show "yields decode_record record_ok" by (rule yields_decode_record)
qed

lemmas [put_apps] = lrec.put_app lrec.foldl_put
lemmas [codec_parses] = lrec.get_put lrec.parses_times
lemmas [codec_within] = lrec.get_within lrec.within_times
lemmas [codec_typed] = lrec.get_typed

end
