(* ===== verification/Segment.thy ===== *)
theory Segment
  imports LogRecord
begin

text \<open>
  One log segment (\<open>src/storage/segment.h\<close>, \<open>segment.cpp\<close>): a \<open>.log\<close> file of record frames and a
  sparse \<open>.index\<close> file. The files of a partition's directory are an ordered map from file names
  to contents; every operation takes that map and returns it updated.
\<close>

unbundle bit_operations_syntax

section \<open>Files\<close>

type_synonym files = "(string, bytes) omap"

datatype storage_error = NoSuchFile string | BadFileName string | IndexDecode decode_error

definition read_whole_file :: "files \<Rightarrow> string \<Rightarrow> bytes" where
  "read_whole_file fs path = (case map_of fs path of None \<Rightarrow> [] | Some d \<Rightarrow> d)"

text \<open>\<open>ofstream(path, app)\<close> with a write, \<open>ofstream(path, trunc)\<close>, and \<open>fs::resize_file\<close>.\<close>

definition append_file :: "files \<Rightarrow> string \<Rightarrow> bytes \<Rightarrow> files" where
  "append_file fs path d = omap_put path (read_whole_file fs path @ d) fs"

definition truncate_file :: "files \<Rightarrow> string \<Rightarrow> files" where
  "truncate_file fs path = omap_put path [] fs"

definition resize_file :: "files \<Rightarrow> string \<Rightarrow> nat \<Rightarrow> storage_error + files" where
  "resize_file fs path n = (case map_of fs path of
     None \<Rightarrow> Inl (NoSuchFile path)
   | Some d \<Rightarrow> Inr (omap_put path (take n d @ replicate (n - length d) 0) fs))"

section \<open>The segment\<close>

definition kIndexEntrySize :: nat where
  "kIndexEntrySize = 12"

record segment =
  seg_log :: string
  seg_idx :: string
  seg_base :: u64
  seg_interval :: u32
  seg_size :: u64
  seg_since :: u64
  seg_index :: "(u32 \<times> u64) list"

definition new_segment :: "string \<Rightarrow> string \<Rightarrow> u64 \<Rightarrow> u32 \<Rightarrow> segment" where
  "new_segment logPath indexPath base interval =
     \<lparr>seg_log = logPath, seg_idx = indexPath, seg_base = base, seg_interval = interval,
      seg_size = 0, seg_since = 0, seg_index = []\<rparr>"

definition create_empty :: "files \<Rightarrow> segment \<Rightarrow> files \<times> segment" where
  "create_empty fs seg =
     (append_file (append_file fs (seg_log seg) []) (seg_idx seg) [],
      seg\<lparr>seg_size := 0, seg_since := 0, seg_index := []\<rparr>)"

definition append_index_entry :: "files \<Rightarrow> segment \<Rightarrow> u32 \<Rightarrow> u64 \<Rightarrow> bool \<Rightarrow> files \<times> segment" where
  "append_index_entry fs seg relOffset pos persist =
     ((if persist then append_file fs (seg_idx seg) (put_u64 (put_u32 [] relOffset) pos) else fs),
      seg\<lparr>seg_index := seg_index seg @ [(relOffset, pos)]\<rparr>)"

text \<open>The index cadence that \<open>append\<close> and \<open>scan_and_recover\<close> share, word for word.\<close>

definition index_frame :: "files \<Rightarrow> segment \<Rightarrow> u32 \<Rightarrow> u64 \<Rightarrow> files \<times> segment" where
  "index_frame fs seg relOffset pos =
     (if seg_index seg = [] \<or> ucast (seg_interval seg) \<le> seg_since seg
      then (let (fs', seg') = append_index_entry fs seg relOffset pos True
            in (fs', seg'\<lparr>seg_since := 0\<rparr>))
      else (fs, seg))"

definition append_one :: "files \<times> segment \<Rightarrow> log_record \<Rightarrow> files \<times> segment" where
  "append_one st rec =
     (let (fs, seg) = st;
          relOffset = ucast (rec_offset rec - seg_base seg);
          (fs, seg) = index_frame fs seg relOffset (seg_size seg);
          encoded = encode_record [] rec;
          fs = append_file fs (seg_log seg) encoded
      in (fs, seg\<lparr>seg_size := seg_size seg + of_nat (length encoded),
                  seg_since := seg_since seg + of_nat (length encoded)\<rparr>))"

definition seg_append :: "files \<Rightarrow> segment \<Rightarrow> log_record list \<Rightarrow> files \<times> segment" where
  "seg_append fs seg records = foldl append_one (fs, seg) records"

lemma decode_record_advances:
  assumes "decode_record r = Inr (rec, r')"
  shows "\<exists>n. r' = advance r (4 + n)"
  using assms
  by (auto simp: decode_record_def get_u32_def get_raw_def bindE_eq_Inr)

lemma decode_record_shrinks:
  assumes "decode_record r = Inr (rec, r')" "remaining r \<noteq> 0"
  shows "remaining r' < remaining r"
  using decode_record_advances [OF assms(1)] assms(2) by (auto simp: remaining_def)

text \<open>\<open>read_from\<close>: decode until the buffer ends or a frame does not decode.\<close>

function decode_all :: "reader \<Rightarrow> log_record list" where
  "decode_all r =
     (if remaining r = 0 then []
      else case decode_record r of
             Inl _ \<Rightarrow> []
           | Inr (rec, r') \<Rightarrow> rec # decode_all r')"
  by pat_completeness auto
termination
  by (relation "measure remaining") (auto intro: decode_record_shrinks)

definition read_from :: "files \<Rightarrow> segment \<Rightarrow> u64 \<Rightarrow> log_record list" where
  "read_from fs seg fromPos =
     (let data = read_whole_file fs (seg_log seg)
      in if length data \<le> unat fromPos then []
         else decode_all (mk_reader (drop (unat fromPos) data)))"

text \<open>
  \<open>scan_and_recover\<close>: replay the frames from byte 0, rebuild the index, stop at the first frame that
  does not decode, cut the file there. Returns the last offset, or -1.
\<close>

function scan_loop :: "files \<Rightarrow> segment \<Rightarrow> reader \<Rightarrow> i64 \<Rightarrow> nat \<Rightarrow> files \<times> segment \<times> i64 \<times> nat" where
  "scan_loop fs seg r lastOffset lastGoodPos =
     (if remaining r = 0 then (fs, seg, lastOffset, lastGoodPos)
      else case decode_record r of
             Inl _ \<Rightarrow> (fs, seg, lastOffset, lastGoodPos)
           | Inr (rec, r') \<Rightarrow>
               (let framePos = of_nat (rpos r);
                    relOffset = ucast (rec_offset rec - seg_base seg);
                    (fs', seg') = index_frame fs seg relOffset framePos;
                    frameLen = of_nat (rpos r') - framePos
                in scan_loop fs' (seg'\<lparr>seg_since := seg_since seg' + frameLen\<rparr>) r'
                     (sint (rec_offset rec)) (rpos r')))"
  by pat_completeness auto
termination
  by (relation "measure (\<lambda>(fs, seg, r, _). remaining r)") (auto intro: decode_record_shrinks)

definition scan_and_recover :: "files \<Rightarrow> segment \<Rightarrow> storage_error + (i64 \<times> files \<times> segment)" where
  "scan_and_recover fs seg =
     (let data = read_whole_file fs (seg_log seg);
          seg0 = seg\<lparr>seg_index := [], seg_since := 0\<rparr>;
          fs0 = truncate_file fs (seg_idx seg);
          (fs1, seg1, lastOffset, lastGoodPos) = scan_loop fs0 seg0 (mk_reader data) (- 1) 0
      in bindE (resize_file fs1 (seg_log seg) lastGoodPos) (\<lambda>fs2.
           Inr (lastOffset, fs2, seg1\<lparr>seg_size := of_nat lastGoodPos\<rparr>)))"

text \<open>\<open>load_index\<close>: a closed segment is trusted; only its index file is read.\<close>

function load_entries :: "reader \<Rightarrow> decode_error + (u32 \<times> u64) list" where
  "load_entries r =
     (if remaining r < kIndexEntrySize then Inr []
      else case get_u32 r of
             Inl e \<Rightarrow> Inl e
           | Inr (relOffset, r1) \<Rightarrow>
               (case get_u64 r1 of
                  Inl e \<Rightarrow> Inl e
                | Inr (pos, r2) \<Rightarrow> bindE (load_entries r2) (\<lambda>es. Inr ((relOffset, pos) # es))))"
  by pat_completeness auto
termination
  by (relation "measure remaining")
    (auto simp: get_u32_def get_u64_def bindE_eq_Inr remaining_def kIndexEntrySize_def)

definition load_index :: "files \<Rightarrow> segment \<Rightarrow> decode_error + segment" where
  "load_index fs seg =
     bindE (load_entries (mk_reader (read_whole_file fs (seg_idx seg)))) (\<lambda>es.
       Inr (seg\<lparr>seg_index := es,
                seg_size := (case map_of fs (seg_log seg) of None \<Rightarrow> 0 | Some d \<Rightarrow> of_nat (length d)),
                seg_since := 0\<rparr>))"

text \<open>
  \<open>find_start_position\<close>: \<open>prev(upper_bound(...))\<close> on the ascending index is its last entry whose
  relative offset is not above the target.
\<close>

definition find_start_position :: "segment \<Rightarrow> u32 \<Rightarrow> u64" where
  "find_start_position seg relOffset =
     (if seg_index seg = [] \<or> relOffset < fst (hd (seg_index seg)) then 0
      else snd (last (takeWhile (\<lambda>e. \<not> relOffset < fst e) (seg_index seg))))"

declare decode_all.simps [simp del] scan_loop.simps [simp del] load_entries.simps [simp del]

end
