(* ===== verification/SegmentSpec.thy ===== *)
theory SegmentSpec
  imports Segment
begin

text \<open>
  What a segment means: the list of records whose frames fill its log file, with an index whose
  entries are true positions of frames. Recovery is proved to rebuild exactly the state that
  appending the same records builds, every append keeps the invariant, and the indexed read returns
  a suffix of the records that starts at or before the wanted one.
\<close>

unbundle bit_operations_syntax

section \<open>Frames and torn tails\<close>

definition frames :: "log_record list \<Rightarrow> bytes" where
  "frames recs = concat (map (encode_record []) recs)"

definition torn :: "bytes \<Rightarrow> bool" where
  "torn t \<longleftrightarrow> (\<forall>r. unread r = t \<longrightarrow> (\<exists>e. decode_record r = Inl e))"

lemma frames_simps [simp]:
  "frames [] = []"
  "frames (rec # recs) = encode_record [] rec @ frames recs"
  "frames (recs @ recs') = frames recs @ frames recs'"
  by (simp_all add: frames_def)

lemma encode_record_ne [simp]: "encode_record [] rec \<noteq> []"
  by (metis frame_size_ge le_numeral_extra(3) length_encode_record list.size(3) not_numeral_le_zero)

lemma frames_eq_Nil [simp]: "frames recs = [] \<longleftrightarrow> recs = []"
  by (cases recs) simp_all

lemma tornD: "torn t \<Longrightarrow> unread r = t \<Longrightarrow> \<exists>e. decode_record r = Inl e"
  by (simp add: torn_def)

lemma torn_strict_prefix: "record_ok rec \<Longrightarrow> strict_prefix t (encode_record [] rec) \<Longrightarrow> torn t"
  using parses_shortD [OF lrec.get_put] by (auto simp: torn_def)

lemma torn_Nil: "torn []"
  unfolding torn_def
  by (auto simp: decode_record_def get_u32_def need_short bindE_eq_Inl)

lemma decode_record_frame:
  "record_ok rec \<Longrightarrow> unread r = frames (rec # recs) @ t \<Longrightarrow>
     decode_record r = Inr (rec, advance r (frame_size rec))"
  using parsesD [OF lrec.get_put [of rec], of r "frames recs @ t"] by simp

lemma remaining_frames:
  "unread r = frames (rec # recs) @ t \<Longrightarrow> remaining r \<noteq> 0"
  using frame_size_ge [of rec] by (simp add: remaining_unread)

lemma decode_all_frames:
  "list_all record_ok recs \<Longrightarrow> unread r = frames recs @ t \<Longrightarrow> torn t \<Longrightarrow> decode_all r = recs"
proof (induction recs arbitrary: r)
  case Nil
  then obtain e where "decode_record r = Inl e" using tornD by fastforce
  then show ?case by (simp add: decode_all.simps [of r])
next
  case (Cons rec recs)
  have "decode_record r = Inr (rec, advance r (frame_size rec))"
    using Cons.prems by (intro decode_record_frame) simp_all
  moreover have "decode_all (advance r (frame_size rec)) = recs"
    using Cons.prems by (intro Cons.IH) simp_all
  ultimately show ?case
    using remaining_frames [OF Cons.prems(2)] by (simp add: decode_all.simps [of r])
qed

section \<open>Scanning mirrors appending\<close>

text \<open>The in-memory state that a scan rebuilds: everything but the file size.\<close>

definition scan_sim :: "files \<times> segment \<Rightarrow> files \<times> segment \<Rightarrow> bool" where
  "scan_sim S A \<longleftrightarrow> (case (S, A) of ((fsS, segS), (fsA, segA)) \<Rightarrow>
     segS\<lparr>seg_size := seg_size segA\<rparr> = segA \<and> seg_log segA \<noteq> seg_idx segA \<and>
     map_of fsS (seg_idx segA) = map_of fsA (seg_idx segA))"

lemma map_of_append_file:
  "map_of (append_file fs p d) q = (if q = p then Some (read_whole_file fs p @ d) else map_of fs q)"
  by (simp add: append_file_def)

lemma index_frame_fields:
  assumes "index_frame fs seg rel pos = (fs', seg')"
  shows "seg_log seg' = seg_log seg" "seg_idx seg' = seg_idx seg" "seg_base seg' = seg_base seg"
    "seg_interval seg' = seg_interval seg" "seg_size seg' = seg_size seg"
    "p \<noteq> seg_idx seg \<Longrightarrow> map_of fs' p = map_of fs p"
  using assms by (auto simp: index_frame_def append_index_entry_def map_of_append_file split: if_splits)

lemma index_frame_sim:
  assumes "scan_sim (fsS, segS) (fsA, segA)"
    and "index_frame fsS segS rel pos = (fsS', segS')" and "index_frame fsA segA rel pos = (fsA', segA')"
  shows "scan_sim (fsS', segS') (fsA', segA')"
  using assms
  by (cases segS; cases segA)
    (auto simp: scan_sim_def index_frame_def append_index_entry_def map_of_append_file read_whole_file_def split: if_splits)

lemma scan_step_sim:
  assumes sim: "scan_sim (fsS, segS) (fsA, segA)"
    and S: "index_frame fsS segS (ucast (rec_offset rec - seg_base segS)) (seg_size segA) = (fsS', segS')"
  shows "scan_sim (fsS', segS'\<lparr>seg_since := seg_since segS' + of_nat (frame_size rec)\<rparr>)
           (append_one (fsA, segA) rec)"
proof -
  obtain fsA' segA' where A: "index_frame fsA segA (ucast (rec_offset rec - seg_base segA)) (seg_size segA) = (fsA', segA')"
    by fastforce
  have base: "seg_base segS = seg_base segA" using sim by (cases segS; cases segA) (auto simp: scan_sim_def)
  have "scan_sim (fsS', segS') (fsA', segA')"
    using index_frame_sim [OF sim S] A base by simp
  then show ?thesis
    by (cases segS'; cases segA') (auto simp: append_one_def A scan_sim_def map_of_append_file)
qed

lemma append_one_size: "seg_size (snd (append_one (fs, seg) rec)) = seg_size seg + of_nat (frame_size rec)"
  by (auto simp: append_one_def dest: index_frame_fields split: prod.splits)

lemma scan_loop_mirrors:
  assumes "list_all record_ok recs" "unread r = frames recs @ t" "torn t"
    and "scan_sim (fsS, segS) (fsA, segA)" "seg_size segA = of_nat (rpos r)"
  shows "\<exists>fs' seg'. scan_loop fsS segS r lo (rpos r) =
           (fs', seg', (if recs = [] then lo else sint (rec_offset (last recs))), rpos r + length (frames recs)) \<and>
         scan_sim (fs', seg') (seg_append fsA segA recs) \<and>
         (\<forall>p. p \<noteq> seg_idx segS \<longrightarrow> map_of fs' p = map_of fsS p)"
  using assms
proof (induction recs arbitrary: r fsS segS fsA segA lo)
  case Nil
  then obtain e where "decode_record r = Inl e" using tornD by fastforce
  then show ?case using Nil by (simp add: scan_loop.simps [of _ _ r] seg_append_def)
next
  case (Cons rec recs)
  have dec: "decode_record r = Inr (rec, advance r (frame_size rec))"
    using Cons.prems by (intro decode_record_frame) simp_all
  obtain fs1 seg1 where i: "index_frame fsS segS (ucast (rec_offset rec - seg_base segS)) (of_nat (rpos r)) = (fs1, seg1)"
    by fastforce
  let ?seg1 = "seg1\<lparr>seg_since := seg_since seg1 + of_nat (frame_size rec)\<rparr>"
  obtain fs2 seg2 where a: "append_one (fsA, segA) rec = (fs2, seg2)" by fastforce
  have sim: "scan_sim (fs1, ?seg1) (fs2, seg2)"
    using scan_step_sim [OF Cons.prems(4)] i Cons.prems(5) a by metis
  have size: "seg_size seg2 = of_nat (rpos (advance r (frame_size rec)))"
    using append_one_size [of fsA segA rec] a Cons.prems(5) by simp
  have un: "unread (advance r (frame_size rec)) = frames recs @ t" using Cons.prems(2) by simp
  have rok: "list_all record_ok recs" using Cons.prems(1) by simp
  obtain fs' seg' where IH:
    "scan_loop fs1 ?seg1 (advance r (frame_size rec)) (sint (rec_offset rec)) (rpos (advance r (frame_size rec))) =
       (fs', seg', (if recs = [] then sint (rec_offset rec) else sint (rec_offset (last recs))),
        rpos (advance r (frame_size rec)) + length (frames recs))"
    "scan_sim (fs', seg') (seg_append fs2 seg2 recs)" "\<forall>p. p \<noteq> seg_idx ?seg1 \<longrightarrow> map_of fs' p = map_of fs1 p"
    using Cons.IH [OF rok un Cons.prems(3) sim size] by blast
  have "scan_loop fsS segS r lo (rpos r) = (fs', seg', sint (rec_offset (last (rec # recs))),
      rpos r + length (frames (rec # recs)))"
    using IH(1) remaining_frames [OF Cons.prems(2)] dec i
    by (simp add: scan_loop.simps [of _ _ r] Let_def add.assoc)
  moreover have "scan_sim (fs', seg') (seg_append fsA segA (rec # recs))"
    using IH(2) a by (simp add: seg_append_def)
  moreover have "\<forall>p. p \<noteq> seg_idx segS \<longrightarrow> map_of fs' p = map_of fsS p"
    using IH(3) index_frame_fields [OF i] by simp
  ultimately show ?case by simp
qed

section \<open>The segment invariant\<close>

definition idx_entries :: "nat list \<Rightarrow> log_record list \<Rightarrow> (u32 \<times> u64) list" where
  "idx_entries ks recs = map (\<lambda>k. (of_nat k, of_nat (length (frames (take k recs))))) ks"

definition idx_bytes :: "(u32 \<times> u64) list \<Rightarrow> bytes" where
  "idx_bytes es = concat (map (\<lambda>(relOffset, pos). put_u64 (put_u32 [] relOffset) pos) es)"

definition index_positions :: "log_record list \<Rightarrow> nat list \<Rightarrow> bool" where
  "index_positions recs ks \<longleftrightarrow>
     sorted_wrt (<) ks \<and> (\<forall>k \<in> set ks. k < length recs) \<and> (recs \<noteq> [] \<longrightarrow> ks \<noteq> [] \<and> hd ks = 0)"

fun contiguous :: "u64 \<Rightarrow> log_record list \<Rightarrow> bool" where
  "contiguous base [] \<longleftrightarrow> True"
| "contiguous base (rec # recs) \<longleftrightarrow> rec_offset rec = base \<and> contiguous (base + 1) recs"

text \<open>The two files of a segment that holds the records \<open>recs\<close>.\<close>

definition files_inv :: "files \<Rightarrow> segment \<Rightarrow> nat list \<Rightarrow> log_record list \<Rightarrow> bool" where
  "files_inv fs seg ks recs \<longleftrightarrow>
     seg_log seg \<noteq> seg_idx seg \<and>
     map_of fs (seg_log seg) = Some (frames recs) \<and>
     map_of fs (seg_idx seg) = Some (idx_bytes (idx_entries ks recs)) \<and>
     index_positions recs ks \<and> list_all record_ok recs \<and> contiguous (seg_base seg) recs \<and>
     length recs < 2 ^ 32 \<and> length (frames recs) < 2 ^ 63"

definition mem_inv :: "segment \<Rightarrow> nat list \<Rightarrow> log_record list \<Rightarrow> bool" where
  "mem_inv seg ks recs \<longleftrightarrow>
     seg_index seg = idx_entries ks recs \<and> seg_size seg = of_nat (length (frames recs))"

definition seg_inv :: "files \<Rightarrow> segment \<Rightarrow> log_record list \<Rightarrow> bool" where
  "seg_inv fs seg recs \<longleftrightarrow> (\<exists>ks. files_inv fs seg ks recs \<and> mem_inv seg ks recs)"

definition same_segment :: "segment \<Rightarrow> segment \<Rightarrow> bool" where
  "same_segment s t \<longleftrightarrow> seg_log s = seg_log t \<and> seg_idx s = seg_idx t \<and> seg_base s = seg_base t \<and>
     seg_interval s = seg_interval t"

definition files_frame :: "segment \<Rightarrow> files \<Rightarrow> files \<Rightarrow> bool" where
  "files_frame seg fs fs' \<longleftrightarrow> (\<forall>p. p \<noteq> seg_log seg \<longrightarrow> p \<noteq> seg_idx seg \<longrightarrow> map_of fs' p = map_of fs p)"

lemma same_segment_refl [simp]: "same_segment s s"
  by (simp add: same_segment_def)

lemma same_segment_trans: "same_segment s t \<Longrightarrow> same_segment t u \<Longrightarrow> same_segment s u"
  by (simp add: same_segment_def)

lemma files_frame_refl [simp]: "files_frame seg fs fs"
  by (simp add: files_frame_def)

lemma files_frame_trans: "same_segment s t \<Longrightarrow> files_frame s fs fs' \<Longrightarrow> files_frame t fs' fs'' \<Longrightarrow> files_frame s fs fs''"
  by (simp add: files_frame_def same_segment_def)

lemma idx_entries_append: "idx_entries (ks @ ks') recs = idx_entries ks recs @ idx_entries ks' recs"
  by (simp add: idx_entries_def)

lemma idx_entries_grow:
  "\<forall>k \<in> set ks. k \<le> length recs \<Longrightarrow> idx_entries ks (recs @ recs') = idx_entries ks recs"
  by (simp add: idx_entries_def)

lemma idx_bytes_append: "idx_bytes (es @ es') = idx_bytes es @ idx_bytes es'"
  by (simp add: idx_bytes_def)

lemma contiguous_append:
  "contiguous base (recs @ recs') \<longleftrightarrow> contiguous base recs \<and> contiguous (base + of_nat (length recs)) recs'"
  by (induction recs arbitrary: base) (auto simp: add.assoc)

lemma contiguous_nth: "contiguous base recs \<Longrightarrow> i < length recs \<Longrightarrow> rec_offset (recs ! i) = base + of_nat i"
  by (induction recs arbitrary: base i) (auto simp: nth_Cons add.assoc split: nat.splits)

lemma files_frameD: "files_frame seg fs fs' \<Longrightarrow> p \<noteq> seg_log seg \<Longrightarrow> p \<noteq> seg_idx seg \<Longrightarrow> map_of fs' p = map_of fs p"
  by (simp add: files_frame_def)

text \<open>One step of an append.\<close>

lemma ucast_of_nat_u32 [simp]: "ucast (of_nat n :: u64) = (of_nat n :: u32)"
  by (simp add: unsigned_of_nat word_of_nat_eq_iff)

lemma index_frame_inv:
  assumes f: "files_inv fs seg ks recs" and m: "seg_index seg = idx_entries ks recs"
    and i: "index_frame fs seg (of_nat (length recs)) (of_nat (length (frames recs))) = (fs', seg')"
  shows "\<exists>ks'. seg_index seg' = idx_entries ks' (recs @ [rec]) \<and> index_positions (recs @ [rec]) ks' \<and>
           map_of fs' (seg_idx seg) = Some (idx_bytes (idx_entries ks' (recs @ [rec])))"
proof (cases "seg_index seg = [] \<or> ucast (seg_interval seg) \<le> seg_since seg")
  case False
  have ks: "\<forall>k \<in> set ks. k \<le> length recs" using f by (auto simp: files_inv_def index_positions_def)
  have "index_positions (recs @ [rec]) ks"
    using f m False by (auto simp: files_inv_def index_positions_def idx_entries_def less_Suc_eq)
  then show ?thesis
    using i f m False
    by (intro exI [of _ ks]) (auto simp: index_frame_def files_inv_def idx_entries_grow [OF ks])
next
  case True
  have ks: "\<forall>k \<in> set ks. k \<le> length recs" using f by (auto simp: files_inv_def index_positions_def)
  have "index_positions (recs @ [rec]) (ks @ [length recs])"
    using f by (cases ks) (auto simp: files_inv_def index_positions_def sorted_wrt_append less_Suc_eq)
  moreover have e: "idx_entries (ks @ [length recs]) (recs @ [rec]) =
      idx_entries ks recs @ [(of_nat (length recs), of_nat (length (frames recs)))]"
    by (simp add: idx_entries_append idx_entries_grow [OF ks]) (simp add: idx_entries_def)
  moreover have "idx_bytes (es @ [(relOffset, pos)]) = idx_bytes es @ put_u64 (put_u32 [] relOffset) pos"
    for es relOffset pos by (simp add: idx_bytes_def)
  ultimately show ?thesis
    using i f m True
    by (intro exI [of _ "ks @ [length recs]"])
      (auto simp: index_frame_def append_index_entry_def files_inv_def map_of_append_file read_whole_file_def)
qed

lemma append_one_inv:
  assumes inv: "seg_inv fs seg recs" and rec: "record_ok rec" "rec_offset rec = seg_base seg + of_nat (length recs)"
    and len: "length recs + 1 < 2 ^ 32" "length (frames recs) + frame_size rec < 2 ^ 63"
    and app: "append_one (fs, seg) rec = (fs', seg')"
  shows "seg_inv fs' seg' (recs @ [rec]) \<and> same_segment seg seg' \<and> files_frame seg fs fs'"
proof -
  from inv obtain ks where f: "files_inv fs seg ks recs" and m: "mem_inv seg ks recs"
    by (auto simp: seg_inv_def)
  obtain fs1 seg1 where i: "index_frame fs seg (of_nat (length recs)) (of_nat (length (frames recs))) = (fs1, seg1)"
    by fastforce
  have rel: "ucast (rec_offset rec - seg_base seg) = (of_nat (length recs) :: u32)"
    using rec(2) by simp
  note fld = index_frame_fields [OF i]
  have st: "fs' = append_file fs1 (seg_log seg) (encode_record [] rec)"
    "seg' = seg1\<lparr>seg_size := seg_size seg1 + of_nat (frame_size rec), seg_since := seg_since seg1 + of_nat (frame_size rec)\<rparr>"
    using app m i by (auto simp: append_one_def mem_inv_def rel fld)
  obtain ks' where ks': "seg_index seg1 = idx_entries ks' (recs @ [rec])" "index_positions (recs @ [rec]) ks'"
    "map_of fs1 (seg_idx seg) = Some (idx_bytes (idx_entries ks' (recs @ [rec])))"
    using index_frame_inv [OF f _ i] m by (auto simp: mem_inv_def)
  have ne: "seg_log seg \<noteq> seg_idx seg" using f by (simp add: files_inv_def)
  have log1: "map_of fs1 (seg_log seg) = Some (frames recs)"
    using f fld(6) [OF ne] by (simp add: files_inv_def)
  have "files_inv fs' seg' ks' (recs @ [rec])"
    using f ks' rec len ne log1
    by (simp add: files_inv_def st fld map_of_append_file read_whole_file_def contiguous_append)
  moreover have "mem_inv seg' ks' (recs @ [rec])"
    using m ks' by (simp add: mem_inv_def st fld)
  moreover have "files_frame seg fs fs'"
    by (auto simp: files_frame_def st map_of_append_file fld(6))
  ultimately show ?thesis
    by (auto simp: seg_inv_def same_segment_def st fld)
qed

lemma seg_append_inv:
  assumes "seg_inv fs seg recs" "list_all record_ok rs" "contiguous (seg_base seg + of_nat (length recs)) rs"
    "length recs + length rs < 2 ^ 32" "length (frames recs) + length (frames rs) < 2 ^ 63"
    "seg_append fs seg rs = (fs', seg')"
  shows "seg_inv fs' seg' (recs @ rs) \<and> same_segment seg seg' \<and> files_frame seg fs fs'"
  using assms
proof (induction rs arbitrary: fs seg recs)
  case Nil
  then show ?case by (simp add: seg_append_def)
next
  case (Cons rec rs)
  obtain fs1 seg1 where a: "append_one (fs, seg) rec = (fs1, seg1)" by fastforce
  have "seg_inv fs1 seg1 (recs @ [rec]) \<and> same_segment seg seg1 \<and> files_frame seg fs fs1"
    using Cons.prems by (intro append_one_inv [OF _ _ _ _ _ a]) simp_all
  moreover from this have "seg_inv fs' seg' ((recs @ [rec]) @ rs) \<and> same_segment seg1 seg' \<and> files_frame seg1 fs1 fs'"
    using Cons.prems a
    by (intro Cons.IH) (auto simp: seg_append_def same_segment_def ac_simps)
  ultimately show ?case
    by (auto intro: same_segment_trans files_frame_trans)
qed

section \<open>Creation, recovery, loading\<close>

lemma create_empty_inv:
  assumes "seg_log seg \<noteq> seg_idx seg" "map_of fs (seg_log seg) = None" "map_of fs (seg_idx seg) = None"
    and "create_empty fs seg = (fs', seg')"
  shows "seg_inv fs' seg' [] \<and> same_segment seg seg' \<and> files_frame seg fs fs'"
  using assms
  by (auto simp: create_empty_def seg_inv_def files_inv_def mem_inv_def index_positions_def idx_entries_def
      idx_bytes_def map_of_append_file read_whole_file_def same_segment_def files_frame_def)

definition fresh_files :: "files \<Rightarrow> segment \<Rightarrow> files" where
  "fresh_files fs seg = omap_put (seg_idx seg) [] (omap_put (seg_log seg) [] fs)"

definition fresh_segment :: "segment \<Rightarrow> segment" where
  "fresh_segment seg = seg\<lparr>seg_size := 0, seg_since := 0, seg_index := []\<rparr>"

lemma fresh_inv: "seg_log seg \<noteq> seg_idx seg \<Longrightarrow> seg_inv (fresh_files fs seg) (fresh_segment seg) []"
  by (auto simp: fresh_files_def fresh_segment_def seg_inv_def files_inv_def mem_inv_def index_positions_def
      idx_entries_def idx_bytes_def)

text \<open>
  Recovery of a log whose clean part is \<open>frames recs\<close>: whatever undecodable bytes follow, the result
  is the segment that appending \<open>recs\<close> to a fresh segment gives.
\<close>

lemma scan_and_recover_torn:
  assumes ne: "seg_log seg \<noteq> seg_idx seg" and log: "map_of fs (seg_log seg) = Some (frames recs @ t)" "torn t"
    and recs: "list_all record_ok recs" "contiguous (seg_base seg) recs" "length recs < 2 ^ 32"
      "length (frames recs) < 2 ^ 63"
  shows "\<exists>fs'. scan_and_recover fs seg =
           Inr ((if recs = [] then - 1 else sint (rec_offset (last recs))), fs',
                snd (seg_append (fresh_files fs seg) (fresh_segment seg) recs)) \<and>
         seg_inv fs' (snd (seg_append (fresh_files fs seg) (fresh_segment seg) recs)) recs \<and>
         same_segment seg (snd (seg_append (fresh_files fs seg) (fresh_segment seg) recs)) \<and>
         files_frame seg fs fs'"
proof -
  let ?fs0 = "truncate_file fs (seg_idx seg)" and ?seg0 = "seg\<lparr>seg_index := [], seg_since := 0\<rparr>"
  let ?A = "seg_append (fresh_files fs seg) (fresh_segment seg) recs"
  obtain fsA segA where A: "?A = (fsA, segA)" by fastforce
  have Ainv: "seg_inv fsA segA recs \<and> same_segment (fresh_segment seg) segA"
    using seg_append_inv [OF fresh_inv [OF ne] recs(1) _ _ _ A] recs by (simp add: fresh_segment_def)
  have sim0: "scan_sim (?fs0, ?seg0) (fresh_files fs seg, fresh_segment seg)"
    using ne by (simp add: scan_sim_def fresh_files_def fresh_segment_def truncate_file_def)
  have un: "unread (mk_reader (frames recs @ t)) = frames recs @ t"
    and sz0: "seg_size (fresh_segment seg) = of_nat (rpos (mk_reader (frames recs @ t)))"
    by (simp_all add: fresh_segment_def)
  obtain fs1 seg1 where loop:
    "scan_loop ?fs0 ?seg0 (mk_reader (frames recs @ t)) (- 1) 0 =
       (fs1, seg1, (if recs = [] then - 1 else sint (rec_offset (last recs))), length (frames recs))"
    and sim: "scan_sim (fs1, seg1) (fsA, segA)"
    and fr: "\<forall>p. p \<noteq> seg_idx seg \<longrightarrow> map_of fs1 p = map_of ?fs0 p"
    using scan_loop_mirrors [OF recs(1) un log(2) sim0 sz0, of "- 1"] by (auto simp: A)
  from sim have segA: "seg1\<lparr>seg_size := seg_size segA\<rparr> = segA"
    and idx: "map_of fs1 (seg_idx segA) = map_of fsA (seg_idx segA)"
    by (simp_all add: scan_sim_def)
  have sz: "seg_size segA = of_nat (length (frames recs))" using Ainv by (auto simp: seg_inv_def mem_inv_def)
  have log1: "map_of fs1 (seg_log seg) = Some (frames recs @ t)"
    using fr ne log(1) by (simp add: truncate_file_def)
  let ?fs2 = "omap_put (seg_log seg) (frames recs) fs1"
  have rec: "scan_and_recover fs seg =
      Inr ((if recs = [] then - 1 else sint (rec_offset (last recs))), ?fs2, segA)"
    using segA by (simp add: scan_and_recover_def read_whole_file_def log(1) loop resize_file_def log1 flip: sz)
  have same: "seg_log segA = seg_log seg" "seg_idx segA = seg_idx seg"
    using Ainv by (simp_all add: same_segment_def fresh_segment_def)
  have "seg_inv ?fs2 segA recs"
    using Ainv idx ne by (auto simp: seg_inv_def files_inv_def same)
  moreover have "files_frame seg fs ?fs2"
    using fr by (simp add: files_frame_def truncate_file_def)
  moreover have "same_segment seg segA"
    using Ainv by (simp add: same_segment_def fresh_segment_def)
  ultimately show ?thesis using rec A by auto
qed

lemma scan_loop_ok: "omap_ok fs \<Longrightarrow> omap_ok (fst (scan_loop fs seg r lo good))"
proof (induction fs seg r lo good rule: scan_loop.induct)
  case (1 fs seg r lo good)
  show ?case
  proof (cases "remaining r = 0 \<or> (\<exists>e. decode_record r = Inl e)")
    case True
    then show ?thesis using 1 by (auto simp: scan_loop.simps [of _ _ r])
  next
    case False
    then obtain rec r' where d: "remaining r \<noteq> 0" "decode_record r = Inr (rec, r')"
      by (cases "decode_record r") auto
    obtain fs' seg' where i: "index_frame fs seg (ucast (rec_offset rec - seg_base seg)) (of_nat (rpos r)) = (fs', seg')"
      by fastforce
    then have "omap_ok fs'"
      using "1.prems" by (auto simp: index_frame_def append_index_entry_def append_file_def split: if_splits)
    then show ?thesis
      using "1.IH" [OF d(1) d(2) refl refl refl i [symmetric] refl] d i
      by (simp add: scan_loop.simps [of _ _ r] Let_def)
  qed
qed

lemma scan_and_recover_ok: "omap_ok fs \<Longrightarrow> scan_and_recover fs seg = Inr (lo, fs', seg') \<Longrightarrow> omap_ok fs'"
  using scan_loop_ok [of "truncate_file fs (seg_idx seg)"]
  by (auto simp: scan_and_recover_def bindE_eq_Inr resize_file_def truncate_file_def Let_def
      split: prod.splits option.splits) (metis fst_conv omap_ok_put)

lemma load_entries_bytes: "unread r = idx_bytes es \<Longrightarrow> load_entries r = Inr es"
proof (induction es arbitrary: r)
  case Nil
  then show ?case by (simp add: load_entries.simps [of r] kIndexEntrySize_def remaining_unread idx_bytes_def)
next
  case (Cons e es)
  obtain relOffset pos where e: "e = (relOffset, pos)" by (cases e)
  have r: "unread r = put_u32 [] relOffset @ put_u64 [] pos @ idx_bytes es"
    using Cons.prems by (simp add: e idx_bytes_def put_apps)
  have "get_u32 r = Inr (relOffset, advance r 4)"
    using parsesD [OF u32.get_put r] by simp
  moreover have "get_u64 (advance r 4) = Inr (pos, advance r 12)"
    using parsesD [OF u64.get_put, of "advance r 4" pos "idx_bytes es"] r by simp
  moreover have "load_entries (advance r 12) = Inr es"
    using r by (intro Cons.IH) simp
  moreover have "\<not> remaining r < kIndexEntrySize"
    using r by (simp add: remaining_unread kIndexEntrySize_def)
  ultimately show ?case by (simp add: load_entries.simps [of r] e)
qed

lemma load_index_inv:
  assumes "files_inv fs seg ks recs"
  shows "\<exists>seg'. load_index fs seg = Inr seg' \<and> seg_inv fs seg' recs \<and> same_segment seg seg'"
proof -
  have "load_entries (mk_reader (read_whole_file fs (seg_idx seg))) = Inr (idx_entries ks recs)"
    using assms by (intro load_entries_bytes) (simp add: files_inv_def read_whole_file_def)
  then show ?thesis
    using assms
    by (auto simp: load_index_def files_inv_def seg_inv_def mem_inv_def same_segment_def)
qed

section \<open>Indexed reads\<close>

lemma frames_take_drop: "frames recs = frames (take k recs) @ frames (drop k recs)"
  by (metis append_take_drop_id frames_simps(3))

lemma length_frames_take: "k \<le> length recs \<Longrightarrow> length (frames (take k recs)) \<le> length (frames recs)"
  by (metis frames_take_drop le_add1 length_append)

lemma read_from_position:
  assumes "seg_inv fs seg recs" "k \<le> length recs"
  shows "read_from fs seg (of_nat (length (frames (take k recs)))) = drop k recs"
proof -
  have f: "map_of fs (seg_log seg) = Some (frames recs)" "list_all record_ok recs" "length (frames recs) < 2 ^ 63"
    using assms(1) by (auto simp: seg_inv_def files_inv_def)
  have pos: "unat (of_nat (length (frames (take k recs))) :: u64) = length (frames (take k recs))"
    using length_frames_take [OF assms(2)] f(3) by (intro unat_of_nat_u64) simp
  show ?thesis
  proof (cases "length (frames recs) \<le> length (frames (take k recs))")
    case True
    then have "frames (drop k recs) = []"
      using arg_cong [where f = length, OF frames_take_drop [of recs k]] by simp
    then have "drop k recs = []"
      by (simp only: frames_eq_Nil)
    then show ?thesis using True f(1) pos by (simp add: read_from_def read_whole_file_def)
  next
    case False
    have "drop (length (frames (take k recs))) (frames recs) = frames (drop k recs)"
      by (simp add: frames_take_drop [of recs k])
    moreover have "decode_all (mk_reader (frames (drop k recs))) = drop k recs"
      using f(2) by (intro decode_all_frames [where t = "[]"] torn_Nil)
        (auto simp: list_all_iff dest: in_set_dropD)
    ultimately show ?thesis using False f(1) pos by (simp add: read_from_def read_whole_file_def)
  qed
qed

lemma find_start_position_floor:
  assumes inv: "seg_inv fs seg recs" and n: "n < length recs"
  shows "\<exists>k \<le> n. find_start_position seg (of_nat n) = of_nat (length (frames (take k recs)))"
proof -
  from inv obtain ks where ix: "seg_index seg = idx_entries ks recs" and ks: "index_positions recs ks"
    and len: "length recs < 2 ^ 32"
    by (auto simp: seg_inv_def files_inv_def mem_inv_def)
  have ks0: "ks \<noteq> []" "hd ks = 0" using ks n by (auto simp: index_positions_def)
  have less: "(of_nat n :: u32) < of_nat k \<longleftrightarrow> n < k" if "k \<in> set ks" for k
    using that ks n len by (auto simp: index_positions_def word_less_nat_alt)
  let ?P = "\<lambda>k. \<not> n < k"
  have tw: "takeWhile (\<lambda>e. \<not> (of_nat n :: u32) < fst e) (idx_entries ks recs) = idx_entries (takeWhile ?P ks) recs"
    using less by (simp add: idx_entries_def takeWhile_map o_def cong: takeWhile_cong)
  have ne: "takeWhile ?P ks \<noteq> []" using ks0 by (cases ks) auto
  let ?k = "last (takeWhile ?P ks)"
  have "?k \<le> n" using last_in_set [OF ne] by (auto dest: set_takeWhileD)
  moreover have "find_start_position seg (of_nat n) = of_nat (length (frames (take ?k recs)))"
    using ks0 ne by (simp add: find_start_position_def ix tw) (simp add: idx_entries_def last_map hd_map)
  ultimately show ?thesis by blast
qed

end
