(* ===== verification/CppText.thy ===== *)
theory CppText
  imports Prelude
begin

text \<open>
  The decimal text conversions of the C++ standard library that the code uses: \<open>std::to_string\<close> on
  unsigned integers, \<open>std::stoull\<close>, formatted stream input and output of integers and words, and the file-name parts \<open>stem()\<close> and \<open>extension()\<close> of
  \<open>std::filesystem::path\<close>.
\<close>

section \<open>Decimal numbers\<close>

definition digit_char :: "nat \<Rightarrow> char" where
  "digit_char d = char_of (48 + d)"

definition digit_value :: "char \<Rightarrow> nat" where
  "digit_value c = of_char c - 48"

definition is_digit :: "char \<Rightarrow> bool" where
  "is_digit c \<longleftrightarrow> 48 \<le> (of_char c :: nat) \<and> (of_char c :: nat) \<le> 57"

definition is_space :: "char \<Rightarrow> bool" where
  "is_space c \<longleftrightarrow> (of_char c :: nat) = 32 \<or> (9 \<le> (of_char c :: nat) \<and> (of_char c :: nat) \<le> 13)"

fun nat_digits :: "nat \<Rightarrow> string" where
  "nat_digits n = (if n < 10 then [digit_char n] else nat_digits (n div 10) @ [digit_char (n mod 10)])"

declare nat_digits.simps [simp del]

definition to_string_u64 :: "u64 \<Rightarrow> string" where
  "to_string_u64 w = nat_digits (unat w)"

definition to_string_u32 :: "u32 \<Rightarrow> string" where
  "to_string_u32 w = nat_digits (unat w)"

definition digits_value :: "string \<Rightarrow> nat" where
  "digits_value ds = foldl (\<lambda>v c. 10 * v + digit_value c) 0 ds"

datatype num_error = InvalidArgument | OutOfRange

text \<open>
  \<open>std::stoull\<close> (and \<open>stoul\<close>, \<open>unsigned long\<close> being 64 bits wide here): skip white space, take a sign and the
  longest run of digits; no digit is \<open>invalid_argument\<close>, a value past 64 bits \<open>out_of_range\<close>. A minus
  sign negates modulo \<open>2\<^sup>6\<^sup>4\<close>, as \<open>strtoull\<close> does.
\<close>

definition stoull :: "string \<Rightarrow> num_error + u64" where
  "stoull s =
     (let s = dropWhile is_space s;
          neg = (s \<noteq> [] \<and> hd s = CHR ''-'');
          s = (if s \<noteq> [] \<and> (hd s = CHR ''-'' \<or> hd s = CHR ''+'') then tl s else s);
          ds = takeWhile is_digit s
      in if ds = [] then Inl InvalidArgument
         else if 2 ^ 64 \<le> digits_value ds then Inl OutOfRange
         else Inr (if neg then - of_nat (digits_value ds) else of_nat (digits_value ds)))"

section \<open>File names\<close>

definition last_part :: "char \<Rightarrow> string \<Rightarrow> string" where
  "last_part c s = rev (takeWhile (\<lambda>x. x \<noteq> c) (rev s))"

text \<open>A name that starts with its only dot has no extension.\<close>

definition path_extension :: "string \<Rightarrow> string" where
  "path_extension name =
     (let suffix = last_part (CHR ''.'') name
      in if length name \<le> Suc (length suffix) then [] else CHR ''.'' # suffix)"

definition path_stem :: "string \<Rightarrow> string" where
  "path_stem name = take (length name - length (path_extension name)) name"

section \<open>Reading back what was printed\<close>

lemma digit_char_value: "d < 10 \<Longrightarrow> digit_value (digit_char d) = d \<and> is_digit (digit_char d)"
  by (simp add: digit_value_def digit_char_def is_digit_def)

lemma nat_digits_all: "\<forall>c \<in> set (nat_digits n). is_digit c"
proof (induction n rule: nat_digits.induct)
  case (1 n)
  then show ?case by (subst nat_digits.simps) (auto simp: digit_char_value)
qed

lemma nat_digits_ne [simp]: "nat_digits n \<noteq> []"
  by (subst nat_digits.simps) simp

lemma digits_value_append: "digits_value (ds @ [c]) = 10 * digits_value ds + digit_value c"
  by (simp add: digits_value_def)

lemma digits_value_nat_digits [simp]: "digits_value (nat_digits n) = n"
proof (induction n rule: nat_digits.induct)
  case (1 n)
  show ?case
  proof (cases "n < 10")
    case True
    then show ?thesis
      by (subst nat_digits.simps) (simp add: digits_value_def digit_char_value)
  next
    case False
    with 1 have "digits_value (nat_digits (n div 10)) = n div 10" by simp
    with False show ?thesis
      by (subst nat_digits.simps) (simp add: digits_value_append digit_char_value)
  qed
qed

lemma length_nat_digits: "n < 10 ^ Suc k \<Longrightarrow> length (nat_digits n) \<le> Suc k"
proof (induction k arbitrary: n)
  case 0
  then show ?case by (subst nat_digits.simps) simp
next
  case (Suc k)
  show ?case
  proof (cases "n < 10")
    case True
    then show ?thesis by (subst nat_digits.simps) simp
  next
    case False
    have "n div 10 < 10 ^ Suc k" using Suc.prems by (simp add: less_mult_imp_div_less)
    then have "length (nat_digits (n div 10)) \<le> Suc k" by (rule Suc.IH)
    with False show ?thesis by (subst nat_digits.simps) simp
  qed
qed

lemma digits_value_zeros: "digits_value (replicate m (CHR ''0'') @ ds) = digits_value ds"
proof (induction m)
  case 0
  then show ?case by simp
next
  case (Suc m)
  have "digit_value (CHR ''0'') = 0" by (simp add: digit_value_def)
  with Suc show ?case by (simp add: digits_value_def)
qed

text \<open>A run of digits is read back as its value, whatever its leading zeros.\<close>

lemma is_digit_not_sign: "is_digit c \<Longrightarrow> \<not> is_space c \<and> c \<noteq> CHR ''-'' \<and> c \<noteq> CHR ''+''"
  by (auto simp: is_digit_def is_space_def)

lemma stoull_digits:
  assumes "ds \<noteq> []" "\<forall>c \<in> set ds. is_digit c" "digits_value ds < 2 ^ 64"
  shows "stoull ds = Inr (of_nat (digits_value ds))"
proof -
  obtain c cs where ds: "ds = c # cs" using assms(1) by (cases ds) auto
  then have c: "\<not> is_space c" "c \<noteq> CHR ''-''" "c \<noteq> CHR ''+''"
    using assms(2) is_digit_not_sign [of c] by auto
  have "takeWhile is_digit ds = ds" using assms(2) by (simp add: takeWhile_eq_all_conv)
  moreover have "dropWhile is_space ds = ds" using c ds by simp
  ultimately show ?thesis using assms(3) c ds by (simp add: stoull_def Let_def)
qed

lemma stoull_to_string [simp]: "stoull (to_string_u64 w) = Inr w"
proof -
  have "unat w < 2 ^ 64" using unsigned_less [of w, where ?'a = nat] by simp
  then show ?thesis
    using stoull_digits [of "nat_digits (unat w)"] nat_digits_all [of "unat w"]
    by (simp add: to_string_u64_def)
qed

lemma last_part_append: "c \<notin> set t \<Longrightarrow> last_part c (s @ c # t) = t"
proof -
  assume "c \<notin> set t"
  then have "takeWhile (\<lambda>x. x \<noteq> c) (rev t @ c # rev s) = rev t"
    by (subst takeWhile_append2) auto
  then show ?thesis by (simp add: last_part_def)
qed

lemma path_parts:
  assumes "s \<noteq> []" "CHR ''.'' \<notin> set t"
  shows "path_extension (s @ CHR ''.'' # t) = CHR ''.'' # t" and "path_stem (s @ CHR ''.'' # t) = s"
  using assms by (simp_all add: path_extension_def path_stem_def last_part_append Let_def)

section \<open>Formatted streams\<close>

text \<open>
  An input stream is its unread text, or \<open>None\<close> once it has failed. \<open>in >> x\<close> skips white space; at the end
  of the text it fails and leaves \<open>x\<close> alone, at a character that starts no number it stores 0 and fails, on
  a value out of range it stores the nearest limit and fails; on a failed stream it does nothing.
\<close>

type_synonym instream = "string option"

definition to_string_i64 :: "i64 \<Rightarrow> string" where
  "to_string_i64 i = (if i < 0 then CHR ''-'' # nat_digits (nat (- i)) else nat_digits (nat i))"

definition split_number :: "string \<Rightarrow> bool \<times> string \<times> string" where
  "split_number t =
     (let neg = (hd t = CHR ''-'');
          t = (if hd t = CHR ''-'' \<or> hd t = CHR ''+'' then tl t else t);
          ds = takeWhile is_digit t
      in (neg, ds, drop (length ds) t))"

definition in_u32 :: "instream \<Rightarrow> u32 \<Rightarrow> instream \<times> u32" where
  "in_u32 strm old = (case strm of None \<Rightarrow> (None, old) | Some t \<Rightarrow>
     (let t = dropWhile is_space t
      in if t = [] then (None, old)
         else (case split_number t of (neg, ds, rest) \<Rightarrow>
           if ds = [] then (None, 0)
           else if 2 ^ 32 \<le> digits_value ds then (None, - 1)
           else (Some rest, if neg then - of_nat (digits_value ds) else of_nat (digits_value ds)))))"

definition in_u64 :: "instream \<Rightarrow> u64 \<Rightarrow> instream \<times> u64" where
  "in_u64 strm old = (case strm of None \<Rightarrow> (None, old) | Some t \<Rightarrow>
     (let t = dropWhile is_space t
      in if t = [] then (None, old)
         else (case split_number t of (neg, ds, rest) \<Rightarrow>
           if ds = [] then (None, 0)
           else if 2 ^ 64 \<le> digits_value ds then (None, - 1)
           else (Some rest, if neg then - of_nat (digits_value ds) else of_nat (digits_value ds)))))"

definition in_i64_stream :: "instream \<Rightarrow> i64 \<Rightarrow> instream \<times> i64" where
  "in_i64_stream strm old = (case strm of None \<Rightarrow> (None, old) | Some t \<Rightarrow>
     (let t = dropWhile is_space t
      in if t = [] then (None, old)
         else (case split_number t of (neg, ds, rest) \<Rightarrow>
           if ds = [] then (None, 0)
           else if neg \<and> 2 ^ 63 < digits_value ds then (None, - (2 ^ 63))
           else if \<not> neg \<and> 2 ^ 63 \<le> digits_value ds then (None, 2 ^ 63 - 1)
           else (Some rest, if neg then - int (digits_value ds) else int (digits_value ds)))))"

definition in_word :: "instream \<Rightarrow> string \<Rightarrow> instream \<times> string" where
  "in_word strm old = (case strm of None \<Rightarrow> (None, old) | Some t \<Rightarrow>
     (let t = dropWhile is_space t
      in if t = [] then (None, old)
         else (Some (dropWhile (\<lambda>c. \<not> is_space c) t), takeWhile (\<lambda>c. \<not> is_space c) t)))"

text \<open>Reading back what was printed, in front of a space or at the end of the text.\<close>

definition at_gap :: "string \<Rightarrow> bool" where
  "at_gap t \<longleftrightarrow> t = [] \<or> is_space (hd t)"

lemma at_gap_simps [simp]: "at_gap []" "at_gap (c # t) \<longleftrightarrow> is_space c"
  by (simp_all add: at_gap_def)

lemma is_space_chars [simp]: "is_space (CHR '' '')" "is_space (CHR 0x0A)"
  by (simp_all add: is_space_def)

lemma is_space_not_digit: "is_space c \<Longrightarrow> \<not> is_digit c"
  by (auto simp: is_space_def is_digit_def)

lemma takeWhile_gap: "\<forall>c \<in> set ds. P c \<Longrightarrow> (t \<noteq> [] \<Longrightarrow> \<not> P (hd t)) \<Longrightarrow> takeWhile P (ds @ t) = ds"
  by (cases t) (simp_all add: takeWhile_append2 takeWhile_eq_all_conv takeWhile_tail)

lemma digits_first:
  assumes "ds \<noteq> []" "\<forall>c \<in> set ds. is_digit c" "at_gap t"
  shows "dropWhile is_space (ds @ t) = ds @ t" "hd (ds @ t) \<noteq> CHR ''-''" "hd (ds @ t) \<noteq> CHR ''+''"
    "takeWhile is_digit (ds @ t) = ds"
proof -
  obtain c cs where ds: "ds = c # cs" using assms(1) by (cases ds) auto
  then have "\<not> is_space c" "c \<noteq> CHR ''-''" "c \<noteq> CHR ''+''" using assms(2) is_digit_not_sign [of c] by auto
  then show "dropWhile is_space (ds @ t) = ds @ t" "hd (ds @ t) \<noteq> CHR ''-''" "hd (ds @ t) \<noteq> CHR ''+''"
    by (simp_all add: ds)
  show "takeWhile is_digit (ds @ t) = ds"
    using assms(2,3) is_space_not_digit by (intro takeWhile_gap) (auto simp: at_gap_def)
qed

lemma split_number_digits:
  assumes "at_gap t"
  shows "split_number (nat_digits n @ t) = (False, nat_digits n, t)"
  using digits_first [OF nat_digits_ne nat_digits_all assms, of n] by (simp add: split_number_def Let_def)

lemma in_u32_print:
  assumes "at_gap t"
  shows "in_u32 (Some (to_string_u32 v @ t)) old = (Some t, v)" "in_u32 (Some (CHR '' '' # to_string_u32 v @ t)) old = (Some t, v)"
proof -
  have "unat v < 2 ^ 32" using unsigned_less [of v, where ?'a = nat] by simp
  then show "in_u32 (Some (to_string_u32 v @ t)) old = (Some t, v)" "in_u32 (Some (CHR '' '' # to_string_u32 v @ t)) old = (Some t, v)"
    using digits_first(1) [OF nat_digits_ne nat_digits_all assms, of "unat v"] split_number_digits [OF assms, of "unat v"]
    by (simp_all add: in_u32_def to_string_u32_def)
qed

lemma in_u64_print:
  assumes "at_gap t"
  shows "in_u64 (Some (CHR '' '' # to_string_u64 v @ t)) old = (Some t, v)"
proof -
  have "unat v < 2 ^ 64" using unsigned_less [of v, where ?'a = nat] by simp
  then show ?thesis
    using digits_first(1) [OF nat_digits_ne nat_digits_all assms, of "unat v"] split_number_digits [OF assms, of "unat v"]
    by (simp add: in_u64_def to_string_u64_def)
qed

lemma in_i64_print:
  assumes "at_gap t" "in_i64 i"
  shows "in_i64_stream (Some (to_string_i64 i @ t)) old = (Some t, i)"
proof (cases "i < 0")
  case False
  then have "nat i < 2 ^ 63" using assms(2) by (simp add: in_i64_def)
  then show ?thesis
    using False digits_first(1) [OF nat_digits_ne nat_digits_all assms(1), of "nat i"] split_number_digits [OF assms(1), of "nat i"]
    by (simp add: in_i64_stream_def to_string_i64_def)
next
  case True
  have "split_number (CHR ''-'' # nat_digits (nat (- i)) @ t) = (True, nat_digits (nat (- i)), t)"
    using digits_first(4) [OF nat_digits_ne nat_digits_all assms(1), of "nat (- i)"] by (simp add: split_number_def)
  moreover have "\<not> 2 ^ 63 < nat (- i)" using assms(2) by (simp add: in_i64_def not_less nat_le_iff)
  moreover have "\<not> is_space (CHR ''-'')" by (simp add: is_space_def)
  ultimately show ?thesis using True by (simp add: in_i64_stream_def to_string_i64_def)
qed

lemma in_i64_stream_skip: "is_space c \<Longrightarrow> in_i64_stream (Some (c # t)) old = in_i64_stream (Some t) old"
  by (simp add: in_i64_stream_def)

definition word_text :: "string \<Rightarrow> bool" where
  "word_text s \<longleftrightarrow> s \<noteq> [] \<and> (\<forall>c \<in> set s. \<not> is_space c)"

lemma in_word_print:
  assumes "at_gap t" "word_text s"
  shows "in_word (Some (s @ t)) old = (Some t, s)" "is_space c \<Longrightarrow> in_word (Some (c # s @ t)) old = (Some t, s)"
proof -
  obtain c cs where s: "s = c # cs" "\<not> is_space c" using assms(2) by (cases s) (auto simp: word_text_def)
  have tk: "takeWhile (\<lambda>c. \<not> is_space c) (s @ t) = s"
    using assms by (intro takeWhile_gap) (auto simp: at_gap_def word_text_def)
  have dr: "dropWhile (\<lambda>c. \<not> is_space c) (s @ t) = t"
    using takeWhile_dropWhile_id [of "\<lambda>c. \<not> is_space c" "s @ t"] unfolding tk by simp
  have "dropWhile is_space (s @ t) = s @ t" "s @ t \<noteq> []" using s by simp_all
  then show "in_word (Some (s @ t)) old = (Some t, s)" "is_space c \<Longrightarrow> in_word (Some (c # s @ t)) old = (Some t, s)" for c
    using tk dr by (simp_all add: in_word_def Let_def)
qed

text \<open>Reading never lengthens a stream, and a word that was read shortens it: the loops that load a file end.\<close>

definition stream_size :: "instream \<Rightarrow> nat" where
  "stream_size strm = (case strm of None \<Rightarrow> 0 | Some t \<Rightarrow> Suc (length t))"

lemma in_u32_size: "in_u32 strm old = (strm', v) \<Longrightarrow> stream_size strm' \<le> stream_size strm"
proof (cases strm)
  case (Some t)
  assume e: "in_u32 strm old = (strm', v)"
  have tl: "length (tl xs) \<le> length t" if "length xs \<le> length t" for xs :: string using that by (cases xs) auto
  show ?thesis
    using e Some length_dropWhile_le [of is_space t] tl [of "dropWhile is_space t"]
    by (auto simp: in_u32_def split_number_def stream_size_def Let_def split: if_splits prod.splits)
qed (auto simp: in_u32_def)

lemma in_u64_size: "in_u64 strm old = (strm', v) \<Longrightarrow> stream_size strm' \<le> stream_size strm"
proof (cases strm)
  case (Some t)
  assume e: "in_u64 strm old = (strm', v)"
  have tl: "length (tl xs) \<le> length t" if "length xs \<le> length t" for xs :: string using that by (cases xs) auto
  show ?thesis
    using e Some length_dropWhile_le [of is_space t] tl [of "dropWhile is_space t"]
    by (auto simp: in_u64_def split_number_def stream_size_def Let_def split: if_splits prod.splits)
qed (auto simp: in_u64_def)

lemma in_word_size: "in_word strm old = (Some t', v) \<Longrightarrow> stream_size (Some t') < stream_size strm"
proof (cases strm)
  case (Some t)
  assume e: "in_word strm old = (Some t', v)"
  let ?u = "dropWhile is_space t"
  have u: "?u \<noteq> []" "t' = dropWhile (\<lambda>c. \<not> is_space c) ?u"
    using e Some by (auto simp: in_word_def Let_def split: if_splits)
  have "\<not> is_space (hd ?u)" using u(1) by (rule hd_dropWhile)
  then have "length t' < length ?u"
    using u length_dropWhile_le [of "\<lambda>c. \<not> is_space c" "tl ?u"] by (cases ?u) auto
  then show ?thesis using Some length_dropWhile_le [of is_space t] by (simp add: stream_size_def)
qed (auto simp: in_word_def)

lemma in_u32_None [simp]: "in_u32 None old = (None, old)"
  by (simp add: in_u32_def)

lemma in_u64_None [simp]: "in_u64 None old = (None, old)"
  by (simp add: in_u64_def)

end
