(* ===== verification/Partition.thy ===== *)
theory Partition
  imports SegmentSpec CppText
begin

text \<open>
  The commit log of one partition (\<open>src/storage/partition.h\<close>, \<open>partition.cpp\<close>): an ascending list
  of segments, the next offset (the log end offset) and the high watermark. \<open>pt_files\<close> is the
  content of the partition's directory; the clock is an argument of \<open>pt_append\<close>.
  \<open>segment_for_offset\<close> returns the position of the segment in the list where the code returns a
  pointer to it.
\<close>

unbundle bit_operations_syntax

definition kIndexIntervalBytes :: u32 where
  "kIndexIntervalBytes = 4096"

record partition =
  pt_files :: files
  pt_maxSegBytes :: u32
  pt_segments :: "segment list"
  pt_next :: u64
  pt_hwm :: i64

definition new_partition :: "files \<Rightarrow> u32 \<Rightarrow> partition" where
  "new_partition fs maxSegBytes =
     \<lparr>pt_files = fs, pt_maxSegBytes = maxSegBytes, pt_segments = [], pt_next = 0, pt_hwm = 0\<rparr>"

definition segment_base_name :: "u64 \<Rightarrow> string" where
  "segment_base_name base =
     replicate (20 - length (to_string_u64 base)) (CHR ''0'') @ to_string_u64 base"

definition named_segment :: "u64 \<Rightarrow> segment" where
  "named_segment base =
     (let name = segment_base_name base
      in new_segment (name @ ''.log'') (name @ ''.index'') base kIndexIntervalBytes)"

definition roll_segment :: "partition \<Rightarrow> u64 \<Rightarrow> partition" where
  "roll_segment p base =
     (let (fs, seg) = create_empty (pt_files p) (named_segment base)
      in p\<lparr>pt_files := fs, pt_segments := pt_segments p @ [seg]\<rparr>)"

text \<open>The directory scan of \<open>recover\<close>: the base offsets of the \<open>.log\<close> files, sorted.\<close>

fun log_bases :: "string list \<Rightarrow> storage_error + u64 list" where
  "log_bases [] = Inr []"
| "log_bases (name # names) =
     (if path_extension name \<noteq> ''.log'' then log_bases names
      else case stoull (path_stem name) of
             Inl _ \<Rightarrow> Inl (BadFileName name)
           | Inr base \<Rightarrow> bindE (log_bases names) (\<lambda>bs. Inr (base # bs)))"

fun load_indexes :: "files \<Rightarrow> segment list \<Rightarrow> storage_error + segment list" where
  "load_indexes fs [] = Inr []"
| "load_indexes fs (seg # segs) =
     (case load_index fs seg of
        Inl e \<Rightarrow> Inl (IndexDecode e)
      | Inr seg' \<Rightarrow> bindE (load_indexes fs segs) (\<lambda>segs'. Inr (seg' # segs')))"

definition recover :: "partition \<Rightarrow> storage_error + partition" where
  "recover p =
     bindE (log_bases (map fst (pt_files p))) (\<lambda>bs.
       let segs = map named_segment (sort bs) in
       if segs = [] then
         Inr ((roll_segment (p\<lparr>pt_segments := []\<rparr>) 0)\<lparr>pt_next := 0, pt_hwm := 0\<rparr>)
       else
         bindE (load_indexes (pt_files p) (butlast segs)) (\<lambda>closed.
         bindE (scan_and_recover (pt_files p) (last segs)) (\<lambda>(lastOffset, fs, active).
           let next = (if 0 \<le> lastOffset then word_of_int lastOffset + 1 else seg_base active)
           in Inr (p\<lparr>pt_files := fs, pt_segments := closed @ [active], pt_next := next,
                     pt_hwm := sint next\<rparr>))))"

text \<open>\<open>append\<close>: offsets and the timestamp are assigned here.\<close>

fun stamp_records :: "u64 \<Rightarrow> u64 \<Rightarrow> log_record list \<Rightarrow> log_record list \<times> u64" where
  "stamp_records next ts [] = ([], next)"
| "stamp_records next ts (rec # recs) =
     (let (recs', next') = stamp_records (next + 1) ts recs
      in (rec\<lparr>rec_offset := next, rec_timestamp := ts\<rparr> # recs', next'))"

definition maybe_roll :: "partition \<Rightarrow> partition" where
  "maybe_roll p =
     (if ucast (pt_maxSegBytes p) \<le> seg_size (last (pt_segments p)) then roll_segment p (pt_next p) else p)"

definition append_active :: "partition \<Rightarrow> log_record list \<Rightarrow> partition" where
  "append_active p recs =
     (let (fs, seg) = seg_append (pt_files p) (last (pt_segments p)) recs
      in p\<lparr>pt_files := fs, pt_segments := butlast (pt_segments p) @ [seg]\<rparr>)"

definition pt_append :: "partition \<Rightarrow> log_record list \<Rightarrow> u64 \<Rightarrow> i64 \<times> partition" where
  "pt_append p records now_ms =
     (if records = [] then (sint (pt_next p), p)
      else let p = maybe_roll p;
               base = sint (pt_next p);
               (records, next) = stamp_records (pt_next p) now_ms records;
               p = append_active (p\<lparr>pt_next := next\<rparr>) records
           in (base, p\<lparr>pt_hwm := sint (pt_next p)\<rparr>))"

definition append_replicated :: "partition \<Rightarrow> log_record list \<Rightarrow> partition" where
  "append_replicated p records =
     (if records = [] then p
      else let p = append_active (maybe_roll p) records
           in p\<lparr>pt_next := rec_offset (last records) + 1\<rparr>)"

definition segment_for_offset :: "partition \<Rightarrow> i64 \<Rightarrow> nat option" where
  "segment_for_offset p offset =
     (if pt_segments p = [] then None
      else if offset \<le> sint (seg_base (hd (pt_segments p))) then Some 0
      else Some (length (takeWhile (\<lambda>seg. \<not> offset < sint (seg_base seg)) (pt_segments p)) - 1))"

text \<open>
  The two nested loops of \<open>read_clamped\<close>: \<open>take_records\<close> is the inner one over the records of a
  segment (its first component says that the function returned), \<open>take_segments\<close> the outer one.
  \<open>bytesUsed + recSize\<close> is 32-bit arithmetic, as in the code.
\<close>

fun take_records ::
  "i64 \<Rightarrow> u32 \<Rightarrow> i64 \<Rightarrow> log_record list \<Rightarrow> u32 \<Rightarrow> log_record list \<Rightarrow> bool \<times> u32 \<times> log_record list" where
  "take_records startOffset maxBytes clamp [] bytesUsed result = (False, bytesUsed, result)"
| "take_records startOffset maxBytes clamp (rec # recs) bytesUsed result =
     (if sint (rec_offset rec) < startOffset then take_records startOffset maxBytes clamp recs bytesUsed result
      else if clamp \<le> sint (rec_offset rec) then (True, bytesUsed, result)
      else let recSize = of_nat (length (encode_record [] rec))
           in if maxBytes < bytesUsed + recSize
              then (True, bytesUsed, if result = [] then [rec] else result)
              else take_records startOffset maxBytes clamp recs (bytesUsed + recSize) (result @ [rec]))"

fun take_segments ::
  "files \<Rightarrow> bool \<Rightarrow> i64 \<Rightarrow> u32 \<Rightarrow> i64 \<Rightarrow> segment list \<Rightarrow> u32 \<Rightarrow> log_record list \<Rightarrow> log_record list" where
  "take_segments fs isStart startOffset maxBytes clamp [] bytesUsed result = result"
| "take_segments fs isStart startOffset maxBytes clamp (seg # segs) bytesUsed result =
     (let fromPos = (if isStart \<and> sint (seg_base seg) < startOffset
                     then find_start_position seg (ucast (word_of_int startOffset - seg_base seg))
                     else 0);
          (returned, used, result') =
            take_records startOffset maxBytes clamp (read_from fs seg fromPos) bytesUsed result
      in if returned then result'
         else take_segments fs False startOffset maxBytes clamp segs used result')"

definition read_clamped :: "partition \<Rightarrow> i64 \<Rightarrow> u32 \<Rightarrow> i64 \<Rightarrow> log_record list" where
  "read_clamped p startOffset maxBytes clamp =
     (if clamp \<le> startOffset then []
      else case segment_for_offset p startOffset of
             None \<Rightarrow> []
           | Some startIdx \<Rightarrow>
               take_segments (pt_files p) True startOffset maxBytes clamp
                 (drop startIdx (pt_segments p)) 0 [])"

definition pt_read :: "partition \<Rightarrow> i64 \<Rightarrow> u32 \<Rightarrow> log_record list" where
  "pt_read p startOffset maxBytes = read_clamped p startOffset maxBytes (pt_hwm p)"

definition read_up_to_leo :: "partition \<Rightarrow> i64 \<Rightarrow> u32 \<Rightarrow> log_record list" where
  "read_up_to_leo p startOffset maxBytes = read_clamped p startOffset maxBytes (sint (pt_next p))"

definition log_end_offset :: "partition \<Rightarrow> i64" where
  "log_end_offset p = sint (pt_next p)"

definition high_watermark :: "partition \<Rightarrow> i64" where
  "high_watermark p = pt_hwm p"

definition set_high_watermark :: "partition \<Rightarrow> i64 \<Rightarrow> partition" where
  "set_high_watermark p hwm = p\<lparr>pt_hwm := hwm\<rparr>"

end
