(* ===== verification/PartitionSpec.thy ===== *)
theory PartitionSpec
  imports Partition
begin

text \<open>
  What a partition means: one sequence of records whose offsets are their positions, cut into
  segments. Appends extend the sequence, reads return a slice of it, and recovery of a directory
  whose active log file was cut anywhere returns the longest prefix of whole records.
\<close>

unbundle bit_operations_syntax

section \<open>File names\<close>

lemma segment_base_name_digits:
  "segment_base_name base \<noteq> [] \<and> (\<forall>c \<in> set (segment_base_name base). is_digit c)"
  using nat_digits_all by (auto simp: segment_base_name_def to_string_u64_def is_digit_def)

lemma stoull_segment_base_name [simp]: "stoull (segment_base_name base) = Inr base"
proof -
  have "digits_value (segment_base_name base) = unat base"
    by (simp add: segment_base_name_def digits_value_zeros to_string_u64_def)
  moreover have "unat base < 2 ^ 64" using unsigned_less [of base, where ?'a = nat] by simp
  ultimately show ?thesis
    using stoull_digits [of "segment_base_name base"] segment_base_name_digits [of base] by simp
qed

lemma segment_base_name_inj [simp]: "segment_base_name b = segment_base_name b' \<longleftrightarrow> b = b'"
proof
  assume "segment_base_name b = segment_base_name b'"
  then have "stoull (segment_base_name b) = stoull (segment_base_name b')" by simp
  then show "b = b'" by simp
qed simp

lemma log_ne_index [simp]: "s @ ''.log'' \<noteq> s' @ ''.index''" "s' @ ''.index'' \<noteq> s @ ''.log''"
  by (auto dest: arg_cong [where f = last])

lemma path_parts_log [simp]:
  "path_extension (segment_base_name b @ ''.log'') = ''.log''"
  "path_stem (segment_base_name b @ ''.log'') = segment_base_name b"
  "path_extension (segment_base_name b @ ''.index'') = ''.index''"
  using path_parts [of "segment_base_name b" "''log''"] path_parts [of "segment_base_name b" "''index''"]
    segment_base_name_digits [of b] by simp_all

lemma named_segment_fields [simp]:
  "seg_log (named_segment b) = segment_base_name b @ ''.log''"
  "seg_idx (named_segment b) = segment_base_name b @ ''.index''"
  "seg_base (named_segment b) = b"
  by (simp_all add: named_segment_def new_segment_def Let_def)

definition named :: "u64 \<Rightarrow> segment \<Rightarrow> bool" where
  "named b seg \<longleftrightarrow> same_segment (named_segment b) seg"

lemma namedD:
  "named b seg \<Longrightarrow> seg_log seg = segment_base_name b @ ''.log''"
  "named b seg \<Longrightarrow> seg_idx seg = segment_base_name b @ ''.index''"
  "named b seg \<Longrightarrow> seg_base seg = b"
  by (auto simp: named_def same_segment_def)

lemma named_same: "named b s \<Longrightarrow> same_segment s t \<Longrightarrow> named b t"
  unfolding named_def by (rule same_segment_trans)

text \<open>The two file names of a segment with base \<open>b\<close>, and the names of all of them.\<close>

definition base_files :: "u64 \<Rightarrow> string set" where
  "base_files b = {segment_base_name b @ ''.log'', segment_base_name b @ ''.index''}"

lemma base_files_disjoint: "b \<noteq> b' \<Longrightarrow> base_files b \<inter> base_files b' = {}"
  by (auto simp: base_files_def)

lemma log_bases_names:
  "set names \<subseteq> (\<Union>b. base_files b) \<Longrightarrow> distinct names \<Longrightarrow>
     \<exists>bs. log_bases names = Inr bs \<and> distinct bs \<and> set bs = {b. segment_base_name b @ ''.log'' \<in> set names}"
proof (induction names)
  case Nil
  then show ?case by simp
next
  case (Cons name names)
  then obtain bs where bs: "log_bases names = Inr bs" "distinct bs"
    "set bs = {b. segment_base_name b @ ''.log'' \<in> set names}" by auto
  obtain b where "name = segment_base_name b @ ''.log'' \<or> name = segment_base_name b @ ''.index''"
    using Cons.prems(1) by (auto simp: base_files_def)
  then show ?case
  proof
    assume nm: "name = segment_base_name b @ ''.log''"
    then have "b \<notin> set bs" using bs(3) Cons.prems(2) by simp
    then show ?thesis using bs nm by (intro exI [of _ "b # bs"]) auto
  next
    assume nm: "name = segment_base_name b @ ''.index''"
    then show ?thesis using bs by (intro exI [of _ bs]) simp
  qed
qed

section \<open>The partition invariant\<close>

text \<open>The closed segments: full of records, each starting where its predecessor ends.\<close>

fun closed_inv :: "files \<Rightarrow> nat \<Rightarrow> segment list \<Rightarrow> log_record list list \<Rightarrow> bool" where
  "closed_inv fs n [] [] \<longleftrightarrow> True"
| "closed_inv fs n (seg # segs) (recs # recss) \<longleftrightarrow>
     named (of_nat n) seg \<and> seg_inv fs seg recs \<and> recs \<noteq> [] \<and> closed_inv fs (n + length recs) segs recss"
| "closed_inv fs n _ _ \<longleftrightarrow> False"

definition layout :: "partition \<Rightarrow> segment list \<Rightarrow> segment \<Rightarrow> log_record list list \<Rightarrow> log_record list \<Rightarrow> bool" where
  "layout p closed active recss recs \<longleftrightarrow>
     pt_segments p = closed @ [active] \<and> closed_inv (pt_files p) 0 closed recss \<and>
     named (of_nat (length (concat recss))) active \<and> seg_inv (pt_files p) active recs \<and>
     length (concat recss @ recs) < 2 ^ 63 \<and> 0 < pt_maxSegBytes p \<and> omap_ok (pt_files p) \<and>
     dom (map_of (pt_files p)) = (\<Union>seg \<in> set (pt_segments p). base_files (seg_base seg))"

definition part_inv :: "partition \<Rightarrow> log_record list \<Rightarrow> bool" where
  "part_inv p log \<longleftrightarrow> (\<exists>closed active recss recs. layout p closed active recss recs \<and>
     log = concat recss @ recs) \<and> pt_next p = of_nat (length log)"

lemma part_invI:
  "layout p closed active recss recs \<Longrightarrow> pt_next p = of_nat (length (concat recss @ recs)) \<Longrightarrow>
     part_inv p (concat recss @ recs)"
  by (auto simp: part_inv_def)

lemma part_inv_bound: "part_inv p log \<Longrightarrow> length log < 2 ^ 63"
  by (auto simp: part_inv_def layout_def)

lemma sint_of_nat_u64 [simp]: "n < 2 ^ 63 \<Longrightarrow> sint (of_nat n :: u64) = int n"
  by (subst sint_small_u64) simp_all

lemma part_inv_next: "part_inv p log \<Longrightarrow> pt_next p = of_nat (length log) \<and> sint (pt_next p) = int (length log)"
  using part_inv_bound [of p log] by (simp add: part_inv_def sint_small_u64)

lemma closed_inv_append:
  "closed_inv fs n segs recss \<Longrightarrow> named (of_nat (n + length (concat recss))) seg \<Longrightarrow>
     seg_inv fs seg recs \<Longrightarrow> recs \<noteq> [] \<Longrightarrow> closed_inv fs n (segs @ [seg]) (recss @ [recs])"
  by (induction fs n segs recss rule: closed_inv.induct) (auto simp: add.assoc)

lemma seg_inv_files_cong:
  "seg_inv fs seg recs \<Longrightarrow> map_of fs' (seg_log seg) = map_of fs (seg_log seg) \<Longrightarrow>
     map_of fs' (seg_idx seg) = map_of fs (seg_idx seg) \<Longrightarrow> seg_inv fs' seg recs"
  by (simp add: seg_inv_def files_inv_def)

lemma closed_inv_files_cong:
  "closed_inv fs n segs recss \<Longrightarrow>
     (\<And>seg p. seg \<in> set segs \<Longrightarrow> p \<in> base_files (seg_base seg) \<Longrightarrow> map_of fs' p = map_of fs p) \<Longrightarrow>
     closed_inv fs' n segs recss"
proof (induction fs n segs recss rule: closed_inv.induct)
  case (2 fs n seg segs recs recss)
  then have nm: "named (of_nat n) seg" by simp
  have "map_of fs' (seg_log seg) = map_of fs (seg_log seg)" "map_of fs' (seg_idx seg) = map_of fs (seg_idx seg)"
    by (intro "2.prems"(2) [of seg]; simp add: namedD [OF nm] base_files_def)+
  then have "seg_inv fs' seg recs" using "2.prems"(1) by (auto intro: seg_inv_files_cong)
  moreover have "closed_inv fs' (n + length recs) segs recss"
    using "2.prems"(1) by (intro "2.IH" "2.prems"(2)) simp_all
  ultimately show ?case using "2.prems"(1) by simp
qed simp_all

lemma closed_inv_bases:
  "closed_inv fs n segs recss \<Longrightarrow> seg \<in> set segs \<Longrightarrow>
     \<exists>k. n \<le> k \<and> k < n + length (concat recss) \<and> seg_base seg = of_nat k"
proof (induction fs n segs recss rule: closed_inv.induct)
  case (2 fs n seg' segs recs recss)
  show ?case
  proof (cases "seg = seg'")
    case True
    then show ?thesis using "2.prems"(1) by (intro exI [of _ n]) (auto dest: namedD(3))
  next
    case False
    then obtain k where "n + length recs \<le> k" "k < n + length recs + length (concat recss)" "seg_base seg = of_nat k"
      using 2 by auto
    then show ?thesis by (intro exI [of _ k]) simp
  qed
qed simp_all

lemma of_nat_u64_inj: "i < 2 ^ 64 \<Longrightarrow> j < 2 ^ 64 \<Longrightarrow> (of_nat i :: u64) = of_nat j \<longleftrightarrow> i = j"
  by (metis unat_of_nat_u64)

lemma closed_inv_fresh_base:
  assumes "closed_inv fs 0 segs recss" "length (concat recss) \<le> m" "m < 2 ^ 63" "seg \<in> set segs"
  shows "seg_base seg \<noteq> of_nat m"
proof -
  obtain k where "k < length (concat recss)" "seg_base seg = of_nat k"
    using closed_inv_bases [OF assms(1,4)] by auto
  moreover have "(of_nat k :: u64) \<noteq> of_nat m"
    using assms(2,3) calculation(1) by (subst of_nat_u64_inj) simp_all
  ultimately show ?thesis by simp
qed

section \<open>Appending\<close>

text \<open>What fits a batch: whole frames, fewer than \<open>2\<^sup>3\<^sup>1\<close> records, file sizes within \<open>int64_t\<close>.\<close>

definition batch_ok :: "log_record list \<Rightarrow> bool" where
  "batch_ok recs \<longleftrightarrow> list_all record_ok recs \<and> length recs < 2 ^ 31 \<and> length (frames recs) < 2 ^ 62"

lemma length_frames: "32 * length recs \<le> length (frames recs)"
  by (induction recs) (auto simp: frame_size_def)

lemma create_empty_files:
  "omap_ok fs \<Longrightarrow> create_empty fs seg = (fs', seg') \<Longrightarrow>
     omap_ok fs' \<and> dom (map_of fs') = insert (seg_log seg) (insert (seg_idx seg) (dom (map_of fs)))"
  by (auto simp: create_empty_def append_file_def)

lemma append_one_files:
  "append_one (fs, seg) rec = (fs', seg') \<Longrightarrow> omap_ok fs \<Longrightarrow>
     omap_ok fs' \<and> seg_log seg' = seg_log seg \<and> seg_idx seg' = seg_idx seg \<and>
     (seg_log seg \<in> dom (map_of fs) \<longrightarrow> seg_idx seg \<in> dom (map_of fs) \<longrightarrow> dom (map_of fs') = dom (map_of fs))"
  by (auto simp: append_one_def index_frame_def append_index_entry_def append_file_def split: if_splits)

lemma seg_append_files:
  "seg_append fs seg recs = (fs', seg') \<Longrightarrow> omap_ok fs \<Longrightarrow> seg_log seg \<in> dom (map_of fs) \<Longrightarrow>
     seg_idx seg \<in> dom (map_of fs) \<Longrightarrow> omap_ok fs' \<and> dom (map_of fs') = dom (map_of fs)"
proof (induction recs arbitrary: fs seg)
  case Nil
  then show ?case by (simp add: seg_append_def)
next
  case (Cons rec recs)
  obtain fs1 seg1 where a: "append_one (fs, seg) rec = (fs1, seg1)" by fastforce
  have 1: "omap_ok fs1" "seg_log seg1 = seg_log seg" "seg_idx seg1 = seg_idx seg" "dom (map_of fs1) = dom (map_of fs)"
    using append_one_files [OF a Cons.prems(2)] Cons.prems(3,4) by simp_all
  have "seg_append fs1 seg1 recs = (fs', seg')" using Cons.prems(1) a by (simp add: seg_append_def)
  from Cons.IH [OF this] 1 Cons.prems show ?case by simp
qed

lemma active_size:
  assumes "layout p closed active recss recs"
  shows "seg_size active = of_nat (length (frames recs))" "length (frames recs) < 2 ^ 63" "length recs < 2 ^ 32"
  using assms by (auto simp: layout_def seg_inv_def mem_inv_def files_inv_def)

lemma same_segment_base: "same_segment s t \<Longrightarrow> seg_base t = seg_base s"
  by (simp add: same_segment_def)

lemma roll_segment_layout:
  assumes l: "layout p closed active recss recs" and "recs \<noteq> []" and nxt: "pt_next p = of_nat (length (concat recss @ recs))"
  shows "\<exists>seg. layout (roll_segment p (pt_next p)) (closed @ [active]) seg (recss @ [recs]) []"
proof -
  let ?n = "length (concat recss @ recs)" and ?seg = "named_segment (pt_next p)"
  let ?C = "closed @ [active]" and ?R = "recss @ [recs]"
  obtain fs seg where c: "create_empty (pt_files p) ?seg = (fs, seg)" by fastforce
  from l have bound: "?n < 2 ^ 63" and segs: "pt_segments p = ?C" and ok: "omap_ok (pt_files p)"
    and dom: "dom (map_of (pt_files p)) = (\<Union>seg \<in> set ?C. base_files (seg_base seg))"
    by (simp_all add: layout_def)
  have closed: "closed_inv (pt_files p) 0 ?C ?R"
    using l \<open>recs \<noteq> []\<close> by (intro closed_inv_append) (simp_all add: layout_def)
  have fresh: "seg_base s \<noteq> pt_next p" if "s \<in> set ?C" for s
    using closed_inv_fresh_base [OF closed _ bound that] nxt by simp
  have none: "map_of (pt_files p) q = None" if "q \<in> base_files (pt_next p)" for q
  proof -
    have "q \<notin> dom (map_of (pt_files p))"
      unfolding dom using that fresh base_files_disjoint by blast
    then show ?thesis by (simp add: domIff)
  qed
  have "map_of (pt_files p) (seg_log ?seg) = None" "map_of (pt_files p) (seg_idx ?seg) = None"
    by (intro none; simp add: base_files_def)+
  then have inv: "seg_inv fs seg [] \<and> same_segment ?seg seg \<and> files_frame ?seg (pt_files p) fs"
    by (intro create_empty_inv [OF _ _ _ c]) simp_all
  have same: "map_of fs q = map_of (pt_files p) q" if "s \<in> set ?C" "q \<in> base_files (seg_base s)" for s q
    using inv that fresh [OF that(1)] base_files_disjoint [of "seg_base s" "pt_next p"]
    by (intro files_frameD [of ?seg]) (auto simp: base_files_def)
  have "closed_inv fs 0 ?C ?R" by (rule closed_inv_files_cong [OF closed same])
  moreover have "named (of_nat (length (concat ?R))) seg" using inv nxt by (simp add: named_def)
  moreover have "dom (map_of fs) = base_files (seg_base seg) \<union> dom (map_of (pt_files p))"
    using create_empty_files [OF ok c] inv same_segment_base [of ?seg seg] by (auto simp: base_files_def)
  ultimately show ?thesis
    using inv bound ok l create_empty_files [OF ok c] dom
    by (intro exI [of _ seg]) (simp add: layout_def roll_segment_def c segs Un_ac)
qed

lemma append_active_layout:
  assumes l: "layout p closed active recss recs" and rs: "list_all record_ok rs"
    "contiguous (of_nat (length (concat recss @ recs))) rs" "length recs + length rs < 2 ^ 32"
    "length (frames recs) + length (frames rs) < 2 ^ 63" "length (concat recss @ recs) + length rs < 2 ^ 63"
  shows "\<exists>seg. layout (append_active p rs) closed seg recss (recs @ rs)"
proof -
  let ?b = "of_nat (length (concat recss)) :: u64"
  obtain fs seg where a: "seg_append (pt_files p) active rs = (fs, seg)" by fastforce
  from l have segs: "pt_segments p = closed @ [active]" and nm: "named ?b active" and ok: "omap_ok (pt_files p)"
    and sinv: "seg_inv (pt_files p) active recs" and closed: "closed_inv (pt_files p) 0 closed recss"
    and bound: "length (concat recss) < 2 ^ 63"
    and dom: "dom (map_of (pt_files p)) = (\<Union>seg \<in> set (closed @ [active]). base_files (seg_base seg))"
    by (simp_all add: layout_def)
  have inv: "seg_inv fs seg (recs @ rs) \<and> same_segment active seg \<and> files_frame active (pt_files p) fs"
    using rs by (intro seg_append_inv [OF sinv _ _ _ _ a]) (simp_all add: namedD [OF nm])
  have same: "map_of fs q = map_of (pt_files p) q" if "s \<in> set closed" "q \<in> base_files (seg_base s)" for s q
    using inv that closed_inv_fresh_base [OF closed order_refl bound that(1)] base_files_disjoint [of "seg_base s" ?b]
    by (intro files_frameD [of active]) (auto simp: base_files_def namedD [OF nm])
  have "closed_inv fs 0 closed recss" by (rule closed_inv_files_cong [OF closed same])
  moreover have "named ?b seg" using inv nm named_same by blast
  moreover have "seg_log active \<in> dom (map_of (pt_files p))" "seg_idx active \<in> dom (map_of (pt_files p))"
    using sinv by (auto simp: seg_inv_def files_inv_def)
  then have "omap_ok fs \<and> dom (map_of fs) = dom (map_of (pt_files p))"
    using seg_append_files [OF a ok] by simp
  moreover have "seg_base seg = seg_base active" using inv same_segment_base by blast
  ultimately show ?thesis
    using inv l rs(5) dom
    by (intro exI [of _ seg]) (simp add: layout_def append_active_def a segs)
qed

lemma layout_update [simp]:
  "layout (p\<lparr>pt_next := n\<rparr>) = layout p" "layout (p\<lparr>pt_hwm := h\<rparr>) = layout p"
  by (simp_all add: fun_eq_iff layout_def)

lemma roll_segment_fields [simp]:
  "pt_next (roll_segment p b) = pt_next p" "pt_hwm (roll_segment p b) = pt_hwm p"
  "pt_maxSegBytes (roll_segment p b) = pt_maxSegBytes p"
  by (simp_all add: roll_segment_def split: prod.split)

lemma append_active_fields [simp]:
  "pt_next (append_active p rs) = pt_next p" "pt_hwm (append_active p rs) = pt_hwm p"
  "pt_maxSegBytes (append_active p rs) = pt_maxSegBytes p"
  by (simp_all add: append_active_def split: prod.split)

lemma maybe_roll_fields [simp]:
  "pt_next (maybe_roll p) = pt_next p" "pt_hwm (maybe_roll p) = pt_hwm p"
  "pt_maxSegBytes (maybe_roll p) = pt_maxSegBytes p"
  by (simp_all add: maybe_roll_def)

lemma unat_ucast_u32_u64: "unat (ucast (w :: u32) :: u64) = unat w"
proof -
  have "unat w < 2 ^ 32" using unsigned_less [of w, where ?'a = nat] by simp
  then have "unat w < 2 ^ 64" by simp
  then show ?thesis by (simp add: unsigned_ucast_eq take_bit_nat_eq_self)
qed

lemma maybe_roll_layout:
  assumes "part_inv p log"
  shows "\<exists>closed active recss recs. layout (maybe_roll p) closed active recss recs \<and> log = concat recss @ recs \<and>
           length recs < 2 ^ 31 \<and> length (frames recs) < 2 ^ 32"
proof -
  from assms obtain closed active recss recs where l: "layout p closed active recss recs"
    and log: "log = concat recss @ recs" and nxt: "pt_next p = of_nat (length (concat recss @ recs))"
    by (auto simp: part_inv_def)
  have segs: "last (pt_segments p) = active" using l by (simp add: layout_def)
  show ?thesis
  proof (cases "ucast (pt_maxSegBytes p) \<le> seg_size active")
    case False
    have "unat (seg_size active) < unat (ucast (pt_maxSegBytes p) :: u64)"
      using False by (simp add: word_less_nat_alt not_le)
    moreover have "unat (ucast (pt_maxSegBytes p) :: u64) < 2 ^ 32"
      using unsigned_less [of "pt_maxSegBytes p", where ?'a = nat] by (simp add: unat_ucast_u32_u64)
    moreover have "unat (seg_size active) = length (frames recs)"
      using active_size(1,2) [OF l] by simp
    ultimately have "length (frames recs) < 2 ^ 32" by linarith
    moreover from this have "length recs < 2 ^ 31" using length_frames [of recs] by simp
    ultimately show ?thesis using l log False segs by (auto simp: maybe_roll_def)
  next
    case True
    have "recs \<noteq> []"
    proof
      assume "recs = []"
      then have "seg_size active = 0" using active_size(1) [OF l] by simp
      moreover have "0 < pt_maxSegBytes p" using l by (simp add: layout_def)
      ultimately show False using True by (simp add: word_less_nat_alt word_le_nat_alt unat_ucast_u32_u64)
    qed
    from roll_segment_layout [OF l this nxt] obtain seg where
      "layout (roll_segment p (pt_next p)) (closed @ [active]) seg (recss @ [recs]) []" by blast
    then show ?thesis using log True segs
      by (intro exI [of _ "closed @ [active]"] exI [of _ seg] exI [of _ "recss @ [recs]"] exI [of _ "[]"])
        (simp add: maybe_roll_def)
  qed
qed

lemma stamp_records:
  "stamp_records n ts rs = (rs', n') \<Longrightarrow>
     n' = n + of_nat (length rs) \<and> length rs' = length rs \<and> contiguous n rs' \<and>
     length (frames rs') = length (frames rs) \<and> list_all record_ok rs' = list_all record_ok rs \<and>
     map rec_key rs' = map rec_key rs \<and> map rec_value rs' = map rec_value rs \<and> (\<forall>r \<in> set rs'. rec_timestamp r = ts)"
proof (induction n ts rs arbitrary: rs' n' rule: stamp_records.induct)
  case (2 n ts r rs)
  obtain rs1 n1 where s: "stamp_records (n + 1) ts rs = (rs1, n1)" by fastforce
  show ?case using "2.IH" [OF s] "2.prems" s by (auto simp: frame_size_def record_ok_def)
qed simp

lemma append_layouts:
  assumes inv: "part_inv p log" and rs: "batch_ok rs" "contiguous (of_nat (length log)) rs" "length log + length rs < 2 ^ 63"
  shows "\<exists>closed active seg recss recs. log = concat recss @ recs \<and> layout (maybe_roll p) closed active recss recs \<and>
    layout (append_active (maybe_roll p) rs) closed seg recss (recs @ rs)"
proof -
  obtain closed active recss recs where l: "layout (maybe_roll p) closed active recss recs"
    and log: "log = concat recss @ recs" and small: "length recs < 2 ^ 31" "length (frames recs) < 2 ^ 32"
    using maybe_roll_layout [OF inv] by blast
  obtain seg where "layout (append_active (maybe_roll p) rs) closed seg recss (recs @ rs)"
    using append_active_layout [OF l, of rs] rs small log by (auto simp: batch_ok_def)
  with l log show ?thesis by blast
qed

lemma append_active_inv:
  assumes "part_inv p log" "batch_ok rs" "contiguous (of_nat (length log)) rs" "length log + length rs < 2 ^ 63"
  shows "part_inv ((append_active (maybe_roll p) rs)\<lparr>pt_next := of_nat (length log + length rs)\<rparr>) (log @ rs)"
proof -
  obtain closed seg recss recs where log: "log = concat recss @ recs"
    and l: "layout (append_active (maybe_roll p) rs) closed seg recss (recs @ rs)"
    using append_layouts [OF assms] by blast
  show ?thesis
    using part_invI [of "(append_active (maybe_roll p) rs)\<lparr>pt_next := of_nat (length log + length rs)\<rparr>" closed seg recss "recs @ rs"] l
    by (simp add: log add.assoc)
qed

lemma append_active_next: "append_active (p\<lparr>pt_next := n\<rparr>) rs = (append_active p rs)\<lparr>pt_next := n\<rparr>"
  by (simp add: append_active_def split: prod.split)

lemma part_inv_hwm [simp]: "part_inv (p\<lparr>pt_hwm := h\<rparr>) log = part_inv p log"
  by (simp add: part_inv_def)

theorem pt_append_inv:
  assumes inv: "part_inv p log" and rs: "batch_ok rs" "length log + length rs < 2 ^ 63"
  shows "\<exists>p' rs'. pt_append p rs ts = (int (length log), p') \<and> part_inv p' (log @ rs') \<and>
    rs' = fst (stamp_records (of_nat (length log)) ts rs) \<and>
    (rs \<noteq> [] \<longrightarrow> pt_hwm p' = int (length (log @ rs')))"
proof (cases "rs = []")
  case True
  then show ?thesis using inv part_inv_next [OF inv] part_inv_bound [OF inv] by (simp add: pt_append_def)
next
  case False
  obtain rs' n' where s: "stamp_records (of_nat (length log)) ts rs = (rs', n')" by fastforce
  note st = stamp_records [OF s]
  let ?p' = "(append_active (maybe_roll p) rs')\<lparr>pt_next := of_nat (length log + length rs')\<rparr>"
  have p': "part_inv ?p' (log @ rs')"
    using st rs by (intro append_active_inv [OF inv]) (simp_all add: batch_ok_def)
  have sint: "sint (of_nat (length log + length rs) :: u64) = int (length log + length rs)"
    using rs(2) by (simp only: sint_of_nat_u64)
  have "pt_append p rs ts = (int (length log), ?p'\<lparr>pt_hwm := int (length log + length rs')\<rparr>)"
    using False s st sint part_inv_next [OF inv] part_inv_bound [OF inv]
    by (simp add: pt_append_def Let_def append_active_next split: prod.split)
  then show ?thesis using p' s by auto
qed

theorem append_replicated_inv:
  assumes inv: "part_inv p log" and rs: "batch_ok rs" "contiguous (of_nat (length log)) rs" "length log + length rs < 2 ^ 63"
  shows "part_inv (append_replicated p rs) (log @ rs)"
    and "pt_hwm (append_replicated p rs) = pt_hwm p"
proof -
  show "pt_hwm (append_replicated p rs) = pt_hwm p" by (simp add: append_replicated_def)
  show "part_inv (append_replicated p rs) (log @ rs)"
  proof (cases "rs = []")
    case True
    then show ?thesis using inv by (simp add: append_replicated_def)
  next
    case False
    then have "rec_offset (last rs) = of_nat (length log) + of_nat (length rs - 1)"
      using contiguous_nth [OF rs(2), of "length rs - 1"] by (simp add: last_conv_nth)
    then have "rec_offset (last rs) + 1 = of_nat (length log + length rs)"
      using False by (cases rs) simp_all
    then show ?thesis using False append_active_inv [OF inv rs] by (simp add: append_replicated_def)
  qed
qed

section \<open>Reading\<close>

text \<open>The longest prefix whose frames fit in \<open>room\<close> bytes.\<close>

fun byte_prefix :: "nat \<Rightarrow> log_record list \<Rightarrow> log_record list" where
  "byte_prefix room [] = []"
| "byte_prefix room (rec # recs) =
     (if frame_size rec \<le> room then rec # byte_prefix (room - frame_size rec) recs else [])"

text \<open>What a fetch of \<open>room\<close> bytes gets of the available records: a lone record may exceed the room.\<close>

definition fetch_spec :: "nat \<Rightarrow> log_record list \<Rightarrow> log_record list" where
  "fetch_spec room recs = (let xs = byte_prefix room recs in if xs = [] then take 1 recs else xs)"

definition log_slice :: "i64 \<Rightarrow> i64 \<Rightarrow> log_record list \<Rightarrow> log_record list" where
  "log_slice lo hi log = drop (nat lo) (take (nat hi) log)"

lemma byte_prefix_prefix: "prefix (byte_prefix room recs) recs"
  by (induction room recs rule: byte_prefix.induct) auto

lemma byte_prefix_fits: "length (frames (byte_prefix room recs)) \<le> room"
  by (induction room recs rule: byte_prefix.induct) auto

lemma byte_prefix_longest:
  "prefix xs recs \<Longrightarrow> length (frames xs) \<le> room \<Longrightarrow> prefix xs (byte_prefix room recs)"
proof (induction room recs arbitrary: xs rule: byte_prefix.induct)
  case (2 room rec recs)
  show ?case
  proof (cases xs)
    case (Cons x ys)
    with 2 show ?thesis by auto
  qed simp
qed simp

lemma fetch_spec_prefix: "prefix (fetch_spec room recs) recs"
  using byte_prefix_prefix [of room recs] take_is_prefix [of 1 recs] by (simp add: fetch_spec_def Let_def)

lemma fetch_spec_progress: "recs \<noteq> [] \<Longrightarrow> fetch_spec room recs \<noteq> []"
  by (simp add: fetch_spec_def Let_def)

lemma fetch_spec_alone: "room < length (frames (fetch_spec room recs)) \<Longrightarrow> length (fetch_spec room recs) = 1"
  using byte_prefix_fits [of room recs] by (cases recs) (auto simp: fetch_spec_def Let_def split: if_splits)

text \<open>The inner loop, on records that start at offset \<open>n\<close>.\<close>

definition offsets_from :: "nat \<Rightarrow> log_record list \<Rightarrow> bool" where
  "offsets_from n recs \<longleftrightarrow> contiguous (of_nat n) recs \<and> n + length recs < 2 ^ 63"

lemma offsets_from_Cons:
  "offsets_from n (rec # recs) \<Longrightarrow> sint (rec_offset rec) = int n \<and> offsets_from (Suc n) recs"
  by (auto simp: offsets_from_def add.commute)

text \<open>Every frame added to a full answer stays below \<open>2\<^sup>3\<^sup>2\<close>, so \<open>bytesUsed\<close> does not wrap.\<close>

definition no_wrap :: "u32 \<Rightarrow> log_record list \<Rightarrow> bool" where
  "no_wrap maxBytes recs \<longleftrightarrow> (\<forall>rec \<in> set recs. unat maxBytes + frame_size rec < 2 ^ 32)"

lemma take_records_skip:
  "offsets_from n recs \<Longrightarrow> int n \<le> start \<Longrightarrow>
     take_records start maxBytes clamp recs used res =
     take_records start maxBytes clamp (drop (nat start - n) recs) used res"
proof (induction recs arbitrary: n)
  case (Cons rec recs)
  note o = offsets_from_Cons [OF Cons.prems(1)]
  show ?case
  proof (cases "int n < start")
    case True
    then have "take_records start maxBytes clamp recs used res =
        take_records start maxBytes clamp (drop (nat start - Suc n) recs) used res"
      using o by (intro Cons.IH) auto
    moreover have "nat start - n = Suc (nat start - Suc n)" using True by simp
    ultimately show ?thesis using True o by simp
  qed (use Cons.prems in simp)
qed simp

lemma take_records_greedy:
  "offsets_from n recs \<Longrightarrow> start \<le> int n \<Longrightarrow> no_wrap maxBytes recs \<Longrightarrow> unat used \<le> unat maxBytes \<Longrightarrow>
     snd (snd (take_records start maxBytes clamp recs used res)) =
     (let xs = byte_prefix (unat maxBytes - unat used) (take (nat clamp - n) recs)
      in if res @ xs = [] then take 1 (take (nat clamp - n) recs) else res @ xs)"
proof (induction recs arbitrary: n used res)
  case (Cons rec recs)
  note o = offsets_from_Cons [OF Cons.prems(1)]
  have wrap: "unat maxBytes + frame_size rec < 2 ^ 32" "no_wrap maxBytes recs"
    using Cons.prems(3) by (simp_all add: no_wrap_def)
  have sz: "unat (of_nat (frame_size rec) :: u32) = frame_size rec" using wrap by simp
  have sum: "unat (used + of_nat (frame_size rec)) = unat used + frame_size rec"
    using wrap Cons.prems(4) sz by (subst unat_add_lem [THEN iffD1]) simp_all
  show ?case
  proof (cases "clamp \<le> int n")
    case True
    then show ?thesis using o Cons.prems(2) by simp
  next
    case False
    then have k: "nat clamp - n = Suc (nat clamp - Suc n)" by simp
    show ?thesis
    proof (cases "maxBytes < used + of_nat (frame_size rec)")
      case True
      then have "\<not> frame_size rec \<le> unat maxBytes - unat used"
        using sum Cons.prems(4) by (simp add: word_less_nat_alt)
      then show ?thesis using True False o Cons.prems(2) k by simp
    next
      case fits: False
      then have le: "unat used + frame_size rec \<le> unat maxBytes"
        using sum by (simp add: word_le_nat_alt not_less)
      let ?u = "used + of_nat (frame_size rec)" and ?room = "unat maxBytes - unat used"
      have step: "take_records start maxBytes clamp (rec # recs) used res =
          take_records start maxBytes clamp recs ?u (res @ [rec])"
        using fits False o Cons.prems(2) by (simp add: Let_def)
      have rest: "snd (snd (take_records start maxBytes clamp recs ?u (res @ [rec]))) =
          (res @ [rec]) @ byte_prefix (?room - frame_size rec) (take (nat clamp - Suc n) recs)"
        using Cons.IH [of "Suc n" ?u "res @ [rec]"] o wrap(2) sum le Cons.prems(2) by (simp add: diff_diff_left)
      have "frame_size rec \<le> ?room" using le by linarith
      then have bp: "byte_prefix ?room (take (nat clamp - n) (rec # recs)) =
          rec # byte_prefix (?room - frame_size rec) (take (nat clamp - Suc n) recs)"
        by (simp only: k take_Suc_Cons byte_prefix.simps if_True)
      show ?thesis unfolding step rest bp by (simp add: Let_def)
    qed
  qed
qed (simp add: Let_def)

lemma take_records_append:
  "take_records start maxBytes clamp (xs @ ys) used res =
     (case take_records start maxBytes clamp xs used res of
        (True, used', res') \<Rightarrow> (True, used', res')
      | (False, used', res') \<Rightarrow> take_records start maxBytes clamp ys used' res')"
  by (induction start maxBytes clamp xs used res rule: take_records.induct) (simp_all add: Let_def)

text \<open>All segments in a row, the active one last.\<close>

fun run_inv :: "files \<Rightarrow> nat \<Rightarrow> segment list \<Rightarrow> log_record list list \<Rightarrow> bool" where
  "run_inv fs n [] [] \<longleftrightarrow> True"
| "run_inv fs n (seg # segs) (recs # recss) \<longleftrightarrow>
     named (of_nat n) seg \<and> seg_inv fs seg recs \<and> (segs \<noteq> [] \<longrightarrow> recs \<noteq> []) \<and> run_inv fs (n + length recs) segs recss"
| "run_inv fs n _ _ \<longleftrightarrow> False"

lemma closed_run_inv:
  "closed_inv fs n closed recss \<Longrightarrow> named (of_nat (n + length (concat recss))) active \<Longrightarrow> seg_inv fs active recs \<Longrightarrow>
     run_inv fs n (closed @ [active]) (recss @ [recs])"
  by (induction fs n closed recss rule: closed_inv.induct) (auto simp: add.assoc)

lemma run_inv_bases:
  assumes "run_inv fs n (seg # segs) recss" "n + length (concat recss) < 2 ^ 63"
  shows "sint (seg_base seg) = int n"
  using assms by (cases recss) (auto dest!: namedD(3))

lemma run_inv_contiguous:
  "run_inv fs n segs recss \<Longrightarrow> contiguous (of_nat n) (concat recss)"
proof (induction fs n segs recss rule: run_inv.induct)
  case (2 fs n seg segs recs recss)
  then have "named (of_nat n) seg" "seg_inv fs seg recs" "contiguous (of_nat (n + length recs)) (concat recss)"
    by simp_all
  then show ?case
    by (auto simp: contiguous_append seg_inv_def files_inv_def namedD(3))
qed simp_all

lemma read_from_start:
  "seg_inv fs seg recs \<Longrightarrow> k \<le> length recs \<Longrightarrow> read_from fs seg 0 = recs"
  using read_from_position [of fs seg recs 0] by simp

lemma take_segments_rest:
  "run_inv fs n segs recss \<Longrightarrow>
     take_segments fs False start M clamp segs used res = snd (snd (take_records start M clamp (concat recss) used res))"
proof (induction fs n segs recss arbitrary: used res rule: run_inv.induct)
  case (2 fs n seg segs recs recss)
  have rd: "read_from fs seg 0 = recs" using "2.prems" by (intro read_from_start [of _ _ _ 0]) auto
  obtain b u r where t: "take_records start M clamp recs used res = (b, u, r)" by (metis prod_cases3)
  have "take_segments fs False start M clamp segs u r = snd (snd (take_records start M clamp (concat recss) u r))"
    using "2.prems" by (intro "2.IH") simp
  then show ?case by (simp add: rd t take_records_append split: bool.split)
qed simp_all

lemma take_segments_start:
  assumes inv: "run_inv fs n (seg # segs) (recs # recss)" and m: "m \<le> length recs"
    and rd: "read_from fs seg (if sint (seg_base seg) < start
        then find_start_position seg (ucast (word_of_int start - seg_base seg)) else 0) = drop m recs"
  shows "take_segments fs True start M clamp (seg # segs) used res =
    snd (snd (take_records start M clamp (drop m (concat (recs # recss))) used res))"
proof -
  obtain b u r where t: "take_records start M clamp (drop m recs) used res = (b, u, r)" by (metis prod_cases3)
  have "take_segments fs False start M clamp segs u r = snd (snd (take_records start M clamp (concat recss) u r))"
    using inv by (intro take_segments_rest) auto
  then show ?thesis using m by (simp add: rd t take_records_append Let_def split: bool.split)
qed

lemma start_position_read:
  assumes inv: "seg_inv fs seg recs" and nm: "named (of_nat n) seg"
    and start: "int n \<le> start" "start < int (n + length recs)" "n + length recs < 2 ^ 63"
  shows "\<exists>m \<le> nat start - n. read_from fs seg (if sint (seg_base seg) < start
        then find_start_position seg (ucast (word_of_int start - seg_base seg)) else 0) = drop m recs"
proof (cases "sint (seg_base seg) < start")
  case False
  then show ?thesis using read_from_start [OF inv order_refl] by (intro exI [of _ 0]) simp
next
  case True
  have "(word_of_int start :: u64) = of_nat (nat start)" using start(1) by simp
  also have "nat start = n + (nat start - n)" using start(1) by simp
  finally have "word_of_int start - seg_base seg = (of_nat (nat start - n) :: u64)"
    using namedD(3) [OF nm] by simp
  then have rel: "ucast (word_of_int start - seg_base seg) = (of_nat (nat start - n) :: u32)" by simp
  have "nat start - n < length recs" using start(1,2) by linarith
  from find_start_position_floor [OF inv this] obtain k where
    "k \<le> nat start - n" "find_start_position seg (of_nat (nat start - n)) = of_nat (length (frames (take k recs)))"
    by blast
  moreover from this(1) have "k \<le> length recs" using \<open>nat start - n < length recs\<close> by simp
  ultimately show ?thesis using True rel read_from_position [OF inv, of k] by (intro exI [of _ k]) simp
qed

text \<open>The segment that \<open>segment_for_offset\<close> picks holds the offset, and the read starts at or before it.\<close>

lemma take_segments_located:
  "run_inv fs n segs recss \<Longrightarrow> int n \<le> start \<Longrightarrow> start < int (n + length (concat recss)) \<Longrightarrow>
     n + length (concat recss) < 2 ^ 63 \<Longrightarrow>
     \<exists>m \<le> nat start - n. take_segments fs True start M clamp
         (drop (length (takeWhile (\<lambda>seg. \<not> start < sint (seg_base seg)) segs) - 1) segs) used res =
       snd (snd (take_records start M clamp (drop m (concat recss)) used res))"
proof (induction fs n segs recss rule: run_inv.induct)
  case (2 fs n seg segs recs recss)
  have nm: "named (of_nat n) seg" and si: "seg_inv fs seg recs" and run: "run_inv fs (n + length recs) segs recss"
    using "2.prems"(1) by auto
  have b: "\<not> start < sint (seg_base seg)"
    using run_inv_bases [OF "2.prems"(1,4)] "2.prems"(2) by simp
  show ?case
  proof (cases "start < int (n + length recs)")
    case True
    have "takeWhile (\<lambda>seg. \<not> start < sint (seg_base seg)) segs = []"
      using run_inv_bases [of fs "n + length recs" _ _ recss] run True "2.prems"(4) by (cases segs) auto
    then have z: "length (takeWhile (\<lambda>seg. \<not> start < sint (seg_base seg)) (seg # segs)) - 1 = 0" using b by simp
    obtain m where m: "m \<le> nat start - n" "read_from fs seg (if sint (seg_base seg) < start
        then find_start_position seg (ucast (word_of_int start - seg_base seg)) else 0) = drop m recs"
      using start_position_read [OF si nm "2.prems"(2) True] "2.prems"(4) by auto
    have "m \<le> length recs" using m(1) True "2.prems"(2) by linarith
    from take_segments_start [OF "2.prems"(1) this m(2)] m(1) show ?thesis unfolding z by auto
  next
    case False
    then obtain m where m: "m \<le> nat start - (n + length recs)" "take_segments fs True start M clamp
         (drop (length (takeWhile (\<lambda>seg. \<not> start < sint (seg_base seg)) segs) - 1) segs) used res =
       snd (snd (take_records start M clamp (drop m (concat recss)) used res))"
      using "2.IH" [OF run] "2.prems"(3,4) by auto
    obtain s ss where "segs = s # ss" using run False "2.prems"(3) by (cases segs; cases recss) auto
    moreover from this have "\<not> start < sint (seg_base s)"
      using run_inv_bases [of fs "n + length recs" s ss recss] run False "2.prems"(4) by simp
    ultimately have "drop (length (takeWhile (\<lambda>seg. \<not> start < sint (seg_base seg)) (seg # segs)) - 1) (seg # segs) =
        drop (length (takeWhile (\<lambda>seg. \<not> start < sint (seg_base seg)) segs) - 1) segs"
      using b by simp
    moreover have "m + length recs \<le> nat start - n" using m(1) False by linarith
    ultimately show ?thesis using m(2) by (intro exI [of _ "m + length recs"]) simp
  qed
qed simp_all

lemma offsets_from_drop: "offsets_from n recs \<Longrightarrow> m \<le> length recs \<Longrightarrow> offsets_from (n + m) (drop m recs)"
  using contiguous_append [of "of_nat n" "take m recs" "drop m recs"]
  by (simp add: offsets_from_def)

lemma no_wrap_drop: "no_wrap M recs \<Longrightarrow> no_wrap M (drop m recs)"
  by (auto simp: no_wrap_def dest: in_set_dropD)

lemma take_records_fetch:
  assumes "offsets_from n recs" "start \<le> int n" "no_wrap maxBytes recs"
  shows "snd (snd (take_records start maxBytes clamp recs 0 [])) = fetch_spec (unat maxBytes) (take (nat clamp - n) recs)"
  using take_records_greedy [OF assms, of 0 clamp "[]"] by (simp add: fetch_spec_def Let_def)

theorem read_clamped_spec:
  assumes inv: "part_inv p log" and clamp: "clamp \<le> int (length log)" and nw: "no_wrap maxBytes log"
  shows "read_clamped p start maxBytes clamp = fetch_spec (unat maxBytes) (log_slice start clamp log)"
proof (cases "clamp \<le> start")
  case True
  then have "log_slice start clamp log = []" by (auto simp: log_slice_def)
  then show ?thesis using True by (simp add: read_clamped_def fetch_spec_def)
next
  case False
  from inv obtain closed active recss recs where l: "layout p closed active recss recs"
    and log: "log = concat recss @ recs" by (auto simp: part_inv_def)
  let ?S = "pt_segments p" and ?R = "recss @ [recs]"
  have run: "run_inv (pt_files p) 0 ?S ?R" and ne: "?S \<noteq> []" and bound: "length (concat ?R) < 2 ^ 63"
    using l by (auto simp: layout_def intro: closed_run_inv)
  have cat: "concat ?R = log" using log by simp
  have off: "offsets_from 0 log"
    using run_inv_contiguous [OF run] bound by (simp only: offsets_from_def cat) simp
  obtain seg segs where S: "?S = seg # segs" using ne by (cases ?S) auto
  obtain recs0 recss' where R: "?R = recs0 # recss'" by (cases ?R) auto
  have base0: "sint (seg_base seg) = 0"
    using run_inv_bases [of "pt_files p" 0 seg segs ?R] run bound S by simp
  show ?thesis
  proof (cases "start \<le> 0")
    case True
    have "read_from (pt_files p) seg 0 = recs0" using run S R by (intro read_from_start [of _ _ _ 0]) auto
    then have "take_segments (pt_files p) True start maxBytes clamp ?S 0 [] =
        snd (snd (take_records start maxBytes clamp log 0 []))"
      using take_segments_start [of "pt_files p" 0 seg segs recs0 recss' 0 start maxBytes clamp 0 "[]"] run S R base0 True cat
      by simp
    then show ?thesis
      using False True base0 S take_records_fetch [OF off _ nw]
      by (simp add: read_clamped_def segment_for_offset_def log_slice_def)
  next
    case pos: False
    have lt: "start < int (length log)" using False clamp by simp
    obtain m where m: "m \<le> nat start" "take_segments (pt_files p) True start maxBytes clamp
         (drop (length (takeWhile (\<lambda>seg. \<not> start < sint (seg_base seg)) ?S) - 1) ?S) 0 [] =
       snd (snd (take_records start maxBytes clamp (drop m log) 0 []))"
      using take_segments_located [OF run _ _ _, of start maxBytes clamp 0 "[]"] pos lt bound cat by auto
    have "m \<le> length log" using m(1) lt by linarith
    then have offm: "offsets_from m (drop m log)" using offsets_from_drop [OF off, of m] by simp
    have "take_records start maxBytes clamp (drop m log) 0 [] = take_records start maxBytes clamp (drop (nat start) log) 0 []"
      using take_records_skip [OF offm] m(1) pos by simp
    moreover have "offsets_from (nat start) (drop (nat start) log)"
      using offsets_from_drop [OF off, of "nat start"] lt pos by simp
    ultimately show ?thesis
      using False pos base0 S m(2) take_records_fetch [OF _ _ no_wrap_drop [OF nw], of "nat start" "nat start" start clamp]
      by (simp add: read_clamped_def segment_for_offset_def log_slice_def drop_take)
  qed
qed

section \<open>Recovery\<close>

lemma closed_inv_strict:
  "closed_inv fs n closed recss \<Longrightarrow> n + length (concat recss) < 2 ^ 63 \<Longrightarrow>
     sorted_wrt (<) (map seg_base closed @ [of_nat (n + length (concat recss))])"
proof (induction fs n closed recss rule: closed_inv.induct)
  case (2 fs n seg segs recs recss)
  have lt: "(of_nat n :: u64) < of_nat k" if "n < k" "k \<le> n + length (concat (recs # recss))" for k
    using that "2.prems"(2) by (simp add: word_less_nat_alt)
  have IH: "sorted_wrt (<) (map seg_base segs @ [of_nat (n + length (concat (recs # recss)))])"
    using 2 by (simp add: add.assoc)
  have cl: "closed_inv fs (n + length recs) segs recss" "recs \<noteq> []" "seg_base seg = of_nat n"
    using "2.prems"(1) by (auto dest: namedD(3))
  have "of_nat n < seg_base s" if s: "s \<in> set segs" for s
  proof -
    obtain k where "n + length recs \<le> k" "k < n + length recs + length (concat recss)" "seg_base s = of_nat k"
      using closed_inv_bases [OF cl(1) s] by blast
    then show ?thesis using lt [of k] cl(2) by (cases recs) simp_all
  qed
  moreover have "(of_nat n :: u64) < of_nat (n + length (concat (recs # recss)))"
    using cl(2) by (intro lt) (cases recs, simp_all)
  ultimately show ?case using IH cl(3) by auto
qed simp_all

lemma load_indexes_inv:
  "closed_inv fs n segs recss \<Longrightarrow>
     \<exists>segs'. load_indexes fs (map named_segment (map seg_base segs)) = Inr segs' \<and>
       closed_inv fs n segs' recss \<and> map seg_base segs' = map seg_base segs"
proof (induction fs n segs recss rule: closed_inv.induct)
  case (2 fs n seg segs recs recss)
  then have nm: "named (of_nat n) seg" and inv: "seg_inv fs seg recs" by simp_all
  let ?s = "named_segment (of_nat n)"
  obtain ks where "files_inv fs seg ks recs" using inv by (auto simp: seg_inv_def)
  then have "files_inv fs ?s ks recs" by (simp add: files_inv_def namedD [OF nm])
  then obtain s' where s': "load_index fs ?s = Inr s'" "seg_inv fs s' recs" "same_segment ?s s'"
    using load_index_inv by blast
  obtain segs' where "load_indexes fs (map named_segment (map seg_base segs)) = Inr segs'"
    "closed_inv fs (n + length recs) segs' recss" "map seg_base segs' = map seg_base segs"
    using 2 by auto
  moreover have "named (of_nat n) s'" using s'(3) by (simp add: named_def)
  ultimately show ?case
    using 2 s' by (intro exI [of _ "s' # segs'"]) (simp add: namedD(3) [OF nm] namedD(3))
qed simp_all

lemma log_bases_sorted:
  assumes "omap_ok fs" and sub: "dom (map_of fs) \<subseteq> (\<Union>b \<in> set B. base_files b)"
    and logs: "\<And>b. b \<in> set B \<Longrightarrow> segment_base_name b @ ''.log'' \<in> dom (map_of fs)" and B: "sorted_wrt (<) B"
  shows "\<exists>bs. log_bases (map fst fs) = Inr bs \<and> sort bs = B"
proof -
  have names: "set (map fst fs) = dom (map_of fs)" by (simp add: dom_map_of_conv_image_fst)
  have "set (map fst fs) \<subseteq> (\<Union>b. base_files b)" unfolding names using sub by blast
  from log_bases_names [OF this omap_ok_distinct [OF assms(1)]] obtain bs where bs:
    "log_bases (map fst fs) = Inr bs" "distinct bs" "set bs = {b. segment_base_name b @ ''.log'' \<in> dom (map_of fs)}"
    unfolding names by blast
  have "b \<in> set B" if "segment_base_name b @ ''.log'' \<in> dom (map_of fs)" for b
  proof -
    have "segment_base_name b @ ''.log'' \<in> (\<Union>b \<in> set B. base_files b)" using sub that by (rule subsetD)
    then obtain b' where "b' \<in> set B" "segment_base_name b @ ''.log'' \<in> base_files b'" by (rule UN_E)
    then show ?thesis by (simp add: base_files_def)
  qed
  then have "set (sort bs) = set B" using logs bs(3) by (simp only: set_sort) blast
  then have "sort bs = B"
    using bs(2) B by (intro sorted_distinct_set_unique) (simp_all add: strict_sorted_iff)
  then show ?thesis using bs(1) by blast
qed

lemma names_of_bases: "(\<Union>seg \<in> set segs. base_files (seg_base seg)) = (\<Union>b \<in> set (map seg_base segs). base_files b)"
  by simp

text \<open>
  A directory that differs from the one of \<open>p\<close> in the files of the active segment only, whose log
  file still holds the frames of \<open>rs\<close> and then bytes that do not decode.
\<close>

definition cut_files :: "partition \<Rightarrow> segment \<Rightarrow> log_record list \<Rightarrow> files \<Rightarrow> bool" where
  "cut_files p active rs fs \<longleftrightarrow> omap_ok fs \<and>
     (\<forall>q. q \<notin> base_files (seg_base active) \<longrightarrow> map_of fs q = map_of (pt_files p) q) \<and>
     (\<exists>t. map_of fs (seg_log active) = Some (frames rs @ t) \<and> torn t)"

lemma layoutD:
  assumes "layout p closed active recss recs"
  shows "named (of_nat (length (concat recss))) active" "seg_base active = of_nat (length (concat recss))"
    "seg_inv (pt_files p) active recs" "closed_inv (pt_files p) 0 closed recss"
    "length (concat recss) + length recs < 2 ^ 63"
    "dom (map_of (pt_files p)) = (\<Union>b \<in> set (map seg_base (closed @ [active])). base_files b)"
  using assms namedD(3) [of "of_nat (length (concat recss))" active] by (simp_all add: layout_def)

lemma cut_files_same:
  assumes "cut_files p active rs fs" "q \<in> base_files b" "b \<noteq> seg_base active"
  shows "map_of fs q = map_of (pt_files p) q"
  using assms base_files_disjoint [OF assms(3)] by (auto simp: cut_files_def)

lemma cut_files_closed:
  assumes l: "layout p closed active recss recs" and cut: "cut_files p active rs fs"
  shows "closed_inv fs 0 closed recss"
proof (rule closed_inv_files_cong [OF layoutD(4) [OF l]])
  fix s q assume s: "s \<in> set closed" "q \<in> base_files (seg_base s)"
  have "seg_base s \<noteq> seg_base active"
    using closed_inv_fresh_base [OF layoutD(4) [OF l] order_refl _ s(1)] layoutD(2,5) [OF l] by simp
  then show "map_of fs q = map_of (pt_files p) q" by (rule cut_files_same [OF cut s(2)])
qed

lemma cut_files_bases:
  assumes l: "layout p closed active recss recs" and cut: "cut_files p active rs fs"
  shows "\<exists>bs. log_bases (map fst fs) = Inr bs \<and> sort bs = map seg_base (closed @ [active])"
proof (rule log_bases_sorted)
  let ?bases = "map seg_base (closed @ [active])"
  show "omap_ok fs" using cut by (simp add: cut_files_def)
  show "sorted_wrt (<) ?bases"
    using closed_inv_strict [OF layoutD(4) [OF l]] layoutD(2,5) [OF l] by simp
  show "dom (map_of fs) \<subseteq> (\<Union>b \<in> set ?bases. base_files b)"
  proof
    fix q assume q: "q \<in> dom (map_of fs)"
    show "q \<in> (\<Union>b \<in> set ?bases. base_files b)"
    proof (cases "q \<in> base_files (seg_base active)")
      case False
      then have "q \<in> dom (map_of (pt_files p))" using cut q by (simp add: cut_files_def domIff)
      then show ?thesis unfolding layoutD(6) [OF l] .
    qed simp
  qed
  fix b assume b: "b \<in> set ?bases"
  show "segment_base_name b @ ''.log'' \<in> dom (map_of fs)"
  proof (cases "b = seg_base active")
    case True
    then show ?thesis using cut layoutD(2) [OF l] by (auto simp: cut_files_def namedD(1) [OF layoutD(1) [OF l]])
  next
    case False
    have q: "segment_base_name b @ ''.log'' \<in> base_files b" by (simp add: base_files_def)
    then have "segment_base_name b @ ''.log'' \<in> dom (map_of (pt_files p))" using layoutD(6) [OF l] b by blast
    then show ?thesis using cut_files_same [OF cut q False] by (simp add: domIff)
  qed
qed

text \<open>The state that \<open>recover\<close> leaves, from the closed segments \<open>cs\<close> and the scanned one.\<close>

lemma recovered_layout:
  assumes l: "layout p closed active recss recs" and cut: "cut_files p active rs fs" and rs: "prefix rs recs"
    and cs: "closed_inv fs 0 cs recss" "map seg_base cs = map seg_base closed"
    and sc: "seg_inv fs' seg' rs" "same_segment (named_segment (seg_base active)) seg'"
      "files_frame (named_segment (seg_base active)) fs fs'" "omap_ok fs'"
    and p': "pt_files p' = fs'" "pt_segments p' = cs @ [seg']" "pt_maxSegBytes p' = pt_maxSegBytes p"
  shows "layout p' cs seg' recss rs"
proof -
  let ?b = "seg_base active"
  have bases: "map seg_base (cs @ [seg']) = map seg_base (closed @ [active])"
    using cs(2) same_segment_base [OF sc(2)] by simp
  have frame: "map_of fs' q = map_of fs q" if "q \<notin> base_files ?b" for q
    using that by (intro files_frameD [OF sc(3)]) (auto simp: base_files_def)
  have "closed_inv fs' 0 cs recss"
  proof (rule closed_inv_files_cong [OF cs(1)])
    fix s q assume s: "s \<in> set cs" "q \<in> base_files (seg_base s)"
    have "seg_base s \<noteq> ?b"
      using closed_inv_fresh_base [OF cs(1) order_refl _ s(1)] layoutD(2,5) [OF l] by simp
    from base_files_disjoint [OF this] show "map_of fs' q = map_of fs q" using s(2) by (intro frame) blast
  qed
  moreover have "dom (map_of fs') = (\<Union>seg \<in> set (pt_segments p'). base_files (seg_base seg))"
  proof -
    have "q \<in> dom (map_of fs') \<longleftrightarrow> q \<in> dom (map_of (pt_files p))" for q
    proof (cases "q \<in> base_files ?b")
      case True
      then have "q \<in> dom (map_of (pt_files p))" using layoutD(6) [OF l] by simp
      moreover have "q \<in> dom (map_of fs')"
        using sc(1,2) True by (auto simp: seg_inv_def files_inv_def same_segment_def base_files_def)
      ultimately show ?thesis by simp
    next
      case False
      then show ?thesis using frame cut by (simp add: cut_files_def domIff)
    qed
    then have "dom (map_of fs') = dom (map_of (pt_files p))" by (rule set_eqI)
    then show ?thesis unfolding names_of_bases p'(2) bases layoutD(6) [OF l] .
  qed
  moreover have "length (concat recss @ rs) < 2 ^ 63" "0 < pt_maxSegBytes p"
    using layoutD(5) [OF l] l prefix_length_le [OF rs] by (simp_all add: layout_def)
  ultimately show ?thesis
    using sc(1,2,4) layoutD(2) [OF l] unfolding layout_def named_def p' by (intro conjI) simp_all
qed

lemma recover_layout:
  assumes l: "layout p closed active recss recs" and cut: "cut_files p active rs fs" and rs: "prefix rs recs"
  shows "\<exists>p'. recover (new_partition fs (pt_maxSegBytes p)) = Inr p' \<and> part_inv p' (concat recss @ rs) \<and>
           pt_hwm p' = int (length (concat recss @ rs)) \<and> pt_maxSegBytes p' = pt_maxSegBytes p"
proof -
  let ?n = "length (concat recss)" and ?a = "named_segment (seg_base active)"
  note base = layoutD(2) [OF l]
  obtain bs where bs: "log_bases (map fst fs) = Inr bs" and sorted: "sort bs = map seg_base (closed @ [active])"
    using cut_files_bases [OF l cut] by blast
  obtain cs where cs: "load_indexes fs (map named_segment (map seg_base closed)) = Inr cs"
    "closed_inv fs 0 cs recss" "map seg_base cs = map seg_base closed"
    using load_indexes_inv [OF cut_files_closed [OF l cut]] by blast
  obtain us where us: "recs = rs @ us" using rs by (auto simp: prefix_def)
  have facts: "list_all record_ok rs" "contiguous (of_nat ?n) rs" "length rs < 2 ^ 32" "length (frames rs) < 2 ^ 63"
    using layoutD(3) [OF l] us by (auto simp: seg_inv_def files_inv_def contiguous_append base)
  obtain t where t: "map_of fs (seg_log ?a) = Some (frames rs @ t)" "torn t"
    using cut layoutD(1) [OF l] by (auto simp: cut_files_def namedD base)
  let ?lo = "if rs = [] then - 1 else sint (rec_offset (last rs))"
  obtain fs' seg' where sc: "scan_and_recover fs ?a = Inr (?lo, fs', seg')" "seg_inv fs' seg' rs"
    "same_segment ?a seg'" "files_frame ?a fs fs'"
    using scan_and_recover_torn [of ?a fs rs t] t facts by (auto simp: base)
  let ?next = "if 0 \<le> ?lo then word_of_int ?lo + 1 else seg_base seg'"
  let ?p' = "\<lparr>pt_files = fs', pt_maxSegBytes = pt_maxSegBytes p, pt_segments = cs @ [seg'], pt_next = ?next, pt_hwm = sint ?next\<rparr>"
  have next_eq: "?next = of_nat (length (concat recss @ rs))"
  proof (cases "rs = []")
    case True
    then show ?thesis using same_segment_base [OF sc(3)] by (simp add: base)
  next
    case False
    then have "rec_offset (last rs) = of_nat (?n + (length rs - 1))"
      using contiguous_nth [OF facts(2), of "length rs - 1"] by (simp add: last_conv_nth)
    moreover have "?n + (length rs - 1) < 2 ^ 63" using layoutD(5) [OF l] us by simp
    ultimately have "sint (rec_offset (last rs)) = int (?n + (length rs - 1))" by (simp only: sint_of_nat_u64)
    then have "?next = of_nat (?n + (length rs - 1)) + 1" using False by simp
    then show ?thesis using False by (cases rs) simp_all
  qed
  have "omap_ok fs" using cut by (simp add: cut_files_def)
  from scan_and_recover_ok [OF this sc(1)] have "layout ?p' cs seg' recss rs"
    by (intro recovered_layout [OF l cut rs cs(2,3) sc(2-4)]) simp_all
  then have "part_inv ?p' (concat recss @ rs)" using next_eq by (auto simp: part_inv_def)
  moreover from part_inv_bound [OF this] have "pt_hwm ?p' = int (length (concat recss @ rs))"
    by (simp only: partition.simps next_eq sint_of_nat_u64)
  moreover have "recover (new_partition fs (pt_maxSegBytes p)) = Inr ?p'"
    using bs cs(1) sc(1) by (simp add: recover_def new_partition_def sorted Let_def map_butlast)
  ultimately show ?thesis by (intro exI [of _ ?p'] conjI) (simp_all only: partition.simps)
qed

text \<open>
  A crash leaves the active log file cut to its first \<open>n\<close> bytes and the active index file missing or
  with any content.
\<close>

definition cut_active :: "partition \<Rightarrow> nat \<Rightarrow> bytes option \<Rightarrow> files" where
  "cut_active p n idx =
     (let a = last (pt_segments p);
          fs = omap_put (seg_log a) (take n (read_whole_file (pt_files p) (seg_log a))) (pt_files p)
      in case idx of None \<Rightarrow> omap_erase (seg_idx a) fs | Some d \<Rightarrow> omap_put (seg_idx a) d fs)"

definition active_base :: "partition \<Rightarrow> nat" where
  "active_base p = unat (seg_base (last (pt_segments p)))"

definition active_bytes :: "partition \<Rightarrow> bytes" where
  "active_bytes p = read_whole_file (pt_files p) (seg_log (last (pt_segments p)))"

lemma layout_active:
  assumes l: "layout p closed active recss recs"
  shows "last (pt_segments p) = active" "active_base p = length (concat recss)" "active_bytes p = frames recs"
    "take (active_base p) (concat recss @ recs) = concat recss" "drop (active_base p) (concat recss @ recs) = recs"
proof -
  show last: "last (pt_segments p) = active" using l by (simp add: layout_def)
  show base: "active_base p = length (concat recss)"
    using layoutD(2,5) [OF l] by (simp add: active_base_def last)
  show "take (active_base p) (concat recss @ recs) = concat recss" "drop (active_base p) (concat recss @ recs) = recs"
    by (simp_all add: base)
  show "active_bytes p = frames recs"
    using layoutD(3) [OF l] by (auto simp: active_bytes_def last read_whole_file_def seg_inv_def files_inv_def)
qed

lemma take_frames:
  "list_all record_ok recs \<Longrightarrow> \<exists>t. take n (frames recs) = frames (byte_prefix n recs) @ t \<and> torn t"
proof (induction n recs rule: byte_prefix.induct)
  case (1 n)
  then show ?case using torn_Nil by simp
next
  case (2 n rec recs)
  show ?case
  proof (cases "frame_size rec \<le> n")
    case True
    then show ?thesis using 2 by auto
  next
    case False
    let ?t = "take n (encode_record [] rec)"
    have "strict_prefix ?t (encode_record [] rec)"
    proof (rule prefix_order.le_neq_trans [OF take_is_prefix])
      have "length ?t \<noteq> length (encode_record [] rec)" using False by simp
      then show "?t \<noteq> encode_record [] rec" by metis
    qed
    then have "torn ?t" using "2.prems" by (intro torn_strict_prefix) simp_all
    then show ?thesis using False by simp
  qed
qed

lemma cut_active_files:
  assumes l: "layout p closed active recss recs"
  shows "cut_files p active (byte_prefix n recs) (cut_active p n idx)"
proof -
  have nm: "named (seg_base active) active" using layoutD(1,2) [OF l] by simp
  have "list_all record_ok recs" using layoutD(3) [OF l] by (auto simp: seg_inv_def files_inv_def)
  from take_frames [OF this] obtain t where t: "take n (frames recs) = frames (byte_prefix n recs) @ t" "torn t" by blast
  have ok: "omap_ok (pt_files p)" using l by (simp add: layout_def)
  have fs: "cut_active p n idx = (let fs = omap_put (seg_log active) (frames (byte_prefix n recs) @ t) (pt_files p)
      in case idx of None \<Rightarrow> omap_erase (seg_idx active) fs | Some d \<Rightarrow> omap_put (seg_idx active) d fs)"
    using layout_active(1,3) [OF l] t(1) by (simp add: cut_active_def active_bytes_def)
  have ne: "seg_log active \<noteq> seg_idx active" by (simp add: namedD(1,2) [OF nm])
  show ?thesis
    unfolding cut_files_def fs
    using t(2) ok ne by (cases idx) (auto simp: base_files_def namedD(1,2) [OF nm])
qed

lemma recover_cut:
  assumes "part_inv p log"
  shows "\<exists>p'. recover (new_partition (cut_active p n idx) (pt_maxSegBytes p)) = Inr p' \<and>
    part_inv p' (take (active_base p) log @ byte_prefix n (drop (active_base p) log)) \<and>
    pt_hwm p' = int (length (take (active_base p) log @ byte_prefix n (drop (active_base p) log)))"
proof -
  from assms obtain closed active recss recs where l: "layout p closed active recss recs"
    and log: "log = concat recss @ recs" by (auto simp: part_inv_def)
  show ?thesis
    using recover_layout [OF l cut_active_files [OF l] byte_prefix_prefix, of n idx]
    unfolding log layout_active(4,5) [OF l] by blast
qed

lemma byte_prefix_all: "length (frames recs) \<le> n \<Longrightarrow> byte_prefix n recs = recs"
  using byte_prefix_longest [of recs recs n] byte_prefix_prefix [of n recs] by (simp add: prefix_order.eq_iff)

lemma byte_prefix_append:
  "length (frames xs) \<le> n \<Longrightarrow> byte_prefix n (xs @ ys) = xs @ byte_prefix (n - length (frames xs)) ys"
proof (induction n xs rule: byte_prefix.induct)
  case (2 n rec recs)
  then show ?case by (simp add: diff_diff_left)
qed simp

lemma recover_clean:
  assumes "part_inv p log"
  shows "\<exists>p'. recover (new_partition (pt_files p) (pt_maxSegBytes p)) = Inr p' \<and> part_inv p' log \<and>
    pt_hwm p' = int (length log)"
proof -
  from assms obtain closed active recss recs where l: "layout p closed active recss recs"
    and log: "log = concat recss @ recs" by (auto simp: part_inv_def)
  have "cut_files p active recs (pt_files p)"
    using l layoutD(3) [OF l] torn_Nil
    by (auto simp: cut_files_def layout_def seg_inv_def files_inv_def intro!: exI [of _ "[]"])
  from recover_layout [OF l this] show ?thesis by (auto simp: log)
qed

lemma recover_fresh:
  assumes "0 < maxSegBytes"
  shows "\<exists>p'. recover (new_partition [] maxSegBytes) = Inr p' \<and> part_inv p' [] \<and> pt_hwm p' = 0 \<and>
    pt_maxSegBytes p' = maxSegBytes \<and> active_base p' = 0"
proof -
  obtain fs seg where c: "create_empty [] (named_segment 0) = (fs, seg)" by fastforce
  have i: "seg_inv fs seg [] \<and> same_segment (named_segment 0) seg \<and> files_frame (named_segment 0) [] fs"
    by (rule create_empty_inv [OF _ _ _ c]) simp_all
  have d: "omap_ok fs \<and> dom (map_of fs) = base_files 0"
    using create_empty_files [OF _ c] by (simp add: base_files_def)
  let ?p' = "\<lparr>pt_files = fs, pt_maxSegBytes = maxSegBytes, pt_segments = [seg], pt_next = 0, pt_hwm = 0\<rparr>"
  have "layout ?p' [] seg [] []"
    using i d assms same_segment_base [of "named_segment 0" seg] by (simp add: layout_def named_def)
  from part_invI [OF this] layout_active(2) [OF this] have "part_inv ?p' []" "active_base ?p' = 0" by simp_all
  then show ?thesis by (simp add: recover_def new_partition_def roll_segment_def c)
qed

text \<open>A crash inside an append: what was there before is kept, and a prefix of the batch.\<close>

lemma pt_append_state:
  assumes "part_inv p log" "rs \<noteq> []"
  shows "snd (pt_append p rs ts) = (append_active (maybe_roll p) (fst (stamp_records (of_nat (length log)) ts rs)))
    \<lparr>pt_next := of_nat (length log + length rs), pt_hwm := sint (of_nat (length log + length rs) :: u64)\<rparr>"
  using assms part_inv_next [OF assms(1)] stamp_records [of "of_nat (length log)" ts rs]
  by (auto simp: pt_append_def Let_def append_active_next split: prod.split)

lemma active_bytes_update [simp]:
  "active_bytes (p\<lparr>pt_next := n\<rparr>) = active_bytes p" "active_bytes (p\<lparr>pt_hwm := h\<rparr>) = active_bytes p"
  "active_base (p\<lparr>pt_next := n\<rparr>) = active_base p" "active_base (p\<lparr>pt_hwm := h\<rparr>) = active_base p"
  by (simp_all add: active_bytes_def active_base_def)

lemma recover_cut_append_exact:
  assumes inv: "part_inv p log" and rs: "batch_ok rs" "length log + length rs < 2 ^ 63" "rs \<noteq> []"
    and n: "length (active_bytes (maybe_roll p)) \<le> n"
    and kept: "kept = byte_prefix (n - length (active_bytes (maybe_roll p))) (fst (stamp_records (of_nat (length log)) ts rs))"
  shows "\<exists>p'. recover (new_partition (cut_active (snd (pt_append p rs ts)) n idx) (pt_maxSegBytes p)) = Inr p' \<and>
    part_inv p' (log @ kept) \<and> pt_hwm p' = int (length (log @ kept))"
proof -
  obtain rs' n' where s: "stamp_records (of_nat (length log)) ts rs = (rs', n')" by fastforce
  note st = stamp_records [OF s]
  let ?p1 = "snd (pt_append p rs ts)"
  have ok: "batch_ok rs'" "contiguous (of_nat (length log)) rs'" "length log + length rs' < 2 ^ 63"
    using st rs by (simp_all add: batch_ok_def)
  obtain closed active seg recss recs where log: "log = concat recss @ recs"
    and l: "layout (maybe_roll p) closed active recss recs" and l1: "layout (append_active (maybe_roll p) rs') closed seg recss (recs @ rs')"
    using append_layouts [OF inv ok] by blast
  have p1: "?p1 = (append_active (maybe_roll p) rs')\<lparr>pt_next := of_nat (length log + length rs), pt_hwm := sint (of_nat (length log + length rs) :: u64)\<rparr>"
    using pt_append_state [OF inv rs(3)] s by simp
  have max: "pt_maxSegBytes ?p1 = pt_maxSegBytes p" by (simp add: p1)
  have l2: "layout ?p1 closed seg recss (recs @ rs')" using l1 by (simp add: p1)
  then have "part_inv ?p1 (concat recss @ recs @ rs')"
    using st log by (intro part_invI) (simp_all add: p1)
  from recover_cut [OF this, of n idx] obtain p' where p': "recover (new_partition (cut_active ?p1 n idx) (pt_maxSegBytes p)) = Inr p'"
    "part_inv p' (concat recss @ byte_prefix n (recs @ rs'))" "pt_hwm p' = int (length (concat recss @ byte_prefix n (recs @ rs')))"
    unfolding max layout_active(4,5) [OF l2] by blast
  have "byte_prefix n (recs @ rs') = recs @ byte_prefix (n - length (frames recs)) rs'"
    using n layout_active(3) [OF l] by (intro byte_prefix_append) simp
  with p' log s layout_active(3) [OF l] show ?thesis by (auto simp: kept)
qed

lemma recover_cut_append:
  assumes "part_inv p log" "batch_ok rs" "length log + length rs < 2 ^ 63" "rs \<noteq> []"
    and "length (active_bytes (maybe_roll p)) \<le> n"
  shows "\<exists>p' acked. recover (new_partition (cut_active (snd (pt_append p rs ts)) n idx) (pt_maxSegBytes p)) = Inr p' \<and>
    prefix acked (fst (stamp_records (of_nat (length log)) ts rs)) \<and> part_inv p' (log @ acked) \<and>
    pt_hwm p' = int (length (log @ acked))"
  using recover_cut_append_exact [OF assms refl, of ts idx] byte_prefix_prefix by blast

text \<open>Damage inside a frame of the active log file that the checksum sees.\<close>

definition damaged_frame :: "log_record \<Rightarrow> bytes \<Rightarrow> bytes" where
  "damaged_frame rec body =
     put_u32 (put_u32 [] (of_nat (4 + length (record_body rec)))) (crc32 (record_body rec)) @ body"

lemma decode_damaged:
  assumes "record_ok rec" "length body = length (record_body rec)" "crc32 body \<noteq> crc32 (record_body rec)"
    and r: "unread r = damaged_frame rec body @ rest"
  shows "decode_record r = Inl CrcMismatch"
proof -
  let ?frame = "put_u32 [] (crc32 (record_body rec)) @ body"
  have len: "length ?frame = 4 + length (record_body rec)" "length ?frame < 2 ^ 32"
    using assms(1,2) frame_size_ge [of rec] by (simp_all add: length_record_body record_ok_def)
  have "decode_record r = bindE (decode_frame ?frame) (\<lambda>rec. Inr (rec, advance r (4 + length ?frame)))"
    using r len by (intro decode_record_framed [where rest = rest]) (simp_all add: damaged_frame_def put_apps)
  then show ?thesis using decode_frame_corrupt [OF assms(2,3)] by simp
qed

lemma torn_damaged:
  assumes "record_ok rec" "length body = length (record_body rec)" "crc32 body \<noteq> crc32 (record_body rec)"
  shows "torn (damaged_frame rec body @ rest)"
  using decode_damaged [OF assms] by (auto simp: torn_def)

definition replace_active :: "partition \<Rightarrow> bytes \<Rightarrow> files" where
  "replace_active p d = omap_put (seg_log (last (pt_segments p))) d (pt_files p)"

lemma recover_damaged:
  assumes "part_inv p log" and rec: "drop (active_base p) log = rs @ rec # us"
    and body: "length body = length (record_body rec)" "crc32 body \<noteq> crc32 (record_body rec)"
  shows "\<exists>p'. recover (new_partition (replace_active p (frames rs @ damaged_frame rec body @ rest)) (pt_maxSegBytes p)) = Inr p' \<and>
    part_inv p' (take (active_base p) log @ rs) \<and> pt_hwm p' = int (length (take (active_base p) log @ rs))"
proof -
  from assms(1) obtain closed active recss recs where l: "layout p closed active recss recs"
    and log: "log = concat recss @ recs" by (auto simp: part_inv_def)
  have recs: "recs = rs @ rec # us" using rec unfolding log layout_active(5) [OF l] .
  then have "record_ok rec" using layoutD(3) [OF l] by (auto simp: seg_inv_def files_inv_def)
  from torn_damaged [OF this body] have t: "torn (damaged_frame rec body @ rest)" .
  have nm: "named (seg_base active) active" using layoutD(1,2) [OF l] by simp
  have "cut_files p active rs (replace_active p (frames rs @ damaged_frame rec body @ rest))"
    using t l unfolding cut_files_def replace_active_def layout_active(1) [OF l]
    by (auto simp: layout_def base_files_def namedD(1,2) [OF nm] intro!: omap_ok_put)
  from recover_layout [OF l this] show ?thesis
    unfolding log layout_active(4) [OF l] using recs by auto
qed

lemma active_base_append:
  assumes inv: "part_inv p log" and rs: "batch_ok rs" "length log + length rs < 2 ^ 63"
    and few: "length (active_bytes p) < unat (pt_maxSegBytes p)"
  shows "active_base (snd (pt_append p rs ts)) = active_base p"
proof (cases "rs = []")
  case True
  then show ?thesis by (simp add: pt_append_def)
next
  case False
  obtain rs' n' where s: "stamp_records (of_nat (length log)) ts rs = (rs', n')" by fastforce
  note st = stamp_records [OF s]
  from inv obtain closed active recss recs where l: "layout p closed active recss recs" by (auto simp: part_inv_def)
  have "seg_size active < ucast (pt_maxSegBytes p)"
    using few layout_active(3) [OF l] active_size(1,2) [OF l]
    by (simp add: word_less_nat_alt unat_ucast_u32_u64)
  then have roll: "maybe_roll p = p" using layout_active(1) [OF l] by (simp add: maybe_roll_def)
  have "active_base (append_active p rs') = active_base p"
  proof -
    have "batch_ok rs'" "contiguous (of_nat (length log)) rs'" "length log + length rs' < 2 ^ 63"
      using st rs by (simp_all add: batch_ok_def)
    from append_layouts [OF inv this] obtain c a s R r where "layout p c a R r" "layout (append_active p rs') c s R (r @ rs')"
      unfolding roll by blast
    then show ?thesis by (simp only: layout_active(2))
  qed
  then show ?thesis using pt_append_state [OF inv False] s roll by simp
qed

lemma part_inv_offset:
  assumes "part_inv p log" "i < length log"
  shows "sint (rec_offset (log ! i)) = int i"
proof -
  from assms(1) obtain closed active recss recs where l: "layout p closed active recss recs"
    and log: "log = concat recss @ recs" by (auto simp: part_inv_def)
  have "run_inv (pt_files p) 0 (closed @ [active]) (recss @ [recs])"
    using layoutD(1,3,4) [OF l] by (intro closed_run_inv) simp_all
  from run_inv_contiguous [OF this] have "contiguous 0 log" by (simp add: log)
  from contiguous_nth [OF this assms(2)] have "rec_offset (log ! i) = of_nat i" by simp
  moreover have "i < 2 ^ 63" using part_inv_bound [OF assms(1)] assms(2) by simp
  ultimately show ?thesis by (simp only: sint_of_nat_u64)
qed

lemma part_inv_leo: "part_inv p log \<Longrightarrow> log_end_offset p = int (length log)"
  unfolding log_end_offset_def by (rule conjunct2 [OF part_inv_next])

end
