(* ===== verification/SamplePartition.thy ===== *)
theory SamplePartition
  imports PartitionSpec
begin

text \<open>
  A small partition for concrete instances of the properties: two records appended to a fresh log.
\<close>

unbundle bit_operations_syntax

section \<open>A small partition\<close>

definition demo_records :: "log_record list" where
  "demo_records =
     [\<lparr>rec_offset = 0, rec_timestamp = 0, rec_key = [1], rec_value = [2, 3]\<rparr>,
      \<lparr>rec_offset = 0, rec_timestamp = 0, rec_key = [4], rec_value = []\<rparr>]"

definition demo_log :: "log_record list" where
  "demo_log =
     [\<lparr>rec_offset = 0, rec_timestamp = 7, rec_key = [1], rec_value = [2, 3]\<rparr>,
      \<lparr>rec_offset = 1, rec_timestamp = 7, rec_key = [4], rec_value = []\<rparr>]"

definition demo_fresh :: partition where
  "demo_fresh = projr (recover (new_partition [] 4096))"

definition demo_partition :: partition where
  "demo_partition = snd (pt_append demo_fresh demo_records 7)"

lemma demo_fresh:
  "part_inv demo_fresh []" "pt_maxSegBytes demo_fresh = 4096" "active_base demo_fresh = 0"
  using recover_fresh [of 4096] by (auto simp: demo_fresh_def)

lemma demo_fresh_bytes: "active_bytes demo_fresh = []"
proof -
  obtain c a R r where l: "layout demo_fresh c a R r" "concat R @ r = []"
    using demo_fresh(1) by (auto simp: part_inv_def)
  then show ?thesis using layout_active(3) [OF l(1)] by simp
qed

lemma demo_batch: "batch_ok demo_records" "length demo_records = 2" "demo_records \<noteq> []"
  "stamp_records 0 7 demo_records = (demo_log, 2)"
  by (simp_all add: batch_ok_def demo_records_def demo_log_def record_ok_def frame_size_def)

lemma demo_partition:
  "part_inv demo_partition demo_log" "pt_hwm demo_partition = 2" "pt_maxSegBytes demo_partition = 4096"
  "active_base demo_partition = 0"
proof -
  have "length demo_log = 2" by (simp add: demo_log_def)
  then show "part_inv demo_partition demo_log" "pt_hwm demo_partition = 2"
    using pt_append_inv [OF demo_fresh(1) demo_batch(1), of 7] demo_batch(2-4) by (auto simp: demo_partition_def)
  show "pt_maxSegBytes demo_partition = 4096"
    using pt_append_state [OF demo_fresh(1) demo_batch(3), of 7] demo_fresh(2) by (simp add: demo_partition_def)
  show "active_base demo_partition = 0"
    using active_base_append [OF demo_fresh(1) demo_batch(1), of 7] demo_fresh(2,3) demo_fresh_bytes demo_batch(2)
    by (simp add: demo_partition_def)
qed

lemma demo_log_ok:
  "list_all record_ok demo_log" "contiguous 0 demo_log" "length demo_log = 2" "length (frames demo_log) = 68"
  "demo_log \<noteq> []" "rec_offset (last demo_log) = 1"
  by (simp_all add: demo_log_def record_ok_def frame_size_def)

end
