(* ===== verification/Murmur2.thy ===== *)
theory Murmur2
  imports Prelude
begin

text \<open>
  Kafka's 32-bit MurmurHash2 (\<open>src/common/murmur2.cpp\<close>) and the routing rule built on it,
  \<open>partition_for_key\<close> of \<open>cli/mk-produce.cpp\<close>. The index loop of the code is proved equal to
  a recursion over the blocks of the input.
\<close>

unbundle bit_operations_syntax

definition murmur_seed :: u32 where
  "murmur_seed = 0x9747b28c"

definition murmur_m :: u32 where
  "murmur_m = 0x5bd1e995"

definition murmur_block :: "bytes \<Rightarrow> nat \<Rightarrow> u32" where
  "murmur_block data i4 =
     ucast (data ! i4) OR push_bit 8 (ucast (data ! (i4 + 1))) OR
     push_bit 16 (ucast (data ! (i4 + 2))) OR push_bit 24 (ucast (data ! (i4 + 3)))"

definition murmur_round :: "u32 \<Rightarrow> u32 \<Rightarrow> u32" where
  "murmur_round h k =
     (let k = k * murmur_m;
          k = k XOR drop_bit 24 k;
          k = k * murmur_m;
          h = h * murmur_m
      in h XOR k)"

text \<open>The \<open>switch\<close> on the tail, with its fall-through cases.\<close>

definition murmur_tail :: "u32 \<Rightarrow> bytes \<Rightarrow> nat \<Rightarrow> u32" where
  "murmur_tail h data tailStart =
     (let h3 = h XOR push_bit 16 (ucast (data ! (tailStart + 2)));
          h2 = (if length data mod 4 = 3 then h3 else h) XOR push_bit 8 (ucast (data ! (tailStart + 1)));
          h1 = (if length data mod 4 \<ge> 2 then h2 else h) XOR ucast (data ! tailStart)
      in if length data mod 4 = 0 then h else h1 * murmur_m)"

definition murmur_final :: "u32 \<Rightarrow> u32" where
  "murmur_final h =
     (let h = h XOR drop_bit 13 h;
          h = h * murmur_m
      in h XOR drop_bit 15 h)"

definition murmur2 :: "bytes \<Rightarrow> int" where
  "murmur2 data =
     (let h = murmur_seed XOR of_nat (length data);
          length4 = length data div 4;
          h = foldl (\<lambda>h i. murmur_round h (murmur_block data (i * 4))) h [0..<length4];
          h = murmur_tail h data (length4 * 4)
      in sint (murmur_final h))"

text \<open>\<open>partition_for_key\<close>; the code divides, so it needs a positive partition count.\<close>

definition partition_for_key :: "bytes \<Rightarrow> u32 \<Rightarrow> u32" where
  "partition_for_key key partitionCount =
     word_of_int (murmur2 key AND 0x7fffffff) mod partitionCount"

section \<open>A block-by-block reading\<close>

fun murmur_blocks :: "u32 \<Rightarrow> bytes \<Rightarrow> u32" where
  "murmur_blocks h (a # b # c # d # rest) =
     murmur_blocks (murmur_round h
       (ucast a OR push_bit 8 (ucast b) OR push_bit 16 (ucast c) OR push_bit 24 (ucast d))) rest"
| "murmur_blocks h [a, b, c] =
     (((h XOR push_bit 16 (ucast c)) XOR push_bit 8 (ucast b)) XOR ucast a) * murmur_m"
| "murmur_blocks h [a, b] = ((h XOR push_bit 8 (ucast b)) XOR ucast a) * murmur_m"
| "murmur_blocks h [a] = (h XOR ucast a) * murmur_m"
| "murmur_blocks h [] = h"

lemma upt_shift: "[0..<Suc n] = 0 # map Suc [0..<n]"
  by (simp add: upt_conv_Cons map_Suc_upt)

lemma murmur_loop_blocks:
  "murmur_tail (foldl (\<lambda>h i. murmur_round h (murmur_block data (i * 4))) h [0..<length data div 4])
     data (length data div 4 * 4) = murmur_blocks h data"
proof (induction h data rule: murmur_blocks.induct)
  case (1 h a b c d rest)
  let ?data = "a # b # c # d # rest"
  have len: "length ?data div 4 = Suc (length rest div 4)" by simp
  have blk: "murmur_block ?data (Suc i * 4) = murmur_block rest (i * 4)" for i
    by (simp add: murmur_block_def add.commute [of 3])
  have tl: "murmur_tail g ?data (Suc n * 4) = murmur_tail g rest (n * 4)" for g n
    by (simp add: murmur_tail_def)
  show ?case
    using "1.IH" by (simp only: len upt_shift foldl.simps foldl_map tl blk) (simp add: murmur_block_def)
qed (simp_all add: murmur_tail_def)

lemma murmur2_blocks:
  "murmur2 data = sint (murmur_final (murmur_blocks (murmur_seed XOR of_nat (length data)) data))"
  by (simp add: murmur2_def murmur_loop_blocks Let_def)

lemma in_i32_murmur2: "- (2 ^ 31) \<le> murmur2 data" "murmur2 data < 2 ^ 31"
  using sint_range_size [of "murmur_final h" for h] unfolding murmur2_blocks
  by (auto simp: word_size)

end
