(* ===== verification/StorageProps.thy ===== *)
theory StorageProps
  imports SamplePartition PartitionSpec Murmur2
begin

text \<open>
  The properties of the storage layer: crash recovery, reads, appends, record frames, checksum and
  hash. Each is followed by an instance on a small partition: two records appended to a fresh one.
\<close>

unbundle bit_operations_syntax

section \<open>Recovery\<close>

text \<open>C4: after a crash that left the active log file cut at any byte and its index file missing or
  arbitrary, \<open>Partition::recover\<close> succeeds and holds exactly the records of the closed segments and
  the longest prefix of whole records that the cut file contains; the high watermark is the end of
  that log.\<close>

theorem crash_recovery:
  assumes "part_inv p log"
  shows "\<exists>p'. recover (new_partition (cut_active p n idx) (pt_maxSegBytes p)) = Inr p' \<and>
    part_inv p' (take (active_base p) log @ byte_prefix n (drop (active_base p) log)) \<and>
    pt_hwm p' = int (length (take (active_base p) log @ byte_prefix n (drop (active_base p) log)))"
  using assms by (rule recover_cut)

theorem crash_recovery_witness:
  "\<exists>p'. recover (new_partition (cut_active demo_partition 50 None) 4096) = Inr p' \<and>
     part_inv p' [hd demo_log] \<and> pt_hwm p' = 1"
  using crash_recovery [OF demo_partition(1), of 50 None] demo_partition(3,4)
  by (simp add: demo_log_def frame_size_def)

text \<open>C20: a crash during \<open>Partition::append\<close> (the active log file is cut at or after the point where the
  append began to write, the index file is arbitrary) loses no record that was there before: recovery
  returns the old log followed by a prefix of the batch.\<close>

theorem append_crash_keeps_log:
  assumes "part_inv p log" "batch_ok rs" "length log + length rs < 2 ^ 63" "rs \<noteq> []"
    and "length (active_bytes (maybe_roll p)) \<le> n"
  shows "\<exists>p' kept. recover (new_partition (cut_active (snd (pt_append p rs ts)) n idx) (pt_maxSegBytes p)) = Inr p' \<and>
    prefix kept (fst (stamp_records (of_nat (length log)) ts rs)) \<and> part_inv p' (log @ kept) \<and>
    pt_hwm p' = int (length (log @ kept))"
  using assms by (rule recover_cut_append)

lemma demo_roll: "maybe_roll demo_fresh = demo_fresh"
proof -
  obtain c a R r where l: "layout demo_fresh c a R r" "concat R @ r = []"
    using demo_fresh(1) by (auto simp: part_inv_def)
  then show ?thesis
    using layout_active(1) [OF l(1)] active_size(1) [OF l(1)] demo_fresh(2) by (simp add: maybe_roll_def)
qed

theorem append_crash_keeps_log_witness:
  "\<exists>p' kept. recover (new_partition (cut_active (snd (pt_append demo_fresh demo_records 7)) 40 (Some [9])) 4096) = Inr p' \<and>
     prefix kept demo_log \<and> part_inv p' kept \<and> pt_hwm p' = int (length kept)"
  using append_crash_keeps_log [OF demo_fresh(1) demo_batch(1) _ demo_batch(3), of 40 7 "Some [9]"]
  by (simp add: demo_batch demo_fresh demo_roll demo_fresh_bytes)

text \<open>C36: damage to a frame of the active log file inside a window of at most four bytes of its body is
  found by the checksum: recovery keeps exactly the records before the damaged one, whatever follows it.\<close>

theorem recovery_stops_at_damage:
  assumes "part_inv p log" "drop (active_base p) log = rs @ rec # us"
    and "record_body rec = pre @ u @ post" "length u = length v" "length u \<le> 4" "u \<noteq> v"
  shows "\<exists>p'. recover (new_partition
        (replace_active p (frames rs @ damaged_frame rec (pre @ v @ post) @ rest)) (pt_maxSegBytes p)) = Inr p' \<and>
    part_inv p' (take (active_base p) log @ rs) \<and> pt_hwm p' = int (length (take (active_base p) log @ rs))"
proof (rule recover_damaged [OF assms(1,2)])
  show "length (pre @ v @ post) = length (record_body rec)" using assms(3,4) by simp
  show "crc32 (pre @ v @ post) \<noteq> crc32 (record_body rec)"
    using crc32_window [OF assms(4-6)] assms(3) by metis
qed

theorem recovery_stops_at_damage_witness:
  "\<exists>p'. recover (new_partition (replace_active demo_partition (frames [hd demo_log] @
        damaged_frame (demo_log ! 1) (take 20 (record_body (demo_log ! 1)) @ [5] @ [0, 0, 0, 0]) @ [])) 4096) = Inr p' \<and>
     part_inv p' [hd demo_log] \<and> pt_hwm p' = 1"
proof -
  have "drop 0 demo_log = [hd demo_log] @ (demo_log ! 1) # []" by (simp add: demo_log_def)
  moreover have "record_body (demo_log ! 1) = take 20 (record_body (demo_log ! 1)) @ [4] @ [0, 0, 0, 0]"
    by (simp add: record_body_def demo_log_def put_u64_def put_u32_def put_blob_def put_u8_def put_bytes_def)
  ultimately show ?thesis
    using recovery_stops_at_damage [OF demo_partition(1), of "[hd demo_log]" "demo_log ! 1" "[]"
        "take 20 (record_body (demo_log ! 1))" "[4]" "[0, 0, 0, 0]" "[5]" "[]"] demo_partition(3,4)
    by simp
qed

text \<open>A restart on the files as they are gives back the same log, and a start in an empty directory
  the empty log.\<close>

theorem clean_restart:
  assumes "part_inv p log"
  shows "\<exists>p'. recover (new_partition (pt_files p) (pt_maxSegBytes p)) = Inr p' \<and> part_inv p' log \<and>
    log_end_offset p' = int (length log) \<and> high_watermark p' = int (length log)"
proof -
  obtain p' where "recover (new_partition (pt_files p) (pt_maxSegBytes p)) = Inr p'" "part_inv p' log" "pt_hwm p' = int (length log)"
    using recover_clean [OF assms] by blast
  then show ?thesis by (auto simp: part_inv_leo high_watermark_def)
qed

theorem clean_restart_witness:
  "\<exists>p'. recover (new_partition (pt_files demo_partition) 4096) = Inr p' \<and> part_inv p' demo_log \<and>
     log_end_offset p' = 2 \<and> high_watermark p' = 2"
  using clean_restart [OF demo_partition(1)] demo_partition(3) by (simp add: demo_log_def)

section \<open>Reads\<close>

text \<open>C19: \<open>Partition::read\<close> and \<open>read_up_to_leo\<close> return what a fetch of \<open>maxBytes\<close> gets of the records from
  the start offset to the high watermark, respectively the log end, however the log is cut into segments
  and whatever the sparse index holds.\<close>

theorem read_is_slice:
  assumes "part_inv p log" "high_watermark p \<le> log_end_offset p" "no_wrap maxBytes log"
  shows "pt_read p startOffset maxBytes =
           fetch_spec (unat maxBytes) (log_slice startOffset (high_watermark p) log) \<and>
         read_up_to_leo p startOffset maxBytes =
           fetch_spec (unat maxBytes) (log_slice startOffset (log_end_offset p) log)"
proof -
  have leo: "log_end_offset p = int (length log)"
    by (rule part_inv_leo [OF assms(1)])
  then have "pt_hwm p \<le> int (length log)" using assms(2) by (simp add: high_watermark_def)
  from read_clamped_spec [OF assms(1) this assms(3)] read_clamped_spec [OF assms(1) order_refl assms(3)]
  show ?thesis using leo by (simp add: pt_read_def read_up_to_leo_def high_watermark_def log_end_offset_def)
qed

lemma demo_no_wrap: "maxBytes < 1000 \<Longrightarrow> no_wrap maxBytes demo_log"
  by (simp add: no_wrap_def demo_log_def frame_size_def word_less_nat_alt)

lemma demo_leo: "log_end_offset demo_partition = 2"
proof -
  have "length demo_log = 2" by (simp add: demo_log_def)
  then show ?thesis using part_inv_leo [OF demo_partition(1)] by simp
qed

theorem read_is_slice_witness:
  "pt_read demo_partition 1 100 = [demo_log ! 1] \<and> read_up_to_leo demo_partition 0 40 = [hd demo_log]"
  using read_is_slice [OF demo_partition(1) _ demo_no_wrap, of 100 1]
    read_is_slice [OF demo_partition(1) _ demo_no_wrap, of 40 0]
  by (simp add: high_watermark_def demo_partition(2) demo_leo) 
    (simp add: fetch_spec_def log_slice_def demo_log_def frame_size_def)

text \<open>A consumer is never stuck and never sees an unacknowledged record: below the high watermark a
  read returns at least one record, the records are consecutive from the start offset, all below the
  high watermark, and they exceed \<open>maxBytes\<close> only as a record alone.\<close>

theorem read_progress:
  assumes "part_inv p log" "high_watermark p \<le> log_end_offset p" "no_wrap maxBytes log"
    and "0 \<le> startOffset" "startOffset < high_watermark p"
  shows "pt_read p startOffset maxBytes \<noteq> [] \<and>
    (\<forall>i < length (pt_read p startOffset maxBytes). sint (rec_offset (pt_read p startOffset maxBytes ! i)) = startOffset + int i) \<and>
    startOffset + int (length (pt_read p startOffset maxBytes)) \<le> high_watermark p \<and>
    (length (frames (pt_read p startOffset maxBytes)) \<le> unat maxBytes \<or> length (pt_read p startOffset maxBytes) = 1)"
proof -
  have leo: "log_end_offset p = int (length log)"
    by (rule part_inv_leo [OF assms(1)])
  let ?hw = "high_watermark p" and ?slice = "log_slice startOffset (high_watermark p) log"
  let ?r = "fetch_spec (unat maxBytes) ?slice"
  have r: "pt_read p startOffset maxBytes = ?r"
    using read_clamped_spec [OF assms(1) _ assms(3), of "pt_hwm p"] assms(2) leo
    by (simp add: pt_read_def high_watermark_def)
  have len: "int (length ?slice) = ?hw - startOffset" using assms(2,4,5) leo by (simp add: log_slice_def)
  then have "?slice \<noteq> []" using assms(5) by auto
  then have ne: "?r \<noteq> []" by (rule fetch_spec_progress)
  obtain zs where zs: "?slice = ?r @ zs" using fetch_spec_prefix by (rule prefixE)
  have lr: "length ?slice = length ?r + length zs" using arg_cong [OF zs, of length] by (simp only: length_append)
  have "sint (rec_offset (?r ! i)) = startOffset + int i" if i: "i < length ?r" for i
  proof -
    have k: "nat startOffset + i < nat ?hw" "nat startOffset + i < length log"
      using i lr len leo assms(2,4,5) by linarith+
    have "?r ! i = ?slice ! i" using zs i by (metis nth_append)
    also have "\<dots> = log ! (nat startOffset + i)" using k by (simp add: log_slice_def)
    finally show ?thesis
      using part_inv_offset [OF assms(1) k(2)] assms(4) by simp
  qed
  moreover have "startOffset + int (length ?r) \<le> ?hw" using len lr by linarith
  moreover have "length (frames ?r) \<le> unat maxBytes \<or> length ?r = 1" using fetch_spec_alone not_le by blast
  ultimately show ?thesis unfolding r using ne by blast
qed

theorem read_progress_witness:
  "pt_read demo_partition 0 1 \<noteq> [] \<and> int (length (pt_read demo_partition 0 1)) \<le> 2"
  using read_progress [OF demo_partition(1) _ demo_no_wrap, of 1 0]
  by (simp add: high_watermark_def demo_partition(2) demo_leo)

section \<open>Appends\<close>

text \<open>\<open>Partition::append\<close> returns the old log end offset and adds the batch with consecutive
  offsets from there, the given keys and values and one timestamp, keeps the partition well formed
  (rolling to a new segment when the active one is full), and moves the high watermark to the new end;
  an empty batch changes nothing.\<close>

theorem append_assigns_offsets:
  assumes "part_inv p log" "batch_ok records" "length log + length records < 2 ^ 63"
  shows "\<exists>p' stamped. pt_append p records now_ms = (log_end_offset p, p') \<and> part_inv p' (log @ stamped) \<and>
    map (\<lambda>rec. (rec_key rec, rec_value rec)) stamped = map (\<lambda>rec. (rec_key rec, rec_value rec)) records \<and>
    (\<forall>i < length stamped. sint (rec_offset (stamped ! i)) = log_end_offset p + int i \<and> rec_timestamp (stamped ! i) = now_ms) \<and>
    (if records = [] then p' = p else high_watermark p' = log_end_offset p')"
proof -
  have leo: "log_end_offset q = int (length l)" if "part_inv q l" for q l
    by (rule part_inv_leo [OF that])
  let ?st = "fst (stamp_records (of_nat (length log)) now_ms records)"
  obtain p' where p': "pt_append p records now_ms = (int (length log), p')" "part_inv p' (log @ ?st)"
    "records \<noteq> [] \<longrightarrow> pt_hwm p' = int (length (log @ ?st))"
    using pt_append_inv [OF assms] by blast
  have st: "length ?st = length records \<and> map rec_key ?st = map rec_key records \<and>
      map rec_value ?st = map rec_value records \<and> (\<forall>r \<in> set ?st. rec_timestamp r = now_ms)"
    by (cases "stamp_records (of_nat (length log)) now_ms records") (auto dest!: stamp_records)
  then have "map (\<lambda>rec. (rec_key rec, rec_value rec)) ?st = map (\<lambda>rec. (rec_key rec, rec_value rec)) records"
    by (simp add: list_eq_iff_nth_eq)
  moreover have "sint (rec_offset (?st ! i)) = log_end_offset p + int i" if "i < length ?st" for i
    using part_inv_offset [OF p'(2), of "length log + i"] that leo [OF assms(1)] by (simp add: nth_append)
  moreover have "p' = p" if "records = []" using that p'(1) by (simp add: pt_append_def)
  ultimately show ?thesis
    using p' st leo [OF assms(1)] leo [OF p'(2)]
    by (intro exI [of _ p'] exI [of _ ?st]) (auto simp: high_watermark_def)
qed

theorem append_assigns_offsets_witness:
  "\<exists>p' stamped. pt_append demo_partition demo_records 9 = (2, p') \<and> part_inv p' (demo_log @ stamped) \<and>
     length stamped = 2 \<and> sint (rec_offset (stamped ! 1)) = 3"
proof -
  have "length demo_log = 2" by (simp add: demo_log_def)
  then obtain p' st where *: "pt_append demo_partition demo_records 9 = (2, p')" "part_inv p' (demo_log @ st)"
    "map (\<lambda>rec. (rec_key rec, rec_value rec)) st = map (\<lambda>rec. (rec_key rec, rec_value rec)) demo_records"
    "\<forall>i < length st. sint (rec_offset (st ! i)) = 2 + int i"
    using append_assigns_offsets [OF demo_partition(1) demo_batch(1), of 9] demo_leo demo_batch(2) by auto
  have "length st = 2" using arg_cong [OF *(3), of length] demo_batch(2) by simp
  then show ?thesis using * by auto
qed

text \<open>\<open>append_replicated\<close> on a batch whose offsets continue the log stores it verbatim: the log grows by
  exactly those records and the high watermark does not move.\<close>

theorem append_replicated_verbatim:
  assumes "part_inv p log" "batch_ok records" "length log + length records < 2 ^ 63"
    and "contiguous (of_nat (length log)) records"
  shows "part_inv (append_replicated p records) (log @ records) \<and>
    log_end_offset (append_replicated p records) = log_end_offset p + int (length records) \<and>
    high_watermark (append_replicated p records) = high_watermark p"
proof -
  have leo: "log_end_offset q = int (length l)" if "part_inv q l" for q l
    by (rule part_inv_leo [OF that])
  show ?thesis
    using append_replicated_inv [OF assms(1,2,4,3)] leo [OF assms(1)] leo
    by (fastforce simp: high_watermark_def)
qed

theorem append_replicated_verbatim_witness:
  "part_inv (append_replicated demo_fresh demo_log) demo_log \<and> log_end_offset (append_replicated demo_fresh demo_log) = 2"
proof -
  have "log_end_offset demo_fresh = 0" using part_inv_leo [OF demo_fresh(1)] by simp
  moreover have "batch_ok demo_log" "contiguous 0 demo_log" "length demo_log = 2"
    by (simp_all add: batch_ok_def demo_log_def record_ok_def frame_size_def)
  ultimately show ?thesis using append_replicated_verbatim [OF demo_fresh(1), of demo_log] by simp
qed

section \<open>Segments\<close>

text \<open>C37: \<open>Segment::scan_and_recover\<close> on a log file that starts with the frames of \<open>recs\<close> and goes on with
  bytes that do not decode rebuilds in memory exactly the segment that appending \<open>recs\<close> to an empty one
  builds (index and byte counters), cuts the file after the last whole frame and returns the last offset, or -1.\<close>

theorem scan_equals_append:
  assumes "seg_log seg \<noteq> seg_idx seg" "map_of fs (seg_log seg) = Some (frames recs @ t)" "torn t"
    and "list_all record_ok recs" "contiguous (seg_base seg) recs" "length recs < 2 ^ 32" "length (frames recs) < 2 ^ 63"
  shows "\<exists>fs'. scan_and_recover fs seg =
      Inr ((if recs = [] then - 1 else sint (rec_offset (last recs))), fs',
           snd (seg_append (fresh_files fs seg) (fresh_segment seg) recs)) \<and>
    map_of fs' (seg_log seg) = Some (frames recs) \<and>
    (\<forall>path. path \<noteq> seg_log seg \<and> path \<noteq> seg_idx seg \<longrightarrow> map_of fs' path = map_of fs path)"
proof -
  let ?seg' = "snd (seg_append (fresh_files fs seg) (fresh_segment seg) recs)"
  obtain fs' where fs': "scan_and_recover fs seg =
      Inr ((if recs = [] then - 1 else sint (rec_offset (last recs))), fs', ?seg')"
    "seg_inv fs' ?seg' recs" "same_segment seg ?seg'" "files_frame seg fs fs'"
    using scan_and_recover_torn [OF assms] by blast
  have "map_of fs' (seg_log seg) = Some (frames recs)"
    using fs'(2,3) by (auto simp: seg_inv_def files_inv_def same_segment_def)
  with fs' show ?thesis by (auto simp: files_frame_def)
qed

theorem scan_equals_append_witness:
  "\<exists>fs'. scan_and_recover [(''a.log'', frames demo_log @ [1, 2])] (new_segment ''a.log'' ''a.index'' 0 4096) =
      Inr (1, fs', snd (seg_append (fresh_files [(''a.log'', frames demo_log @ [1, 2])] (new_segment ''a.log'' ''a.index'' 0 4096))
             (fresh_segment (new_segment ''a.log'' ''a.index'' 0 4096)) demo_log)) \<and>
    map_of fs' ''a.log'' = Some (frames demo_log)"
proof -
  have "torn [1, 2]"
    by (auto simp: torn_def decode_record_def get_u32_def need_short bindE_eq_Inl remaining_unread)
  then show ?thesis
    using scan_equals_append [of "new_segment ''a.log'' ''a.index'' 0 4096" "[(''a.log'', frames demo_log @ [1, 2])]" demo_log "[1, 2]"]
    demo_log_ok by (auto simp: new_segment_def)
qed

text \<open>An indexed read starts at a frame boundary at or before the wanted record and returns every record
  from there on; the index written by the appends of any batch keeps this true.\<close>

theorem indexed_read_covers:
  assumes "seg_inv fs seg recs" "list_all record_ok rs" "contiguous (seg_base seg + of_nat (length recs)) rs"
    and "length recs + length rs < 2 ^ 32" "length (frames recs) + length (frames rs) < 2 ^ 63"
    and "seg_append fs seg rs = (fs', seg')" "n < length (recs @ rs)"
  shows "\<exists>k \<le> n. read_from fs' seg' (find_start_position seg' (of_nat n)) = drop k (recs @ rs)"
proof -
  have inv: "seg_inv fs' seg' (recs @ rs)" using seg_append_inv [OF assms(1-6)] by blast
  obtain k where "k \<le> n" "find_start_position seg' (of_nat n) = of_nat (length (frames (take k (recs @ rs))))"
    using find_start_position_floor [OF inv assms(7)] by blast
  then show ?thesis using read_from_position [OF inv, of k] assms(7) by (intro exI [of _ k]) simp
qed

theorem indexed_read_covers_witness:
  "let fs = [(''a.index'', []), (''a.log'', [])]; seg = new_segment ''a.log'' ''a.index'' 0 4096
   in case seg_append fs seg demo_log of (fs', seg') \<Rightarrow>
        \<exists>k \<le> 1. read_from fs' seg' (find_start_position seg' 1) = drop k demo_log"
proof -
  let ?fs = "[(''a.index'', []), (''a.log'', [])]" and ?seg = "new_segment ''a.log'' ''a.index'' 0 4096"
  obtain fs' seg' where a: "seg_append ?fs ?seg demo_log = (fs', seg')" by fastforce
  have "seg_inv ?fs ?seg []"
    by (simp add: new_segment_def seg_inv_def files_inv_def mem_inv_def index_positions_def idx_entries_def idx_bytes_def)
  then have "\<exists>k \<le> 1. read_from fs' seg' (find_start_position seg' (of_nat 1)) = drop k ([] @ demo_log)"
    by (rule indexed_read_covers [OF _ _ _ _ _ a])
      (simp_all add: demo_log_def record_ok_def frame_size_def new_segment_def)
  then show ?thesis by (simp add: a)
qed

section \<open>Record frames\<close>

text \<open>A record frame read from any position decodes to the record and leaves the reader right behind it,
  and every proper prefix of a frame is an error.\<close>

theorem record_frame_roundtrip:
  assumes "record_ok rec"
  shows "(\<forall>r rest. unread r = encode_record [] rec @ rest \<longrightarrow> decode_record r = Inr (rec, advance r (frame_size rec))) \<and>
    (\<forall>n < frame_size rec. \<exists>e. decode_record (mk_reader (take n (encode_record [] rec))) = Inl e)"
  using parsesD [OF lrec.get_put [OF assms]] lrec.truncated [OF assms] by simp

theorem record_frame_roundtrip_witness:
  "decode_record (mk_reader (encode_record [] (hd demo_log) @ [0xFF])) =
     Inr (hd demo_log, advance (mk_reader (encode_record [] (hd demo_log) @ [0xFF])) 35) \<and>
   (\<exists>e. decode_record (mk_reader (take 34 (encode_record [] (hd demo_log)))) = Inl e)"
  using record_frame_roundtrip [of "hd demo_log"] by (simp add: demo_log_def record_ok_def frame_size_def)

text \<open>A frame whose body was changed inside a window of at most four bytes is rejected with a checksum
  mismatch.\<close>

theorem record_frame_damage:
  assumes "record_ok rec" "record_body rec = pre @ u @ post" "length u = length v" "length u \<le> 4" "u \<noteq> v"
    and "unread r = damaged_frame rec (pre @ v @ post) @ rest"
  shows "decode_record r = Inl CrcMismatch"
proof (rule decode_damaged [OF assms(1) _ _ assms(6)])
  show "length (pre @ v @ post) = length (record_body rec)" using assms(2,3) by simp
  show "crc32 (pre @ v @ post) \<noteq> crc32 (record_body rec)"
    using crc32_window [OF assms(3-5)] assms(2) by metis
qed

theorem record_frame_damage_witness:
  "decode_record (mk_reader (damaged_frame (demo_log ! 1) (take 20 (record_body (demo_log ! 1)) @ [5] @ [0, 0, 0, 0]))) =
     Inl CrcMismatch"
proof (rule record_frame_damage [where v = "[5]" and rest = "[]"])
  show "record_ok (demo_log ! 1)" by (simp add: demo_log_def record_ok_def frame_size_def)
  show "record_body (demo_log ! 1) = take 20 (record_body (demo_log ! 1)) @ [4] @ [0, 0, 0, 0]"
    by (simp add: record_body_def demo_log_def put_u64_def put_u32_def put_blob_def put_u8_def put_bytes_def)
qed simp_all

section \<open>Checksum and hash\<close>

text \<open>C40: the table-driven \<open>crc32\<close> is the bit-by-bit division by the reflected IEEE polynomial: initial value
  all ones, eight division steps per byte, final complement.\<close>

theorem crc32_is_division:
  "crc32 data = foldl (\<lambda>c b. (crc_bit ^^ 8) (c XOR ucast b)) 0xFFFFFFFF data XOR 0xFFFFFFFF \<and>
   (\<forall>c. crc_bit c = (if bit c 0 then 0xEDB88320 XOR drop_bit 1 c else drop_bit 1 c))"
  by (simp add: crc32_def crc_step_bits [abs_def] crc_bit_alt kPoly_def ac_simps)

text \<open>\<open>murmur2\<close>, with its index loop and fall-through tail, is the block-by-block hash, and the routing of
  a keyed message to a partition is that hash without its sign bit, modulo the partition count.\<close>

theorem keyed_routing:
  assumes "partitionCount \<noteq> 0"
  shows "partition_for_key key partitionCount < partitionCount \<and>
    uint (partition_for_key key partitionCount) =
      (sint (murmur_final (murmur_blocks (murmur_seed XOR of_nat (length key)) key)) mod 2 ^ 31) mod uint partitionCount"
proof -
  have "murmur2 key AND 0x7fffffff = murmur2 key mod 2 ^ 31"
    using take_bit_eq_mask [of 31 "murmur2 key"] by (simp add: mask_eq_exp_minus_1 take_bit_eq_mod)
  moreover have "take_bit 32 (murmur2 key mod 2 ^ 31) = murmur2 key mod 2 ^ 31"
    by (intro take_bit_int_eq_self) (use pos_mod_bound [of "2 ^ 31" "murmur2 key"] in auto)
  ultimately have "uint (word_of_int (murmur2 key AND 0x7fffffff) :: u32) = murmur2 key mod 2 ^ 31"
    by (simp add: uint_word_of_int take_bit_eq_mod)
  moreover have "0 < uint partitionCount" using assms by (simp add: word_neq_0_conv word_less_def)
  ultimately show ?thesis
    by (simp add: partition_for_key_def word_less_def uint_mod murmur2_blocks [symmetric])
qed

theorem keyed_routing_witness:
  "partition_for_key (string_bytes ''foobar'') 5 = 1 \<and> murmur2 (string_bytes ''foobar'') = - 790332482"
proof -
  have k: "string_bytes ''foobar'' = [0x66, 0x6F, 0x6F, 0x62, 0x61, 0x72]"
    by (simp add: string_bytes_def byte_of_char_def)
  have h: "murmur_final (murmur_blocks (murmur_seed XOR of_nat (length (string_bytes ''foobar''))) (string_bytes ''foobar'')) = 0xD0E47BBE"
    unfolding k by (simp add: murmur_seed_def murmur_round_def murmur_m_def murmur_final_def Let_def)
  have "uint (partition_for_key (string_bytes ''foobar'') 5) = 1"
    using keyed_routing [of 5 "string_bytes ''foobar''"] unfolding h by simp
  then have "partition_for_key (string_bytes ''foobar'') 5 = 1" by (intro word_uint_eqI) simp
  then show ?thesis unfolding murmur2_blocks h by simp
qed

end
