(* ===== verification/Messages.thy ===== *)
theory Messages
  imports LogRecord
begin

text \<open>
  What the protocol messages are made of (\<open>src/protocol/types.h\<close>, the helpers of
  \<open>src/protocol/requests.cpp\<close>): the request types, the error codes, flags and counted lists, each an
  instance of the codec interface. An \<open>enum class\<close> holds any value of its underlying type: a value
  without a name is an \<open>UnnamedError\<close> or an \<open>UnnamedType\<close>.
\<close>

unbundle bit_operations_syntax

datatype request_type = Produce | Fetch | Metadata | Replicate | BrokerHeartbeat | LeaderAndISR | RequestVote |
  ControllerHeartbeat | IsrUpdate | JoinGroup | SyncGroup | Heartbeat | LeaveGroup | CommitOffset | FetchOffset |
  FindCoordinator | CreateTopic | UnnamedType u16

definition request_type_of :: "u16 \<Rightarrow> request_type" where
  "request_type_of v =
     (if v = 1 then Produce else if v = 2 then Fetch else if v = 3 then Metadata else if v = 10 then Replicate
      else if v = 11 then BrokerHeartbeat else if v = 12 then LeaderAndISR else if v = 13 then RequestVote
      else if v = 14 then ControllerHeartbeat else if v = 15 then IsrUpdate else if v = 20 then JoinGroup
      else if v = 21 then SyncGroup else if v = 22 then Heartbeat else if v = 23 then LeaveGroup
      else if v = 24 then CommitOffset else if v = 25 then FetchOffset else if v = 26 then FindCoordinator
      else if v = 27 then CreateTopic else UnnamedType v)"

fun request_type_u16 :: "request_type \<Rightarrow> u16" where
  "request_type_u16 Produce = 1"
| "request_type_u16 Fetch = 2"
| "request_type_u16 Metadata = 3"
| "request_type_u16 Replicate = 10"
| "request_type_u16 BrokerHeartbeat = 11"
| "request_type_u16 LeaderAndISR = 12"
| "request_type_u16 RequestVote = 13"
| "request_type_u16 ControllerHeartbeat = 14"
| "request_type_u16 IsrUpdate = 15"
| "request_type_u16 JoinGroup = 20"
| "request_type_u16 SyncGroup = 21"
| "request_type_u16 Heartbeat = 22"
| "request_type_u16 LeaveGroup = 23"
| "request_type_u16 CommitOffset = 24"
| "request_type_u16 FetchOffset = 25"
| "request_type_u16 FindCoordinator = 26"
| "request_type_u16 CreateTopic = 27"
| "request_type_u16 (UnnamedType v) = v"

datatype error_code = NoError | UnknownTopic | NotLeaderForPartition | RequestTimedOut | UnknownMemberId |
  RebalanceInProgress | UnknownRequestType | UnnamedError i16

fun err_i16 :: "error_code \<Rightarrow> i16" where
  "err_i16 NoError = 0"
| "err_i16 UnknownTopic = 3"
| "err_i16 NotLeaderForPartition = 6"
| "err_i16 RequestTimedOut = 7"
| "err_i16 UnknownMemberId = 25"
| "err_i16 RebalanceInProgress = 27"
| "err_i16 UnknownRequestType = 99"
| "err_i16 (UnnamedError v) = v"

definition err_from_i16 :: "i16 \<Rightarrow> error_code" where
  "err_from_i16 v =
     (if v = 0 then NoError else if v = 3 then UnknownTopic else if v = 6 then NotLeaderForPartition
      else if v = 7 then RequestTimedOut else if v = 25 then UnknownMemberId
      else if v = 27 then RebalanceInProgress else if v = 99 then UnknownRequestType else UnnamedError v)"

lemma request_type_u16_of [simp]: "request_type_u16 (request_type_of v) = v"
  by (simp add: request_type_of_def)

lemma err_i16_from [simp]: "err_i16 (err_from_i16 v) = v"
  by (simp add: err_from_i16_def)

text \<open>An error code is encodable when it has one reading: a named code, or an unnamed 16-bit value.\<close>

definition error_ok :: "error_code \<Rightarrow> bool" where
  "error_ok e \<longleftrightarrow> in_i16 (err_i16 e) \<and> err_from_i16 (err_i16 e) = e"

lemma error_ok_named [simp]:
  "error_ok NoError" "error_ok UnknownTopic" "error_ok NotLeaderForPartition" "error_ok RequestTimedOut"
  "error_ok UnknownMemberId" "error_ok RebalanceInProgress" "error_ok UnknownRequestType"
  by (simp_all add: error_ok_def err_from_i16_def in_i16_def)

section \<open>Error codes, flags, counted lists\<close>

definition put_error :: "bytes \<Rightarrow> error_code \<Rightarrow> bytes" where
  "put_error buf e = put_i16 buf (err_i16 e)"

definition get_error :: "error_code get" where
  "get_error = bindG get_i16 (\<lambda>v. retG (err_from_i16 v))"

definition put_bool :: "bytes \<Rightarrow> bool \<Rightarrow> bytes" where
  "put_bool buf b = put_u8 buf (if b then 1 else 0)"

definition get_bool :: "bool get" where
  "get_bool = bindG get_u8 (\<lambda>v. retG (v \<noteq> 0))"

definition put_list :: "(bytes \<Rightarrow> 'a \<Rightarrow> bytes) \<Rightarrow> bytes \<Rightarrow> 'a list \<Rightarrow> bytes" where
  "put_list put buf xs = foldl put (put_u32 buf (of_nat (length xs))) xs"

definition get_list :: "'a get \<Rightarrow> 'a list get" where
  "get_list get = bindG get_u32 (\<lambda>count. get_times (unat count) get)"

definition list_ok :: "('a \<Rightarrow> bool) \<Rightarrow> 'a list \<Rightarrow> bool" where
  "list_ok ok xs \<longleftrightarrow> length xs < 2 ^ 32 \<and> list_all ok xs"

interpretation err: typed_codec put_error get_error error_ok
proof unfold_locales
  fix buf e show "put_error buf e = buf @ put_error [] e"
    by (simp add: put_error_def put_apps)
next
  fix e assume "error_ok e"
  then show "parses get_error (put_error [] e) e"
    using parses_bindG_ret [OF i16.get_put [of "err_i16 e"], of err_from_i16]
    by (simp add: put_error_def get_error_def error_ok_def)
next
  show "within get_error" by (auto simp: get_error_def intro!: codec_within)
next
  show "yields get_error error_ok"
    unfolding get_error_def by (rule yields_bindG [OF i16.get_typed yields_retG]) (simp add: error_ok_def)
qed

interpretation flag: typed_codec put_bool get_bool "\<lambda>_. True"
proof unfold_locales
  fix buf b show "put_bool buf b = buf @ put_bool [] b" by (simp add: put_bool_def put_apps)
next
  fix b show "parses get_bool (put_bool [] b) b"
    using parses_bindG_ret [OF u8.get_put [of "if b then 1 else 0"], of "\<lambda>v. v \<noteq> 0"]
    by (simp add: put_bool_def get_bool_def split: if_splits)
next
  show within: "within get_bool" by (auto simp: get_bool_def intro!: codec_within)
  show "yields get_bool (\<lambda>_. True)" by (rule yields_any [OF within])
qed

text \<open>A counted list of values with the codec contract has it too.\<close>

lemma codec_list: "typed_codec put get ok \<Longrightarrow> typed_codec (put_list put) (get_list get) (list_ok ok)"
proof -
  assume t: "typed_codec put get ok"
  then have c: "codec put get ok" by (rule typed_codec.axioms)
  have cat: "put_list put buf xs = buf @ put_u32 [] (of_nat (length xs)) @ concat (map (put []) xs)" for buf xs
    by (simp add: put_list_def codec.foldl_put [OF c] put_apps)
  show ?thesis
  proof unfold_locales
    show "put_list put buf xs = buf @ put_list put [] xs" for buf xs by (simp add: cat)
    show "parses (get_list get) (put_list put [] xs) xs" if "list_ok ok xs" for xs
      using that unfolding cat get_list_def list_ok_def
      by (auto intro!: parses_bindG [OF u32.get_put] codec.parses_times [OF c])
    show "within (get_list get)"
      by (auto simp: get_list_def intro!: codec_within codec.within_times [OF c])
    show "yields (get_list get) (list_ok ok)"
      unfolding get_list_def
    proof (rule yields_bindG [OF u32.get_typed])
      fix n :: u32
      show "yields (get_times (unat n) get) (list_ok ok)"
        using unsigned_less [of n, where ?'a = nat]
        by (intro yields_weaken [OF yields_get_times [OF typed_codec.get_typed [OF t]]]) (simp add: list_ok_def)
    qed
  qed
qed

interpretation u32s: typed_codec "put_list put_u32" "get_list get_u32" "list_ok (\<lambda>_. True)"
  by (rule codec_list [OF u32.typed_codec_axioms])

interpretation strs: typed_codec "put_list put_string" "get_list get_string" "list_ok string_ok"
  by (rule codec_list [OF str.typed_codec_axioms])

interpretation recs: typed_codec "put_list encode_record" "get_list decode_record" "list_ok record_ok"
  by (rule codec_list [OF lrec.typed_codec_axioms])

lemmas [put_apps] = err.put_app flag.put_app u32s.put_app strs.put_app recs.put_app
lemmas [codec_parses] = err.get_put flag.get_put u32s.get_put strs.get_put recs.get_put
lemmas [codec_typed] = err.get_typed flag.get_typed u32s.get_typed strs.get_typed recs.get_typed
lemmas [codec_within] = err.get_within flag.get_within u32s.get_within strs.get_within recs.get_within

end
