(* ===== verification/ClientMessages.thy ===== *)
theory ClientMessages
  imports Messages
begin

text \<open>
  The client-facing messages of \<open>src/protocol/requests.h\<close> and \<open>requests.cpp\<close>: produce, fetch, replica fetch,
  metadata and topic creation. Each is a record with its encoder, its decoder, the values it can carry,
  and the interpretation of the codec interface.
\<close>

record produce_request =
  preq_topic :: string
  preq_partitionId :: u32
  preq_acks :: u8
  preq_records :: "log_record list"

definition encode_produce_request :: "bytes \<Rightarrow> produce_request \<Rightarrow> bytes" where
  "encode_produce_request buf m =
     (let buf = put_string buf (preq_topic m);
          buf = put_u32 buf (preq_partitionId m);
          buf = put_u8 buf (preq_acks m);
          buf = put_list encode_record buf (preq_records m)
      in buf)"

definition decode_produce_request :: "produce_request get" where
  "decode_produce_request =
     bindG get_string (\<lambda>topic. bindG get_u32 (\<lambda>partitionId. bindG get_u8 (\<lambda>acks.
       bindG (get_list decode_record) (\<lambda>records.
       retG \<lparr>preq_topic = topic, preq_partitionId = partitionId, preq_acks = acks, preq_records = records\<rparr>))))"

definition produce_request_ok :: "produce_request \<Rightarrow> bool" where
  "produce_request_ok m \<longleftrightarrow> string_ok (preq_topic m) \<and> list_ok record_ok (preq_records m)"

interpretation produce_request: typed_codec encode_produce_request decode_produce_request produce_request_ok
  by (unfold_locales, (auto simp: encode_produce_request_def decode_produce_request_def produce_request_ok_def
    Let_def put_apps intro!: codec_parses codec_within)[3],
    unfold decode_produce_request_def, (rule yields_bindG, rule codec_typed)+, rule yields_retG, simp add: produce_request_ok_def)

lemmas [put_apps] = produce_request.put_app
lemmas [codec_parses] = produce_request.get_put
lemmas [codec_within] = produce_request.get_within
lemmas [codec_typed] = produce_request.get_typed

record produce_response =
  presp_errorCode :: error_code
  presp_baseOffset :: u64
  presp_leaderHost :: string
  presp_leaderPort :: u32

definition encode_produce_response :: "bytes \<Rightarrow> produce_response \<Rightarrow> bytes" where
  "encode_produce_response buf m =
     (let buf = put_error buf (presp_errorCode m);
          buf = put_u64 buf (presp_baseOffset m);
          buf = put_string buf (presp_leaderHost m);
          buf = put_u32 buf (presp_leaderPort m)
      in buf)"

definition decode_produce_response :: "produce_response get" where
  "decode_produce_response =
     bindG get_error (\<lambda>errorCode. bindG get_u64 (\<lambda>baseOffset.
       bindG get_string (\<lambda>leaderHost. bindG get_u32 (\<lambda>leaderPort.
       retG \<lparr>presp_errorCode = errorCode, presp_baseOffset = baseOffset, presp_leaderHost = leaderHost, presp_leaderPort = leaderPort\<rparr>))))"

definition produce_response_ok :: "produce_response \<Rightarrow> bool" where
  "produce_response_ok m \<longleftrightarrow> error_ok (presp_errorCode m) \<and> string_ok (presp_leaderHost m)"

interpretation produce_response: typed_codec encode_produce_response decode_produce_response produce_response_ok
  by (unfold_locales, (auto simp: encode_produce_response_def decode_produce_response_def produce_response_ok_def
    Let_def put_apps intro!: codec_parses codec_within)[3],
    unfold decode_produce_response_def, (rule yields_bindG, rule codec_typed)+, rule yields_retG, simp add: produce_response_ok_def)

lemmas [put_apps] = produce_response.put_app
lemmas [codec_parses] = produce_response.get_put
lemmas [codec_within] = produce_response.get_within
lemmas [codec_typed] = produce_response.get_typed

record fetch_request =
  freq_topic :: string
  freq_partitionId :: u32
  freq_fetchOffset :: u64
  freq_maxBytes :: u32

definition encode_fetch_request :: "bytes \<Rightarrow> fetch_request \<Rightarrow> bytes" where
  "encode_fetch_request buf m =
     (let buf = put_string buf (freq_topic m);
          buf = put_u32 buf (freq_partitionId m);
          buf = put_u64 buf (freq_fetchOffset m);
          buf = put_u32 buf (freq_maxBytes m)
      in buf)"

definition decode_fetch_request :: "fetch_request get" where
  "decode_fetch_request =
     bindG get_string (\<lambda>topic. bindG get_u32 (\<lambda>partitionId.
       bindG get_u64 (\<lambda>fetchOffset. bindG get_u32 (\<lambda>maxBytes.
       retG \<lparr>freq_topic = topic, freq_partitionId = partitionId, freq_fetchOffset = fetchOffset, freq_maxBytes = maxBytes\<rparr>))))"

definition fetch_request_ok :: "fetch_request \<Rightarrow> bool" where
  "fetch_request_ok m \<longleftrightarrow> string_ok (freq_topic m)"

interpretation fetch_request: typed_codec encode_fetch_request decode_fetch_request fetch_request_ok
  by (unfold_locales, (auto simp: encode_fetch_request_def decode_fetch_request_def fetch_request_ok_def
    Let_def put_apps intro!: codec_parses codec_within)[3],
    unfold decode_fetch_request_def, (rule yields_bindG, rule codec_typed)+, rule yields_retG, simp add: fetch_request_ok_def)

lemmas [put_apps] = fetch_request.put_app
lemmas [codec_parses] = fetch_request.get_put
lemmas [codec_within] = fetch_request.get_within
lemmas [codec_typed] = fetch_request.get_typed

record replica_fetch_request =
  rfreq_topic :: string
  rfreq_partitionId :: u32
  rfreq_replicaId :: u32
  rfreq_fetchOffset :: u64
  rfreq_maxBytes :: u32

definition encode_replica_fetch_request :: "bytes \<Rightarrow> replica_fetch_request \<Rightarrow> bytes" where
  "encode_replica_fetch_request buf m =
     (let buf = put_string buf (rfreq_topic m);
          buf = put_u32 buf (rfreq_partitionId m);
          buf = put_u32 buf (rfreq_replicaId m);
          buf = put_u64 buf (rfreq_fetchOffset m);
          buf = put_u32 buf (rfreq_maxBytes m)
      in buf)"

definition decode_replica_fetch_request :: "replica_fetch_request get" where
  "decode_replica_fetch_request =
     bindG get_string (\<lambda>topic. bindG get_u32 (\<lambda>partitionId.
       bindG get_u32 (\<lambda>replicaId. bindG get_u64 (\<lambda>fetchOffset.
       bindG get_u32 (\<lambda>maxBytes.
       retG \<lparr>rfreq_topic = topic, rfreq_partitionId = partitionId, rfreq_replicaId = replicaId, rfreq_fetchOffset = fetchOffset, rfreq_maxBytes = maxBytes\<rparr>)))))"

definition replica_fetch_request_ok :: "replica_fetch_request \<Rightarrow> bool" where
  "replica_fetch_request_ok m \<longleftrightarrow> string_ok (rfreq_topic m)"

interpretation replica_fetch_request: typed_codec encode_replica_fetch_request decode_replica_fetch_request replica_fetch_request_ok
  by (unfold_locales, (auto simp: encode_replica_fetch_request_def decode_replica_fetch_request_def replica_fetch_request_ok_def
    Let_def put_apps intro!: codec_parses codec_within)[3],
    unfold decode_replica_fetch_request_def, (rule yields_bindG, rule codec_typed)+, rule yields_retG, simp add: replica_fetch_request_ok_def)

lemmas [put_apps] = replica_fetch_request.put_app
lemmas [codec_parses] = replica_fetch_request.get_put
lemmas [codec_within] = replica_fetch_request.get_within
lemmas [codec_typed] = replica_fetch_request.get_typed

record fetch_response =
  fresp_errorCode :: error_code
  fresp_highWatermark :: u64
  fresp_records :: "log_record list"
  fresp_leaderHost :: string
  fresp_leaderPort :: u32

definition encode_fetch_response :: "bytes \<Rightarrow> fetch_response \<Rightarrow> bytes" where
  "encode_fetch_response buf m =
     (let buf = put_error buf (fresp_errorCode m);
          buf = put_u64 buf (fresp_highWatermark m);
          buf = put_string buf (fresp_leaderHost m);
          buf = put_u32 buf (fresp_leaderPort m);
          buf = put_list encode_record buf (fresp_records m)
      in buf)"

definition decode_fetch_response :: "fetch_response get" where
  "decode_fetch_response =
     bindG get_error (\<lambda>errorCode. bindG get_u64 (\<lambda>highWatermark.
       bindG get_string (\<lambda>leaderHost. bindG get_u32 (\<lambda>leaderPort.
       bindG (get_list decode_record) (\<lambda>records.
       retG \<lparr>fresp_errorCode = errorCode, fresp_highWatermark = highWatermark, fresp_records = records, fresp_leaderHost = leaderHost, fresp_leaderPort = leaderPort\<rparr>)))))"

definition fetch_response_ok :: "fetch_response \<Rightarrow> bool" where
  "fetch_response_ok m \<longleftrightarrow> error_ok (fresp_errorCode m) \<and> string_ok (fresp_leaderHost m) \<and> list_ok record_ok (fresp_records m)"

interpretation fetch_response: typed_codec encode_fetch_response decode_fetch_response fetch_response_ok
  by (unfold_locales, (auto simp: encode_fetch_response_def decode_fetch_response_def fetch_response_ok_def
    Let_def put_apps intro!: codec_parses codec_within)[3],
    unfold decode_fetch_response_def, (rule yields_bindG, rule codec_typed)+, rule yields_retG, simp add: fetch_response_ok_def)

lemmas [put_apps] = fetch_response.put_app
lemmas [codec_parses] = fetch_response.get_put
lemmas [codec_within] = fetch_response.get_within
lemmas [codec_typed] = fetch_response.get_typed

record metadata_request =
  mreq_topic :: string

definition encode_metadata_request :: "bytes \<Rightarrow> metadata_request \<Rightarrow> bytes" where
  "encode_metadata_request buf m = put_string buf (mreq_topic m)"

definition decode_metadata_request :: "metadata_request get" where
  "decode_metadata_request =
     bindG get_string (\<lambda>topic. retG \<lparr>mreq_topic = topic\<rparr>)"

definition metadata_request_ok :: "metadata_request \<Rightarrow> bool" where
  "metadata_request_ok m \<longleftrightarrow> string_ok (mreq_topic m)"

interpretation metadata_request: typed_codec encode_metadata_request decode_metadata_request metadata_request_ok
  by (unfold_locales, (auto simp: encode_metadata_request_def decode_metadata_request_def metadata_request_ok_def
    Let_def put_apps intro!: codec_parses codec_within)[3],
    unfold decode_metadata_request_def, (rule yields_bindG, rule codec_typed)+, rule yields_retG, simp add: metadata_request_ok_def)

lemmas [put_apps] = metadata_request.put_app
lemmas [codec_parses] = metadata_request.get_put
lemmas [codec_within] = metadata_request.get_within
lemmas [codec_typed] = metadata_request.get_typed

record partition_metadata =
  pmeta_partitionId :: u32
  pmeta_leaderId :: u32
  pmeta_leaderHost :: string
  pmeta_leaderPort :: u32

definition encode_partition_metadata :: "bytes \<Rightarrow> partition_metadata \<Rightarrow> bytes" where
  "encode_partition_metadata buf m =
     (let buf = put_u32 buf (pmeta_partitionId m);
          buf = put_u32 buf (pmeta_leaderId m);
          buf = put_string buf (pmeta_leaderHost m);
          buf = put_u32 buf (pmeta_leaderPort m)
      in buf)"

definition decode_partition_metadata :: "partition_metadata get" where
  "decode_partition_metadata =
     bindG get_u32 (\<lambda>partitionId. bindG get_u32 (\<lambda>leaderId.
       bindG get_string (\<lambda>leaderHost. bindG get_u32 (\<lambda>leaderPort.
       retG \<lparr>pmeta_partitionId = partitionId, pmeta_leaderId = leaderId, pmeta_leaderHost = leaderHost, pmeta_leaderPort = leaderPort\<rparr>))))"

definition partition_metadata_ok :: "partition_metadata \<Rightarrow> bool" where
  "partition_metadata_ok m \<longleftrightarrow> string_ok (pmeta_leaderHost m)"

interpretation partition_metadata: typed_codec encode_partition_metadata decode_partition_metadata partition_metadata_ok
  by (unfold_locales, (auto simp: encode_partition_metadata_def decode_partition_metadata_def partition_metadata_ok_def
    Let_def put_apps intro!: codec_parses codec_within)[3],
    unfold decode_partition_metadata_def, (rule yields_bindG, rule codec_typed)+, rule yields_retG, simp add: partition_metadata_ok_def)

lemmas [put_apps] = partition_metadata.put_app
lemmas [codec_parses] = partition_metadata.get_put
lemmas [codec_within] = partition_metadata.get_within
lemmas [codec_typed] = partition_metadata.get_typed

interpretation partition_metadatas: typed_codec "put_list encode_partition_metadata" "get_list decode_partition_metadata" "list_ok partition_metadata_ok"
  by (rule codec_list [OF partition_metadata.typed_codec_axioms])

lemmas [put_apps] = partition_metadatas.put_app
lemmas [codec_parses] = partition_metadatas.get_put
lemmas [codec_within] = partition_metadatas.get_within
lemmas [codec_typed] = partition_metadatas.get_typed

record metadata_response =
  mresp_errorCode :: error_code
  mresp_partitions :: "partition_metadata list"

definition encode_metadata_response :: "bytes \<Rightarrow> metadata_response \<Rightarrow> bytes" where
  "encode_metadata_response buf m =
     (let buf = put_error buf (mresp_errorCode m);
          buf = put_list encode_partition_metadata buf (mresp_partitions m)
      in buf)"

definition decode_metadata_response :: "metadata_response get" where
  "decode_metadata_response =
     bindG get_error (\<lambda>errorCode.
       bindG (get_list decode_partition_metadata) (\<lambda>partitions.
       retG \<lparr>mresp_errorCode = errorCode, mresp_partitions = partitions\<rparr>))"

definition metadata_response_ok :: "metadata_response \<Rightarrow> bool" where
  "metadata_response_ok m \<longleftrightarrow> error_ok (mresp_errorCode m) \<and> list_ok partition_metadata_ok (mresp_partitions m)"

interpretation metadata_response: typed_codec encode_metadata_response decode_metadata_response metadata_response_ok
  by (unfold_locales, (auto simp: encode_metadata_response_def decode_metadata_response_def metadata_response_ok_def
    Let_def put_apps intro!: codec_parses codec_within)[3],
    unfold decode_metadata_response_def, (rule yields_bindG, rule codec_typed)+, rule yields_retG, simp add: metadata_response_ok_def)

lemmas [put_apps] = metadata_response.put_app
lemmas [codec_parses] = metadata_response.get_put
lemmas [codec_within] = metadata_response.get_within
lemmas [codec_typed] = metadata_response.get_typed

record create_topic_request =
  ctreq_topic :: string
  ctreq_numPartitions :: u32
  ctreq_replicationFactor :: u32

definition encode_create_topic_request :: "bytes \<Rightarrow> create_topic_request \<Rightarrow> bytes" where
  "encode_create_topic_request buf m =
     (let buf = put_string buf (ctreq_topic m);
          buf = put_u32 buf (ctreq_numPartitions m);
          buf = put_u32 buf (ctreq_replicationFactor m)
      in buf)"

definition decode_create_topic_request :: "create_topic_request get" where
  "decode_create_topic_request =
     bindG get_string (\<lambda>topic. bindG get_u32 (\<lambda>numPartitions.
       bindG get_u32 (\<lambda>replicationFactor.
       retG \<lparr>ctreq_topic = topic, ctreq_numPartitions = numPartitions, ctreq_replicationFactor = replicationFactor\<rparr>)))"

definition create_topic_request_ok :: "create_topic_request \<Rightarrow> bool" where
  "create_topic_request_ok m \<longleftrightarrow> string_ok (ctreq_topic m)"

interpretation create_topic_request: typed_codec encode_create_topic_request decode_create_topic_request create_topic_request_ok
  by (unfold_locales, (auto simp: encode_create_topic_request_def decode_create_topic_request_def create_topic_request_ok_def
    Let_def put_apps intro!: codec_parses codec_within)[3],
    unfold decode_create_topic_request_def, (rule yields_bindG, rule codec_typed)+, rule yields_retG, simp add: create_topic_request_ok_def)

lemmas [put_apps] = create_topic_request.put_app
lemmas [codec_parses] = create_topic_request.get_put
lemmas [codec_within] = create_topic_request.get_within
lemmas [codec_typed] = create_topic_request.get_typed

record create_topic_response =
  ctresp_errorCode :: error_code
  ctresp_controllerId :: u32
  ctresp_controllerHost :: string
  ctresp_controllerPort :: u32

definition encode_create_topic_response :: "bytes \<Rightarrow> create_topic_response \<Rightarrow> bytes" where
  "encode_create_topic_response buf m =
     (let buf = put_error buf (ctresp_errorCode m);
          buf = put_u32 buf (ctresp_controllerId m);
          buf = put_string buf (ctresp_controllerHost m);
          buf = put_u32 buf (ctresp_controllerPort m)
      in buf)"

definition decode_create_topic_response :: "create_topic_response get" where
  "decode_create_topic_response =
     bindG get_error (\<lambda>errorCode. bindG get_u32 (\<lambda>controllerId.
       bindG get_string (\<lambda>controllerHost. bindG get_u32 (\<lambda>controllerPort.
       retG \<lparr>ctresp_errorCode = errorCode, ctresp_controllerId = controllerId, ctresp_controllerHost = controllerHost, ctresp_controllerPort = controllerPort\<rparr>))))"

definition create_topic_response_ok :: "create_topic_response \<Rightarrow> bool" where
  "create_topic_response_ok m \<longleftrightarrow> error_ok (ctresp_errorCode m) \<and> string_ok (ctresp_controllerHost m)"

interpretation create_topic_response: typed_codec encode_create_topic_response decode_create_topic_response create_topic_response_ok
  by (unfold_locales, (auto simp: encode_create_topic_response_def decode_create_topic_response_def create_topic_response_ok_def
    Let_def put_apps intro!: codec_parses codec_within)[3],
    unfold decode_create_topic_response_def, (rule yields_bindG, rule codec_typed)+, rule yields_retG, simp add: create_topic_response_ok_def)

lemmas [put_apps] = create_topic_response.put_app
lemmas [codec_parses] = create_topic_response.get_put
lemmas [codec_within] = create_topic_response.get_within
lemmas [codec_typed] = create_topic_response.get_typed

end
