(* ===== verification/GroupMessages.thy ===== *)
theory GroupMessages
  imports Messages
begin

text \<open>
  The consumer-group messages of \<open>src/protocol/requests.h\<close> and \<open>requests.cpp\<close>, in the same form as the
  client messages.
\<close>

record find_coordinator_request =
  fcreq_groupId :: string

definition encode_find_coordinator_request :: "bytes \<Rightarrow> find_coordinator_request \<Rightarrow> bytes" where
  "encode_find_coordinator_request buf m = put_string buf (fcreq_groupId m)"

definition decode_find_coordinator_request :: "find_coordinator_request get" where
  "decode_find_coordinator_request =
     bindG get_string (\<lambda>groupId. retG \<lparr>fcreq_groupId = groupId\<rparr>)"

definition find_coordinator_request_ok :: "find_coordinator_request \<Rightarrow> bool" where
  "find_coordinator_request_ok m \<longleftrightarrow> string_ok (fcreq_groupId m)"

interpretation find_coordinator_request: typed_codec encode_find_coordinator_request decode_find_coordinator_request find_coordinator_request_ok
  by (unfold_locales, (auto simp: encode_find_coordinator_request_def decode_find_coordinator_request_def find_coordinator_request_ok_def
    Let_def put_apps intro!: codec_parses codec_within)[3],
    unfold decode_find_coordinator_request_def, (rule yields_bindG, rule codec_typed)+, rule yields_retG, simp add: find_coordinator_request_ok_def)

lemmas [put_apps] = find_coordinator_request.put_app
lemmas [codec_parses] = find_coordinator_request.get_put
lemmas [codec_within] = find_coordinator_request.get_within
lemmas [codec_typed] = find_coordinator_request.get_typed

record find_coordinator_response =
  fcresp_errorCode :: error_code
  fcresp_coordinatorId :: u32
  fcresp_host :: string
  fcresp_port :: u32

definition encode_find_coordinator_response :: "bytes \<Rightarrow> find_coordinator_response \<Rightarrow> bytes" where
  "encode_find_coordinator_response buf m =
     (let buf = put_error buf (fcresp_errorCode m);
          buf = put_u32 buf (fcresp_coordinatorId m);
          buf = put_string buf (fcresp_host m);
          buf = put_u32 buf (fcresp_port m)
      in buf)"

definition decode_find_coordinator_response :: "find_coordinator_response get" where
  "decode_find_coordinator_response =
     bindG get_error (\<lambda>errorCode. bindG get_u32 (\<lambda>coordinatorId.
       bindG get_string (\<lambda>host. bindG get_u32 (\<lambda>port.
       retG \<lparr>fcresp_errorCode = errorCode, fcresp_coordinatorId = coordinatorId, fcresp_host = host, fcresp_port = port\<rparr>))))"

definition find_coordinator_response_ok :: "find_coordinator_response \<Rightarrow> bool" where
  "find_coordinator_response_ok m \<longleftrightarrow> error_ok (fcresp_errorCode m) \<and> string_ok (fcresp_host m)"

interpretation find_coordinator_response: typed_codec encode_find_coordinator_response decode_find_coordinator_response find_coordinator_response_ok
  by (unfold_locales, (auto simp: encode_find_coordinator_response_def decode_find_coordinator_response_def find_coordinator_response_ok_def
    Let_def put_apps intro!: codec_parses codec_within)[3],
    unfold decode_find_coordinator_response_def, (rule yields_bindG, rule codec_typed)+, rule yields_retG, simp add: find_coordinator_response_ok_def)

lemmas [put_apps] = find_coordinator_response.put_app
lemmas [codec_parses] = find_coordinator_response.get_put
lemmas [codec_within] = find_coordinator_response.get_within
lemmas [codec_typed] = find_coordinator_response.get_typed

record join_group_request =
  jgreq_groupId :: string
  jgreq_topic :: string
  jgreq_sessionTimeoutMs :: u32

definition encode_join_group_request :: "bytes \<Rightarrow> join_group_request \<Rightarrow> bytes" where
  "encode_join_group_request buf m =
     (let buf = put_string buf (jgreq_groupId m);
          buf = put_string buf (jgreq_topic m);
          buf = put_u32 buf (jgreq_sessionTimeoutMs m)
      in buf)"

definition decode_join_group_request :: "join_group_request get" where
  "decode_join_group_request =
     bindG get_string (\<lambda>groupId. bindG get_string (\<lambda>topic.
       bindG get_u32 (\<lambda>sessionTimeoutMs.
       retG \<lparr>jgreq_groupId = groupId, jgreq_topic = topic, jgreq_sessionTimeoutMs = sessionTimeoutMs\<rparr>)))"

definition join_group_request_ok :: "join_group_request \<Rightarrow> bool" where
  "join_group_request_ok m \<longleftrightarrow> string_ok (jgreq_groupId m) \<and> string_ok (jgreq_topic m)"

interpretation join_group_request: typed_codec encode_join_group_request decode_join_group_request join_group_request_ok
  by (unfold_locales, (auto simp: encode_join_group_request_def decode_join_group_request_def join_group_request_ok_def
    Let_def put_apps intro!: codec_parses codec_within)[3],
    unfold decode_join_group_request_def, (rule yields_bindG, rule codec_typed)+, rule yields_retG, simp add: join_group_request_ok_def)

lemmas [put_apps] = join_group_request.put_app
lemmas [codec_parses] = join_group_request.get_put
lemmas [codec_within] = join_group_request.get_within
lemmas [codec_typed] = join_group_request.get_typed

record join_group_response =
  jgresp_errorCode :: error_code
  jgresp_generationId :: u32
  jgresp_memberId :: string
  jgresp_leaderId :: string
  jgresp_members :: "string list"

definition encode_join_group_response :: "bytes \<Rightarrow> join_group_response \<Rightarrow> bytes" where
  "encode_join_group_response buf m =
     (let buf = put_error buf (jgresp_errorCode m);
          buf = put_u32 buf (jgresp_generationId m);
          buf = put_string buf (jgresp_memberId m);
          buf = put_string buf (jgresp_leaderId m);
          buf = put_list put_string buf (jgresp_members m)
      in buf)"

definition decode_join_group_response :: "join_group_response get" where
  "decode_join_group_response =
     bindG get_error (\<lambda>errorCode. bindG get_u32 (\<lambda>generationId.
       bindG get_string (\<lambda>memberId. bindG get_string (\<lambda>leaderId.
       bindG (get_list get_string) (\<lambda>members.
       retG \<lparr>jgresp_errorCode = errorCode, jgresp_generationId = generationId, jgresp_memberId = memberId, jgresp_leaderId = leaderId, jgresp_members = members\<rparr>)))))"

definition join_group_response_ok :: "join_group_response \<Rightarrow> bool" where
  "join_group_response_ok m \<longleftrightarrow> error_ok (jgresp_errorCode m) \<and> string_ok (jgresp_memberId m) \<and> string_ok (jgresp_leaderId m) \<and> list_ok string_ok (jgresp_members m)"

interpretation join_group_response: typed_codec encode_join_group_response decode_join_group_response join_group_response_ok
  by (unfold_locales, (auto simp: encode_join_group_response_def decode_join_group_response_def join_group_response_ok_def
    Let_def put_apps intro!: codec_parses codec_within)[3],
    unfold decode_join_group_response_def, (rule yields_bindG, rule codec_typed)+, rule yields_retG, simp add: join_group_response_ok_def)

lemmas [put_apps] = join_group_response.put_app
lemmas [codec_parses] = join_group_response.get_put
lemmas [codec_within] = join_group_response.get_within
lemmas [codec_typed] = join_group_response.get_typed

record sync_group_assignment =
  sga_memberId :: string
  sga_partitions :: "u32 list"

definition encode_sync_group_assignment :: "bytes \<Rightarrow> sync_group_assignment \<Rightarrow> bytes" where
  "encode_sync_group_assignment buf m =
     (let buf = put_string buf (sga_memberId m);
          buf = put_list put_u32 buf (sga_partitions m)
      in buf)"

definition decode_sync_group_assignment :: "sync_group_assignment get" where
  "decode_sync_group_assignment =
     bindG get_string (\<lambda>memberId. bindG (get_list get_u32) (\<lambda>partitions.
       retG \<lparr>sga_memberId = memberId, sga_partitions = partitions\<rparr>))"

definition sync_group_assignment_ok :: "sync_group_assignment \<Rightarrow> bool" where
  "sync_group_assignment_ok m \<longleftrightarrow> string_ok (sga_memberId m) \<and> list_ok (\<lambda>_. True) (sga_partitions m)"

interpretation sync_group_assignment: typed_codec encode_sync_group_assignment decode_sync_group_assignment sync_group_assignment_ok
  by (unfold_locales, (auto simp: encode_sync_group_assignment_def decode_sync_group_assignment_def sync_group_assignment_ok_def
    Let_def put_apps intro!: codec_parses codec_within)[3],
    unfold decode_sync_group_assignment_def, (rule yields_bindG, rule codec_typed)+, rule yields_retG, simp add: sync_group_assignment_ok_def)

lemmas [put_apps] = sync_group_assignment.put_app
lemmas [codec_parses] = sync_group_assignment.get_put
lemmas [codec_within] = sync_group_assignment.get_within
lemmas [codec_typed] = sync_group_assignment.get_typed

interpretation sync_group_assignments: typed_codec "put_list encode_sync_group_assignment" "get_list decode_sync_group_assignment" "list_ok sync_group_assignment_ok"
  by (rule codec_list [OF sync_group_assignment.typed_codec_axioms])

lemmas [put_apps] = sync_group_assignments.put_app
lemmas [codec_parses] = sync_group_assignments.get_put
lemmas [codec_within] = sync_group_assignments.get_within
lemmas [codec_typed] = sync_group_assignments.get_typed

record sync_group_request =
  sgreq_groupId :: string
  sgreq_memberId :: string
  sgreq_generationId :: u32
  sgreq_assignments :: "sync_group_assignment list"

definition encode_sync_group_request :: "bytes \<Rightarrow> sync_group_request \<Rightarrow> bytes" where
  "encode_sync_group_request buf m =
     (let buf = put_string buf (sgreq_groupId m);
          buf = put_string buf (sgreq_memberId m);
          buf = put_u32 buf (sgreq_generationId m);
          buf = put_list encode_sync_group_assignment buf (sgreq_assignments m)
      in buf)"

definition decode_sync_group_request :: "sync_group_request get" where
  "decode_sync_group_request =
     bindG get_string (\<lambda>groupId. bindG get_string (\<lambda>memberId.
       bindG get_u32 (\<lambda>generationId.
       bindG (get_list decode_sync_group_assignment) (\<lambda>assignments.
       retG \<lparr>sgreq_groupId = groupId, sgreq_memberId = memberId, sgreq_generationId = generationId, sgreq_assignments = assignments\<rparr>))))"

definition sync_group_request_ok :: "sync_group_request \<Rightarrow> bool" where
  "sync_group_request_ok m \<longleftrightarrow> string_ok (sgreq_groupId m) \<and> string_ok (sgreq_memberId m) \<and> list_ok sync_group_assignment_ok (sgreq_assignments m)"

interpretation sync_group_request: typed_codec encode_sync_group_request decode_sync_group_request sync_group_request_ok
  by (unfold_locales, (auto simp: encode_sync_group_request_def decode_sync_group_request_def sync_group_request_ok_def
    Let_def put_apps intro!: codec_parses codec_within)[3],
    unfold decode_sync_group_request_def, (rule yields_bindG, rule codec_typed)+, rule yields_retG, simp add: sync_group_request_ok_def)

lemmas [put_apps] = sync_group_request.put_app
lemmas [codec_parses] = sync_group_request.get_put
lemmas [codec_within] = sync_group_request.get_within
lemmas [codec_typed] = sync_group_request.get_typed

record sync_group_response =
  sgresp_errorCode :: error_code
  sgresp_partitions :: "u32 list"

definition encode_sync_group_response :: "bytes \<Rightarrow> sync_group_response \<Rightarrow> bytes" where
  "encode_sync_group_response buf m =
     (let buf = put_error buf (sgresp_errorCode m);
          buf = put_list put_u32 buf (sgresp_partitions m)
      in buf)"

definition decode_sync_group_response :: "sync_group_response get" where
  "decode_sync_group_response =
     bindG get_error (\<lambda>errorCode. bindG (get_list get_u32) (\<lambda>partitions.
       retG \<lparr>sgresp_errorCode = errorCode, sgresp_partitions = partitions\<rparr>))"

definition sync_group_response_ok :: "sync_group_response \<Rightarrow> bool" where
  "sync_group_response_ok m \<longleftrightarrow> error_ok (sgresp_errorCode m) \<and> list_ok (\<lambda>_. True) (sgresp_partitions m)"

interpretation sync_group_response: typed_codec encode_sync_group_response decode_sync_group_response sync_group_response_ok
  by (unfold_locales, (auto simp: encode_sync_group_response_def decode_sync_group_response_def sync_group_response_ok_def
    Let_def put_apps intro!: codec_parses codec_within)[3],
    unfold decode_sync_group_response_def, (rule yields_bindG, rule codec_typed)+, rule yields_retG, simp add: sync_group_response_ok_def)

lemmas [put_apps] = sync_group_response.put_app
lemmas [codec_parses] = sync_group_response.get_put
lemmas [codec_within] = sync_group_response.get_within
lemmas [codec_typed] = sync_group_response.get_typed

record heartbeat_request =
  hbreq_groupId :: string
  hbreq_memberId :: string
  hbreq_generationId :: u32

definition encode_heartbeat_request :: "bytes \<Rightarrow> heartbeat_request \<Rightarrow> bytes" where
  "encode_heartbeat_request buf m =
     (let buf = put_string buf (hbreq_groupId m);
          buf = put_string buf (hbreq_memberId m);
          buf = put_u32 buf (hbreq_generationId m)
      in buf)"

definition decode_heartbeat_request :: "heartbeat_request get" where
  "decode_heartbeat_request =
     bindG get_string (\<lambda>groupId. bindG get_string (\<lambda>memberId.
       bindG get_u32 (\<lambda>generationId.
       retG \<lparr>hbreq_groupId = groupId, hbreq_memberId = memberId, hbreq_generationId = generationId\<rparr>)))"

definition heartbeat_request_ok :: "heartbeat_request \<Rightarrow> bool" where
  "heartbeat_request_ok m \<longleftrightarrow> string_ok (hbreq_groupId m) \<and> string_ok (hbreq_memberId m)"

interpretation heartbeat_request: typed_codec encode_heartbeat_request decode_heartbeat_request heartbeat_request_ok
  by (unfold_locales, (auto simp: encode_heartbeat_request_def decode_heartbeat_request_def heartbeat_request_ok_def
    Let_def put_apps intro!: codec_parses codec_within)[3],
    unfold decode_heartbeat_request_def, (rule yields_bindG, rule codec_typed)+, rule yields_retG, simp add: heartbeat_request_ok_def)

lemmas [put_apps] = heartbeat_request.put_app
lemmas [codec_parses] = heartbeat_request.get_put
lemmas [codec_within] = heartbeat_request.get_within
lemmas [codec_typed] = heartbeat_request.get_typed

record heartbeat_response =
  hbresp_errorCode :: error_code

definition encode_heartbeat_response :: "bytes \<Rightarrow> heartbeat_response \<Rightarrow> bytes" where
  "encode_heartbeat_response buf m = put_error buf (hbresp_errorCode m)"

definition decode_heartbeat_response :: "heartbeat_response get" where
  "decode_heartbeat_response =
     bindG get_error (\<lambda>errorCode. retG \<lparr>hbresp_errorCode = errorCode\<rparr>)"

definition heartbeat_response_ok :: "heartbeat_response \<Rightarrow> bool" where
  "heartbeat_response_ok m \<longleftrightarrow> error_ok (hbresp_errorCode m)"

interpretation heartbeat_response: typed_codec encode_heartbeat_response decode_heartbeat_response heartbeat_response_ok
  by (unfold_locales, (auto simp: encode_heartbeat_response_def decode_heartbeat_response_def heartbeat_response_ok_def
    Let_def put_apps intro!: codec_parses codec_within)[3],
    unfold decode_heartbeat_response_def, (rule yields_bindG, rule codec_typed)+, rule yields_retG, simp add: heartbeat_response_ok_def)

lemmas [put_apps] = heartbeat_response.put_app
lemmas [codec_parses] = heartbeat_response.get_put
lemmas [codec_within] = heartbeat_response.get_within
lemmas [codec_typed] = heartbeat_response.get_typed

record leave_group_request =
  lgreq_groupId :: string
  lgreq_memberId :: string

definition encode_leave_group_request :: "bytes \<Rightarrow> leave_group_request \<Rightarrow> bytes" where
  "encode_leave_group_request buf m =
     (let buf = put_string buf (lgreq_groupId m);
          buf = put_string buf (lgreq_memberId m)
      in buf)"

definition decode_leave_group_request :: "leave_group_request get" where
  "decode_leave_group_request =
     bindG get_string (\<lambda>groupId. bindG get_string (\<lambda>memberId.
       retG \<lparr>lgreq_groupId = groupId, lgreq_memberId = memberId\<rparr>))"

definition leave_group_request_ok :: "leave_group_request \<Rightarrow> bool" where
  "leave_group_request_ok m \<longleftrightarrow> string_ok (lgreq_groupId m) \<and> string_ok (lgreq_memberId m)"

interpretation leave_group_request: typed_codec encode_leave_group_request decode_leave_group_request leave_group_request_ok
  by (unfold_locales, (auto simp: encode_leave_group_request_def decode_leave_group_request_def leave_group_request_ok_def
    Let_def put_apps intro!: codec_parses codec_within)[3],
    unfold decode_leave_group_request_def, (rule yields_bindG, rule codec_typed)+, rule yields_retG, simp add: leave_group_request_ok_def)

lemmas [put_apps] = leave_group_request.put_app
lemmas [codec_parses] = leave_group_request.get_put
lemmas [codec_within] = leave_group_request.get_within
lemmas [codec_typed] = leave_group_request.get_typed

record leave_group_response =
  lgresp_errorCode :: error_code

definition encode_leave_group_response :: "bytes \<Rightarrow> leave_group_response \<Rightarrow> bytes" where
  "encode_leave_group_response buf m = put_error buf (lgresp_errorCode m)"

definition decode_leave_group_response :: "leave_group_response get" where
  "decode_leave_group_response =
     bindG get_error (\<lambda>errorCode. retG \<lparr>lgresp_errorCode = errorCode\<rparr>)"

definition leave_group_response_ok :: "leave_group_response \<Rightarrow> bool" where
  "leave_group_response_ok m \<longleftrightarrow> error_ok (lgresp_errorCode m)"

interpretation leave_group_response: typed_codec encode_leave_group_response decode_leave_group_response leave_group_response_ok
  by (unfold_locales, (auto simp: encode_leave_group_response_def decode_leave_group_response_def leave_group_response_ok_def
    Let_def put_apps intro!: codec_parses codec_within)[3],
    unfold decode_leave_group_response_def, (rule yields_bindG, rule codec_typed)+, rule yields_retG, simp add: leave_group_response_ok_def)

lemmas [put_apps] = leave_group_response.put_app
lemmas [codec_parses] = leave_group_response.get_put
lemmas [codec_within] = leave_group_response.get_within
lemmas [codec_typed] = leave_group_response.get_typed

record commit_offset_request =
  coreq_groupId :: string
  coreq_memberId :: string
  coreq_generationId :: u32
  coreq_topic :: string
  coreq_partitionId :: u32
  coreq_offset :: u64

definition encode_commit_offset_request :: "bytes \<Rightarrow> commit_offset_request \<Rightarrow> bytes" where
  "encode_commit_offset_request buf m =
     (let buf = put_string buf (coreq_groupId m);
          buf = put_string buf (coreq_memberId m);
          buf = put_u32 buf (coreq_generationId m);
          buf = put_string buf (coreq_topic m);
          buf = put_u32 buf (coreq_partitionId m);
          buf = put_u64 buf (coreq_offset m)
      in buf)"

definition decode_commit_offset_request :: "commit_offset_request get" where
  "decode_commit_offset_request =
     bindG get_string (\<lambda>groupId. bindG get_string (\<lambda>memberId.
       bindG get_u32 (\<lambda>generationId. bindG get_string (\<lambda>topic.
       bindG get_u32 (\<lambda>partitionId. bindG get_u64 (\<lambda>offset.
       retG \<lparr>coreq_groupId = groupId, coreq_memberId = memberId, coreq_generationId = generationId, coreq_topic = topic, coreq_partitionId = partitionId, coreq_offset = offset\<rparr>))))))"

definition commit_offset_request_ok :: "commit_offset_request \<Rightarrow> bool" where
  "commit_offset_request_ok m \<longleftrightarrow> string_ok (coreq_groupId m) \<and> string_ok (coreq_memberId m) \<and> string_ok (coreq_topic m)"

interpretation commit_offset_request: typed_codec encode_commit_offset_request decode_commit_offset_request commit_offset_request_ok
  by (unfold_locales, (auto simp: encode_commit_offset_request_def decode_commit_offset_request_def commit_offset_request_ok_def
    Let_def put_apps intro!: codec_parses codec_within)[3],
    unfold decode_commit_offset_request_def, (rule yields_bindG, rule codec_typed)+, rule yields_retG, simp add: commit_offset_request_ok_def)

lemmas [put_apps] = commit_offset_request.put_app
lemmas [codec_parses] = commit_offset_request.get_put
lemmas [codec_within] = commit_offset_request.get_within
lemmas [codec_typed] = commit_offset_request.get_typed

record commit_offset_response =
  coresp_errorCode :: error_code

definition encode_commit_offset_response :: "bytes \<Rightarrow> commit_offset_response \<Rightarrow> bytes" where
  "encode_commit_offset_response buf m = put_error buf (coresp_errorCode m)"

definition decode_commit_offset_response :: "commit_offset_response get" where
  "decode_commit_offset_response =
     bindG get_error (\<lambda>errorCode. retG \<lparr>coresp_errorCode = errorCode\<rparr>)"

definition commit_offset_response_ok :: "commit_offset_response \<Rightarrow> bool" where
  "commit_offset_response_ok m \<longleftrightarrow> error_ok (coresp_errorCode m)"

interpretation commit_offset_response: typed_codec encode_commit_offset_response decode_commit_offset_response commit_offset_response_ok
  by (unfold_locales, (auto simp: encode_commit_offset_response_def decode_commit_offset_response_def commit_offset_response_ok_def
    Let_def put_apps intro!: codec_parses codec_within)[3],
    unfold decode_commit_offset_response_def, (rule yields_bindG, rule codec_typed)+, rule yields_retG, simp add: commit_offset_response_ok_def)

lemmas [put_apps] = commit_offset_response.put_app
lemmas [codec_parses] = commit_offset_response.get_put
lemmas [codec_within] = commit_offset_response.get_within
lemmas [codec_typed] = commit_offset_response.get_typed

record fetch_offset_request =
  foreq_groupId :: string
  foreq_topic :: string
  foreq_partitionId :: u32

definition encode_fetch_offset_request :: "bytes \<Rightarrow> fetch_offset_request \<Rightarrow> bytes" where
  "encode_fetch_offset_request buf m =
     (let buf = put_string buf (foreq_groupId m);
          buf = put_string buf (foreq_topic m);
          buf = put_u32 buf (foreq_partitionId m)
      in buf)"

definition decode_fetch_offset_request :: "fetch_offset_request get" where
  "decode_fetch_offset_request =
     bindG get_string (\<lambda>groupId. bindG get_string (\<lambda>topic.
       bindG get_u32 (\<lambda>partitionId.
       retG \<lparr>foreq_groupId = groupId, foreq_topic = topic, foreq_partitionId = partitionId\<rparr>)))"

definition fetch_offset_request_ok :: "fetch_offset_request \<Rightarrow> bool" where
  "fetch_offset_request_ok m \<longleftrightarrow> string_ok (foreq_groupId m) \<and> string_ok (foreq_topic m)"

interpretation fetch_offset_request: typed_codec encode_fetch_offset_request decode_fetch_offset_request fetch_offset_request_ok
  by (unfold_locales, (auto simp: encode_fetch_offset_request_def decode_fetch_offset_request_def fetch_offset_request_ok_def
    Let_def put_apps intro!: codec_parses codec_within)[3],
    unfold decode_fetch_offset_request_def, (rule yields_bindG, rule codec_typed)+, rule yields_retG, simp add: fetch_offset_request_ok_def)

lemmas [put_apps] = fetch_offset_request.put_app
lemmas [codec_parses] = fetch_offset_request.get_put
lemmas [codec_within] = fetch_offset_request.get_within
lemmas [codec_typed] = fetch_offset_request.get_typed

record fetch_offset_response =
  foresp_errorCode :: error_code
  foresp_offset :: i64

definition encode_fetch_offset_response :: "bytes \<Rightarrow> fetch_offset_response \<Rightarrow> bytes" where
  "encode_fetch_offset_response buf m =
     (let buf = put_error buf (foresp_errorCode m);
          buf = put_i64 buf (foresp_offset m)
      in buf)"

definition decode_fetch_offset_response :: "fetch_offset_response get" where
  "decode_fetch_offset_response =
     bindG get_error (\<lambda>errorCode. bindG get_i64 (\<lambda>offset.
       retG \<lparr>foresp_errorCode = errorCode, foresp_offset = offset\<rparr>))"

definition fetch_offset_response_ok :: "fetch_offset_response \<Rightarrow> bool" where
  "fetch_offset_response_ok m \<longleftrightarrow> error_ok (foresp_errorCode m) \<and> in_i64 (foresp_offset m)"

interpretation fetch_offset_response: typed_codec encode_fetch_offset_response decode_fetch_offset_response fetch_offset_response_ok
  by (unfold_locales, (auto simp: encode_fetch_offset_response_def decode_fetch_offset_response_def fetch_offset_response_ok_def
    Let_def put_apps intro!: codec_parses codec_within)[3],
    unfold decode_fetch_offset_response_def, (rule yields_bindG, rule codec_typed)+, rule yields_retG, simp add: fetch_offset_response_ok_def)

lemmas [put_apps] = fetch_offset_response.put_app
lemmas [codec_parses] = fetch_offset_response.get_put
lemmas [codec_within] = fetch_offset_response.get_within
lemmas [codec_typed] = fetch_offset_response.get_typed

end
