(* ===== verification/ClusterMessages.thy ===== *)
theory ClusterMessages
  imports Messages
begin

text \<open>
  The broker-to-broker messages of \<open>src/protocol/requests.h\<close> and \<open>requests.cpp\<close>: election, liveness, leader
  and ISR distribution, in the same form as the client messages.
\<close>

record request_vote_request =
  rvreq_term :: u32
  rvreq_candidateId :: u32

definition encode_request_vote_request :: "bytes \<Rightarrow> request_vote_request \<Rightarrow> bytes" where
  "encode_request_vote_request buf m =
     (let buf = put_u32 buf (rvreq_term m);
          buf = put_u32 buf (rvreq_candidateId m)
      in buf)"

definition decode_request_vote_request :: "request_vote_request get" where
  "decode_request_vote_request =
     bindG get_u32 (\<lambda>term. bindG get_u32 (\<lambda>candidateId.
       retG \<lparr>rvreq_term = term, rvreq_candidateId = candidateId\<rparr>))"

definition request_vote_request_ok :: "request_vote_request \<Rightarrow> bool" where
  "request_vote_request_ok m \<longleftrightarrow> True"

interpretation request_vote_request: typed_codec encode_request_vote_request decode_request_vote_request request_vote_request_ok
  by (unfold_locales, (auto simp: encode_request_vote_request_def decode_request_vote_request_def request_vote_request_ok_def
    Let_def put_apps intro!: codec_parses codec_within)[3],
    unfold decode_request_vote_request_def, (rule yields_bindG, rule codec_typed)+, rule yields_retG, simp add: request_vote_request_ok_def)

lemmas [put_apps] = request_vote_request.put_app
lemmas [codec_parses] = request_vote_request.get_put
lemmas [codec_within] = request_vote_request.get_within
lemmas [codec_typed] = request_vote_request.get_typed

record request_vote_response =
  rvresp_term :: u32
  rvresp_voteGranted :: bool

definition encode_request_vote_response :: "bytes \<Rightarrow> request_vote_response \<Rightarrow> bytes" where
  "encode_request_vote_response buf m =
     (let buf = put_u32 buf (rvresp_term m);
          buf = put_bool buf (rvresp_voteGranted m)
      in buf)"

definition decode_request_vote_response :: "request_vote_response get" where
  "decode_request_vote_response =
     bindG get_u32 (\<lambda>term. bindG get_bool (\<lambda>voteGranted.
       retG \<lparr>rvresp_term = term, rvresp_voteGranted = voteGranted\<rparr>))"

definition request_vote_response_ok :: "request_vote_response \<Rightarrow> bool" where
  "request_vote_response_ok m \<longleftrightarrow> True"

interpretation request_vote_response: typed_codec encode_request_vote_response decode_request_vote_response request_vote_response_ok
  by (unfold_locales, (auto simp: encode_request_vote_response_def decode_request_vote_response_def request_vote_response_ok_def
    Let_def put_apps intro!: codec_parses codec_within)[3],
    unfold decode_request_vote_response_def, (rule yields_bindG, rule codec_typed)+, rule yields_retG, simp add: request_vote_response_ok_def)

lemmas [put_apps] = request_vote_response.put_app
lemmas [codec_parses] = request_vote_response.get_put
lemmas [codec_within] = request_vote_response.get_within
lemmas [codec_typed] = request_vote_response.get_typed

record controller_heartbeat_request =
  chreq_term :: u32
  chreq_leaderId :: u32

definition encode_controller_heartbeat_request :: "bytes \<Rightarrow> controller_heartbeat_request \<Rightarrow> bytes" where
  "encode_controller_heartbeat_request buf m =
     (let buf = put_u32 buf (chreq_term m);
          buf = put_u32 buf (chreq_leaderId m)
      in buf)"

definition decode_controller_heartbeat_request :: "controller_heartbeat_request get" where
  "decode_controller_heartbeat_request =
     bindG get_u32 (\<lambda>term. bindG get_u32 (\<lambda>leaderId.
       retG \<lparr>chreq_term = term, chreq_leaderId = leaderId\<rparr>))"

definition controller_heartbeat_request_ok :: "controller_heartbeat_request \<Rightarrow> bool" where
  "controller_heartbeat_request_ok m \<longleftrightarrow> True"

interpretation controller_heartbeat_request: typed_codec encode_controller_heartbeat_request decode_controller_heartbeat_request controller_heartbeat_request_ok
  by (unfold_locales, (auto simp: encode_controller_heartbeat_request_def decode_controller_heartbeat_request_def controller_heartbeat_request_ok_def
    Let_def put_apps intro!: codec_parses codec_within)[3],
    unfold decode_controller_heartbeat_request_def, (rule yields_bindG, rule codec_typed)+, rule yields_retG, simp add: controller_heartbeat_request_ok_def)

lemmas [put_apps] = controller_heartbeat_request.put_app
lemmas [codec_parses] = controller_heartbeat_request.get_put
lemmas [codec_within] = controller_heartbeat_request.get_within
lemmas [codec_typed] = controller_heartbeat_request.get_typed

record controller_heartbeat_response =
  chresp_term :: u32
  chresp_success :: bool

definition encode_controller_heartbeat_response :: "bytes \<Rightarrow> controller_heartbeat_response \<Rightarrow> bytes" where
  "encode_controller_heartbeat_response buf m =
     (let buf = put_u32 buf (chresp_term m);
          buf = put_bool buf (chresp_success m)
      in buf)"

definition decode_controller_heartbeat_response :: "controller_heartbeat_response get" where
  "decode_controller_heartbeat_response =
     bindG get_u32 (\<lambda>term. bindG get_bool (\<lambda>success.
       retG \<lparr>chresp_term = term, chresp_success = success\<rparr>))"

definition controller_heartbeat_response_ok :: "controller_heartbeat_response \<Rightarrow> bool" where
  "controller_heartbeat_response_ok m \<longleftrightarrow> True"

interpretation controller_heartbeat_response: typed_codec encode_controller_heartbeat_response decode_controller_heartbeat_response controller_heartbeat_response_ok
  by (unfold_locales, (auto simp: encode_controller_heartbeat_response_def decode_controller_heartbeat_response_def controller_heartbeat_response_ok_def
    Let_def put_apps intro!: codec_parses codec_within)[3],
    unfold decode_controller_heartbeat_response_def, (rule yields_bindG, rule codec_typed)+, rule yields_retG, simp add: controller_heartbeat_response_ok_def)

lemmas [put_apps] = controller_heartbeat_response.put_app
lemmas [codec_parses] = controller_heartbeat_response.get_put
lemmas [codec_within] = controller_heartbeat_response.get_within
lemmas [codec_typed] = controller_heartbeat_response.get_typed

text \<open>\<open>BrokerHeartbeatRequest\<close> has no field.\<close>

definition encode_broker_heartbeat_request :: "bytes \<Rightarrow> unit \<Rightarrow> bytes" where
  "encode_broker_heartbeat_request buf m = buf"

definition decode_broker_heartbeat_request :: "unit get" where
  "decode_broker_heartbeat_request = retG ()"

interpretation broker_heartbeat_request: typed_codec encode_broker_heartbeat_request decode_broker_heartbeat_request "\<lambda>_. True"
  by unfold_locales (auto simp: encode_broker_heartbeat_request_def decode_broker_heartbeat_request_def
    intro!: parses_retG codec_within yields_retG)

record broker_heartbeat_response =
  bhresp_alive :: bool

definition encode_broker_heartbeat_response :: "bytes \<Rightarrow> broker_heartbeat_response \<Rightarrow> bytes" where
  "encode_broker_heartbeat_response buf m = put_bool buf (bhresp_alive m)"

definition decode_broker_heartbeat_response :: "broker_heartbeat_response get" where
  "decode_broker_heartbeat_response =
     bindG get_bool (\<lambda>alive. retG \<lparr>bhresp_alive = alive\<rparr>)"

definition broker_heartbeat_response_ok :: "broker_heartbeat_response \<Rightarrow> bool" where
  "broker_heartbeat_response_ok m \<longleftrightarrow> True"

interpretation broker_heartbeat_response: typed_codec encode_broker_heartbeat_response decode_broker_heartbeat_response broker_heartbeat_response_ok
  by (unfold_locales, (auto simp: encode_broker_heartbeat_response_def decode_broker_heartbeat_response_def broker_heartbeat_response_ok_def
    Let_def put_apps intro!: codec_parses codec_within)[3],
    unfold decode_broker_heartbeat_response_def, (rule yields_bindG, rule codec_typed)+, rule yields_retG, simp add: broker_heartbeat_response_ok_def)

lemmas [put_apps] = broker_heartbeat_response.put_app
lemmas [codec_parses] = broker_heartbeat_response.get_put
lemmas [codec_within] = broker_heartbeat_response.get_within
lemmas [codec_typed] = broker_heartbeat_response.get_typed

record leader_and_isr_entry =
  lie_topic :: string
  lie_partitionId :: u32
  lie_leaderId :: u32
  lie_replicas :: "u32 list"
  lie_isr :: "u32 list"

definition encode_leader_and_isr_entry :: "bytes \<Rightarrow> leader_and_isr_entry \<Rightarrow> bytes" where
  "encode_leader_and_isr_entry buf m =
     (let buf = put_string buf (lie_topic m);
          buf = put_u32 buf (lie_partitionId m);
          buf = put_u32 buf (lie_leaderId m);
          buf = put_list put_u32 buf (lie_replicas m);
          buf = put_list put_u32 buf (lie_isr m)
      in buf)"

definition decode_leader_and_isr_entry :: "leader_and_isr_entry get" where
  "decode_leader_and_isr_entry =
     bindG get_string (\<lambda>topic. bindG get_u32 (\<lambda>partitionId.
       bindG get_u32 (\<lambda>leaderId. bindG (get_list get_u32) (\<lambda>replicas.
       bindG (get_list get_u32) (\<lambda>isr.
       retG \<lparr>lie_topic = topic, lie_partitionId = partitionId, lie_leaderId = leaderId, lie_replicas = replicas, lie_isr = isr\<rparr>)))))"

definition leader_and_isr_entry_ok :: "leader_and_isr_entry \<Rightarrow> bool" where
  "leader_and_isr_entry_ok m \<longleftrightarrow> string_ok (lie_topic m) \<and> list_ok (\<lambda>_. True) (lie_replicas m) \<and> list_ok (\<lambda>_. True) (lie_isr m)"

interpretation leader_and_isr_entry: typed_codec encode_leader_and_isr_entry decode_leader_and_isr_entry leader_and_isr_entry_ok
  by (unfold_locales, (auto simp: encode_leader_and_isr_entry_def decode_leader_and_isr_entry_def leader_and_isr_entry_ok_def
    Let_def put_apps intro!: codec_parses codec_within)[3],
    unfold decode_leader_and_isr_entry_def, (rule yields_bindG, rule codec_typed)+, rule yields_retG, simp add: leader_and_isr_entry_ok_def)

lemmas [put_apps] = leader_and_isr_entry.put_app
lemmas [codec_parses] = leader_and_isr_entry.get_put
lemmas [codec_within] = leader_and_isr_entry.get_within
lemmas [codec_typed] = leader_and_isr_entry.get_typed

interpretation leader_and_isr_entries: typed_codec "put_list encode_leader_and_isr_entry" "get_list decode_leader_and_isr_entry" "list_ok leader_and_isr_entry_ok"
  by (rule codec_list [OF leader_and_isr_entry.typed_codec_axioms])

lemmas [put_apps] = leader_and_isr_entries.put_app
lemmas [codec_parses] = leader_and_isr_entries.get_put
lemmas [codec_within] = leader_and_isr_entries.get_within
lemmas [codec_typed] = leader_and_isr_entries.get_typed

record leader_and_isr_request =
  lireq_assignments :: "leader_and_isr_entry list"

definition encode_leader_and_isr_request :: "bytes \<Rightarrow> leader_and_isr_request \<Rightarrow> bytes" where
  "encode_leader_and_isr_request buf m = put_list encode_leader_and_isr_entry buf (lireq_assignments m)"

definition decode_leader_and_isr_request :: "leader_and_isr_request get" where
  "decode_leader_and_isr_request =
     bindG (get_list decode_leader_and_isr_entry) (\<lambda>assignments.
       retG \<lparr>lireq_assignments = assignments\<rparr>)"

definition leader_and_isr_request_ok :: "leader_and_isr_request \<Rightarrow> bool" where
  "leader_and_isr_request_ok m \<longleftrightarrow> list_ok leader_and_isr_entry_ok (lireq_assignments m)"

interpretation leader_and_isr_request: typed_codec encode_leader_and_isr_request decode_leader_and_isr_request leader_and_isr_request_ok
  by (unfold_locales, (auto simp: encode_leader_and_isr_request_def decode_leader_and_isr_request_def leader_and_isr_request_ok_def
    Let_def put_apps intro!: codec_parses codec_within)[3],
    unfold decode_leader_and_isr_request_def, (rule yields_bindG, rule codec_typed)+, rule yields_retG, simp add: leader_and_isr_request_ok_def)

lemmas [put_apps] = leader_and_isr_request.put_app
lemmas [codec_parses] = leader_and_isr_request.get_put
lemmas [codec_within] = leader_and_isr_request.get_within
lemmas [codec_typed] = leader_and_isr_request.get_typed

record leader_and_isr_response =
  liresp_errorCode :: error_code

definition encode_leader_and_isr_response :: "bytes \<Rightarrow> leader_and_isr_response \<Rightarrow> bytes" where
  "encode_leader_and_isr_response buf m = put_error buf (liresp_errorCode m)"

definition decode_leader_and_isr_response :: "leader_and_isr_response get" where
  "decode_leader_and_isr_response =
     bindG get_error (\<lambda>errorCode. retG \<lparr>liresp_errorCode = errorCode\<rparr>)"

definition leader_and_isr_response_ok :: "leader_and_isr_response \<Rightarrow> bool" where
  "leader_and_isr_response_ok m \<longleftrightarrow> error_ok (liresp_errorCode m)"

interpretation leader_and_isr_response: typed_codec encode_leader_and_isr_response decode_leader_and_isr_response leader_and_isr_response_ok
  by (unfold_locales, (auto simp: encode_leader_and_isr_response_def decode_leader_and_isr_response_def leader_and_isr_response_ok_def
    Let_def put_apps intro!: codec_parses codec_within)[3],
    unfold decode_leader_and_isr_response_def, (rule yields_bindG, rule codec_typed)+, rule yields_retG, simp add: leader_and_isr_response_ok_def)

lemmas [put_apps] = leader_and_isr_response.put_app
lemmas [codec_parses] = leader_and_isr_response.get_put
lemmas [codec_within] = leader_and_isr_response.get_within
lemmas [codec_typed] = leader_and_isr_response.get_typed

record isr_update_request =
  iureq_topic :: string
  iureq_partitionId :: u32
  iureq_isr :: "u32 list"

definition encode_isr_update_request :: "bytes \<Rightarrow> isr_update_request \<Rightarrow> bytes" where
  "encode_isr_update_request buf m =
     (let buf = put_string buf (iureq_topic m);
          buf = put_u32 buf (iureq_partitionId m);
          buf = put_list put_u32 buf (iureq_isr m)
      in buf)"

definition decode_isr_update_request :: "isr_update_request get" where
  "decode_isr_update_request =
     bindG get_string (\<lambda>topic. bindG get_u32 (\<lambda>partitionId.
       bindG (get_list get_u32) (\<lambda>isr.
       retG \<lparr>iureq_topic = topic, iureq_partitionId = partitionId, iureq_isr = isr\<rparr>)))"

definition isr_update_request_ok :: "isr_update_request \<Rightarrow> bool" where
  "isr_update_request_ok m \<longleftrightarrow> string_ok (iureq_topic m) \<and> list_ok (\<lambda>_. True) (iureq_isr m)"

interpretation isr_update_request: typed_codec encode_isr_update_request decode_isr_update_request isr_update_request_ok
  by (unfold_locales, (auto simp: encode_isr_update_request_def decode_isr_update_request_def isr_update_request_ok_def
    Let_def put_apps intro!: codec_parses codec_within)[3],
    unfold decode_isr_update_request_def, (rule yields_bindG, rule codec_typed)+, rule yields_retG, simp add: isr_update_request_ok_def)

lemmas [put_apps] = isr_update_request.put_app
lemmas [codec_parses] = isr_update_request.get_put
lemmas [codec_within] = isr_update_request.get_within
lemmas [codec_typed] = isr_update_request.get_typed

record isr_update_response =
  iuresp_errorCode :: error_code

definition encode_isr_update_response :: "bytes \<Rightarrow> isr_update_response \<Rightarrow> bytes" where
  "encode_isr_update_response buf m = put_error buf (iuresp_errorCode m)"

definition decode_isr_update_response :: "isr_update_response get" where
  "decode_isr_update_response =
     bindG get_error (\<lambda>errorCode. retG \<lparr>iuresp_errorCode = errorCode\<rparr>)"

definition isr_update_response_ok :: "isr_update_response \<Rightarrow> bool" where
  "isr_update_response_ok m \<longleftrightarrow> error_ok (iuresp_errorCode m)"

interpretation isr_update_response: typed_codec encode_isr_update_response decode_isr_update_response isr_update_response_ok
  by (unfold_locales, (auto simp: encode_isr_update_response_def decode_isr_update_response_def isr_update_response_ok_def
    Let_def put_apps intro!: codec_parses codec_within)[3],
    unfold decode_isr_update_response_def, (rule yields_bindG, rule codec_typed)+, rule yields_retG, simp add: isr_update_response_ok_def)

lemmas [put_apps] = isr_update_response.put_app
lemmas [codec_parses] = isr_update_response.get_put
lemmas [codec_within] = isr_update_response.get_within
lemmas [codec_typed] = isr_update_response.get_typed

end
