(* ===== verification/Frames.thy ===== *)
theory Frames
  imports Codec
begin

text \<open>
  The outer frames of \<open>src/net/socket.cpp\<close> and the session loop of \<open>src/net/server.cpp\<close>. A connection is
  the bytes its peer sends before closing it: \<open>recv_all\<close> takes exactly the bytes asked for, or throws at the
  end of the stream; the short reads and \<open>EINTR\<close> retries inside it are not visible to the caller. A writer
  returns the bytes it sends.
\<close>

unbundle bit_operations_syntax

record request_frame =
  rf_requestType :: u16
  rf_correlationId :: u32
  rf_payload :: bytes

record response_frame =
  sf_correlationId :: u32
  sf_payload :: bytes

datatype net_error = ConnectionClosed | MalformedFrame decode_error

definition recv_all :: "bytes \<Rightarrow> nat \<Rightarrow> net_error + (bytes \<times> bytes)" where
  "recv_all strm len = (if length strm < len then Inl ConnectionClosed else Inr (take len strm, drop len strm))"

definition decoded :: "decode_error + 'a \<Rightarrow> net_error + 'a" where
  "decoded x = (case x of Inl e \<Rightarrow> Inl (MalformedFrame e) | Inr a \<Rightarrow> Inr a)"

definition read_request_frame :: "bytes \<Rightarrow> net_error + (request_frame \<times> bytes)" where
  "read_request_frame sock =
     bindE (recv_all sock 4) (\<lambda>(lenBuf, sock).
     bindE (decoded (get_u32 (mk_reader lenBuf))) (\<lambda>(totalLen, _).
     bindE (recv_all sock (unat totalLen)) (\<lambda>(body, sock).
     bindE (decoded (get_u16 (mk_reader body))) (\<lambda>(requestType, r).
     bindE (decoded (get_u32 r)) (\<lambda>(correlationId, r).
       Inr (\<lparr>rf_requestType = requestType, rf_correlationId = correlationId, rf_payload = drop (rpos r) body\<rparr>, sock))))))"

definition write_request_frame :: "request_frame \<Rightarrow> bytes" where
  "write_request_frame f =
     (let body = put_u32 (put_u16 [] (rf_requestType f)) (rf_correlationId f) @ rf_payload f
      in put_u32 [] (of_nat (length body)) @ body)"

definition read_response_frame :: "bytes \<Rightarrow> net_error + (response_frame \<times> bytes)" where
  "read_response_frame sock =
     bindE (recv_all sock 4) (\<lambda>(lenBuf, sock).
     bindE (decoded (get_u32 (mk_reader lenBuf))) (\<lambda>(totalLen, _).
     bindE (recv_all sock (unat totalLen)) (\<lambda>(body, sock).
     bindE (decoded (get_u32 (mk_reader body))) (\<lambda>(correlationId, _).
       Inr (\<lparr>sf_correlationId = correlationId, sf_payload = drop 4 body\<rparr>, sock)))))"

definition write_response_frame :: "response_frame \<Rightarrow> bytes" where
  "write_response_frame f =
     (let body = put_u32 [] (sf_correlationId f) @ sf_payload f
      in put_u32 [] (of_nat (length body)) @ body)"

section \<open>The session loop\<close>

lemma recv_all_Inr: "recv_all s n = Inr (a, b) \<longleftrightarrow> n \<le> length s \<and> a = take n s \<and> b = drop n s"
  by (auto simp: recv_all_def)

lemma read_request_frame_shrinks: "read_request_frame s = Inr (f, s') \<Longrightarrow> length s' < length s"
  by (auto simp: read_request_frame_def bindE_eq_Inr recv_all_Inr split: prod.splits)

text \<open>
  \<open>session\<close>: a request is read, handled and answered until the stream ends, a frame is malformed or the
  handler throws. The handler may keep state between requests.
\<close>

function session :: "('s \<Rightarrow> request_frame \<Rightarrow> 'e + (response_frame \<times> 's)) \<Rightarrow> 's \<Rightarrow> bytes \<Rightarrow> bytes \<times> 's" where
  "session handler st strm =
     (case read_request_frame strm of
        Inl _ \<Rightarrow> ([], st)
      | Inr (req, strm') \<Rightarrow>
          (case handler st req of
             Inl _ \<Rightarrow> ([], st)
           | Inr (resp, st') \<Rightarrow>
               (let (out, st'') = session handler st' strm' in (write_response_frame resp @ out, st''))))"
  by pat_completeness auto
termination
  by (relation "measure (\<lambda>(handler, st, strm). length strm)") (auto intro: read_request_frame_shrinks)

declare session.simps [simp del]

section \<open>Frames round-trip\<close>

definition request_frame_ok :: "request_frame \<Rightarrow> bool" where
  "request_frame_ok f \<longleftrightarrow> length (rf_payload f) + 6 < 2 ^ 32"

definition response_frame_ok :: "response_frame \<Rightarrow> bool" where
  "response_frame_ok f \<longleftrightarrow> length (sf_payload f) + 4 < 2 ^ 32"

lemma get_u32_prefix: "get_u32 (mk_reader (put_u32 [] v @ rest)) = Inr (v, advance (mk_reader (put_u32 [] v @ rest)) 4)"
  using u32.roundtrip [of v rest] by simp

lemma get_u16_prefix: "get_u16 (mk_reader (put_u16 [] v @ rest)) = Inr (v, advance (mk_reader (put_u16 [] v @ rest)) 2)"
  using u16.roundtrip [of v rest] by simp

lemma recv_all_append: "length xs = n \<Longrightarrow> recv_all (xs @ rest) n = Inr (xs, rest)"
  by (auto simp: recv_all_def)

lemma frame_prefix:
  assumes "length body < 2 ^ 32"
  shows "recv_all (put_u32 [] (of_nat (length body)) @ body @ rest) 4 = Inr (put_u32 [] (of_nat (length body)), body @ rest)"
    and "get_u32 (mk_reader (put_u32 [] (of_nat (length body) :: u32))) =
      Inr (of_nat (length body), advance (mk_reader (put_u32 [] (of_nat (length body)))) 4)"
    and "recv_all (body @ rest) (unat (of_nat (length body) :: u32)) = Inr (body, rest)"
  using assms get_u32_prefix [of "of_nat (length body)" "[]"] by (simp_all add: recv_all_append)

lemma read_write_request:
  assumes "request_frame_ok f"
  shows "read_request_frame (write_request_frame f @ rest) = Inr (f, rest)"
proof -
  define body where "body = put_u32 (put_u16 [] (rf_requestType f)) (rf_correlationId f) @ rf_payload f"
  have body: "body = put_u16 [] (rf_requestType f) @ put_u32 [] (rf_correlationId f) @ rf_payload f"
    by (simp add: body_def put_apps)
  have len: "length body < 2 ^ 32" using assms by (simp add: request_frame_ok_def body)
  have t: "get_u16 (mk_reader body) = Inr (rf_requestType f, advance (mk_reader body) 2)"
    unfolding body by (rule get_u16_prefix)
  have c: "get_u32 (advance (mk_reader body) 2) = Inr (rf_correlationId f, advance (mk_reader body) 6)"
    using parsesD [OF u32.get_put, of "advance (mk_reader body) 2" "rf_correlationId f" "rf_payload f"]
    by (simp add: body)
  have p: "drop 6 body = rf_payload f" unfolding body by simp
  have "write_request_frame f = put_u32 [] (of_nat (length body)) @ body"
    by (simp add: write_request_frame_def body_def)
  then show ?thesis
    by (simp add: read_request_frame_def frame_prefix [OF len] decoded_def t c p)
qed

lemma read_write_response:
  assumes "response_frame_ok f"
  shows "read_response_frame (write_response_frame f @ rest) = Inr (f, rest)"
proof -
  define body where "body = put_u32 [] (sf_correlationId f) @ sf_payload f"
  have len: "length body < 2 ^ 32" using assms by (simp add: response_frame_ok_def body_def)
  have c: "get_u32 (mk_reader body) = Inr (sf_correlationId f, advance (mk_reader body) 4)"
    unfolding body_def by (rule get_u32_prefix)
  have p: "drop 4 body = sf_payload f" unfolding body_def by simp
  have "write_response_frame f = put_u32 [] (of_nat (length body)) @ body"
    by (simp add: write_response_frame_def body_def)
  then show ?thesis
    by (simp add: read_response_frame_def frame_prefix [OF len] decoded_def c p)
qed

text \<open>A frame of which the peer closed the connection before the last byte.\<close>

lemma short_frame:
  assumes "length body < 2 ^ 32" "n < 4 + length body" "4 \<le> n"
  shows "recv_all (take n (put_u32 [] (of_nat (length body)) @ body)) 4 = Inr (put_u32 [] (of_nat (length body)), take (n - 4) body)"
    and "recv_all (take (n - 4) body) (unat (of_nat (length body) :: u32)) = Inl ConnectionClosed"
  using assms by (auto simp: recv_all_def)

lemma read_cut_request:
  assumes "request_frame_ok f" "n < length (write_request_frame f)"
  shows "read_request_frame (take n (write_request_frame f)) = Inl ConnectionClosed"
proof (cases "n < 4")
  case True
  then show ?thesis using assms(2) by (simp add: read_request_frame_def recv_all_def)
next
  case False
  define body where "body = put_u32 (put_u16 [] (rf_requestType f)) (rf_correlationId f) @ rf_payload f"
  have w: "write_request_frame f = put_u32 [] (of_nat (length body)) @ body" by (simp add: write_request_frame_def body_def)
  have len: "length body < 2 ^ 32" using assms(1) by (simp add: request_frame_ok_def body_def put_apps)
  have n: "n < 4 + length body" "4 \<le> n" using assms(2) False by (simp_all add: w)
  show ?thesis
    unfolding read_request_frame_def w short_frame(1) [OF len n] bindE_simps prod.case
    by (simp add: frame_prefix(2) [OF len] short_frame(2) [OF len n] decoded_def del: unat_of_nat)
qed

lemma read_cut_response:
  assumes "response_frame_ok f" "n < length (write_response_frame f)"
  shows "read_response_frame (take n (write_response_frame f)) = Inl ConnectionClosed"
proof (cases "n < 4")
  case True
  then show ?thesis using assms(2) by (simp add: read_response_frame_def recv_all_def)
next
  case False
  define body where "body = put_u32 [] (sf_correlationId f) @ sf_payload f"
  have w: "write_response_frame f = put_u32 [] (of_nat (length body)) @ body" by (simp add: write_response_frame_def body_def)
  have len: "length body < 2 ^ 32" using assms(1) by (simp add: response_frame_ok_def body_def)
  have n: "n < 4 + length body" "4 \<le> n" using assms(2) False by (simp_all add: w)
  show ?thesis
    unfolding read_response_frame_def w short_frame(1) [OF len n] bindE_simps prod.case
    by (simp add: frame_prefix(2) [OF len] short_frame(2) [OF len n] decoded_def del: unat_of_nat)
qed

text \<open>A handler that answers every request is run once per request, in order.\<close>

fun run_handler :: "('s \<Rightarrow> request_frame \<Rightarrow> 'e + (response_frame \<times> 's)) \<Rightarrow> 's \<Rightarrow> request_frame list \<Rightarrow>
    response_frame list \<times> 's" where
  "run_handler handler st [] = ([], st)"
| "run_handler handler st (req # reqs) =
     (case handler st req of
        Inl _ \<Rightarrow> ([], st)
      | Inr (resp, st') \<Rightarrow> (let (resps, st'') = run_handler handler st' reqs in (resp # resps, st'')))"

lemma session_nil: "session handler st [] = ([], st)"
  by (simp add: session.simps [of _ _ "[]"] read_request_frame_def recv_all_def)

lemma session_runs:
  assumes "list_all request_frame_ok reqs" "run_handler handler st reqs = (resps, st')"
  shows "session handler st (concat (map write_request_frame reqs)) = (concat (map write_response_frame resps), st')"
  using assms
proof (induction reqs arbitrary: st resps st')
  case Nil
  then show ?case by (simp add: session_nil)
next
  case (Cons req reqs)
  let ?rest = "concat (map write_request_frame reqs)"
  have rd: "read_request_frame (write_request_frame req @ ?rest) = Inr (req, ?rest)"
    using Cons.prems(1) by (intro read_write_request) simp
  show ?case
  proof (cases "handler st req")
    case (Inl e)
    then show ?thesis using Cons.prems(2) rd by (simp add: session.simps [of _ _ "write_request_frame req @ ?rest"])
  next
    case (Inr a)
    obtain resp st1 where a: "a = (resp, st1)" by (cases a)
    obtain resps1 st2 where r: "run_handler handler st1 reqs = (resps1, st2)" by fastforce
    have "session handler st1 ?rest = (concat (map write_response_frame resps1), st2)"
      using Cons.IH [OF _ r] Cons.prems(1) by simp
    then show ?thesis
      using Cons.prems(2) rd Inr a r by (auto simp: session.simps [of _ _ "write_request_frame req @ ?rest"])
  qed
qed

end
