(* ===== verification/ProtocolProps.thy ===== *)
theory ProtocolProps
  imports ClientMessages GroupMessages ClusterMessages Frames
begin

text \<open>
  The properties of the wire protocol: every message and frame comes back as it was written, one cut short is an
  error, and a session answers its requests in order.
\<close>

unbundle bit_operations_syntax

section \<open>Messages\<close>

text \<open>
  C38: every message of the protocol, the ones of producers, consumers, replicas and administrators, of consumer groups,
  and between controllers. What \<open>encode\<close> wrote, \<open>decode\<close> reads back from any position, stopping right behind it,
  and every proper prefix is rejected.
\<close>

theorem messages_faithful:
  "faithful encode_produce_request decode_produce_request produce_request_ok \<and>
   faithful encode_produce_response decode_produce_response produce_response_ok \<and>
   faithful encode_fetch_request decode_fetch_request fetch_request_ok \<and>
   faithful encode_replica_fetch_request decode_replica_fetch_request replica_fetch_request_ok \<and>
   faithful encode_fetch_response decode_fetch_response fetch_response_ok \<and>
   faithful encode_metadata_request decode_metadata_request metadata_request_ok \<and>
   faithful encode_partition_metadata decode_partition_metadata partition_metadata_ok \<and>
   faithful encode_metadata_response decode_metadata_response metadata_response_ok \<and>
   faithful encode_create_topic_request decode_create_topic_request create_topic_request_ok \<and>
   faithful encode_create_topic_response decode_create_topic_response create_topic_response_ok \<and>
   faithful encode_find_coordinator_request decode_find_coordinator_request find_coordinator_request_ok \<and>
   faithful encode_find_coordinator_response decode_find_coordinator_response find_coordinator_response_ok \<and>
   faithful encode_join_group_request decode_join_group_request join_group_request_ok \<and>
   faithful encode_join_group_response decode_join_group_response join_group_response_ok \<and>
   faithful encode_sync_group_assignment decode_sync_group_assignment sync_group_assignment_ok \<and>
   faithful encode_sync_group_request decode_sync_group_request sync_group_request_ok \<and>
   faithful encode_sync_group_response decode_sync_group_response sync_group_response_ok \<and>
   faithful encode_heartbeat_request decode_heartbeat_request heartbeat_request_ok \<and>
   faithful encode_heartbeat_response decode_heartbeat_response heartbeat_response_ok \<and>
   faithful encode_leave_group_request decode_leave_group_request leave_group_request_ok \<and>
   faithful encode_leave_group_response decode_leave_group_response leave_group_response_ok \<and>
   faithful encode_commit_offset_request decode_commit_offset_request commit_offset_request_ok \<and>
   faithful encode_commit_offset_response decode_commit_offset_response commit_offset_response_ok \<and>
   faithful encode_fetch_offset_request decode_fetch_offset_request fetch_offset_request_ok \<and>
   faithful encode_fetch_offset_response decode_fetch_offset_response fetch_offset_response_ok \<and>
   faithful encode_request_vote_request decode_request_vote_request request_vote_request_ok \<and>
   faithful encode_request_vote_response decode_request_vote_response request_vote_response_ok \<and>
   faithful encode_controller_heartbeat_request decode_controller_heartbeat_request controller_heartbeat_request_ok \<and>
   faithful encode_controller_heartbeat_response decode_controller_heartbeat_response controller_heartbeat_response_ok \<and>
   faithful encode_broker_heartbeat_request decode_broker_heartbeat_request (\<lambda>_. True) \<and>
   faithful encode_broker_heartbeat_response decode_broker_heartbeat_response broker_heartbeat_response_ok \<and>
   faithful encode_leader_and_isr_entry decode_leader_and_isr_entry leader_and_isr_entry_ok \<and>
   faithful encode_leader_and_isr_request decode_leader_and_isr_request leader_and_isr_request_ok \<and>
   faithful encode_leader_and_isr_response decode_leader_and_isr_response leader_and_isr_response_ok \<and>
   faithful encode_isr_update_request decode_isr_update_request isr_update_request_ok \<and>
   faithful encode_isr_update_response decode_isr_update_response isr_update_response_ok"
  by (intro conjI
    produce_request.faithful produce_response.faithful fetch_request.faithful replica_fetch_request.faithful
    fetch_response.faithful metadata_request.faithful partition_metadata.faithful metadata_response.faithful
    create_topic_request.faithful create_topic_response.faithful find_coordinator_request.faithful
    find_coordinator_response.faithful join_group_request.faithful join_group_response.faithful
    sync_group_assignment.faithful sync_group_request.faithful sync_group_response.faithful heartbeat_request.faithful
    heartbeat_response.faithful leave_group_request.faithful leave_group_response.faithful
    commit_offset_request.faithful commit_offset_response.faithful fetch_offset_request.faithful
    fetch_offset_response.faithful request_vote_request.faithful request_vote_response.faithful
    controller_heartbeat_request.faithful controller_heartbeat_response.faithful broker_heartbeat_request.faithful
    broker_heartbeat_response.faithful leader_and_isr_entry.faithful leader_and_isr_request.faithful
    leader_and_isr_response.faithful isr_update_request.faithful isr_update_response.faithful)

text \<open>
  C39: the decoders of all messages are type sound. Whatever bytes a peer sends in a frame and wherever in them it starts,
  a decoder either throws or leaves the buffer as it is, its cursor between where it started and the end of the buffer,
  and returns a message its encoder can carry: every string fits its 2-byte length, every list its count, every error
  code and offset its width. Writing that message again and reading it back gives the same message, so nothing is lost
  when a broker or a client passes on what it has decoded.
\<close>

theorem decoders_are_type_sound:
  "type_sound encode_produce_request decode_produce_request produce_request_ok \<and>
   type_sound encode_produce_response decode_produce_response produce_response_ok \<and>
   type_sound encode_fetch_request decode_fetch_request fetch_request_ok \<and>
   type_sound encode_replica_fetch_request decode_replica_fetch_request replica_fetch_request_ok \<and>
   type_sound encode_fetch_response decode_fetch_response fetch_response_ok \<and>
   type_sound encode_metadata_request decode_metadata_request metadata_request_ok \<and>
   type_sound encode_partition_metadata decode_partition_metadata partition_metadata_ok \<and>
   type_sound encode_metadata_response decode_metadata_response metadata_response_ok \<and>
   type_sound encode_create_topic_request decode_create_topic_request create_topic_request_ok \<and>
   type_sound encode_create_topic_response decode_create_topic_response create_topic_response_ok \<and>
   type_sound encode_find_coordinator_request decode_find_coordinator_request find_coordinator_request_ok \<and>
   type_sound encode_find_coordinator_response decode_find_coordinator_response find_coordinator_response_ok \<and>
   type_sound encode_join_group_request decode_join_group_request join_group_request_ok \<and>
   type_sound encode_join_group_response decode_join_group_response join_group_response_ok \<and>
   type_sound encode_sync_group_assignment decode_sync_group_assignment sync_group_assignment_ok \<and>
   type_sound encode_sync_group_request decode_sync_group_request sync_group_request_ok \<and>
   type_sound encode_sync_group_response decode_sync_group_response sync_group_response_ok \<and>
   type_sound encode_heartbeat_request decode_heartbeat_request heartbeat_request_ok \<and>
   type_sound encode_heartbeat_response decode_heartbeat_response heartbeat_response_ok \<and>
   type_sound encode_leave_group_request decode_leave_group_request leave_group_request_ok \<and>
   type_sound encode_leave_group_response decode_leave_group_response leave_group_response_ok \<and>
   type_sound encode_commit_offset_request decode_commit_offset_request commit_offset_request_ok \<and>
   type_sound encode_commit_offset_response decode_commit_offset_response commit_offset_response_ok \<and>
   type_sound encode_fetch_offset_request decode_fetch_offset_request fetch_offset_request_ok \<and>
   type_sound encode_fetch_offset_response decode_fetch_offset_response fetch_offset_response_ok \<and>
   type_sound encode_request_vote_request decode_request_vote_request request_vote_request_ok \<and>
   type_sound encode_request_vote_response decode_request_vote_response request_vote_response_ok \<and>
   type_sound encode_controller_heartbeat_request decode_controller_heartbeat_request controller_heartbeat_request_ok \<and>
   type_sound encode_controller_heartbeat_response decode_controller_heartbeat_response controller_heartbeat_response_ok \<and>
   type_sound encode_broker_heartbeat_request decode_broker_heartbeat_request (\<lambda>_. True) \<and>
   type_sound encode_broker_heartbeat_response decode_broker_heartbeat_response broker_heartbeat_response_ok \<and>
   type_sound encode_leader_and_isr_entry decode_leader_and_isr_entry leader_and_isr_entry_ok \<and>
   type_sound encode_leader_and_isr_request decode_leader_and_isr_request leader_and_isr_request_ok \<and>
   type_sound encode_leader_and_isr_response decode_leader_and_isr_response leader_and_isr_response_ok \<and>
   type_sound encode_isr_update_request decode_isr_update_request isr_update_request_ok \<and>
   type_sound encode_isr_update_response decode_isr_update_response isr_update_response_ok"
  by (intro conjI
    produce_request.type_sound produce_response.type_sound fetch_request.type_sound replica_fetch_request.type_sound
    fetch_response.type_sound metadata_request.type_sound partition_metadata.type_sound metadata_response.type_sound
    create_topic_request.type_sound create_topic_response.type_sound find_coordinator_request.type_sound
    find_coordinator_response.type_sound join_group_request.type_sound join_group_response.type_sound
    sync_group_assignment.type_sound sync_group_request.type_sound sync_group_response.type_sound heartbeat_request.type_sound
    heartbeat_response.type_sound leave_group_request.type_sound leave_group_response.type_sound
    commit_offset_request.type_sound commit_offset_response.type_sound fetch_offset_request.type_sound
    fetch_offset_response.type_sound request_vote_request.type_sound request_vote_response.type_sound
    controller_heartbeat_request.type_sound controller_heartbeat_response.type_sound broker_heartbeat_request.type_sound
    broker_heartbeat_response.type_sound leader_and_isr_entry.type_sound leader_and_isr_request.type_sound
    leader_and_isr_response.type_sound isr_update_request.type_sound isr_update_response.type_sound)

section \<open>Frames and sessions\<close>

text \<open>
  A request or response frame is read back exactly, the bytes of the next frame stay in the connection, and a
  connection that closes inside a frame is reported as closed.
\<close>

theorem frames_faithful:
  assumes "request_frame_ok req" "response_frame_ok resp"
  shows "read_request_frame (write_request_frame req @ rest) = Inr (req, rest) \<and>
    read_response_frame (write_response_frame resp @ rest) = Inr (resp, rest) \<and>
    (\<forall>n < length (write_request_frame req). read_request_frame (take n (write_request_frame req)) = Inl ConnectionClosed) \<and>
    (\<forall>n < length (write_response_frame resp). read_response_frame (take n (write_response_frame resp)) = Inl ConnectionClosed)"
  using assms read_write_request read_write_response read_cut_request read_cut_response by blast

lemma frames_faithful_witness:
  "read_request_frame (write_request_frame \<lparr>rf_requestType = 3, rf_correlationId = 7, rf_payload = [1, 2]\<rparr> @ [9]) =
     Inr (\<lparr>rf_requestType = 3, rf_correlationId = 7, rf_payload = [1, 2]\<rparr>, [9])"
proof -
  have "request_frame_ok \<lparr>rf_requestType = 3, rf_correlationId = 7, rf_payload = [1, 2]\<rparr>"
    "response_frame_ok \<lparr>sf_correlationId = 7, sf_payload = []\<rparr>"
    by (simp_all add: request_frame_ok_def response_frame_ok_def)
  then show ?thesis by (rule frames_faithful [THEN conjunct1])
qed

text \<open>
  A session answers the requests of its connection one by one, in order, each on the state the one before left,
  up to the first the handler refuses; pipelined requests are not mixed up.
\<close>

theorem session_answers_in_order:
  assumes "list_all request_frame_ok reqs" "run_handler handler st reqs = (resps, st')"
  shows "session handler st (concat (map write_request_frame reqs)) = (concat (map write_response_frame resps), st')"
  by (rule session_runs [OF assms])

lemma session_answers_in_order_witness:
  "\<exists>req. session (\<lambda>n r. Inr (\<lparr>sf_correlationId = rf_correlationId r, sf_payload = [n]\<rparr>, n + 1) :: unit + response_frame \<times> byte) 1 (write_request_frame req @ write_request_frame req) =
     (write_response_frame \<lparr>sf_correlationId = 7, sf_payload = [1]\<rparr> @ write_response_frame \<lparr>sf_correlationId = 7, sf_payload = [2]\<rparr>, 3)"
proof -
  let ?req = "\<lparr>rf_requestType = 3, rf_correlationId = 7, rf_payload = []\<rparr>"
  let ?h = "\<lambda>n r. Inr (\<lparr>sf_correlationId = rf_correlationId r, sf_payload = [n]\<rparr>, n + 1) :: unit + response_frame \<times> byte"
  have ok: "list_all request_frame_ok [?req, ?req]" by (simp add: request_frame_ok_def)
  have run: "run_handler ?h 1 [?req, ?req] = ([\<lparr>sf_correlationId = 7, sf_payload = [1]\<rparr>, \<lparr>sf_correlationId = 7, sf_payload = [2]\<rparr>], 3)"
    by simp
  show ?thesis using session_answers_in_order [OF ok run] by (intro exI [of _ ?req]) simp
qed

end
