(* ===== verification/Sockets.thy ===== *)
theory Sockets
  imports Frames
begin

text \<open>
  Inside \<open>src/net/socket.cpp\<close>: the loops of \<open>send_all\<close> and \<open>recv_all\<close> over a kernel that moves as many bytes as it
  likes and interrupts calls, and the file descriptor a \<open>Socket\<close> owns from \<open>connect\<close>, \<open>listen\<close> or \<open>accept\<close> to its
  destructor, through moves. \<open>recv_all\<close> of the frames is what the loop computes.
\<close>

unbundle bit_operations_syntax

section \<open>Sending and receiving\<close>

text \<open>
  One answer of the kernel to a \<open>send\<close> or \<open>recv\<close>: up to \<open>n + 1\<close> bytes are moved, \<open>EINTR\<close>, another error, or 0 bytes;
  and, for a \<open>send\<close> on a connection the peer has closed, \<open>EPIPE\<close> with the signal \<open>SIGPIPE\<close>. The sockets send with flags
  0 and no program handles or ignores that signal, so it ends the process; the other errors are exceptions.
  A loop that runs out of answers is blocked (\<open>None\<close>). \<open>recv\<close> at the end of the stream moves no byte, and raises no signal.
\<close>

datatype io_answer = Ready nat | Interrupted | Broken | NoBytes | Sigpipe

datatype socket_error = SendFailed | ReceiveFailed | PeerClosed | KilledBySignal

fun send_loop :: "io_answer list \<Rightarrow> bytes \<Rightarrow> bytes \<Rightarrow> ((socket_error + unit) \<times> bytes) option" where
  "send_loop [] data sent = (if length data \<le> length sent then Some (Inr (), sent) else None)"
| "send_loop (a # answers) data sent =
     (if length data \<le> length sent then Some (Inr (), sent)
      else case a of
             Interrupted \<Rightarrow> send_loop answers data sent
           | Broken \<Rightarrow> Some (Inl SendFailed, sent)
           | Sigpipe \<Rightarrow> Some (Inl KilledBySignal, sent)
           | NoBytes \<Rightarrow> Some (Inl PeerClosed, sent)
           | Ready n \<Rightarrow> send_loop answers data (sent @ take (min (Suc n) (length data - length sent)) (drop (length sent) data)))"

fun recv_loop :: "io_answer list \<Rightarrow> bytes \<Rightarrow> nat \<Rightarrow> bytes \<Rightarrow> (socket_error + bytes \<times> bytes) option" where
  "recv_loop [] strm len got = (if len \<le> length got then Some (Inr (got, strm)) else None)"
| "recv_loop (a # answers) strm len got =
     (if len \<le> length got then Some (Inr (got, strm))
      else case a of
             Interrupted \<Rightarrow> recv_loop answers strm len got
           | Broken \<Rightarrow> Some (Inl ReceiveFailed)
           | Sigpipe \<Rightarrow> Some (Inl ReceiveFailed)
           | NoBytes \<Rightarrow> Some (Inl PeerClosed)
           | Ready n \<Rightarrow>
               (let k = min (Suc n) (len - length got)
                in if take k strm = [] then Some (Inl PeerClosed)
                   else recv_loop answers (drop k strm) len (got @ take k strm)))"

text \<open>A kernel without errors, and how often it moves bytes.\<close>

fun smooth :: "io_answer \<Rightarrow> bool" where
  "smooth (Ready n) = True"
| "smooth Interrupted = True"
| "smooth _ = False"

definition moves :: "io_answer list \<Rightarrow> nat" where
  "moves answers = length (filter (\<lambda>a. a \<noteq> Interrupted \<and> smooth a) answers)"

lemma moves_simps [simp]: "moves [] = 0" "moves (Ready n # as) = Suc (moves as)" "moves (Interrupted # as) = moves as"
  by (simp_all add: moves_def)

lemma prefix_full: "prefix xs ys \<Longrightarrow> length ys \<le> length xs \<Longrightarrow> xs = ys"
  by (auto simp: prefix_def)

lemma sent_more: "prefix sent data \<Longrightarrow> prefix (sent @ take k (drop (length sent) data)) data"
  by (auto simp: prefix_def) (metis append_take_drop_id)

lemma send_loop_prefix:
  assumes "send_loop answers data sent = Some (r, out)" "prefix sent data"
  shows "prefix out data \<and> (r = Inr () \<longrightarrow> out = data)"
  using assms
proof (induction answers arbitrary: sent)
  case Nil
  then show ?case using prefix_full by (auto split: if_splits)
next
  case (Cons a answers)
  show ?case
  proof (cases "length data \<le> length sent")
    case True
    then show ?thesis using Cons.prems prefix_full by auto
  next
    case False
    then show ?thesis
      using Cons.prems(1) Cons.IH [OF _ Cons.prems(2)] Cons.IH [OF _ sent_more [OF Cons.prems(2)]] Cons.prems(2)
      by (cases a) auto
  qed
qed

lemma send_loop_stops:
  assumes "send_loop answers data sent = Some (Inl e, out)" "prefix sent data"
  shows "length out < length data" "e = KilledBySignal \<Longrightarrow> Sigpipe \<in> set answers"
proof -
  have "length out < length data \<and> (e = KilledBySignal \<longrightarrow> Sigpipe \<in> set answers)"
    using assms
  proof (induction answers arbitrary: sent)
    case (Cons a answers)
    have ne: "\<not> length data \<le> length sent" using Cons.prems(1) by (auto split: if_splits)
    then show ?case
      using Cons.prems Cons.IH [OF _ Cons.prems(2)] Cons.IH [OF _ sent_more [OF Cons.prems(2)]] by (cases a) auto
  qed (auto split: if_splits)
  then show "length out < length data" "e = KilledBySignal \<Longrightarrow> Sigpipe \<in> set answers" by blast+
qed

lemma send_loop_returns:
  assumes "list_all smooth answers" "prefix sent data" "length data \<le> length sent + moves answers"
  shows "send_loop answers data sent = Some (Inr (), data)"
  using assms
proof (induction answers arbitrary: sent)
  case Nil
  then show ?case using prefix_full by auto
next
  case (Cons a answers)
  show ?case
  proof (cases "length data \<le> length sent")
    case True
    then show ?thesis using Cons.prems(2) prefix_full by auto
  next
    case False
    show ?thesis
    proof (cases a)
      case (Ready n)
      let ?sent = "sent @ take (min (Suc n) (length data - length sent)) (drop (length sent) data)"
      have "send_loop answers data ?sent = Some (Inr (), data)"
        using Cons.prems False Ready by (intro Cons.IH sent_more) auto
      then show ?thesis using False Ready by simp
    qed (use Cons False in auto)
  qed
qed

text \<open>
  The receive loop against \<open>recv_all\<close>: what it returns without an error is what \<open>recv_all\<close> takes, however the kernel
  cuts the stream up; it returns once the kernel has moved bytes often enough.
\<close>

lemma recv_loop_sound:
  assumes "recv_loop answers strm len got = Some (Inr (bs, rest))" "length got \<le> len"
  shows "recv_all (got @ strm) len = Inr (bs, rest)"
  using assms
proof (induction answers arbitrary: strm got)
  case Nil
  then show ?case by (auto simp: recv_all_Inr split: if_splits)
next
  case (Cons a answers)
  show ?case
  proof (cases "len \<le> length got")
    case True
    then show ?thesis using Cons.prems by (auto simp: recv_all_Inr)
  next
    case False
    show ?thesis
    proof (cases a)
      case (Ready n)
      let ?k = "min (Suc n) (len - length got)"
      have "recv_loop answers (drop ?k strm) len (got @ take ?k strm) = Some (Inr (bs, rest))"
        using Cons.prems(1) False Ready by (auto simp: Let_def split: if_splits)
      moreover have "length (got @ take ?k strm) \<le> len" using False by simp
      ultimately have "recv_all ((got @ take ?k strm) @ drop ?k strm) len = Inr (bs, rest)" by (rule Cons.IH)
      then show ?thesis by (simp only: append_assoc append_take_drop_id)
    qed (use Cons False in auto)
  qed
qed

lemma recv_loop_complete:
  assumes "list_all smooth answers" "length got \<le> len" "len \<le> length got + moves answers"
  shows "recv_loop answers strm len got =
    Some (case recv_all (got @ strm) len of Inl _ \<Rightarrow> Inl PeerClosed | Inr (bs, rest) \<Rightarrow> Inr (bs, rest))"
  using assms
proof (induction answers arbitrary: strm got)
  case Nil
  then show ?case by (simp add: recv_all_def)
next
  case (Cons a answers)
  show ?case
  proof (cases "len \<le> length got")
    case True
    then show ?thesis using Cons.prems(2) by (simp add: recv_all_def)
  next
    case False
    show ?thesis
    proof (cases a)
      case (Ready n)
      let ?k = "min (Suc n) (len - length got)"
      show ?thesis
      proof (cases "strm = []")
        case True
        then show ?thesis using False Ready by (simp add: recv_all_def)
      next
        case ne: False
        have k: "0 < ?k" "?k \<le> len - length got" using False by simp_all
        then have "1 \<le> length (take ?k strm)" "length (take ?k strm) \<le> len - length got" using ne by (cases strm; simp)+
        then have "recv_loop answers (drop ?k strm) len (got @ take ?k strm) =
            Some (case recv_all ((got @ take ?k strm) @ drop ?k strm) len of Inl _ \<Rightarrow> Inl PeerClosed | Inr (bs, rest) \<Rightarrow> Inr (bs, rest))"
          using Cons.prems Ready by (intro Cons.IH) auto
        moreover have "take ?k strm \<noteq> []" using \<open>1 \<le> length (take ?k strm)\<close> by auto
        ultimately show ?thesis
          unfolding Ready recv_loop.simps if_not_P [OF False] io_answer.case Let_def append_assoc append_take_drop_id
          by (simp only: if_False simp_thms)
      qed
    qed (use Cons False in auto)
  qed
qed

section \<open>Descriptors\<close>

text \<open>
  \<open>Socket\<close> objects and the descriptors the process has open. A socket object holds \<open>fd_\<close>, \<open>-1\<close> when it owns nothing.
  \<open>close_fd\<close> of a descriptor that is not open is the bug the model looks for, and is \<open>None\<close>: in a process with threads it
  would close somebody else's file.
\<close>

record descriptors =
  open_fds :: "int set"
  fd_of :: "nat \<rightharpoonup> int"

definition close_fd :: "int \<Rightarrow> int set \<Rightarrow> int set option" where
  "close_fd fd opened = (if fd \<in> opened then Some (opened - {fd}) else None)"

text \<open>\<open>close_if_valid\<close>; then \<open>~Socket\<close>, the moving constructor and the moving assignment, on existing objects.\<close>

definition close_if_valid :: "nat \<Rightarrow> descriptors \<Rightarrow> descriptors option" where
  "close_if_valid s d =
     (case fd_of d s of
        None \<Rightarrow> None
      | Some fd \<Rightarrow>
          if fd \<ge> 0
          then (case close_fd fd (open_fds d) of
                  None \<Rightarrow> None
                | Some opened \<Rightarrow> Some (d\<lparr>open_fds := opened, fd_of := (fd_of d)(s \<mapsto> -1)\<rparr>))
          else Some d)"

definition destroy_socket :: "nat \<Rightarrow> descriptors \<Rightarrow> descriptors option" where
  "destroy_socket s d =
     (case close_if_valid s d of None \<Rightarrow> None | Some d \<Rightarrow> Some (d\<lparr>fd_of := (fd_of d)(s := None)\<rparr>))"

definition move_construct :: "nat \<Rightarrow> nat \<Rightarrow> descriptors \<Rightarrow> descriptors option" where
  "move_construct new other d =
     (case fd_of d other of
        None \<Rightarrow> None
      | Some fd \<Rightarrow> Some (d\<lparr>fd_of := (fd_of d)(new \<mapsto> fd, other \<mapsto> -1)\<rparr>))"

definition move_assign :: "nat \<Rightarrow> nat \<Rightarrow> descriptors \<Rightarrow> descriptors option" where
  "move_assign this other d =
     (if this \<noteq> other
      then (case close_if_valid this d of
              None \<Rightarrow> None
            | Some d \<Rightarrow>
                (case fd_of d other of
                   None \<Rightarrow> None
                 | Some fd \<Rightarrow> Some (d\<lparr>fd_of := (fd_of d)(this \<mapsto> fd, other \<mapsto> -1)\<rparr>)))
      else Some d)"

text \<open>
  One address of \<open>getaddrinfo\<close>: \<open>socket\<close> fails, or gives a descriptor that \<open>connect\<close> (or \<open>bind\<close>) refuses or accepts. The
  loop returns \<open>fd\<close>, \<open>-1\<close> when no address worked.
\<close>

datatype address = NoDescriptor | Refused int | Accepted int

datatype setup_error = NoAddress | NothingConnected | NotListening | NotAccepted

fun try_addresses :: "address list \<Rightarrow> int set \<Rightarrow> (int \<times> int set) option" where
  "try_addresses [] opened = Some (-1, opened)"
| "try_addresses (NoDescriptor # ps) opened = try_addresses ps opened"
| "try_addresses (Accepted fd # ps) opened = Some (fd, insert fd opened)"
| "try_addresses (Refused fd # ps) opened =
     (case close_fd fd (insert fd opened) of None \<Rightarrow> None | Some opened \<Rightarrow> try_addresses ps opened)"

text \<open>\<open>Socket::connect\<close>, \<open>Socket::listen\<close> and \<open>Socket::accept\<close>; \<open>addrs\<close> is \<open>None\<close> when \<open>getaddrinfo\<close> fails.\<close>

definition connect_socket :: "address list option \<Rightarrow> nat \<Rightarrow> descriptors \<Rightarrow> ((setup_error + unit) \<times> descriptors) option" where
  "connect_socket addrs new d =
     (case addrs of
        None \<Rightarrow> Some (Inl NoAddress, d)
      | Some ps \<Rightarrow>
          (case try_addresses ps (open_fds d) of
             None \<Rightarrow> None
           | Some (fd, opened) \<Rightarrow>
               if fd < 0 then Some (Inl NothingConnected, d\<lparr>open_fds := opened\<rparr>)
               else Some (Inr (), d\<lparr>open_fds := opened, fd_of := (fd_of d)(new \<mapsto> fd)\<rparr>)))"

definition listen_socket :: "address list option \<Rightarrow> bool \<Rightarrow> nat \<Rightarrow> descriptors \<Rightarrow> ((setup_error + unit) \<times> descriptors) option" where
  "listen_socket addrs listens new d =
     (case addrs of
        None \<Rightarrow> Some (Inl NoAddress, d)
      | Some ps \<Rightarrow>
          (case try_addresses ps (open_fds d) of
             None \<Rightarrow> None
           | Some (fd, opened) \<Rightarrow>
               if fd < 0 then Some (Inl NothingConnected, d\<lparr>open_fds := opened\<rparr>)
               else if \<not> listens
               then (case close_fd fd opened of
                       None \<Rightarrow> None
                     | Some opened \<Rightarrow> Some (Inl NotListening, d\<lparr>open_fds := opened\<rparr>))
               else Some (Inr (), d\<lparr>open_fds := opened, fd_of := (fd_of d)(new \<mapsto> fd)\<rparr>)))"

definition accept_socket :: "int \<Rightarrow> nat \<Rightarrow> descriptors \<Rightarrow> ((setup_error + unit) \<times> descriptors) option" where
  "accept_socket cfd new d =
     (if cfd < 0 then Some (Inl NotAccepted, d)
      else Some (Inr (), d\<lparr>open_fds := insert cfd (open_fds d), fd_of := (fd_of d)(new \<mapsto> cfd)\<rparr>))"

text \<open>
  Programs over sockets. The kernel hands out non-negative descriptors that are not open; a new object is one that does
  not exist; the others exist.
\<close>

datatype socket_call =
    Connect "address list option" nat
  | Listen "address list option" bool nat
  | Accept int nat
  | MoveConstruct nat nat
  | MoveAssign nat nat
  | Destroy nat

fun call_socket :: "socket_call \<Rightarrow> descriptors \<Rightarrow> descriptors option" where
  "call_socket (Connect addrs new) d = map_option snd (connect_socket addrs new d)"
| "call_socket (Listen addrs listens new) d = map_option snd (listen_socket addrs listens new d)"
| "call_socket (Accept cfd new) d = map_option snd (accept_socket cfd new d)"
| "call_socket (MoveConstruct new other) d = move_construct new other d"
| "call_socket (MoveAssign this other) d = move_assign this other d"
| "call_socket (Destroy s) d = destroy_socket s d"

fun fresh_address :: "int set \<Rightarrow> address \<Rightarrow> bool" where
  "fresh_address opened NoDescriptor = True"
| "fresh_address opened (Refused fd) = (0 \<le> fd \<and> fd \<notin> opened)"
| "fresh_address opened (Accepted fd) = (0 \<le> fd \<and> fd \<notin> opened)"

fun legal_call :: "socket_call \<Rightarrow> descriptors \<Rightarrow> bool" where
  "legal_call (Connect addrs new) d = (fd_of d new = None \<and> pred_option (list_all (fresh_address (open_fds d))) addrs)"
| "legal_call (Listen addrs listens new) d = (fd_of d new = None \<and> pred_option (list_all (fresh_address (open_fds d))) addrs)"
| "legal_call (Accept cfd new) d = (fd_of d new = None \<and> cfd \<notin> open_fds d)"
| "legal_call (MoveConstruct new other) d = (fd_of d new = None \<and> fd_of d other \<noteq> None)"
| "legal_call (MoveAssign this other) d = (fd_of d this \<noteq> None \<and> fd_of d other \<noteq> None)"
| "legal_call (Destroy s) d = (fd_of d s \<noteq> None)"

fun legal_calls :: "socket_call list \<Rightarrow> descriptors \<Rightarrow> bool" where
  "legal_calls [] d = True"
| "legal_calls (c # cs) d = (legal_call c d \<and> (case call_socket c d of None \<Rightarrow> True | Some d \<Rightarrow> legal_calls cs d))"

fun call_sockets :: "socket_call list \<Rightarrow> descriptors \<Rightarrow> descriptors option" where
  "call_sockets [] d = Some d"
| "call_sockets (c # cs) d = (case call_socket c d of None \<Rightarrow> None | Some d \<Rightarrow> call_sockets cs d)"

text \<open>The descriptors open are those the objects own, each by one.\<close>

definition well_owned :: "descriptors \<Rightarrow> bool" where
  "well_owned d \<longleftrightarrow>
     (\<forall>fd. fd \<in> open_fds d \<longleftrightarrow> 0 \<le> fd \<and> (\<exists>s. fd_of d s = Some fd)) \<and>
     (\<forall>s t fd. 0 \<le> fd \<and> fd_of d s = Some fd \<and> fd_of d t = Some fd \<longrightarrow> s = t)"

lemma try_addresses_cases:
  "list_all (fresh_address opened) ps \<Longrightarrow>
   try_addresses ps opened = Some (-1, opened) \<or>
   (\<exists>fd. 0 \<le> fd \<and> fd \<notin> opened \<and> try_addresses ps opened = Some (fd, insert fd opened))"
  by (induction ps opened rule: try_addresses.induct) (auto simp: close_fd_def)

lemma well_ownedI:
  assumes "\<And>fd. fd \<in> open_fds d \<Longrightarrow> 0 \<le> fd \<and> (\<exists>s. fd_of d s = Some fd)"
    and "\<And>s fd. fd_of d s = Some fd \<Longrightarrow> 0 \<le> fd \<Longrightarrow> fd \<in> open_fds d"
    and "\<And>s t fd. fd_of d s = Some fd \<Longrightarrow> fd_of d t = Some fd \<Longrightarrow> 0 \<le> fd \<Longrightarrow> s = t"
  shows "well_owned d"
  using assms unfolding well_owned_def by blast

lemma well_ownedD:
  assumes "well_owned d"
  shows "fd \<in> open_fds d \<Longrightarrow> 0 \<le> fd" "fd \<in> open_fds d \<Longrightarrow> \<exists>s. fd_of d s = Some fd"
    and "fd_of d s = Some fd \<Longrightarrow> 0 \<le> fd \<Longrightarrow> fd \<in> open_fds d"
    and "fd_of d s = Some fd \<Longrightarrow> fd_of d t = Some fd \<Longrightarrow> 0 \<le> fd \<Longrightarrow> s = t"
  using assms unfolding well_owned_def by blast+

lemma well_owned_new:
  assumes "well_owned d" "fd_of d new = None" "0 \<le> fd" "fd \<notin> open_fds d"
  shows "well_owned (d\<lparr>open_fds := insert fd (open_fds d), fd_of := (fd_of d)(new \<mapsto> fd)\<rparr>)" (is "well_owned ?d")
proof (rule well_ownedI)
  fix fd' assume "fd' \<in> open_fds ?d"
  then consider "fd' = fd" | s where "fd' \<in> open_fds d" "fd_of d s = Some fd'" using well_ownedD(2) [OF assms(1)] by auto
  then show "0 \<le> fd' \<and> (\<exists>s. fd_of ?d s = Some fd')"
  proof cases
    case 2
    then have "s \<noteq> new" using assms(2) by auto
    then show ?thesis using 2 well_ownedD(1) [OF assms(1)] by auto
  qed (use assms in auto)
next
  fix s t fd' assume st: "fd_of ?d s = Some fd'" "fd_of ?d t = Some fd'" "0 \<le> fd'"
  show "s = t"
    using st assms(4) well_ownedD(3) [OF assms(1), of s fd'] well_ownedD(3) [OF assms(1), of t fd']
      well_ownedD(4) [OF assms(1), of s fd' t]
    by (auto split: if_splits)
qed (use well_ownedD(3) [OF assms(1)] in \<open>auto split: if_splits\<close>)

lemma well_owned_drop:
  assumes "well_owned d" "fd_of d s = Some fd" "0 \<le> fd" "v = None \<or> (\<exists>x. v = Some x \<and> x < 0)"
  shows "well_owned (d\<lparr>open_fds := open_fds d - {fd}, fd_of := (fd_of d)(s := v)\<rparr>)" (is "well_owned ?d")
proof (rule well_ownedI)
  fix fd' assume fd': "fd' \<in> open_fds ?d"
  then obtain t where t: "fd_of d t = Some fd'" "fd' \<noteq> fd" using well_ownedD(2) [OF assms(1), of fd'] by auto
  then have "t \<noteq> s" using assms(2) by auto
  then show "0 \<le> fd' \<and> (\<exists>s. fd_of ?d s = Some fd')" using t fd' well_ownedD(1) [OF assms(1)] by auto
next
  fix t fd' assume t: "fd_of ?d t = Some fd'" "0 \<le> fd'"
  then have "t \<noteq> s" using assms(4) by auto
  then show "fd' \<in> open_fds ?d"
    using t well_ownedD(3) [OF assms(1), of t fd'] well_ownedD(4) [OF assms(1), of t fd' s] assms(2) by auto
next
  fix t u fd' assume t: "fd_of ?d t = Some fd'" "fd_of ?d u = Some fd'" "0 \<le> fd'"
  then have "t \<noteq> s" "u \<noteq> s" using assms(4) by auto
  then show "t = u" using t well_ownedD(4) [OF assms(1), of t fd' u] by auto
qed

lemma well_owned_empty:
  assumes "well_owned d" "\<forall>fd. fd_of d s = Some fd \<longrightarrow> fd < 0" "v = None \<or> (\<exists>x. v = Some x \<and> x < 0)"
  shows "well_owned (d\<lparr>fd_of := (fd_of d)(s := v)\<rparr>)" (is "well_owned ?d")
proof (rule well_ownedI)
  fix fd' assume fd': "fd' \<in> open_fds ?d"
  then obtain t where t: "fd_of d t = Some fd'" "0 \<le> fd'" using well_ownedD(1,2) [OF assms(1), of fd'] by auto
  then have "t \<noteq> s" using assms(2) by auto
  then show "0 \<le> fd' \<and> (\<exists>s. fd_of ?d s = Some fd')" using t by auto
next
  fix t fd' assume t: "fd_of ?d t = Some fd'" "0 \<le> fd'"
  then have "t \<noteq> s" using assms(3) by auto
  then show "fd' \<in> open_fds ?d" using t well_ownedD(3) [OF assms(1), of t fd'] by auto
next
  fix t u fd' assume t: "fd_of ?d t = Some fd'" "fd_of ?d u = Some fd'" "0 \<le> fd'"
  then have "t \<noteq> s" "u \<noteq> s" using assms(3) by auto
  then show "t = u" using t well_ownedD(4) [OF assms(1), of t fd' u] by auto
qed

text \<open>Moving is giving the descriptor up and taking it over.\<close>

lemma well_owned_move:
  assumes "well_owned d" "fd_of d other = Some fd" "this \<noteq> other" "\<forall>fd. fd_of d this = Some fd \<longrightarrow> fd < 0"
  shows "well_owned (d\<lparr>fd_of := (fd_of d)(this \<mapsto> fd, other \<mapsto> -1)\<rparr>)"
proof (cases "0 \<le> fd")
  case True
  let ?d = "d\<lparr>open_fds := open_fds d - {fd}, fd_of := (fd_of d)(other \<mapsto> -1)\<rparr>"
  have "well_owned ?d" using assms True by (intro well_owned_drop) auto
  then have "well_owned (?d\<lparr>fd_of := (fd_of ?d)(this := None)\<rparr>)" using assms(3,4) by (intro well_owned_empty) auto
  from well_owned_new [OF this, of this fd]
  have "well_owned (?d\<lparr>open_fds := insert fd (open_fds d - {fd}), fd_of := ((fd_of ?d)(this := None))(this \<mapsto> fd)\<rparr>)"
    using True by simp
  moreover have "insert fd (open_fds d - {fd}) = open_fds d" using well_ownedD(3) [OF assms(1,2) True] by auto
  moreover have "((fd_of ?d)(this := None))(this \<mapsto> fd) = (fd_of d)(this \<mapsto> fd, other \<mapsto> -1)" using assms(3) by (simp add: fun_upd_twist)
  ultimately show ?thesis by simp
next
  case False
  have "well_owned (d\<lparr>fd_of := (fd_of d)(this \<mapsto> fd)\<rparr>)" using assms False by (intro well_owned_empty) auto
  from well_owned_empty [OF this, of other "Some (-1)"] show ?thesis using assms(2,3) False by auto
qed

lemma close_if_valid_owned:
  assumes "well_owned d" "fd_of d s = Some fd"
  obtains d' where "close_if_valid s d = Some d'" "well_owned d'" "fd_of d' s = Some (if fd < 0 then fd else -1)"
    "\<And>t. t \<noteq> s \<Longrightarrow> fd_of d' t = fd_of d t"
proof (cases "fd \<ge> 0")
  case True
  let ?d = "d\<lparr>open_fds := open_fds d - {fd}, fd_of := (fd_of d)(s \<mapsto> -1)\<rparr>"
  have "close_if_valid s d = Some ?d"
    using assms(2) True well_ownedD(3) [OF assms True] by (simp add: close_if_valid_def close_fd_def)
  moreover have "well_owned ?d" using assms True by (intro well_owned_drop) auto
  ultimately show ?thesis using that True by simp
next
  case False
  then show ?thesis using that [of d] assms by (simp add: close_if_valid_def)
qed

lemma setup_keeps:
  assumes "well_owned d" "fd_of d new = None" "list_all (fresh_address (open_fds d)) ps"
  shows "\<exists>r d'. connect_socket (Some ps) new d = Some (r, d') \<and> well_owned d'"
    and "\<exists>r d'. listen_socket (Some ps) listens new d = Some (r, d') \<and> well_owned d'"
proof -
  consider "try_addresses ps (open_fds d) = Some (-1, open_fds d)"
    | fd where "0 \<le> fd" "fd \<notin> open_fds d" "try_addresses ps (open_fds d) = Some (fd, insert fd (open_fds d))"
    using try_addresses_cases [OF assms(3)] by blast
  note c = this
  show "\<exists>r d'. connect_socket (Some ps) new d = Some (r, d') \<and> well_owned d'"
    using c by cases (use assms in \<open>auto simp: connect_socket_def well_owned_new\<close>)
  show "\<exists>r d'. listen_socket (Some ps) listens new d = Some (r, d') \<and> well_owned d'"
    using c by cases (use assms in \<open>auto simp: listen_socket_def well_owned_new close_fd_def\<close>)
qed

lemma socket_call_keeps:
  assumes "well_owned d" "legal_call c d"
  shows "\<exists>d'. call_socket c d = Some d' \<and> well_owned d'"
proof (cases c)
  case (Connect addrs new)
  then show ?thesis using assms setup_keeps(1) [of d new] by (cases addrs) (fastforce simp: connect_socket_def)+
next
  case (Listen addrs listens new)
  then show ?thesis using assms setup_keeps(2) [of d new _ listens] by (cases addrs) (fastforce simp: listen_socket_def)+
next
  case (Accept cfd new)
  then show ?thesis using assms by (auto simp: accept_socket_def well_owned_new)
next
  case (MoveConstruct new other)
  then have "fd_of d new = None" "new \<noteq> other" using assms(2) by auto
  then show ?thesis using MoveConstruct assms well_owned_move [OF assms(1), of other _ new] by (auto simp: move_construct_def)
next
  case (MoveAssign this other)
  then obtain a b where ab: "fd_of d this = Some a" "fd_of d other = Some b" using assms(2) by auto
  show ?thesis
  proof (cases "this = other")
    case False
    obtain d1 where d1: "close_if_valid this d = Some d1" "well_owned d1" "fd_of d1 this = Some (if a < 0 then a else -1)"
      "fd_of d1 other = Some b"
      using close_if_valid_owned [OF assms(1) ab(1)] ab(2) False by metis
    then show ?thesis using MoveAssign False well_owned_move [OF d1(2,4) False] by (simp add: move_assign_def)
  qed (use MoveAssign assms in \<open>simp add: move_assign_def\<close>)
next
  case (Destroy s)
  then obtain a where a: "fd_of d s = Some a" using assms(2) by auto
  obtain d1 where d1: "close_if_valid s d = Some d1" "well_owned d1" "fd_of d1 s = Some (if a < 0 then a else -1)"
    using close_if_valid_owned [OF assms(1) a] by metis
  then show ?thesis using Destroy well_owned_empty [OF d1(2), of s None] by (simp add: destroy_socket_def)
qed

lemma socket_calls_keep:
  "well_owned d \<Longrightarrow> legal_calls cs d \<Longrightarrow> \<exists>d'. call_sockets cs d = Some d' \<and> well_owned d'"
proof (induction cs arbitrary: d)
  case (Cons c cs)
  then obtain d1 where "call_socket c d = Some d1" "well_owned d1" using socket_call_keeps by fastforce
  then show ?case using Cons by simp
qed simp

section \<open>The server\<close>

text \<open>
  \<open>TcpServer::run\<close> (\<open>src/net/server.cpp\<close>): the listening socket is made as a temporary (object 1) and assigned to
  \<open>listener_\<close> (object 0); every accepted connection (object \<open>n\<close>) is moved to its session's thread (object \<open>n + 1\<close>; the moves
  inside \<open>std::thread\<close> are one), which owns it from then on. The loop goes on until the connections given are used up (it is then blocked in \<open>accept\<close>), or an
  \<open>accept\<close> fails: nothing catches that exception, and the server is over. \<open>stop\<close> is called by nobody.
\<close>

fun accept_loop :: "int list \<Rightarrow> nat \<Rightarrow> descriptors \<Rightarrow> ((setup_error + unit) \<times> descriptors) option" where
  "accept_loop [] n d = Some (Inr (), d)"
| "accept_loop (cfd # cfds) n d =
     (case accept_socket cfd n d of
        None \<Rightarrow> None
      | Some (Inl e, d) \<Rightarrow> Some (Inl e, d)
      | Some (Inr _, d) \<Rightarrow>
          (case move_construct (n + 1) n d of
             None \<Rightarrow> None
           | Some d \<Rightarrow> (case destroy_socket n d of None \<Rightarrow> None | Some d \<Rightarrow> accept_loop cfds (n + 2) d)))"

definition server_run :: "address list option \<Rightarrow> bool \<Rightarrow> int list \<Rightarrow> descriptors \<Rightarrow> ((setup_error + unit) \<times> descriptors) option" where
  "server_run addrs listens cfds d =
     (case listen_socket addrs listens 1 d of
        None \<Rightarrow> None
      | Some (Inl e, d) \<Rightarrow> Some (Inl e, d)
      | Some (Inr _, d) \<Rightarrow>
          (case move_assign 0 1 d of
             None \<Rightarrow> None
           | Some d \<Rightarrow> (case destroy_socket 1 d of None \<Rightarrow> None | Some d \<Rightarrow> accept_loop cfds 2 d)))"

text \<open>One turn of the loop leaves the connection with the thread's object alone.\<close>

lemma accept_turn:
  assumes "0 \<le> cfd"
  shows "accept_loop (cfd # cfds) n d =
    accept_loop cfds (n + 2) (d\<lparr>open_fds := insert cfd (open_fds d), fd_of := (fd_of d)(n := None, n + 1 \<mapsto> cfd)\<rparr>)"
  using assms by (simp add: accept_socket_def move_construct_def destroy_socket_def close_if_valid_def fun_upd_twist)

lemma accept_loop_serves:
  assumes "\<forall>fd \<in> set fds. 0 \<le> fd" "cfd < 0"
  shows "\<exists>d'. accept_loop (fds @ cfd # later) n d = Some (Inl NotAccepted, d') \<and> open_fds d' = open_fds d \<union> set fds \<and>
    (\<forall>k < length fds. fd_of d' (n + 2 * k + 1) = Some (fds ! k)) \<and> (\<forall>s < n. fd_of d' s = fd_of d s)"
  using assms(1)
proof (induction fds arbitrary: n d)
  case Nil
  then show ?case using assms(2) by (simp add: accept_socket_def)
next
  case (Cons fd fds)
  let ?d = "d\<lparr>open_fds := insert fd (open_fds d), fd_of := (fd_of d)(n := None, n + 1 \<mapsto> fd)\<rparr>"
  obtain d' where d': "accept_loop (fds @ cfd # later) (n + 2) ?d = Some (Inl NotAccepted, d')"
    "open_fds d' = open_fds ?d \<union> set fds" "\<forall>k < length fds. fd_of d' (n + 2 + 2 * k + 1) = Some (fds ! k)"
    "\<forall>s < n + 2. fd_of d' s = fd_of ?d s"
    using Cons.IH [of "n + 2" ?d] Cons.prems by auto
  have "fd_of d' (n + 2 * k + 1) = Some ((fd # fds) ! k)" if "k < length (fd # fds)" for k
    using that d'(3,4) by (cases k) (auto simp: add_ac)
  moreover have "fd_of d' s = fd_of d s" if "s < n" for s using d'(4) that by simp
  ultimately show ?case
    using d'(1,2) accept_turn [of fd "fds @ cfd # later" n d] Cons.prems by (intro exI [of _ d']) auto
qed

section \<open>Properties\<close>

text \<open>
  C27: However the kernel cuts the bytes up and interrupts the calls: what \<open>send_all\<close> has sent is a beginning of the
  data, and all of it when it returns normally; what \<open>recv_all\<close> returns is the next \<open>len\<close> bytes of the stream, what the
  frames' reader is stated with. A kernel that raises no error and moves at least one byte in as many calls as there are
  bytes lets both return, \<open>send_all\<close> with everything sent and \<open>recv_all\<close> with the outcome of the one-call reader: so a frame
  sent through one such kernel is read back through another.
\<close>

theorem sockets_carry_all_bytes:
  "(\<forall>r out. send_loop as data [] = Some (r, out) \<longrightarrow> prefix out data \<and> (r = Inr () \<longrightarrow> out = data)) \<and>
   (\<forall>got. recv_loop bs strm len [] = Some (Inr got) \<longrightarrow> recv_all strm len = Inr got) \<and>
   (list_all smooth as \<and> length data \<le> moves as \<longrightarrow> send_loop as data [] = Some (Inr (), data)) \<and>
   (list_all smooth bs \<and> len \<le> moves bs \<longrightarrow>
      recv_loop bs strm len [] = Some (case recv_all strm len of Inl _ \<Rightarrow> Inl PeerClosed | Inr got \<Rightarrow> Inr got))"
proof (intro conjI allI impI)
  fix r out assume "send_loop as data [] = Some (r, out)"
  then show "prefix out data" "r = Inr () \<Longrightarrow> out = data" using send_loop_prefix by (metis Nil_prefix)+
next
  fix got assume "recv_loop bs strm len [] = Some (Inr got)"
  then show "recv_all strm len = Inr got" using recv_loop_sound [of bs strm len "[]"] by (cases got) simp
next
  assume "list_all smooth as \<and> length data \<le> moves as"
  then show "send_loop as data [] = Some (Inr (), data)" by (intro send_loop_returns) auto
next
  assume "list_all smooth bs \<and> len \<le> moves bs"
  then show "recv_loop bs strm len [] = Some (case recv_all strm len of Inl _ \<Rightarrow> Inl PeerClosed | Inr got \<Rightarrow> Inr got)"
    using recv_loop_complete [of bs "[]" len strm] by (simp split: sum.splits prod.splits)
qed

theorem sockets_carry_all_bytes_witness:
  "send_loop [Ready 1, Broken] [1, 2, 3] [] = Some (Inl SendFailed, [1, 2]) \<and> prefix [1, 2] [1, 2, 3 :: u8] \<and>
   send_loop [Ready 0, Interrupted, Ready 9, Ready 0] [1, 2, 3] [] = Some (Inr (), [1, 2, 3]) \<and>
   recv_loop [Ready 0, Interrupted, Ready 4] [1, 2, 3] 2 [] = Some (Inr ([1, 2], [3])) \<and> recv_all [1, 2, 3] 2 = Inr ([1, 2], [3])"
proof -
  have s: "send_loop [Ready 1, Broken] [1, 2, 3] [] = Some (Inl SendFailed, [1, 2])" by simp
  have r: "recv_loop [Ready 0, Interrupted, Ready 4] [1, 2, 3] 2 [] = Some (Inr ([1, 2], [3]))" by simp
  have "prefix [1, 2] [1, 2, 3 :: u8]"
    using conjunct1 [OF sockets_carry_all_bytes [of "[Ready 1, Broken]" "[1, 2, 3]" "[Ready 0, Interrupted, Ready 4]" "[1, 2, 3]" 2]] s by blast
  moreover have "recv_all [1, 2, 3] 2 = Inr ([1, 2], [3])"
    using sockets_carry_all_bytes [of "[Ready 1, Broken]" "[1, 2, 3]" "[Ready 0, Interrupted, Ready 4]" "[1, 2, 3]" 2] r by blast
  moreover have "send_loop [Ready 0, Interrupted, Ready 9, Ready 0] [1, 2, 3] [] = Some (Inr (), [1, 2, 3])"
    using sockets_carry_all_bytes [of "[Ready 0, Interrupted, Ready 9, Ready 0]" "[1, 2, 3]" "[]" "[]" 0] by simp
  ultimately show ?thesis using s r by blast
qed

text \<open>
  C28: No descriptor leaks and none is closed twice: from a process without sockets, whatever sequence of connecting,
  listening, accepting, moving, assigning (also to itself) and destroying it makes, failures of every system call
  included, each close is of an open descriptor, each open descriptor is owned by exactly one \<open>Socket\<close>, and none is open
  once the objects are gone.
\<close>

theorem no_descriptor_leaks:
  assumes "legal_calls cs \<lparr>open_fds = {}, fd_of = Map.empty\<rparr>"
  shows "\<exists>d. call_sockets cs \<lparr>open_fds = {}, fd_of = Map.empty\<rparr> = Some d \<and>
    (\<forall>fd \<in> open_fds d. \<exists>!s. fd_of d s = Some fd) \<and>
    (\<forall>s fd. fd_of d s = Some fd \<and> 0 \<le> fd \<longrightarrow> fd \<in> open_fds d) \<and>
    (fd_of d = Map.empty \<longrightarrow> open_fds d = {})"
proof -
  have "well_owned \<lparr>open_fds = {}, fd_of = Map.empty\<rparr>" by (simp add: well_owned_def)
  from socket_calls_keep [OF this assms] obtain d
    where d: "call_sockets cs \<lparr>open_fds = {}, fd_of = Map.empty\<rparr> = Some d" "well_owned d" by blast
  show ?thesis
  proof (intro exI conjI)
    show "\<forall>fd \<in> open_fds d. \<exists>!s. fd_of d s = Some fd" using well_ownedD(1,2,4) [OF d(2)] by metis
    show "\<forall>s fd. fd_of d s = Some fd \<and> 0 \<le> fd \<longrightarrow> fd \<in> open_fds d" using well_ownedD(3) [OF d(2)] by blast
    show "fd_of d = Map.empty \<longrightarrow> open_fds d = {}" using well_ownedD(2) [OF d(2)] by fastforce
  qed (rule d(1))
qed

text \<open>A client connects at its second address, replaces the connection by assignment, and ends.\<close>

theorem no_descriptor_leaks_witness:
  "\<exists>d. call_sockets [Connect (Some [Refused 3, Accepted 3]) 0, Connect (Some [NoDescriptor, Accepted 4]) 1, MoveAssign 0 1,
      Destroy 1, Destroy 0] \<lparr>open_fds = {}, fd_of = Map.empty\<rparr> = Some d \<and> fd_of d = Map.empty \<and> open_fds d = {}"
proof -
  let ?cs = "[Connect (Some [Refused 3, Accepted 3]) 0, Connect (Some [NoDescriptor, Accepted 4]) 1, MoveAssign 0 1,
      Destroy 1, Destroy 0]"
  note ev = connect_socket_def close_fd_def move_assign_def destroy_socket_def close_if_valid_def
  have "legal_calls ?cs \<lparr>open_fds = {}, fd_of = Map.empty\<rparr>" by (simp add: ev)
  from no_descriptor_leaks [OF this] obtain d where
    d: "call_sockets ?cs \<lparr>open_fds = {}, fd_of = Map.empty\<rparr> = Some d" "fd_of d = Map.empty \<longrightarrow> open_fds d = {}" by blast
  moreover have "fd_of d = Map.empty" using d(1) by (auto simp: ev)
  ultimately show ?thesis by blast
qed

text \<open>
  The server runs every connection in a session that owns its descriptor, and ends at the first \<open>accept\<close> that fails:
  started on a free address, it leaves the listening socket and one session's object for each connection accepted before,
  in order, and takes no connection that comes after.
\<close>

theorem server_ends_at_failed_accept:
  assumes "\<forall>fd \<in> set fds. 0 \<le> fd" "cfd < 0" "0 \<le> lfd"
  shows "\<exists>d. server_run (Some [Accepted lfd]) True (fds @ cfd # later) \<lparr>open_fds = {}, fd_of = [0 \<mapsto> -1]\<rparr> = Some (Inl NotAccepted, d) \<and>
    open_fds d = insert lfd (set fds) \<and> fd_of d 0 = Some lfd \<and> (\<forall>k < length fds. fd_of d (2 * k + 3) = Some (fds ! k))"
proof -
  let ?d = "\<lparr>open_fds = {lfd}, fd_of = [0 \<mapsto> lfd]\<rparr>"
  have "server_run (Some [Accepted lfd]) True cfds \<lparr>open_fds = {}, fd_of = [0 \<mapsto> -1]\<rparr> = accept_loop cfds 2 ?d" for cfds
  proof -
    have "(([0 \<mapsto> - 1](Suc 0 \<mapsto> lfd)) (0 \<mapsto> lfd, Suc 0 \<mapsto> - 1))(Suc 0 := None) = [0 \<mapsto> lfd]" by (auto simp: fun_eq_iff)
    then show ?thesis using assms(3)
      by (simp add: server_run_def listen_socket_def move_assign_def destroy_socket_def close_if_valid_def)
  qed
  moreover obtain d where "accept_loop (fds @ cfd # later) 2 ?d = Some (Inl NotAccepted, d)" "open_fds d = {lfd} \<union> set fds"
    "\<forall>k < length fds. fd_of d (2 + 2 * k + 1) = Some (fds ! k)" "\<forall>s < 2. fd_of d s = fd_of ?d s"
    using accept_loop_serves [OF assms(1,2), of later 2 ?d] by auto
  ultimately show ?thesis by (intro exI [of _ d]) (auto simp: add_ac numeral_3_eq_3)
qed

theorem server_ends_at_failed_accept_witness:
  "\<exists>d. server_run (Some [Accepted 3]) True [4, 5, -1, 6] \<lparr>open_fds = {}, fd_of = [0 \<mapsto> -1]\<rparr> = Some (Inl NotAccepted, d) \<and>
    open_fds d = {3, 4, 5}"
  using server_ends_at_failed_accept [of "[4, 5]" "-1" 3 "[6]"] by auto

end
