(* ===== verification/Controller.thy ===== *)
theory Controller
  imports ClusterMessages Frames CppText
begin

text \<open>
  The cluster membership (\<open>src/cluster/membership.h\<close>) and the controller (\<open>src/cluster/controller.cpp\<close>):
  election state, topic assignment, failover, and the two files they persist to. Every method body between
  a lock and its release is one function on the controller's state; the current time \<open>now\<close> and the random
  election timeout \<open>timeout\<close> are arguments. A broadcast returns the frames it sends, by peer.
\<close>

unbundle bit_operations_syntax

section \<open>Membership\<close>

record address =
  addr_host :: string
  addr_port :: u16

record membership =
  mb_self :: u32
  mb_peers :: "(u32, address) omap"

definition broker_count :: "membership \<Rightarrow> u32" where
  "broker_count m = of_nat (length (mb_peers m))"

definition all_ids :: "membership \<Rightarrow> u32 list" where
  "all_ids m = map fst (mb_peers m)"

definition address_of :: "membership \<Rightarrow> u32 \<Rightarrow> address option" where
  "address_of m i = map_of (mb_peers m) i"

definition peer_ids :: "membership \<Rightarrow> u32 list" where
  "peer_ids m = filter (\<lambda>i. i \<noteq> mb_self m) (all_ids m)"

section \<open>State\<close>

definition kElectionTimeoutMinMs :: u32 where "kElectionTimeoutMinMs = 150"
definition kElectionTimeoutMaxMs :: u32 where "kElectionTimeoutMaxMs = 300"
definition kAliveThresholdMs :: u64 where "kAliveThresholdMs = 600"

datatype role = Follower | Candidate | Leader

record partition_assignment =
  pa_leaderId :: u32
  pa_replicas :: "u32 list"
  pa_isr :: "u32 list"

record controller =
  cc_membership :: membership
  cc_unclean :: bool
  cc_role :: role
  cc_term :: u32
  cc_votedFor :: i64
  cc_leaderId :: i64
  cc_deadline :: u64
  cc_assignments :: "(topic_partition, partition_assignment) omap"
  cc_lastAlive :: "(u32, u64) omap"
  cc_raft_file :: "string option"
  cc_assignments_file :: "string option"

section \<open>Persistence\<close>

definition newline :: char where "newline = CHR 0x0A"

definition persist_state :: "controller \<Rightarrow> controller" where
  "persist_state c =
     c\<lparr>cc_raft_file := Some (to_string_u32 (cc_term c) @ [newline] @ to_string_i64 (cc_votedFor c) @ [newline])\<rparr>"

definition load_state :: "controller \<Rightarrow> controller" where
  "load_state c = (case cc_raft_file c of
     None \<Rightarrow> c
   | Some text \<Rightarrow>
       (let (strm, term) = in_u32 (Some text) 0;
            (strm, votedFor) = in_i64_stream strm 0
        in if strm = None then c else c\<lparr>cc_term := term, cc_votedFor := votedFor\<rparr>))"

definition ids_text :: "u32 list \<Rightarrow> string" where
  "ids_text ids = concat (map (\<lambda>i. CHR '' '' # to_string_u32 i) ids)"

definition assignment_line :: "topic_partition \<times> partition_assignment \<Rightarrow> string" where
  "assignment_line e = (case e of ((topic, partitionId), pa) \<Rightarrow>
     topic @ CHR '' '' # to_string_u32 partitionId @ CHR '' '' # to_string_u32 (pa_leaderId pa) @
     CHR '' '' # nat_digits (length (pa_replicas pa)) @ ids_text (pa_replicas pa) @
     CHR '' '' # nat_digits (length (pa_isr pa)) @ ids_text (pa_isr pa) @ [newline])"

definition persist_assignments :: "controller \<Rightarrow> controller" where
  "persist_assignments c = c\<lparr>cc_assignments_file := Some (concat (map assignment_line (cc_assignments c)))\<rparr>"

text \<open>
  \<open>load_assignments\<close>. The counts and ids are read without a check, so a file that was cut short leaves the
  stream failed and the variables as they were (the model starts \<open>id\<close> and \<open>isrCount\<close> at 0, where the code
  leaves them uninitialised).
\<close>

fun read_ids :: "nat \<Rightarrow> instream \<Rightarrow> u32 \<Rightarrow> u32 list \<times> instream \<times> u32" where
  "read_ids 0 strm i = ([], strm, i)"
| "read_ids (Suc n) strm i =
     (let (strm, i) = in_u32 strm i;
          (ids, strm, j) = read_ids n strm i
      in (i # ids, strm, j))"

record load_vars =
  lv_topic :: string
  lv_partitionId :: u32
  lv_leaderId :: u32
  lv_replicaCount :: u32
  lv_isrCount :: u32
  lv_id :: u32

definition read_assignment :: "instream \<Rightarrow> load_vars \<Rightarrow>
    ((topic_partition \<times> partition_assignment) \<times> instream \<times> load_vars) option" where
  "read_assignment strm v =
     (let (strm, topic) = in_word strm (lv_topic v);
          (strm, partitionId) = in_u32 strm (lv_partitionId v);
          (strm, leaderId) = in_u32 strm (lv_leaderId v);
          (strm, replicaCount) = in_u32 strm (lv_replicaCount v)
      in if strm = None then None
         else (let (replicas, strm, i) = read_ids (unat replicaCount) strm (lv_id v);
                   (strm, isrCount) = in_u32 strm (lv_isrCount v);
                   (isr, strm, i) = read_ids (unat isrCount) strm i
               in Some (((topic, partitionId), \<lparr>pa_leaderId = leaderId, pa_replicas = replicas, pa_isr = isr\<rparr>), strm,
                    \<lparr>lv_topic = topic, lv_partitionId = partitionId, lv_leaderId = leaderId,
                     lv_replicaCount = replicaCount, lv_isrCount = isrCount, lv_id = i\<rparr>)))"

lemma read_ids_size: "read_ids n strm i = (ids, strm', j) \<Longrightarrow> stream_size strm' \<le> stream_size strm"
proof (induction n arbitrary: strm i ids)
  case (Suc n)
  obtain s1 i1 where a: "in_u32 strm i = (s1, i1)" by fastforce
  obtain ids1 s2 j2 where b: "read_ids n s1 i1 = (ids1, s2, j2)" by (metis prod_cases3)
  show ?case using Suc.prems Suc.IH [of s1 i1 ids1] in_u32_size [OF a] a b by simp
qed simp

lemma read_assignment_size:
  assumes "read_assignment strm v = Some (e, strm', v')"
  shows "stream_size strm' < stream_size strm"
proof -
  obtain s1 topic where 1: "in_word strm (lv_topic v) = (s1, topic)" by fastforce
  obtain s2 p where 2: "in_u32 s1 (lv_partitionId v) = (s2, p)" by fastforce
  obtain s3 l where 3: "in_u32 s2 (lv_leaderId v) = (s3, l)" by fastforce
  obtain s4 rc where 4: "in_u32 s3 (lv_replicaCount v) = (s4, rc)" by fastforce
  obtain rs s5 i where 5: "read_ids (unat rc) s4 (lv_id v) = (rs, s5, i)" by (metis prod_cases3)
  obtain s6 ic where 6: "in_u32 s5 (lv_isrCount v) = (s6, ic)" by fastforce
  obtain js s7 j where 7: "read_ids (unat ic) s6 i = (js, s7, j)" by (metis prod_cases3)
  have "s4 \<noteq> None" "strm' = s7" using assms by (auto simp: read_assignment_def 1 2 3 4 5 6 7 split: if_splits)
  then obtain t where "s1 = Some t" using 2 3 4 by (cases s1) auto
  with 1 have "stream_size s1 < stream_size strm" using in_word_size by blast
  then show ?thesis
    unfolding \<open>strm' = s7\<close> using in_u32_size [OF 2] in_u32_size [OF 3] in_u32_size [OF 4] read_ids_size [OF 5] in_u32_size [OF 6]
      read_ids_size [OF 7] by linarith
qed

function load_loop :: "instream \<Rightarrow> load_vars \<Rightarrow> (topic_partition, partition_assignment) omap \<Rightarrow>
    (topic_partition, partition_assignment) omap" where
  "load_loop strm v m = (case read_assignment strm v of
     None \<Rightarrow> m
   | Some ((key, pa), strm', v') \<Rightarrow> load_loop strm' v' (omap_put key pa m))"
  by pat_completeness auto
termination
  by (relation "measure (\<lambda>(strm, v, m). stream_size strm)") (auto intro: read_assignment_size)

declare load_loop.simps [simp del]

definition load_assignments :: "controller \<Rightarrow> controller" where
  "load_assignments c = (case cc_assignments_file c of
     None \<Rightarrow> c
   | Some text \<Rightarrow> c\<lparr>cc_assignments := load_loop (Some text)
       \<lparr>lv_topic = [], lv_partitionId = 0, lv_leaderId = 0, lv_replicaCount = 0, lv_isrCount = 0, lv_id = 0\<rparr>
       (cc_assignments c)\<rparr>)"

section \<open>Elections\<close>

definition reset_election_deadline :: "controller \<Rightarrow> u64 \<Rightarrow> u32 \<Rightarrow> controller" where
  "reset_election_deadline c now timeout = c\<lparr>cc_deadline := now + ucast timeout\<rparr>"

definition new_controller :: "membership \<Rightarrow> bool \<Rightarrow> string option \<Rightarrow> string option \<Rightarrow> u64 \<Rightarrow> u32 \<Rightarrow> controller" where
  "new_controller m unclean raft_file assignments_file now timeout =
     (let c = \<lparr>cc_membership = m, cc_unclean = unclean, cc_role = Follower, cc_term = 0, cc_votedFor = - 1,
               cc_leaderId = - 1, cc_deadline = 0, cc_assignments = [], cc_lastAlive = [],
               cc_raft_file = raft_file, cc_assignments_file = assignments_file\<rparr>
      in reset_election_deadline (load_assignments (load_state c)) now timeout)"

definition step_down :: "controller \<Rightarrow> u32 \<Rightarrow> u64 \<Rightarrow> u32 \<Rightarrow> controller" where
  "step_down c newTerm now timeout =
     (let c = (if cc_term c < newTerm then persist_state (c\<lparr>cc_term := newTerm, cc_votedFor := - 1\<rparr>) else c)
      in reset_election_deadline (c\<lparr>cc_role := Follower\<rparr>) now timeout)"

definition become_leader :: "controller \<Rightarrow> controller" where
  "become_leader c = c\<lparr>cc_role := Leader, cc_leaderId := uint (mb_self (cc_membership c))\<rparr>"

definition is_leader :: "controller \<Rightarrow> bool" where
  "is_leader c \<longleftrightarrow> cc_role c = Leader"

definition handle_request_vote ::
  "controller \<Rightarrow> request_vote_request \<Rightarrow> u64 \<Rightarrow> u32 \<Rightarrow> request_vote_response \<times> controller" where
  "handle_request_vote c req now timeout =
     (let c = (if cc_term c < rvreq_term req then step_down c (rvreq_term req) now timeout else c);
          grant = (rvreq_term req = cc_term c \<and>
                   (cc_votedFor c = - 1 \<or> cc_votedFor c = uint (rvreq_candidateId req)));
          c = (if grant
               then reset_election_deadline (persist_state (c\<lparr>cc_votedFor := uint (rvreq_candidateId req)\<rparr>)) now timeout
               else c)
      in (\<lparr>rvresp_term = cc_term c, rvresp_voteGranted = grant\<rparr>, c))"

definition handle_controller_heartbeat ::
  "controller \<Rightarrow> controller_heartbeat_request \<Rightarrow> u64 \<Rightarrow> u32 \<Rightarrow> controller_heartbeat_response \<times> controller" where
  "handle_controller_heartbeat c req now timeout =
     (if chreq_term req < cc_term c then (\<lparr>chresp_term = cc_term c, chresp_success = False\<rparr>, c)
      else let c = (if cc_term c < chreq_term req
                    then persist_state (c\<lparr>cc_term := chreq_term req, cc_votedFor := - 1\<rparr>) else c);
               c = reset_election_deadline (c\<lparr>cc_role := Follower, cc_leaderId := uint (chreq_leaderId req)\<rparr>) now timeout
           in (\<lparr>chresp_term = cc_term c, chresp_success = True\<rparr>, c))"

definition handle_broker_heartbeat :: "controller \<Rightarrow> broker_heartbeat_response" where
  "handle_broker_heartbeat c = \<lparr>bhresp_alive = True\<rparr>"

text \<open>
  \<open>start_election\<close> has three sections under the lock: the start, one per answered call (each on a thread of
  its own, in any order), and the count at the end. \<open>el_votes\<close> is the atomic counter, \<open>el_pending\<close> the
  peers whose thread has not finished.
\<close>

record election =
  el_term :: u32
  el_votes :: u32
  el_pending :: "u32 list"

definition request_vote_frame :: "u32 \<Rightarrow> request_vote_request \<Rightarrow> request_frame" where
  "request_vote_frame corr req =
     \<lparr>rf_requestType = request_type_u16 RequestVote, rf_correlationId = corr, rf_payload = encode_request_vote_request [] req\<rparr>"

definition begin_election :: "controller \<Rightarrow> u64 \<Rightarrow> u32 \<Rightarrow> controller \<times> election" where
  "begin_election c now timeout =
     (let c = c\<lparr>cc_role := Candidate, cc_term := cc_term c + 1, cc_votedFor := uint (mb_self (cc_membership c))\<rparr>;
          c = reset_election_deadline (persist_state c) now timeout
      in (c, \<lparr>el_term = cc_term c, el_votes = 1, el_pending = peer_ids (cc_membership c)\<rparr>))"

definition election_request :: "controller \<Rightarrow> election \<Rightarrow> request_vote_request" where
  "election_request c el = \<lparr>rvreq_term = el_term el, rvreq_candidateId = mb_self (cc_membership c)\<rparr>"

definition on_vote_response ::
  "controller \<Rightarrow> election \<Rightarrow> request_vote_response \<Rightarrow> u64 \<Rightarrow> u32 \<Rightarrow> controller \<times> election" where
  "on_vote_response c el resp now timeout =
     (if cc_term c < rvresp_term resp then (step_down c (rvresp_term resp) now timeout, el)
      else if rvresp_term resp = el_term el \<and> rvresp_voteGranted resp then (c, el\<lparr>el_votes := el_votes el + 1\<rparr>)
      else (c, el))"

definition finish_election :: "controller \<Rightarrow> election \<Rightarrow> controller" where
  "finish_election c el =
     (if cc_role c \<noteq> Candidate \<or> cc_term c \<noteq> el_term el then c
      else if broker_count (cc_membership c) div 2 + 1 \<le> el_votes el then become_leader c
      else c)"

text \<open>
  \<open>broadcast_heartbeats\<close> takes the term of the moment and does not look at the role again; a reply of a later
  term makes the controller step down.
\<close>

definition heartbeat_to_peer :: "controller \<Rightarrow> controller_heartbeat_request" where
  "heartbeat_to_peer c = \<lparr>chreq_term = cc_term c, chreq_leaderId = mb_self (cc_membership c)\<rparr>"

definition broadcast_heartbeats :: "controller \<Rightarrow> (u32 \<times> controller_heartbeat_request) list" where
  "broadcast_heartbeats c = map (\<lambda>peerId. (peerId, heartbeat_to_peer c)) (peer_ids (cc_membership c))"

definition on_heartbeat_response ::
  "controller \<Rightarrow> controller_heartbeat_response \<Rightarrow> u64 \<Rightarrow> u32 \<Rightarrow> controller" where
  "on_heartbeat_response c resp now timeout =
     (if cc_term c < chresp_term resp then step_down c (chresp_term resp) now timeout else c)"

definition on_broker_heartbeat_response :: "controller \<Rightarrow> u32 \<Rightarrow> u64 \<Rightarrow> controller" where
  "on_broker_heartbeat_response c peerId now = c\<lparr>cc_lastAlive := omap_put peerId now (cc_lastAlive c)\<rparr>"

section \<open>Assignments\<close>

definition alive_broker_ids :: "controller \<Rightarrow> u64 \<Rightarrow> u32 list" where
  "alive_broker_ids c now =
     filter (\<lambda>i. i = mb_self (cc_membership c) \<or>
       (case map_of (cc_lastAlive c) i of None \<Rightarrow> False | Some t \<Rightarrow> now - t \<le> kAliveThresholdMs))
       (all_ids (cc_membership c))"

definition wire_entry :: "topic_partition \<Rightarrow> partition_assignment \<Rightarrow> leader_and_isr_entry" where
  "wire_entry key pa =
     \<lparr>lie_topic = fst key, lie_partitionId = snd key, lie_leaderId = pa_leaderId pa,
      lie_replicas = pa_replicas pa, lie_isr = pa_isr pa\<rparr>"

definition topic_assignment :: "u32 list \<Rightarrow> u32 \<Rightarrow> nat \<Rightarrow> partition_assignment" where
  "topic_assignment alive rf p =
     (let leaderIdx = p mod length alive;
          replicas = map (\<lambda>k. alive ! ((leaderIdx + k) mod length alive)) [0..<unat rf]
      in \<lparr>pa_leaderId = alive ! leaderIdx, pa_replicas = replicas, pa_isr = replicas\<rparr>)"

definition create_topic :: "controller \<Rightarrow> string \<Rightarrow> u32 \<Rightarrow> u32 \<Rightarrow> u64 \<Rightarrow>
    ((u32 \<times> partition_assignment) list option \<times> leader_and_isr_entry list) \<times> controller" where
  "create_topic c topic numPartitions replicationFactor now =
     (if \<not> is_leader c then ((None, []), c)
      else let alive = alive_broker_ids c now
      in if alive = [] then ((None, []), c)
      else let rf = min replicationFactor (of_nat (length alive));
               rf = (if rf = 0 then 1 else rf);
               result = map (\<lambda>p. (of_nat p, topic_assignment alive rf p)) [0..<unat numPartitions];
               c = c\<lparr>cc_assignments := foldl (\<lambda>m (p, pa). omap_put (topic, p) pa m) (cc_assignments c) result\<rparr>
           in ((Some result, map (\<lambda>(p, pa). wire_entry (topic, p) pa) result), persist_assignments c))"

definition assignment_for :: "controller \<Rightarrow> string \<Rightarrow> u32 \<Rightarrow> partition_assignment option" where
  "assignment_for c topic partitionId = map_of (cc_assignments c) (topic, partitionId)"

definition assignments_for_topic :: "controller \<Rightarrow> string \<Rightarrow> (u32 \<times> partition_assignment) list" where
  "assignments_for_topic c topic =
     map (\<lambda>(key, pa). (snd key, pa)) (filter (\<lambda>(key, pa). fst key = topic) (cc_assignments c))"

definition all_assignments :: "controller \<Rightarrow> (topic_partition \<times> partition_assignment) list" where
  "all_assignments c = cc_assignments c"

definition entry_assignment :: "leader_and_isr_entry \<Rightarrow> partition_assignment" where
  "entry_assignment e = \<lparr>pa_leaderId = lie_leaderId e, pa_replicas = lie_replicas e, pa_isr = lie_isr e\<rparr>"

definition apply_leader_and_isr :: "controller \<Rightarrow> leader_and_isr_entry list \<Rightarrow> controller" where
  "apply_leader_and_isr c entries =
     persist_assignments (c\<lparr>cc_assignments :=
       foldl (\<lambda>m e. omap_put (lie_topic e, lie_partitionId e) (entry_assignment e) m) (cc_assignments c) entries\<rparr>)"

definition update_isr :: "controller \<Rightarrow> string \<Rightarrow> u32 \<Rightarrow> u32 list \<Rightarrow> leader_and_isr_entry list \<times> controller" where
  "update_isr c topic partitionId isr =
     (if \<not> is_leader c then ([], c)
      else case map_of (cc_assignments c) (topic, partitionId) of
             None \<Rightarrow> ([], c)
           | Some pa \<Rightarrow>
               (let pa = pa\<lparr>pa_isr := isr\<rparr>
                in ([wire_entry (topic, partitionId) pa],
                    persist_assignments (c\<lparr>cc_assignments := omap_put (topic, partitionId) pa (cc_assignments c)\<rparr>))))"

text \<open>The body of the loop of \<open>check_partition_failover\<close>: the reassigned partition, if it is reassigned.\<close>

definition failover_one :: "u32 list \<Rightarrow> bool \<Rightarrow> partition_assignment \<Rightarrow> partition_assignment option" where
  "failover_one alive unclean pa =
     (if pa_leaderId pa \<in> set alive then None
      else let isrCandidates = sort (filter (\<lambda>i. i \<noteq> pa_leaderId pa \<and> i \<in> set alive) (pa_isr pa));
               replicaCandidates = sort (filter (\<lambda>i. i \<noteq> pa_leaderId pa \<and> i \<in> set alive) (pa_replicas pa))
           in if isrCandidates \<noteq> [] then Some (pa\<lparr>pa_leaderId := hd isrCandidates, pa_isr := isrCandidates\<rparr>)
              else if unclean \<and> replicaCandidates \<noteq> []
              then Some (pa\<lparr>pa_leaderId := hd replicaCandidates, pa_isr := [hd replicaCandidates]\<rparr>)
              else None)"

definition check_partition_failover :: "controller \<Rightarrow> u64 \<Rightarrow> (leader_and_isr_entry list \<times> bool) \<times> controller" where
  "check_partition_failover c now =
     (let alive = alive_broker_ids c now;
          changed = concat (map (\<lambda>(key, pa). case failover_one alive (cc_unclean c) pa of
                              None \<Rightarrow> [] | Some pa' \<Rightarrow> [(key, pa')]) (cc_assignments c));
          assignments = map (\<lambda>(key, pa). (key, case failover_one alive (cc_unclean c) pa of None \<Rightarrow> pa | Some pa' \<Rightarrow> pa'))
                            (cc_assignments c);
          c = c\<lparr>cc_assignments := assignments\<rparr>
      in ((map (\<lambda>(key, pa). wire_entry key pa) changed, changed \<noteq> []),
          if changed \<noteq> [] then persist_assignments c else c))"

text \<open>\<open>broadcast_leader_and_isr\<close>: the same payload to every peer.\<close>

definition broadcast_leader_and_isr :: "controller \<Rightarrow> u32 \<Rightarrow> leader_and_isr_entry list \<Rightarrow> (u32 \<times> request_frame) list" where
  "broadcast_leader_and_isr c corr entries =
     map (\<lambda>(k, peerId). (peerId, \<lparr>rf_requestType = request_type_u16 LeaderAndISR, rf_correlationId = corr + of_nat k,
            rf_payload = encode_leader_and_isr_request [] \<lparr>lireq_assignments = entries\<rparr>\<rparr>))
       (enumerate 0 (peer_ids (cc_membership c)))"

end
