(* ===== verification/Election.thy ===== *)
theory Election
  imports Controller
begin

text \<open>
  The election protocol of \<open>src/cluster/controller.cpp\<close> as a network of brokers: calls and replies may be
  lost, duplicated, delayed and reordered, a broker may restart at any point between two sections under its
  lock and then reads its state back from \<open>raft_state\<close>. \<open>net_ballots\<close> and \<open>net_elected\<close> are history
  variables: the votes given and the broker that won each election.
\<close>

unbundle bit_operations_syntax

section \<open>The network\<close>

text \<open>
  Where the controller's thread is in the leader's branch of \<open>run_loop\<close>: it has read the role, it has sent the
  heartbeats, or it is probing the brokers before it looks for failed leaders.
\<close>

datatype round = Idle | SawLeader | Beaten | Probing

definition kBrokerHeartbeatIntervalMs :: u64 where "kBrokerHeartbeatIntervalMs = 200"

record node =
  nd_ctl :: controller
  nd_election :: "election option"
  nd_round :: round
  nd_lastBrokerHeartbeatMs :: u64

record net =
  net_nodes :: "u32 \<Rightarrow> node"
  net_vote_calls :: "(u32 \<times> u32 \<times> request_vote_request) list"
  net_vote_replies :: "(u32 \<times> u32 \<times> u32 \<times> request_vote_response) list"
  net_heartbeats :: "(u32 \<times> u32 \<times> controller_heartbeat_request) list"
  net_heartbeat_replies :: "(u32 \<times> u32 \<times> controller_heartbeat_response) list"
  net_assignments :: "(u32 \<times> leader_and_isr_entry list) list"
  net_ballots :: "(u32 \<times> u32 \<times> u32) list"
  net_elected :: "(u32 \<times> u32) list"

text \<open>
  One event is one section under the lock of one broker. An election starts when the deadline has passed; the
  leader's branch of \<open>run_loop\<close> looks at the role, releases the lock, sends heartbeats with the term of that later
  moment, and when the interval has passed probes the brokers and looks for failed leaders, never looking at the
  role again. \<open>CreateTopicCall\<close>, \<open>IsrUpdateCall\<close> and \<open>DeliverAssignments\<close> are the requests of other
  threads. Messages are named by their position in the history. An election at the largest 32-bit term is not
  started: \<open>currentTerm_++\<close> would wrap.
\<close>

datatype event =
    StartElection u32 u64 u32
  | DeliverVoteCall nat u64 u32
  | VoteReply nat u64 u32
  | VoteCallFails u32 u32
  | FinishElection u32
  | SeeLeader u32
  | SendHeartbeats u32
  | EndHeartbeats u32 u64
  | BrokerAnswers u32 u32 u64
  | CheckFailover u32 u64
  | DeliverHeartbeat nat u64 u32
  | HeartbeatReply nat u64 u32
  | CreateTopicCall u32 string u32 u32 u64
  | IsrUpdateCall u32 string u32 "u32 list"
  | DeliverAssignments nat
  | Restart u32 u64 u32

text \<open>A broadcast of assignments to every peer.\<close>

definition assignments_to_peers :: "node \<Rightarrow> leader_and_isr_entry list \<Rightarrow> (u32 \<times> leader_and_isr_entry list) list" where
  "assignments_to_peers nd entries = map (\<lambda>p. (p, entries)) (peer_ids (cc_membership (nd_ctl nd)))"

definition set_node :: "net \<Rightarrow> u32 \<Rightarrow> node \<Rightarrow> net" where
  "set_node s i nd = s\<lparr>net_nodes := (net_nodes s)(i := nd)\<rparr>"

definition restart :: "node \<Rightarrow> u64 \<Rightarrow> u32 \<Rightarrow> node" where
  "restart nd now timeout =
     (let c = nd_ctl nd
      in \<lparr>nd_ctl = new_controller (cc_membership c) (cc_unclean c) (cc_raft_file c) (cc_assignments_file c) now timeout,
          nd_election = None, nd_round = Idle, nd_lastBrokerHeartbeatMs = 0\<rparr>)"

fun net_step :: "(u32, address) omap \<Rightarrow> event \<Rightarrow> net \<Rightarrow> net option" where
  "net_step peers (StartElection i now timeout) s =
     (let nd = net_nodes s i
      in if i \<in> fst ` set peers \<and> nd_election nd = None \<and> nd_round nd = Idle \<and> \<not> is_leader (nd_ctl nd) \<and>
            cc_deadline (nd_ctl nd) \<le> now \<and> cc_term (nd_ctl nd) \<noteq> - 1
         then let (c, el) = begin_election (nd_ctl nd) now timeout
              in Some ((set_node s i (nd\<lparr>nd_ctl := c, nd_election := Some el\<rparr>))
                   \<lparr>net_vote_calls := net_vote_calls s @ map (\<lambda>p. (i, p, election_request c el)) (el_pending el),
                    net_ballots := (i, el_term el, i) # net_ballots s\<rparr>)
         else None)"
| "net_step peers (DeliverVoteCall k now timeout) s =
     (if k < length (net_vote_calls s)
      then let (i, j, req) = net_vote_calls s ! k;
               nd = net_nodes s j;
               (resp, c) = handle_request_vote (nd_ctl nd) req now timeout
           in Some ((set_node s j (nd\<lparr>nd_ctl := c\<rparr>))
                \<lparr>net_vote_replies := net_vote_replies s @ [(j, i, rvreq_term req, resp)],
                 net_ballots := (if rvresp_voteGranted resp then (j, rvreq_term req, rvreq_candidateId req) # net_ballots s
                                 else net_ballots s)\<rparr>)
      else None)"
| "net_step peers (VoteReply k now timeout) s =
     (if k < length (net_vote_replies s)
      then let (j, i, t, resp) = net_vote_replies s ! k;
               nd = net_nodes s i
           in case nd_election nd of
                None \<Rightarrow> None
              | Some el \<Rightarrow>
                  (if el_term el = t \<and> j \<in> set (el_pending el)
                   then let (c, el) = on_vote_response (nd_ctl nd) el resp now timeout
                        in Some (set_node s i (nd\<lparr>nd_ctl := c, nd_election := Some (el\<lparr>el_pending := remove1 j (el_pending el)\<rparr>)\<rparr>))
                   else None)
      else None)"
| "net_step peers (VoteCallFails i j) s =
     (let nd = net_nodes s i
      in case nd_election nd of
           None \<Rightarrow> None
         | Some el \<Rightarrow> Some (set_node s i (nd\<lparr>nd_election := Some (el\<lparr>el_pending := remove1 j (el_pending el)\<rparr>)\<rparr>)))"
| "net_step peers (FinishElection i) s =
     (let nd = net_nodes s i
      in case nd_election nd of
           None \<Rightarrow> None
         | Some el \<Rightarrow>
             (if el_pending el = []
              then let c = finish_election (nd_ctl nd) el
                   in Some ((set_node s i (nd\<lparr>nd_ctl := c, nd_election := None\<rparr>))
                        \<lparr>net_elected := (if is_leader c \<and> \<not> is_leader (nd_ctl nd) then (i, cc_term c) # net_elected s
                                        else net_elected s)\<rparr>)
              else None))"
| "net_step peers (SeeLeader i) s =
     (let nd = net_nodes s i
      in if is_leader (nd_ctl nd) \<and> nd_election nd = None \<and> nd_round nd = Idle
         then Some (set_node s i (nd\<lparr>nd_round := SawLeader\<rparr>)) else None)"
| "net_step peers (SendHeartbeats i) s =
     (let nd = net_nodes s i
      in if nd_round nd = SawLeader
         then Some ((set_node s i (nd\<lparr>nd_round := Beaten\<rparr>))
                \<lparr>net_heartbeats := net_heartbeats s @ map (\<lambda>(p, req). (i, p, req)) (broadcast_heartbeats (nd_ctl nd))\<rparr>)
         else None)"
| "net_step peers (EndHeartbeats i now) s =
     (let nd = net_nodes s i
      in if nd_round nd \<noteq> Beaten then None
         else if kBrokerHeartbeatIntervalMs \<le> now - nd_lastBrokerHeartbeatMs nd
         then Some (set_node s i (nd\<lparr>nd_round := Probing, nd_lastBrokerHeartbeatMs := now\<rparr>))
         else Some (set_node s i (nd\<lparr>nd_round := Idle\<rparr>)))"
| "net_step peers (BrokerAnswers i p now) s =
     (let nd = net_nodes s i
      in if nd_round nd = Probing
         then Some (set_node s i (nd\<lparr>nd_ctl := on_broker_heartbeat_response (nd_ctl nd) p now\<rparr>))
         else None)"
| "net_step peers (CheckFailover i now) s =
     (let nd = net_nodes s i
      in if nd_round nd = Probing
         then let ((entries, _), c) = check_partition_failover (nd_ctl nd) now
              in Some ((set_node s i (nd\<lparr>nd_ctl := c, nd_round := Idle\<rparr>))
                   \<lparr>net_assignments := net_assignments s @ (if entries = [] then [] else assignments_to_peers nd entries)\<rparr>)
         else None)"
| "net_step peers (DeliverHeartbeat k now timeout) s =
     (if k < length (net_heartbeats s)
      then let (i, j, req) = net_heartbeats s ! k;
               nd = net_nodes s j;
               (resp, c) = handle_controller_heartbeat (nd_ctl nd) req now timeout
           in Some ((set_node s j (nd\<lparr>nd_ctl := c\<rparr>))\<lparr>net_heartbeat_replies := net_heartbeat_replies s @ [(j, i, resp)]\<rparr>)
      else None)"
| "net_step peers (HeartbeatReply k now timeout) s =
     (if k < length (net_heartbeat_replies s)
      then let (j, i, resp) = net_heartbeat_replies s ! k;
               nd = net_nodes s i
           in Some (set_node s i (nd\<lparr>nd_ctl := on_heartbeat_response (nd_ctl nd) resp now timeout\<rparr>))
      else None)"
| "net_step peers (CreateTopicCall i topic numPartitions replicationFactor now) s =
     (let nd = net_nodes s i;
          ((result, entries), c) = create_topic (nd_ctl nd) topic numPartitions replicationFactor now
      in Some ((set_node s i (nd\<lparr>nd_ctl := c\<rparr>))
           \<lparr>net_assignments := net_assignments s @ (if result = None then [] else assignments_to_peers nd entries)\<rparr>))"
| "net_step peers (IsrUpdateCall i topic partitionId isr) s =
     (let nd = net_nodes s i;
          (entries, c) = update_isr (nd_ctl nd) topic partitionId isr
      in Some ((set_node s i (nd\<lparr>nd_ctl := c\<rparr>))
           \<lparr>net_assignments := net_assignments s @ (if entries = [] then [] else assignments_to_peers nd entries)\<rparr>))"
| "net_step peers (DeliverAssignments k) s =
     (if k < length (net_assignments s)
      then let (j, entries) = net_assignments s ! k;
               nd = net_nodes s j
           in Some (set_node s j (nd\<lparr>nd_ctl := apply_leader_and_isr (nd_ctl nd) entries\<rparr>))
      else None)"
| "net_step peers (Restart i now timeout) s =
     Some (set_node s i (restart (net_nodes s i) now timeout))"

text \<open>Every broker starts with empty directories.\<close>

definition init_node :: "(u32, address) omap \<Rightarrow> bool \<Rightarrow> u32 \<Rightarrow> node" where
  "init_node peers unclean i =
     \<lparr>nd_ctl = new_controller \<lparr>mb_self = i, mb_peers = peers\<rparr> unclean None None 0 150, nd_election = None,
      nd_round = Idle, nd_lastBrokerHeartbeatMs = 0\<rparr>"

definition init_net :: "(u32, address) omap \<Rightarrow> bool \<Rightarrow> net" where
  "init_net peers unclean =
     \<lparr>net_nodes = init_node peers unclean, net_vote_calls = [], net_vote_replies = [], net_heartbeats = [],
      net_heartbeat_replies = [], net_assignments = [], net_ballots = [], net_elected = []\<rparr>"

inductive reachable :: "(u32, address) omap \<Rightarrow> bool \<Rightarrow> net \<Rightarrow> bool" for peers unclean where
  init: "reachable peers unclean (init_net peers unclean)"
| step: "reachable peers unclean s \<Longrightarrow> net_step peers e s = Some s' \<Longrightarrow> reachable peers unclean s'"

fun run_events :: "(u32, address) omap \<Rightarrow> event list \<Rightarrow> net \<Rightarrow> net option" where
  "run_events peers [] s = Some s"
| "run_events peers (e # es) s = (case net_step peers e s of None \<Rightarrow> None | Some s' \<Rightarrow> run_events peers es s')"

lemma reachable_run: "reachable peers unclean s \<Longrightarrow> run_events peers es s = Some s' \<Longrightarrow> reachable peers unclean s'"
  by (induction es arbitrary: s) (auto intro: reachable.step split: option.splits)

section \<open>What one section does to term and vote\<close>

text \<open>The state file always holds the term and the vote: a restart reads back what memory held.\<close>

definition state_text :: "u32 \<Rightarrow> i64 \<Rightarrow> string" where
  "state_text term votedFor = to_string_u32 term @ [newline] @ to_string_i64 votedFor @ [newline]"

definition disk_ok :: "controller \<Rightarrow> bool" where
  "disk_ok c \<longleftrightarrow> - 1 \<le> cc_votedFor c \<and> cc_votedFor c < 2 ^ 32 \<and>
     (case cc_raft_file c of None \<Rightarrow> cc_term c = 0 \<and> cc_votedFor c = - 1
      | Some text \<Rightarrow> text = state_text (cc_term c) (cc_votedFor c))"

definition advances :: "controller \<Rightarrow> controller \<Rightarrow> bool" where
  "advances c c' \<longleftrightarrow> cc_membership c' = cc_membership c \<and> disk_ok c' \<and>
     (cc_term c < cc_term c' \<or> cc_term c = cc_term c' \<and> (cc_votedFor c = cc_votedFor c' \<or> cc_votedFor c = - 1)) \<and>
     (cc_role c' = Leader \<longrightarrow> cc_role c = Leader \<and> cc_term c' = cc_term c)"

lemma uint_u32_bounds: "- 1 \<le> uint (i :: u32)" "uint (i :: u32) < 4294967296" "uint (i :: u32) \<noteq> - 1" "- 1 \<noteq> uint (i :: u32)"
proof -
  have *: "0 \<le> uint i" by simp
  show "uint i < 4294967296" using uint_lt2p [of i] by simp
  from * show "- 1 \<le> uint i" "uint i \<noteq> - 1" "- 1 \<noteq> uint i" by linarith+
qed

lemma disk_ok_persist: "- 1 \<le> cc_votedFor c \<Longrightarrow> cc_votedFor c < 4294967296 \<Longrightarrow> disk_ok (persist_state c)"
  by (simp add: disk_ok_def persist_state_def state_text_def)

lemma load_state_reads:
  assumes "disk_ok c" and c0: "cc_raft_file c0 = cc_raft_file c" "cc_term c0 = 0" "cc_votedFor c0 = - 1"
  shows "load_state c0 = c0\<lparr>cc_term := cc_term c, cc_votedFor := cc_votedFor c\<rparr>"
proof (cases "cc_raft_file c")
  case None
  then show ?thesis using assms by (cases c0) (simp add: disk_ok_def load_state_def)
next
  case (Some raw)
  then have t: "raw = to_string_u32 (cc_term c) @ [newline] @ to_string_i64 (cc_votedFor c) @ [newline]"
    and v: "in_i64 (cc_votedFor c)"
    using assms(1) by (auto simp: disk_ok_def in_i64_def state_text_def)
  have "in_u32 (Some raw) 0 = (Some ([newline] @ to_string_i64 (cc_votedFor c) @ [newline]), cc_term c)"
    unfolding t by (rule in_u32_print) (simp add: newline_def)
  moreover have "in_i64_stream (Some ([newline] @ to_string_i64 (cc_votedFor c) @ [newline])) 0 =
      (Some [newline], cc_votedFor c)"
    using in_i64_print [OF _ v, of "[newline]" 0] by (simp add: in_i64_stream_skip newline_def)
  ultimately show ?thesis using Some c0(1) by (simp add: load_state_def)
qed

text \<open>Every section but the start of an election and its end moves term and vote forward.\<close>

lemma reset_fields [simp]:
  "cc_membership (reset_election_deadline c now timeout) = cc_membership c"
  "cc_term (reset_election_deadline c now timeout) = cc_term c"
  "cc_votedFor (reset_election_deadline c now timeout) = cc_votedFor c"
  "cc_role (reset_election_deadline c now timeout) = cc_role c"
  "disk_ok (reset_election_deadline c now timeout) = disk_ok c"
  "cc_unclean (reset_election_deadline c now timeout) = cc_unclean c"
  by (simp_all add: reset_election_deadline_def disk_ok_def cong: option.case_cong)

lemma persist_fields [simp]:
  "cc_membership (persist_state c) = cc_membership c" "cc_term (persist_state c) = cc_term c"
  "cc_votedFor (persist_state c) = cc_votedFor c" "cc_role (persist_state c) = cc_role c"
  by (simp_all add: persist_state_def)

lemma disk_ok_update [simp]:
  "disk_ok (c\<lparr>cc_role := r\<rparr>) = disk_ok c" "disk_ok (c\<lparr>cc_leaderId := l\<rparr>) = disk_ok c"
  by (simp_all add: disk_ok_def cong: option.case_cong)

lemma advances_refl: "disk_ok c \<Longrightarrow> advances c c"
  by (simp add: advances_def)

lemma step_down_advances:
  "disk_ok c \<Longrightarrow> advances c (step_down c newTerm now timeout) \<and> cc_role (step_down c newTerm now timeout) = Follower"
  by (auto simp: advances_def step_down_def disk_ok_persist)

lemma handle_request_vote_advances:
  assumes "disk_ok c" "handle_request_vote c req now timeout = (resp, c')"
  shows "advances c c'"
    and "rvresp_voteGranted resp \<Longrightarrow> rvresp_term resp = rvreq_term req \<and> cc_term c' = rvreq_term req \<and>
      cc_votedFor c' = uint (rvreq_candidateId req)"
  using assms
  by (auto simp: handle_request_vote_def advances_def step_down_def disk_ok_persist uint_u32_bounds Let_def split: if_splits)

lemma handle_controller_heartbeat_advances:
  "disk_ok c \<Longrightarrow> handle_controller_heartbeat c req now timeout = (resp, c') \<Longrightarrow> advances c c'"
  by (auto simp: handle_controller_heartbeat_def advances_def disk_ok_persist Let_def split: if_splits)

lemma on_vote_response_advances:
  "disk_ok c \<Longrightarrow> on_vote_response c el resp now timeout = (c', el') \<Longrightarrow> advances c c'"
  using step_down_advances advances_refl by (auto simp: on_vote_response_def split: if_splits)

lemma on_heartbeat_response_advances: "disk_ok c \<Longrightarrow> advances c (on_heartbeat_response c resp now timeout)"
  using step_down_advances advances_refl by (simp add: on_heartbeat_response_def)

text \<open>Assignments are apart from elections.\<close>

definition same_election :: "controller \<Rightarrow> controller \<Rightarrow> bool" where
  "same_election c c' \<longleftrightarrow> cc_membership c' = cc_membership c \<and> cc_term c' = cc_term c \<and> cc_votedFor c' = cc_votedFor c \<and>
     cc_role c' = cc_role c \<and> cc_raft_file c' = cc_raft_file c"

lemma same_election_advances: "disk_ok c \<Longrightarrow> same_election c c' \<Longrightarrow> advances c c'"
  by (simp add: same_election_def advances_def disk_ok_def cong: option.case_cong)

lemma assignment_ops_same_election:
  "same_election c (persist_assignments c)"
  "same_election c (on_broker_heartbeat_response c p now)"
  "same_election c (apply_leader_and_isr c entries)"
  "update_isr c topic partitionId isr = (es, c') \<Longrightarrow> same_election c c'"
  "check_partition_failover c now = (r, c') \<Longrightarrow> same_election c c'"
  "create_topic c topic n rf now = (res, c') \<Longrightarrow> same_election c c'"
  by (auto simp: same_election_def persist_assignments_def on_broker_heartbeat_response_def apply_leader_and_isr_def
      update_isr_def check_partition_failover_def create_topic_def Let_def split: if_splits option.splits)

lemma less_add_one_u32: "(t :: u32) \<noteq> - 1 \<Longrightarrow> t < t + 1"
  using unatSuc [of t] by (simp add: word_less_nat_alt add.commute eq_neg_iff_add_eq_0)

lemma begin_election_advances:
  assumes "disk_ok c" "cc_term c \<noteq> - 1" "begin_election c now timeout = (c', el)"
  shows "advances c c'" "cc_term c < cc_term c'" "el_term el = cc_term c'" "cc_votedFor c' = uint (mb_self (cc_membership c))"
    "el_votes el = 1" "el_pending el = peer_ids (cc_membership c)" "cc_role c' = Candidate"
proof -
  have "cc_term c < cc_term c + 1"
    using assms(2) by (rule less_add_one_u32)
  then show "advances c c'" "cc_term c < cc_term c'" "el_term el = cc_term c'" "cc_votedFor c' = uint (mb_self (cc_membership c))"
    "el_votes el = 1" "el_pending el = peer_ids (cc_membership c)" "cc_role c' = Candidate"
    using assms(1,3) by (auto simp: begin_election_def advances_def disk_ok_persist uint_u32_bounds Let_def)
qed

lemma load_assignments_fields [simp]:
  "cc_membership (load_assignments c) = cc_membership c" "cc_term (load_assignments c) = cc_term c"
  "cc_votedFor (load_assignments c) = cc_votedFor c" "cc_role (load_assignments c) = cc_role c"
  "disk_ok (load_assignments c) = disk_ok c"
  by (simp_all add: load_assignments_def disk_ok_def split: option.split cong: option.case_cong)

lemma restart_advances:
  assumes "disk_ok (nd_ctl nd)"
  shows "advances (nd_ctl nd) (nd_ctl (restart nd now timeout))" "nd_election (restart nd now timeout) = None"
proof -
  let ?c = "nd_ctl nd"
  let ?blank = "\<lparr>cc_membership = cc_membership ?c, cc_unclean = cc_unclean ?c, cc_role = Follower, cc_term = 0, cc_votedFor = - 1,
     cc_leaderId = - 1, cc_deadline = 0, cc_assignments = [], cc_lastAlive = [],
     cc_raft_file = cc_raft_file ?c, cc_assignments_file = cc_assignments_file ?c\<rparr>"
  have "load_state ?blank = ?blank\<lparr>cc_term := cc_term ?c, cc_votedFor := cc_votedFor ?c\<rparr>"
    by (rule load_state_reads [OF assms]) simp_all
  moreover have "disk_ok (?blank\<lparr>cc_term := cc_term ?c, cc_votedFor := cc_votedFor ?c\<rparr>)"
    using assms by (simp add: disk_ok_def cong: option.case_cong)
  ultimately show "advances ?c (nd_ctl (restart nd now timeout))"
    by (simp add: restart_def new_controller_def advances_def Let_def)
  show "nd_election (restart nd now timeout) = None" by (simp add: restart_def Let_def)
qed

section \<open>The invariant\<close>

definition supporters :: "(u32, address) omap \<Rightarrow> net \<Rightarrow> u32 \<Rightarrow> u32 \<Rightarrow> u32 list \<Rightarrow> u32 set" where
  "supporters peers s t i pending = {v \<in> fst ` set peers. v \<notin> set pending \<and> (v, t, i) \<in> set (net_ballots s)}"

definition election_ok :: "(u32, address) omap \<Rightarrow> net \<Rightarrow> u32 \<Rightarrow> election \<Rightarrow> bool" where
  "election_ok peers s i el \<longleftrightarrow> distinct (el_pending el) \<and> set (el_pending el) \<subseteq> fst ` set peers \<and>
     unat (el_votes el) \<le> card (supporters peers s (el_term el) i (el_pending el))"

definition node_ok :: "(u32, address) omap \<Rightarrow> net \<Rightarrow> u32 \<Rightarrow> bool" where
  "node_ok peers s i \<longleftrightarrow>
     cc_membership (nd_ctl (net_nodes s i)) = \<lparr>mb_self = i, mb_peers = peers\<rparr> \<and> disk_ok (nd_ctl (net_nodes s i)) \<and>
     (is_leader (nd_ctl (net_nodes s i)) \<longrightarrow> (i, cc_term (nd_ctl (net_nodes s i))) \<in> set (net_elected s)) \<and>
     (case nd_election (net_nodes s i) of None \<Rightarrow> True
      | Some el \<Rightarrow> election_ok peers s i el)"

definition ballots_ok :: "net \<Rightarrow> bool" where
  "ballots_ok s \<longleftrightarrow>
     (\<forall>j t i. (j, t, i) \<in> set (net_ballots s) \<longrightarrow> t < cc_term (nd_ctl (net_nodes s j)) \<or>
        t = cc_term (nd_ctl (net_nodes s j)) \<and> cc_votedFor (nd_ctl (net_nodes s j)) = uint i) \<and>
     (\<forall>j t i i'. (j, t, i) \<in> set (net_ballots s) \<longrightarrow> (j, t, i') \<in> set (net_ballots s) \<longrightarrow> i = i')"

definition messages_ok :: "net \<Rightarrow> bool" where
  "messages_ok s \<longleftrightarrow>
     (\<forall>i j req. (i, j, req) \<in> set (net_vote_calls s) \<longrightarrow> rvreq_candidateId req = i) \<and>
     (\<forall>j i t resp. (j, i, t, resp) \<in> set (net_vote_replies s) \<longrightarrow> rvresp_voteGranted resp \<longrightarrow> (j, t, i) \<in> set (net_ballots s))"

definition elected_ok :: "(u32, address) omap \<Rightarrow> net \<Rightarrow> bool" where
  "elected_ok peers s \<longleftrightarrow>
     (\<forall>i t. (i, t) \<in> set (net_elected s) \<longrightarrow> length peers div 2 < card (supporters peers s t i []))"

definition net_inv :: "(u32, address) omap \<Rightarrow> net \<Rightarrow> bool" where
  "net_inv peers s \<longleftrightarrow> (\<forall>i. node_ok peers s i) \<and> ballots_ok s \<and> messages_ok s \<and> elected_ok peers s"

lemma finite_supporters [simp]: "finite (supporters peers s t i pending)"
  by (simp add: supporters_def)

lemma supporters_mono:
  "set (net_ballots s) \<subseteq> set (net_ballots s') \<Longrightarrow> set pending' \<subseteq> set pending \<Longrightarrow>
     card (supporters peers s t i pending) \<le> card (supporters peers s' t i pending')"
  by (rule card_mono [OF finite_supporters]) (auto simp: supporters_def)

lemma election_ok_mono: "election_ok peers s i el \<Longrightarrow> set (net_ballots s) \<subseteq> set (net_ballots s') \<Longrightarrow> election_ok peers s' i el"
  using supporters_mono [of s s' "el_pending el" "el_pending el" peers "el_term el" i] by (auto simp: election_ok_def)

lemma vote_still:
  "t < T \<or> t = T \<and> v = w \<Longrightarrow> T < T' \<or> T = T' \<and> (v = v' \<or> v = - 1) \<Longrightarrow> w \<noteq> - 1 \<Longrightarrow> t < T' \<or> t = T' \<and> v' = w"
  for t T T' :: u32 and v v' w :: int
  by (elim disjE conjE) (auto intro: order.strict_trans)

lemma ballots_okD:
  assumes "ballots_ok s"
  shows "(j, t, i) \<in> set (net_ballots s) \<Longrightarrow> t < cc_term (nd_ctl (net_nodes s j)) \<or>
      t = cc_term (nd_ctl (net_nodes s j)) \<and> cc_votedFor (nd_ctl (net_nodes s j)) = uint i"
    and "(j, t, i) \<in> set (net_ballots s) \<Longrightarrow> (j, t, i') \<in> set (net_ballots s) \<Longrightarrow> i = i'"
  using assms unfolding ballots_ok_def by simp_all

text \<open>An update of one broker that moves its term and vote forward, with at most one new vote of its own.\<close>

lemma net_inv_node:
  assumes inv: "net_inv peers s" and adv: "advances (nd_ctl (net_nodes s i)) (nd_ctl nd)"
    and nodes: "net_nodes s' = (net_nodes s)(i := nd)"
    and new: "set (net_ballots s') = set (net_ballots s) \<or>
      (\<exists>cand. set (net_ballots s') = insert (i, cc_term (nd_ctl nd), cand) (set (net_ballots s)) \<and> cc_votedFor (nd_ctl nd) = uint cand)"
    and msgs: "messages_ok s'" and elected: "net_elected s' = net_elected s"
    and el: "\<And>el. nd_election nd = Some el \<Longrightarrow> election_ok peers s' i el"
  shows "net_inv peers s'"
proof -
  have sub: "set (net_ballots s) \<subseteq> set (net_ballots s')" using new by auto
  have "node_ok peers s' j" for j
  proof -
    have ok: "node_ok peers s j" "node_ok peers s i" using inv by (simp_all add: net_inv_def)
    show ?thesis
    proof (cases "j = i")
      case True
      then show ?thesis
        using ok(2) adv el by (auto simp: node_ok_def nodes elected advances_def is_leader_def split: option.splits)
    next
      case False
      then show ?thesis
        using ok(1) election_ok_mono [OF _ sub] by (auto simp: node_ok_def nodes elected split: option.splits)
    qed
  qed
  moreover have "ballots_ok s'"
  proof -
    let ?c = "nd_ctl (net_nodes s i)" and ?c' = "nd_ctl nd"
    have bs: "ballots_ok s" using inv by (simp add: net_inv_def)
    have old: "t < cc_term ?c' \<or> t = cc_term ?c' \<and> cc_votedFor ?c' = uint i'" if "(i, t, i') \<in> set (net_ballots s)" for t i'
    proof -
      have a: "cc_term ?c < cc_term ?c' \<or> cc_term ?c = cc_term ?c' \<and> (cc_votedFor ?c = cc_votedFor ?c' \<or> cc_votedFor ?c = - 1)"
        using adv by (simp add: advances_def)
      show ?thesis by (rule vote_still [OF ballots_okD(1) [OF bs that] a uint_u32_bounds(3)])
    qed
    have new_uniq: "a = b" if "cc_votedFor ?c' = uint b" "(i, cc_term ?c', a) \<in> set (net_ballots s)" for a b
    proof -
      have "uint a = uint b" using old [OF that(2)] that(1) by simp
      then show ?thesis by (rule word_uint_eqI)
    qed
    have fresh: "(j, t, a) \<in> set (net_ballots s) \<or> j = i \<and> t = cc_term ?c' \<and> cc_votedFor ?c' = uint a"
      if "(j, t, a) \<in> set (net_ballots s')" for j t a using new that by auto
    have "t < cc_term (nd_ctl (net_nodes s' j)) \<or> t = cc_term (nd_ctl (net_nodes s' j)) \<and> cc_votedFor (nd_ctl (net_nodes s' j)) = uint a"
      if b: "(j, t, a) \<in> set (net_ballots s')" for j t a
    proof (cases "j = i")
      case True
      then show ?thesis using fresh [OF b] old [of t a] by (auto simp: nodes)
    next
      case False
      then show ?thesis using fresh [OF b] ballots_okD(1) [OF bs, of j t a] by (simp add: nodes)
    qed
    moreover have "a = b" if a: "(j, t, a) \<in> set (net_ballots s')" and b: "(j, t, b) \<in> set (net_ballots s')" for j t a b
      using fresh [OF a] fresh [OF b] ballots_okD(2) [OF bs, of j t a b] new_uniq [of a b] new_uniq [of b a]
        word_uint_eqI [of a b] by auto
    ultimately show ?thesis unfolding ballots_ok_def by (intro conjI allI impI)
  qed
  moreover have "elected_ok peers s'"
    using inv less_le_trans [OF _ supporters_mono [OF sub order_refl]]
    unfolding net_inv_def elected_ok_def elected by blast
  ultimately show ?thesis using msgs by (simp add: net_inv_def)
qed

section \<open>Every event keeps the invariant\<close>

lemma set_node_fields [simp]:
  "net_nodes (set_node s i nd) = (net_nodes s)(i := nd)" "net_vote_calls (set_node s i nd) = net_vote_calls s"
  "net_vote_replies (set_node s i nd) = net_vote_replies s" "net_ballots (set_node s i nd) = net_ballots s"
  "net_elected (set_node s i nd) = net_elected s" "net_heartbeats (set_node s i nd) = net_heartbeats s"
  "net_heartbeat_replies (set_node s i nd) = net_heartbeat_replies s" "net_assignments (set_node s i nd) = net_assignments s"
  by (simp_all add: set_node_def)

lemma messages_okD:
  assumes "messages_ok s"
  shows "(i, j, req) \<in> set (net_vote_calls s) \<Longrightarrow> rvreq_candidateId req = i"
    and "(j, i, t, resp) \<in> set (net_vote_replies s) \<Longrightarrow> rvresp_voteGranted resp \<Longrightarrow> (j, t, i) \<in> set (net_ballots s)"
  using assms unfolding messages_ok_def by simp_all

lemma messages_ok_grow:
  assumes "messages_ok s" "set (net_ballots s) \<subseteq> set (net_ballots s')"
    and "\<And>i j req. (i, j, req) \<in> set (net_vote_calls s') \<Longrightarrow> (i, j, req) \<in> set (net_vote_calls s) \<or> rvreq_candidateId req = i"
    and "\<And>j i t resp. (j, i, t, resp) \<in> set (net_vote_replies s') \<Longrightarrow> rvresp_voteGranted resp \<Longrightarrow>
      (j, i, t, resp) \<in> set (net_vote_replies s) \<or> (j, t, i) \<in> set (net_ballots s')"
  shows "messages_ok s'"
  using assms unfolding messages_ok_def by blast

lemma net_invD:
  assumes "net_inv peers s"
  shows "disk_ok (nd_ctl (net_nodes s i))" "cc_membership (nd_ctl (net_nodes s i)) = \<lparr>mb_self = i, mb_peers = peers\<rparr>"
    "nd_election (net_nodes s i) = Some el \<Longrightarrow> election_ok peers s i el"
    "is_leader (nd_ctl (net_nodes s i)) \<Longrightarrow> (i, cc_term (nd_ctl (net_nodes s i))) \<in> set (net_elected s)"
proof -
  have "node_ok peers s i" using assms by (simp add: net_inv_def)
  then show "disk_ok (nd_ctl (net_nodes s i))" "cc_membership (nd_ctl (net_nodes s i)) = \<lparr>mb_self = i, mb_peers = peers\<rparr>"
    "nd_election (net_nodes s i) = Some el \<Longrightarrow> election_ok peers s i el"
    "is_leader (nd_ctl (net_nodes s i)) \<Longrightarrow> (i, cc_term (nd_ctl (net_nodes s i))) \<in> set (net_elected s)"
    by (auto simp: node_ok_def)
qed

lemma net_inv_parts:
  "net_inv peers s \<Longrightarrow> messages_ok s" "net_inv peers s \<Longrightarrow> ballots_ok s" "net_inv peers s \<Longrightarrow> elected_ok peers s"
  by (simp_all add: net_inv_def)

text \<open>Events that only change the controller of one broker.\<close>

lemma net_inv_ctl:
  assumes inv: "net_inv peers s" and adv: "advances (nd_ctl (net_nodes s i)) c"
    and s': "net_nodes s' = (net_nodes s)(i := nd)" "nd_ctl nd = c" "net_vote_calls s' = net_vote_calls s"
      "net_vote_replies s' = net_vote_replies s" "net_ballots s' = net_ballots s" "net_elected s' = net_elected s"
    and el: "nd_election nd = None \<or> nd_election nd = nd_election (net_nodes s i)"
  shows "net_inv peers s'"
proof (rule net_inv_node [OF inv _ s'(1)])
  show "advances (nd_ctl (net_nodes s i)) (nd_ctl nd)" using adv s'(2) by simp
  show "messages_ok s'" using net_inv_parts(1) [OF inv] s'(3-5) by (simp add: messages_ok_def)
  show "election_ok peers s' i e" if "nd_election nd = Some e" for e
    using net_invD(3) [OF inv, of i e] el that election_ok_mono [of peers s i e s'] s'(5) by auto
qed (simp_all add: s')

lemma start_election_inv:
  assumes inv: "net_inv peers s" and pe: "distinct (map fst peers)"
    and st: "net_step peers (StartElection i now timeout) s = Some s'"
  shows "net_inv peers s'"
proof -
  let ?nd = "net_nodes s i"
  note d = net_invD(1,2) [OF inv, of i] net_invD(3) [OF inv, of i]
  obtain c el where b: "begin_election (nd_ctl ?nd) now timeout = (c, el)" by fastforce
  have g: "i \<in> fst ` set peers" "cc_term (nd_ctl ?nd) \<noteq> - 1"
    and s': "s' = (set_node s i (?nd\<lparr>nd_ctl := c, nd_election := Some el\<rparr>))
        \<lparr>net_vote_calls := net_vote_calls s @ map (\<lambda>p. (i, p, election_request c el)) (el_pending el),
         net_ballots := (i, el_term el, i) # net_ballots s\<rparr>"
    using st b by (auto simp: Let_def split: if_splits)
  note be = begin_election_advances [OF d(1) g(2) b]
  have mem: "cc_membership c = \<lparr>mb_self = i, mb_peers = peers\<rparr>" using be(1) d(2) by (simp add: advances_def)
  show ?thesis
  proof (rule net_inv_node [OF inv])
    show "advances (nd_ctl ?nd) (nd_ctl (?nd\<lparr>nd_ctl := c, nd_election := Some el\<rparr>))" using be(1) by simp
    show "net_nodes s' = (net_nodes s)(i := ?nd\<lparr>nd_ctl := c, nd_election := Some el\<rparr>)" by (simp add: s')
    show "set (net_ballots s') = set (net_ballots s) \<or>
      (\<exists>cand. set (net_ballots s') = insert (i, cc_term (nd_ctl (?nd\<lparr>nd_ctl := c, nd_election := Some el\<rparr>)), cand) (set (net_ballots s)) \<and>
         cc_votedFor (nd_ctl (?nd\<lparr>nd_ctl := c, nd_election := Some el\<rparr>)) = uint cand)"
      using be(3,4) d(2) by (auto simp: s')
    show "messages_ok s'"
      by (rule messages_ok_grow [OF net_inv_parts(1) [OF inv]]) (auto simp: s' election_request_def mem)
    show "net_elected s' = net_elected s" by (simp add: s')
    fix e assume "nd_election (?nd\<lparr>nd_ctl := c, nd_election := Some el\<rparr>) = Some e"
    then have e: "e = el" by simp
    have "i \<in> supporters peers s' (el_term el) i (el_pending el)"
      using g(1) be(6) d(2) by (simp add: supporters_def s' peer_ids_def)
    then have "0 < card (supporters peers s' (el_term el) i (el_pending el))" by (auto simp: card_gt_0_iff)
    moreover have "distinct (el_pending el)" "set (el_pending el) \<subseteq> fst ` set peers"
      using be(6) d(2) pe by (auto simp: peer_ids_def all_ids_def)
    ultimately show "election_ok peers s' i e" using be(5) by (simp add: e election_ok_def)
  qed
qed

lemma deliver_vote_inv:
  assumes inv: "net_inv peers s" and st: "net_step peers (DeliverVoteCall k now timeout) s = Some s'"
  shows "net_inv peers s'"
proof -
  obtain i j req where m: "net_vote_calls s ! k = (i, j, req)" by (metis prod_cases3)
  let ?nd = "net_nodes s j"
  obtain resp c where h: "handle_request_vote (nd_ctl ?nd) req now timeout = (resp, c)" by fastforce
  have k: "k < length (net_vote_calls s)"
    and s': "s' = (set_node s j (?nd\<lparr>nd_ctl := c\<rparr>))
        \<lparr>net_vote_replies := net_vote_replies s @ [(j, i, rvreq_term req, resp)],
         net_ballots := (if rvresp_voteGranted resp then (j, rvreq_term req, rvreq_candidateId req) # net_ballots s
                         else net_ballots s)\<rparr>"
    using st m h by (auto simp: Let_def split: if_splits)
  note d = net_invD(1,2) [OF inv, of j] net_invD(3) [OF inv, of j]
  note hv = handle_request_vote_advances [OF d(1) h]
  have cand: "rvreq_candidateId req = i" using nth_mem [OF k] unfolding m by (rule messages_okD(1) [OF net_inv_parts(1) [OF inv]])
  show ?thesis
  proof (rule net_inv_node [OF inv])
    show "advances (nd_ctl ?nd) (nd_ctl (?nd\<lparr>nd_ctl := c\<rparr>))" using hv(1) by simp
    show "net_nodes s' = (net_nodes s)(j := ?nd\<lparr>nd_ctl := c\<rparr>)" by (simp add: s')
    show "set (net_ballots s') = set (net_ballots s) \<or>
      (\<exists>cand. set (net_ballots s') = insert (j, cc_term (nd_ctl (?nd\<lparr>nd_ctl := c\<rparr>)), cand) (set (net_ballots s)) \<and>
         cc_votedFor (nd_ctl (?nd\<lparr>nd_ctl := c\<rparr>)) = uint cand)"
      using hv(2) by (auto simp: s')
    show "messages_ok s'" by (rule messages_ok_grow [OF net_inv_parts(1) [OF inv]]) (auto simp: s' cand)
    show "net_elected s' = net_elected s" by (simp add: s')
    fix e assume "nd_election (?nd\<lparr>nd_ctl := c\<rparr>) = Some e"
    then have "nd_election ?nd = Some e" by simp
    from d(3) [OF this] show "election_ok peers s' j e" by (rule election_ok_mono) (auto simp: s')
  qed
qed

lemma supporters_reply:
  assumes "distinct pending" "j \<in> set pending" "j \<in> fst ` set peers" "(j, t, i) \<in> set (net_ballots s)"
  shows "card (supporters peers s t i pending) + 1 \<le> card (supporters peers s t i (remove1 j pending))"
proof -
  have "supporters peers s t i (remove1 j pending) = insert j (supporters peers s t i pending)"
    using assms by (auto simp: supporters_def)
  moreover have "j \<notin> supporters peers s t i pending" using assms(2) by (simp add: supporters_def)
  ultimately show ?thesis by simp
qed

lemma on_vote_response_votes:
  "on_vote_response c el resp now timeout = (c', el') \<Longrightarrow> el_term el' = el_term el \<and> el_pending el' = el_pending el \<and>
     (el_votes el' = el_votes el \<or> rvresp_voteGranted resp \<and> el_votes el' = el_votes el + 1)"
  by (auto simp: on_vote_response_def split: if_splits)

lemma supporters_bound: "length peers < 2 ^ 32 \<Longrightarrow> card (supporters peers s t i pending) < 2 ^ 32"
proof -
  assume "length peers < 2 ^ 32"
  moreover have "card (supporters peers s t i pending) \<le> card (fst ` set peers)"
    by (rule card_mono) (auto simp: supporters_def)
  moreover have "card (fst ` set peers) \<le> length peers"
    using card_image_le [of "set peers" fst] card_length [of peers] by simp
  ultimately show ?thesis by simp
qed

lemma unat_plus_one_le: "unat (v + 1 :: u32) \<le> unat v + 1"
  using unatSuc [of v] by (cases "1 + v = 0") (simp_all add: add.commute)

lemma vote_reply_inv:
  assumes inv: "net_inv peers s" and m: "net_vote_replies s ! k = (j, i, t, resp)"
    and st: "net_step peers (VoteReply k now timeout) s = Some s'"
  shows "net_inv peers s'"
proof -
  let ?nd = "net_nodes s i"
  obtain el where el: "nd_election ?nd = Some el" "el_term el = t" "j \<in> set (el_pending el)" and k: "k < length (net_vote_replies s)"
    using st m by (auto simp: Let_def split: if_splits option.splits)
  obtain c el' where r: "on_vote_response (nd_ctl ?nd) el resp now timeout = (c, el')" by fastforce
  define nd where "nd = ?nd\<lparr>nd_ctl := c, nd_election := Some (el'\<lparr>el_pending := remove1 j (el_pending el')\<rparr>)\<rparr>"
  have s': "s' = set_node s i nd" using st m el k r by (simp add: nd_def)
  note d = net_invD(1,2) [OF inv, of i] net_invD(3) [OF inv, of i]
  note v = on_vote_response_votes [OF r]
  show ?thesis
  proof (rule net_inv_node [OF inv])
    show "advances (nd_ctl ?nd) (nd_ctl nd)" using on_vote_response_advances [OF d(1) r] by (simp add: nd_def)
    show "net_nodes s' = (net_nodes s)(i := nd)" by (simp add: s')
    show "set (net_ballots s') = set (net_ballots s) \<or>
      (\<exists>cand. set (net_ballots s') = insert (i, cc_term (nd_ctl nd), cand) (set (net_ballots s)) \<and> cc_votedFor (nd_ctl nd) = uint cand)"
      by (simp add: s')
    show "messages_ok s'" using net_inv_parts(1) [OF inv] by (simp add: s' messages_ok_def)
    show "net_elected s' = net_elected s" by (simp add: s')
    fix e assume "nd_election nd = Some e"
    then have e: "e = el'\<lparr>el_pending := remove1 j (el_pending el)\<rparr>" using v by (simp add: nd_def)
    have dist: "distinct (el_pending el)" "set (el_pending el) \<subseteq> fst ` set peers" and votes: "unat (el_votes el) \<le> card (supporters peers s t i (el_pending el))"
      using d(3) [OF el(1)] el(2) by (simp_all add: election_ok_def)
    have same: "supporters peers s' t i = supporters peers s t i" by (simp add: fun_eq_iff supporters_def s')
    have mono: "card (supporters peers s t i (el_pending el)) \<le> card (supporters peers s t i (remove1 j (el_pending el)))"
      by (rule supporters_mono) (simp_all add: set_remove1_subset)
    have "unat (el_votes el') \<le> card (supporters peers s t i (remove1 j (el_pending el)))"
    proof (cases "el_votes el' = el_votes el")
      case True
      then show ?thesis using votes mono by simp
    next
      case False
      then have g: "rvresp_voteGranted resp" "el_votes el' = el_votes el + 1" using v by auto
      have "(j, t, i) \<in> set (net_ballots s)"
        using nth_mem [OF k] unfolding m by (rule messages_okD(2) [OF net_inv_parts(1) [OF inv] _ g(1)])
      note ballot = this
      have "j \<in> fst ` set peers" using dist(2) el(3) by (rule subsetD)
      note grow = supporters_reply [OF dist(1) el(3) this ballot]
      have "unat (el_votes el + 1) \<le> unat (el_votes el) + 1" by (rule unat_plus_one_le)
      also have "\<dots> \<le> card (supporters peers s t i (el_pending el)) + 1" using votes by (rule add_right_mono)
      also note grow
      finally show ?thesis unfolding g(2) .
    qed
    moreover have "set (remove1 j (el_pending el)) \<subseteq> fst ` set peers" by (rule order_trans [OF set_remove1_subset dist(2)])
    ultimately show "election_ok peers s' i e" using dist(1) v el(2) by (simp add: e same election_ok_def)
  qed
qed

lemma vote_call_fails_inv:
  assumes inv: "net_inv peers s" and st: "net_step peers (VoteCallFails i j) s = Some s'"
  shows "net_inv peers s'"
proof -
  let ?nd = "net_nodes s i"
  obtain el where el: "nd_election ?nd = Some el"
    and s': "s' = set_node s i (?nd\<lparr>nd_election := Some (el\<lparr>el_pending := remove1 j (el_pending el)\<rparr>)\<rparr>)"
    using st by (auto simp: Let_def split: option.splits)
  show ?thesis
  proof (rule net_inv_node [OF inv])
    show "advances (nd_ctl ?nd) (nd_ctl (?nd\<lparr>nd_election := Some (el\<lparr>el_pending := remove1 j (el_pending el)\<rparr>)\<rparr>))"
      using advances_refl [OF net_invD(1) [OF inv]] by simp
    show "messages_ok s'" using net_inv_parts(1) [OF inv] by (simp add: s' messages_ok_def)
    fix e assume "nd_election (?nd\<lparr>nd_election := Some (el\<lparr>el_pending := remove1 j (el_pending el)\<rparr>)\<rparr>) = Some e"
    then have e: "e = el\<lparr>el_pending := remove1 j (el_pending el)\<rparr>" by simp
    have "set (remove1 j (el_pending el)) \<subseteq> set (el_pending el)" by (rule set_remove1_subset)
    moreover from this have "card (supporters peers s (el_term el) i (el_pending el)) \<le>
        card (supporters peers s' (el_term el) i (remove1 j (el_pending el)))"
      by (intro supporters_mono) (simp_all add: s')
    ultimately show "election_ok peers s' i e"
      using net_invD(3) [OF inv el] by (auto simp: election_ok_def e)
  qed (simp_all add: s')
qed

lemma finish_election_inv:
  assumes inv: "net_inv peers s" and len: "length peers < 2 ^ 32" and st: "net_step peers (FinishElection i) s = Some s'"
  shows "net_inv peers s'"
proof -
  let ?nd = "net_nodes s i" and ?c = "nd_ctl (net_nodes s i)"
  obtain el where el: "nd_election ?nd = Some el" "el_pending el = []"
    and s': "s' = (set_node s i (?nd\<lparr>nd_ctl := finish_election ?c el, nd_election := None\<rparr>))
       \<lparr>net_elected := (if is_leader (finish_election ?c el) \<and> \<not> is_leader ?c then (i, cc_term (finish_election ?c el)) # net_elected s
                        else net_elected s)\<rparr>"
    using st by (auto simp: Let_def split: option.splits if_splits)
  note d = net_invD(1,2) [OF inv, of i] net_invD(3) [OF inv el(1)] net_invD(4) [OF inv, of i]
  show ?thesis
  proof (cases "finish_election ?c el = ?c")
    case True
    show ?thesis
      by (rule net_inv_ctl [OF inv, where i = i and c = ?c and nd = "?nd\<lparr>nd_election := None\<rparr>"])
        (use True advances_refl [OF d(1)] in \<open>auto simp: s'\<close>)
  next
    case False
    then have won: "cc_term ?c = el_term el" "broker_count (cc_membership ?c) div 2 + 1 \<le> el_votes el"
      and c': "finish_election ?c el = become_leader ?c" and cand: "cc_role ?c = Candidate"
      by (auto simp: finish_election_def split: if_splits)
    have "unat (broker_count (cc_membership ?c) div 2 + 1) = length peers div 2 + 1"
      using len d(2) by (simp add: broker_count_def unat_div unat_word_ariths)
    then have "length peers div 2 + 1 \<le> unat (el_votes el)" using won(2) by (simp add: word_le_nat_alt)
    then have majority: "length peers div 2 < card (supporters peers s (el_term el) i [])"
      using d(3) el(2) by (simp add: election_ok_def)
    have sup: "supporters peers s' = supporters peers s" by (simp add: fun_eq_iff supporters_def s')
    have el_eq: "set (net_elected s') = insert (i, el_term el) (set (net_elected s))"
      using cand won(1) by (simp add: s' c' is_leader_def become_leader_def)
    have "node_ok peers s' j" for j
    proof (cases "j = i")
      case True
      then show ?thesis
        using d(1,2) won(1) cand by (simp add: node_ok_def s' c' become_leader_def is_leader_def)
    next
      case False
      have nj: "net_nodes s' j = net_nodes s j" and bs: "net_ballots s' = net_ballots s" using False by (simp_all add: s')
      have "node_ok peers s j" using inv by (simp add: net_inv_def)
      then show ?thesis
        using election_ok_mono [of peers s j _ s'] unfolding node_ok_def nj bs el_eq by (simp split: option.splits)
    qed
    moreover have "ballots_ok s'"
      using net_inv_parts(2) [OF inv] by (simp add: ballots_ok_def s' c' become_leader_def)
    moreover have "messages_ok s'" using net_inv_parts(1) [OF inv] by (simp add: messages_ok_def s')
    moreover have "elected_ok peers s'"
      using net_inv_parts(3) [OF inv] majority unfolding elected_ok_def sup el_eq by auto
    ultimately show ?thesis by (simp add: net_inv_def)
  qed
qed

lemma round_events_inv:
  assumes inv: "net_inv peers s" and st: "net_step peers e s = Some s'"
    and e: "e \<in> {SeeLeader i, SendHeartbeats i, EndHeartbeats i now, BrokerAnswers i p now}"
  shows "net_inv peers s'"
proof -
  let ?nd = "net_nodes s i"
  note d = net_invD(1) [OF inv, of i]
  note keep = net_inv_ctl [OF inv advances_refl [OF d]]
  from e consider "e = SeeLeader i" | "e = SendHeartbeats i" | "e = EndHeartbeats i now" | "e = BrokerAnswers i p now" by blast
  then show ?thesis
  proof cases
    case 1
    show ?thesis by (rule keep [where nd = "?nd\<lparr>nd_round := SawLeader\<rparr>"]) (use st 1 in \<open>auto simp: Let_def split: if_splits\<close>)
  next
    case 2
    show ?thesis by (rule keep [where nd = "?nd\<lparr>nd_round := Beaten\<rparr>"]) (use st 2 in \<open>auto simp: Let_def split: if_splits\<close>)
  next
    case 3
    show ?thesis
    proof (cases "kBrokerHeartbeatIntervalMs \<le> now - nd_lastBrokerHeartbeatMs ?nd")
      case True
      show ?thesis
        by (rule keep [where nd = "?nd\<lparr>nd_round := Probing, nd_lastBrokerHeartbeatMs := now\<rparr>"])
          (use st 3 True in \<open>auto simp: Let_def split: if_splits\<close>)
    next
      case False
      show ?thesis
        by (rule keep [where nd = "?nd\<lparr>nd_round := Idle\<rparr>"]) (use st 3 False in \<open>auto simp: Let_def split: if_splits\<close>)
    qed
  next
    case 4
    let ?c = "on_broker_heartbeat_response (nd_ctl ?nd) p now"
    show ?thesis
      by (rule net_inv_ctl [OF inv same_election_advances [OF d assignment_ops_same_election(2)], where nd = "?nd\<lparr>nd_ctl := ?c\<rparr>"])
        (use st 4 in \<open>auto simp: Let_def split: if_splits\<close>)
  qed
qed

lemma assignment_events_inv:
  assumes inv: "net_inv peers s" and st: "net_step peers e s = Some s'"
    and e: "e \<in> {CheckFailover i now, CreateTopicCall i topic n rf now, IsrUpdateCall i topic n isr, DeliverAssignments k}"
  shows "net_inv peers s'"
proof -
  let ?nd = "net_nodes s i"
  note d = net_invD(1) [OF inv]
  from e consider "e = CheckFailover i now" | "e = CreateTopicCall i topic n rf now" | "e = IsrUpdateCall i topic n isr"
    | "e = DeliverAssignments k" by blast
  then show ?thesis
  proof cases
    case 1
    obtain es b c where f: "check_partition_failover (nd_ctl ?nd) now = ((es, b), c)" by (metis surj_pair)
    show ?thesis
      by (rule net_inv_ctl [OF inv same_election_advances [OF d assignment_ops_same_election(5) [OF f]],
            where nd = "?nd\<lparr>nd_ctl := c, nd_round := Idle\<rparr>"])
        (use st 1 f in \<open>auto simp: Let_def split: if_splits\<close>)
  next
    case 2
    obtain r es c where f: "create_topic (nd_ctl ?nd) topic n rf now = ((r, es), c)" by (metis surj_pair)
    show ?thesis
      by (rule net_inv_ctl [OF inv same_election_advances [OF d assignment_ops_same_election(6) [OF f]], where nd = "?nd\<lparr>nd_ctl := c\<rparr>"])
        (use st 2 f in \<open>auto simp: Let_def split: if_splits\<close>)
  next
    case 3
    obtain es c where f: "update_isr (nd_ctl ?nd) topic n isr = (es, c)" by fastforce
    show ?thesis
      by (rule net_inv_ctl [OF inv same_election_advances [OF d assignment_ops_same_election(4) [OF f]], where nd = "?nd\<lparr>nd_ctl := c\<rparr>"])
        (use st 3 f in \<open>auto simp: Let_def split: if_splits\<close>)
  next
    case 4
    obtain j es where m: "net_assignments s ! k = (j, es)" by fastforce
    let ?c = "apply_leader_and_isr (nd_ctl (net_nodes s j)) es"
    show ?thesis
      by (rule net_inv_ctl [OF inv same_election_advances [OF d assignment_ops_same_election(3)],
            where i = j and nd = "(net_nodes s j)\<lparr>nd_ctl := ?c\<rparr>"])
        (use st 4 m in \<open>auto simp: Let_def split: if_splits\<close>)
  qed
qed

lemma other_events_inv:
  assumes inv: "net_inv peers s" and st: "net_step peers e s = Some s'"
    and e: "e \<in> {DeliverHeartbeat k now timeout, HeartbeatReply k now timeout, Restart i now timeout}"
  shows "net_inv peers s'"
proof -
  note d = net_invD(1) [OF inv]
  from e consider "e = DeliverHeartbeat k now timeout" | "e = HeartbeatReply k now timeout" | "e = Restart i now timeout" by blast
  then show ?thesis
  proof cases
    case 1
    obtain a j req where m: "net_heartbeats s ! k = (a, j, req)" by (metis prod_cases3)
    obtain resp c where h: "handle_controller_heartbeat (nd_ctl (net_nodes s j)) req now timeout = (resp, c)" by fastforce
    show ?thesis
      by (rule net_inv_ctl [OF inv handle_controller_heartbeat_advances [OF d h], where nd = "(net_nodes s j)\<lparr>nd_ctl := c\<rparr>"])
        (use st 1 m h in \<open>auto simp: Let_def split: if_splits\<close>)
  next
    case 2
    obtain a j resp where m: "net_heartbeat_replies s ! k = (a, j, resp)" by (metis prod_cases3)
    let ?c = "on_heartbeat_response (nd_ctl (net_nodes s j)) resp now timeout"
    show ?thesis
      by (rule net_inv_ctl [OF inv on_heartbeat_response_advances [OF d [of j]], where nd = "(net_nodes s j)\<lparr>nd_ctl := ?c\<rparr>"])
        (use st 2 m in \<open>auto simp: Let_def split: if_splits\<close>)
  next
    case 3
    show ?thesis
      by (rule net_inv_ctl [OF inv restart_advances(1) [OF d [of i]], where nd = "restart (net_nodes s i) now timeout"])
        (use st 3 in \<open>auto simp: restart_advances(2) [OF d]\<close>)
  qed
qed

lemma net_step_inv:
  assumes "net_inv peers s" "distinct (map fst peers)" "length peers < 2 ^ 32" "net_step peers e s = Some s'"
  shows "net_inv peers s'"
proof (cases e)
  case (StartElection i now timeout)
  then show ?thesis using start_election_inv [OF assms(1,2)] assms(4) by simp
next
  case (DeliverVoteCall k now timeout)
  then show ?thesis using deliver_vote_inv [OF assms(1)] assms(4) by simp
next
  case (VoteReply k now timeout)
  obtain j i t resp where "net_vote_replies s ! k = (j, i, t, resp)" by (metis prod_cases4)
  then show ?thesis using vote_reply_inv [OF assms(1)] assms(4) VoteReply by simp
next
  case (VoteCallFails i j)
  then show ?thesis using vote_call_fails_inv [OF assms(1)] assms(4) by simp
next
  case (FinishElection i)
  then show ?thesis using finish_election_inv [OF assms(1,3)] assms(4) by simp
next
  case (SeeLeader i)
  then show ?thesis by (intro round_events_inv [OF assms(1,4), of i]) simp
next
  case (SendHeartbeats i)
  then show ?thesis by (intro round_events_inv [OF assms(1,4), of i]) simp
next
  case (EndHeartbeats i now)
  then show ?thesis by (intro round_events_inv [OF assms(1,4), of i now]) simp
next
  case (BrokerAnswers i p now)
  then show ?thesis by (intro round_events_inv [OF assms(1,4), of i now p]) simp
next
  case (CheckFailover i now)
  then show ?thesis by (intro assignment_events_inv [OF assms(1,4), of i now]) simp
next
  case (CreateTopicCall i topic n rf now)
  then show ?thesis by (intro assignment_events_inv [OF assms(1,4), of i now topic n rf]) simp
next
  case (IsrUpdateCall i topic n isr)
  then show ?thesis by (intro assignment_events_inv [OF assms(1,4), of i _ topic n _ isr]) simp
next
  case (DeliverAssignments k)
  then show ?thesis by (intro assignment_events_inv [OF assms(1,4), where k = k]) simp
qed (rule other_events_inv [OF assms(1,4)]; simp)+

lemma init_inv: "net_inv peers (init_net peers unclean)"
proof -
  have c: "disk_ok (new_controller m unclean None None now timeout) \<and> cc_membership (new_controller m unclean None None now timeout) = m \<and>
      cc_role (new_controller m unclean None None now timeout) = Follower" for m now timeout
    by (simp add: new_controller_def load_state_def load_assignments_def Let_def disk_ok_def reset_election_deadline_def)
  show ?thesis
    by (simp add: net_inv_def node_ok_def ballots_ok_def messages_ok_def elected_ok_def init_net_def init_node_def c is_leader_def)
qed

lemma reachable_inv:
  "reachable peers unclean s \<Longrightarrow> distinct (map fst peers) \<Longrightarrow> length peers < 2 ^ 32 \<Longrightarrow> net_inv peers s"
  by (induction rule: reachable.induct) (auto intro: init_inv net_step_inv)

text \<open>Two majorities share a voter, and a voter has one candidate per term.\<close>

lemma majorities_agree:
  assumes "ballots_ok s" "distinct (map fst peers)"
    and "length peers div 2 < card (supporters peers s t i [])" "length peers div 2 < card (supporters peers s t j [])"
  shows "i = j"
proof -
  let ?A = "supporters peers s t i []" and ?B = "supporters peers s t j []"
  have "card (?A \<union> ?B) \<le> card (fst ` set peers)"
    by (rule card_mono) (auto simp: supporters_def)
  also have "\<dots> = length peers" using distinct_card [OF assms(2)] by simp
  finally have "?A \<inter> ?B \<noteq> {}"
    using card_Un_Int [of ?A ?B] assms(3,4) by auto
  then obtain v where "(v, t, i) \<in> set (net_ballots s)" "(v, t, j) \<in> set (net_ballots s)"
    by (auto simp: supporters_def)
  then show ?thesis using ballots_okD(2) [OF assms(1)] by blast
qed

lemma elected_okD: "elected_ok peers s \<Longrightarrow> (i, t) \<in> set (net_elected s) \<Longrightarrow> length peers div 2 < card (supporters peers s t i [])"
  by (simp add: elected_ok_def)

section \<open>Terms and restarts\<close>

lemma restart_reads:
  assumes "disk_ok (nd_ctl nd)"
  shows "cc_term (nd_ctl (restart nd now timeout)) = cc_term (nd_ctl nd)"
    "cc_votedFor (nd_ctl (restart nd now timeout)) = cc_votedFor (nd_ctl nd)"
    "cc_role (nd_ctl (restart nd now timeout)) = Follower"
  using load_state_reads [OF assms, of "\<lparr>cc_membership = cc_membership (nd_ctl nd), cc_unclean = cc_unclean (nd_ctl nd),
     cc_role = Follower, cc_term = 0, cc_votedFor = - 1, cc_leaderId = - 1, cc_deadline = 0, cc_assignments = [],
     cc_lastAlive = [], cc_raft_file = cc_raft_file (nd_ctl nd), cc_assignments_file = cc_assignments_file (nd_ctl nd)\<rparr>"]
  by (simp_all add: restart_def new_controller_def Let_def)

lemma advances_term: "advances c c' \<Longrightarrow> cc_term c \<le> cc_term c'"
  by (auto simp: advances_def)

lemma node_term_le:
  "net_nodes s' = (net_nodes s)(j := nd) \<Longrightarrow> cc_term (nd_ctl (net_nodes s j)) \<le> cc_term (nd_ctl nd) \<Longrightarrow>
     cc_term (nd_ctl (net_nodes s i)) \<le> cc_term (nd_ctl (net_nodes s' i))"
  by simp

lemma same_election_term: "same_election c c' \<Longrightarrow> cc_term c \<le> cc_term c'"
  by (simp add: same_election_def)

lemma finish_election_term: "cc_term (finish_election c el) = cc_term c"
  by (simp add: finish_election_def become_leader_def)

lemma net_step_term:
  assumes inv: "net_inv peers s" and st: "net_step peers e s = Some s'"
  shows "cc_term (nd_ctl (net_nodes s i)) \<le> cc_term (nd_ctl (net_nodes s' i))"
proof -
  note d = net_invD(1) [OF inv]
  note adv = begin_election_advances(1) [OF d, THEN advances_term] handle_request_vote_advances(1) [OF d, THEN advances_term]
    on_vote_response_advances [OF d, THEN advances_term] handle_controller_heartbeat_advances [OF d, THEN advances_term]
    on_heartbeat_response_advances [OF d, THEN advances_term]
  note same = assignment_ops_same_election [THEN same_election_term]
  show ?thesis
    using st
    by (cases e)
      (auto simp: Let_def finish_election_term restart_reads(1) [OF d] same(1-3) adv(5) intro: adv same
        split: if_splits option.splits prod.splits)
qed

end
