(* ===== verification/ClusterLemmas.thy ===== *)
theory ClusterLemmas
  imports Election
begin

text \<open>
  Lemmas about the assignments of the controller: the round-robin placement of \<open>create_topic\<close>, the reassignment of
  \<open>check_partition_failover\<close>, and the text of \<open>cluster_assignments\<close>.
\<close>

unbundle bit_operations_syntax

section \<open>Placement\<close>

definition assignment_ok :: "partition_assignment \<Rightarrow> bool" where
  "assignment_ok pa \<longleftrightarrow> pa_leaderId pa \<in> set (pa_isr pa) \<and> set (pa_isr pa) \<subseteq> set (pa_replicas pa) \<and> distinct (pa_isr pa)"

lemma all_ids_distinct [simp]: "distinct (all_ids m) \<longleftrightarrow> distinct (map fst (mb_peers m))"
  by (simp add: all_ids_def)

lemma alive_distinct: "distinct (map fst (mb_peers (cc_membership c))) \<Longrightarrow> distinct (alive_broker_ids c now)"
  by (simp add: alive_broker_ids_def)

lemma self_alive: "mb_self (cc_membership c) \<in> set (all_ids (cc_membership c)) \<Longrightarrow> mb_self (cc_membership c) \<in> set (alive_broker_ids c now)"
  by (simp add: alive_broker_ids_def)

lemma length_alive: "length (alive_broker_ids c now) \<le> length (mb_peers (cc_membership c))"
  using length_filter_le [of _ "all_ids (cc_membership c)"] by (simp add: alive_broker_ids_def all_ids_def)

lemma shift_mod_inj: "n \<le> m \<Longrightarrow> inj_on (\<lambda>k. (a + k) mod m) {0..<n}" for a n m :: nat
proof -
  assume n: "n \<le> m"
  have "x = y" if "x \<le> y" "y < n" "(a + y) mod m = (a + x) mod m" for x y
  proof -
    have "m dvd y - x" using that(1,3) mod_eq_dvd_iff_nat [of "a + x" "a + y" m] by simp
    moreover have "y - x < m" using that(2) n by simp
    ultimately have "y - x = 0" by (meson nat_dvd_not_less not_gr_zero)
    then show ?thesis using that(1) by simp
  qed
  then show ?thesis by (intro inj_onI) (metis atLeastLessThan_iff nat_le_linear)
qed

lemma topic_assignment_facts:
  fixes p :: nat
  assumes "alive \<noteq> []" "unat rf \<le> length alive" "rf \<noteq> 0"
  defines "pa \<equiv> topic_assignment alive rf p"
  shows "pa_leaderId pa = alive ! (p mod length alive)" "pa_isr pa = pa_replicas pa" "length (pa_replicas pa) = unat rf"
    "set (pa_replicas pa) \<subseteq> set alive" "pa_leaderId pa \<in> set (pa_replicas pa)"
    "distinct alive \<Longrightarrow> distinct (pa_replicas pa)"
proof -
  have n: "0 < length alive" using assms(1) by simp
  have rf: "0 < unat rf" using assms(3) by (simp add: unat_gt_0)
  show "pa_leaderId pa = alive ! (p mod length alive)" "pa_isr pa = pa_replicas pa" "length (pa_replicas pa) = unat rf"
    by (simp_all add: pa_def topic_assignment_def Let_def)
  show "set (pa_replicas pa) \<subseteq> set alive" using n by (auto simp: pa_def topic_assignment_def Let_def)
  have "0 \<in> {0..<unat rf}" using rf by simp
  then show "pa_leaderId pa \<in> set (pa_replicas pa)"
    unfolding pa_def topic_assignment_def Let_def by (auto intro!: image_eqI [of _ _ 0])
  assume "distinct alive"
  have "inj_on (\<lambda>k. alive ! ((p mod length alive + k) mod length alive)) {0..<unat rf}"
  proof (rule inj_onI)
    fix x y
    assume x: "x \<in> {0..<unat rf}" and y: "y \<in> {0..<unat rf}"
      and e: "alive ! ((p mod length alive + x) mod length alive) = alive ! ((p mod length alive + y) mod length alive)"
    have "(p mod length alive + x) mod length alive = (p mod length alive + y) mod length alive"
      using nth_eq_iff_index_eq [OF \<open>distinct alive\<close> mod_less_divisor [OF n] mod_less_divisor [OF n]] e by blast
    then show "x = y" using inj_onD [OF shift_mod_inj [OF assms(2)] _ x y] by blast
  qed
  then show "distinct (pa_replicas pa)"
    by (simp add: pa_def topic_assignment_def Let_def distinct_map)
qed

lemma foldl_omap_put:
  "map_of (foldl (\<lambda>m (p, pa). omap_put (f p) pa m) m xs) =
     map_of m ++ map_of (rev (map (\<lambda>(p, pa). (f p, pa)) xs))"
  by (induction xs arbitrary: m) (auto simp: fun_eq_iff map_add_def split: option.splits)

section \<open>Failover\<close>

lemma hd_sort_Min: "xs \<noteq> [] \<Longrightarrow> hd (sort xs) = Min (set xs)"
proof -
  assume "xs \<noteq> []"
  then obtain y ys where y: "sort xs = y # ys" by (cases "sort xs") (metis length_0_conv length_sort)
  have "set xs = set (y # ys)" using y by (metis set_sort)
  moreover have "\<forall>z \<in> set ys. y \<le> z" using sorted_sort [of xs] y by simp
  then have "Min (set (y # ys)) = y" by (intro Min_eqI) auto
  ultimately show ?thesis by (simp add: y)
qed

lemma sort_Nil: "sort xs = [] \<longleftrightarrow> xs = []"
proof -
  have "length (sort xs) = 0 \<longleftrightarrow> length xs = 0" by simp
  then show ?thesis by (simp only: length_0_conv)
qed

definition alive_others :: "u32 list \<Rightarrow> partition_assignment \<Rightarrow> u32 list \<Rightarrow> u32 set" where
  "alive_others alive pa ids = {i \<in> set ids. i \<noteq> pa_leaderId pa \<and> i \<in> set alive}"

text \<open>What the loop body promises, whatever the order in which the brokers are listed.\<close>

lemma failover_one_cases:
  "failover_one alive unclean pa =
     (if pa_leaderId pa \<in> set alive then None
      else if alive_others alive pa (pa_isr pa) \<noteq> {}
      then Some (pa\<lparr>pa_leaderId := Min (alive_others alive pa (pa_isr pa)),
             pa_isr := sort (filter (\<lambda>i. i \<noteq> pa_leaderId pa \<and> i \<in> set alive) (pa_isr pa))\<rparr>)
      else if unclean \<and> alive_others alive pa (pa_replicas pa) \<noteq> {}
      then Some (pa\<lparr>pa_leaderId := Min (alive_others alive pa (pa_replicas pa)), pa_isr := [Min (alive_others alive pa (pa_replicas pa))]\<rparr>)
      else None)"
proof -
  let ?f = "filter (\<lambda>i. i \<noteq> pa_leaderId pa \<and> i \<in> set alive)"
  have set_f: "set (?f ids) = alive_others alive pa ids" for ids by (auto simp: alive_others_def)
  have nil: "sort (?f ids) = [] \<longleftrightarrow> alive_others alive pa ids = {}" for ids
    unfolding sort_Nil set_f [symmetric] set_empty ..
  have hd: "hd (sort (?f ids)) = Min (alive_others alive pa ids)" if "alive_others alive pa ids \<noteq> {}" for ids
  proof -
    have "set (?f ids) \<noteq> {}" using that unfolding set_f .
    then have "?f ids \<noteq> []" unfolding set_empty .
    then have "hd (sort (?f ids)) = Min (set (?f ids))" by (rule hd_sort_Min)
    then show ?thesis unfolding set_f .
  qed
  show ?thesis
    unfolding failover_one_def Let_def by (simp add: nil hd del: sort_key_simps)
qed

lemma finite_alive_others [simp]: "finite (alive_others alive pa ids)"
  by (simp add: alive_others_def)

definition failed_over :: "controller \<Rightarrow> u64 \<Rightarrow> partition_assignment \<Rightarrow> partition_assignment" where
  "failed_over c now pa = (case failover_one (alive_broker_ids c now) (cc_unclean c) pa of None \<Rightarrow> pa | Some pa' \<Rightarrow> pa')"

lemma map_of_map_values: "map_of (map (\<lambda>(k, v). (k, f v)) m) = map_option f \<circ> map_of m"
  by (induction m) (auto simp: fun_eq_iff)

lemma persist_assignments_fields [simp]:
  "cc_assignments (persist_assignments c) = cc_assignments c" "cc_membership (persist_assignments c) = cc_membership c"
  "cc_lastAlive (persist_assignments c) = cc_lastAlive c" "cc_unclean (persist_assignments c) = cc_unclean c"
  by (simp_all add: persist_assignments_def)

lemma failover_map:
  assumes "check_partition_failover c now = (r, c')"
  shows "cc_assignments c' = map (\<lambda>(key, pa). (key, failed_over c now pa)) (cc_assignments c)"
  using assms by (auto simp: check_partition_failover_def failed_over_def Let_def split: if_splits)

lemma failed_over_ok:
  assumes "assignment_ok pa"
  shows "assignment_ok (failed_over c now pa)"
proof -
  have *: "Min (alive_others alive pa ids) \<in> alive_others alive pa ids" if "alive_others alive pa ids \<noteq> {}" for alive ids
    using Min_in [OF finite_alive_others that] .
  show ?thesis
    using assms * [of "alive_broker_ids c now" "pa_isr pa"] * [of "alive_broker_ids c now" "pa_replicas pa"]
    by (auto simp: failed_over_def failover_one_cases assignment_ok_def alive_others_def split: if_splits option.splits)
qed

section \<open>Topics\<close>

definition placement :: "controller \<Rightarrow> u32 \<Rightarrow> u64 \<Rightarrow> nat \<Rightarrow> partition_assignment" where
  "placement c rf now = topic_assignment (alive_broker_ids c now)
     (let rf = min rf (of_nat (length (alive_broker_ids c now))) in if rf = 0 then 1 else rf)"

lemma create_topic_result:
  assumes "is_leader c" "mb_self (cc_membership c) \<in> set (all_ids (cc_membership c))"
    and "create_topic c topic n rf now = ((result, entries), c')"
  shows "result = Some (map (\<lambda>p. (of_nat p, placement c rf now p)) [0..<unat n])"
    and "entries = map (\<lambda>p. wire_entry (topic, of_nat p) (placement c rf now p)) [0..<unat n]"
    and "cc_assignments c' = foldl (\<lambda>m (p, pa). omap_put (topic, p) pa m) (cc_assignments c)
       (map (\<lambda>p. (of_nat p, placement c rf now p)) [0..<unat n])"
    and "cc_assignments_file c' = Some (concat (map assignment_line (cc_assignments c')))"
proof -
  have "alive_broker_ids c now \<noteq> []" using self_alive [OF assms(2), of now] by auto
  then show "result = Some (map (\<lambda>p. (of_nat p, placement c rf now p)) [0..<unat n])"
    and "entries = map (\<lambda>p. wire_entry (topic, of_nat p) (placement c rf now p)) [0..<unat n]"
    and "cc_assignments c' = foldl (\<lambda>m (p, pa). omap_put (topic, p) pa m) (cc_assignments c)
       (map (\<lambda>p. (of_nat p, placement c rf now p)) [0..<unat n])"
    and "cc_assignments_file c' = Some (concat (map assignment_line (cc_assignments c')))"
    using assms(1,3) by (auto simp: create_topic_def placement_def persist_assignments_def Let_def)
qed

lemma placement_facts:
  fixes now :: u64
  assumes "mb_self (cc_membership c) \<in> set (all_ids (cc_membership c))" "length (mb_peers (cc_membership c)) < 2 ^ 32"
    and "distinct (map fst (mb_peers (cc_membership c)))"
  defines "alive \<equiv> alive_broker_ids c now"
  shows "pa_leaderId (placement c rf now p) = alive ! (p mod length alive)"
    and "length (pa_replicas (placement c rf now p)) = max 1 (min (unat rf) (length alive))"
    and "pa_isr (placement c rf now p) = pa_replicas (placement c rf now p)"
    and "distinct (pa_replicas (placement c rf now p))" "set (pa_replicas (placement c rf now p)) \<subseteq> set alive"
    and "pa_leaderId (placement c rf now p) \<in> set (pa_replicas (placement c rf now p))"
proof -
  have ne: "alive \<noteq> []" using self_alive [OF assms(1), of now] by (auto simp: alive_def)
  have len: "length alive < 2 ^ 32" using length_alive [of c now] assms(2) by (simp add: alive_def)
  define rf' where "rf' = (let rf = min rf (of_nat (length alive)) in if rf = 0 then 1 else rf)"
  have u: "unat (min rf (of_nat (length alive))) = min (unat rf) (length alive)"
    using unat_of_nat_u32 [OF len] by (simp add: min_def word_le_nat_alt)
  have rf': "unat rf' = max 1 (min (unat rf) (length alive))"
  proof (cases "min rf (of_nat (length alive)) = 0")
    case True
    then have "min (unat rf) (length alive) = 0" using u by simp
    then show ?thesis using True by (simp add: rf'_def)
  next
    case False
    then have "0 < min (unat rf) (length alive)" using u by (metis unat_gt_0)
    moreover have "max 1 x = x" if "0 < x" for x :: nat using that by simp
    ultimately have "max 1 (min (unat rf) (length alive)) = min (unat rf) (length alive)" by blast
    then show ?thesis using False u by (simp only: rf'_def Let_def if_False)
  qed
  have le: "unat rf' \<le> length alive" using rf' ne by (cases alive) auto
  have nz: "rf' \<noteq> 0" using rf' by auto
  have pl: "placement c rf now p = topic_assignment alive rf' p" by (simp add: placement_def alive_def rf'_def)
  note f = topic_assignment_facts [OF ne le nz, of p]
  show "pa_leaderId (placement c rf now p) = alive ! (p mod length alive)"
    "length (pa_replicas (placement c rf now p)) = max 1 (min (unat rf) (length alive))"
    "pa_isr (placement c rf now p) = pa_replicas (placement c rf now p)"
    "set (pa_replicas (placement c rf now p)) \<subseteq> set alive"
    "pa_leaderId (placement c rf now p) \<in> set (pa_replicas (placement c rf now p))"
    using f rf' by (simp_all add: pl)
  show "distinct (pa_replicas (placement c rf now p))"
    using f(6) alive_distinct [OF assms(3), of now] by (simp add: pl alive_def)
qed

text \<open>Storing the partitions \<open>0, \<dots>, n - 1\<close> of a topic gives each its value and leaves every other key alone.\<close>

lemma stored_partitions:
  fixes m :: "(topic_partition, 'a) omap" and n :: u32
  assumes "m' = foldl (\<lambda>m (p, v). omap_put (topic, p) v m) m (map (\<lambda>p. (of_nat p, f p)) [0..<unat n])"
  shows "unat p < unat n \<Longrightarrow> map_of m' (topic, p) = Some (f (unat p))"
    and "fst key \<noteq> topic \<or> unat n \<le> unat (snd key) \<Longrightarrow> map_of m' key = map_of m key"
proof -
  define xs where "xs = map (\<lambda>q. ((topic, of_nat q :: u32), f q)) [0..<unat n]"
  have m: "map_of m' = map_of m ++ map_of (rev xs)"
    using foldl_omap_put [of "\<lambda>p. (topic, p)" m "map (\<lambda>p. (of_nat p, f p)) [0..<unat n]"]
    by (simp add: assms xs_def o_def)
  have n: "unat n < 2 ^ 32" using unsigned_less [of n, where ?'a = nat] by simp
  have num: "unat (of_nat q :: u32) = q" if "q < unat n" for q using that n by (intro unat_of_nat_u32) simp
  have dist: "distinct (map fst xs)"
    unfolding xs_def using num by (auto simp: distinct_map inj_on_def) (metis num)
  show "map_of m' (topic, p) = Some (f (unat p))" if "unat p < unat n"
  proof -
    have "((topic, p), f (unat p)) \<in> set xs"
      using that by (auto simp: xs_def intro!: image_eqI [of _ _ "unat p"])
    then have "map_of (rev xs) (topic, p) = Some (f (unat p))"
      using dist by (intro map_of_is_SomeI) (simp_all add: rev_map [symmetric])
    then show ?thesis by (simp add: m)
  qed
  show "map_of m' key = map_of m key" if "fst key \<noteq> topic \<or> unat n \<le> unat (snd key)"
  proof -
    have "key \<notin> fst ` set xs" using that num by (cases key) (auto simp: xs_def)
    then have "map_of (rev xs) key = None" by (simp add: map_of_eq_None_iff)
    then show ?thesis by (simp add: m map_add_def)
  qed
qed

lemma create_topic_lookup:
  assumes "is_leader c" "mb_self (cc_membership c) \<in> set (all_ids (cc_membership c))"
    and "create_topic c topic n rf now = ((result, entries), c')"
  shows "unat p < unat n \<Longrightarrow> map_of (cc_assignments c') (topic, p) = Some (placement c rf now (unat p))"
    and "fst key \<noteq> topic \<or> unat n \<le> unat (snd key) \<Longrightarrow> map_of (cc_assignments c') key = map_of (cc_assignments c) key"
  using stored_partitions [OF create_topic_result(3) [OF assms]] by blast+

section \<open>The assignments file\<close>

definition storable :: "topic_partition \<times> partition_assignment \<Rightarrow> bool" where
  "storable e \<longleftrightarrow> word_text (fst (fst e)) \<and> length (pa_replicas (snd e)) < 2 ^ 32 \<and> length (pa_isr (snd e)) < 2 ^ 32"

lemma at_gap_ids_text: "at_gap t \<Longrightarrow> at_gap (ids_text ids @ t)"
  by (cases ids) (simp_all add: ids_text_def)

lemma read_ids_text: "at_gap t \<Longrightarrow> read_ids (length ids) (Some (ids_text ids @ t)) i = (ids, Some t, last (i # ids))"
proof (induction ids arbitrary: i)
  case (Cons a ids)
  have "in_u32 (Some (CHR '' '' # to_string_u32 a @ ids_text ids @ t)) i = (Some (ids_text ids @ t), a)"
    by (rule in_u32_print(2) [OF at_gap_ids_text [OF Cons.prems]])
  moreover have "ids_text (a # ids) @ t = CHR '' '' # to_string_u32 a @ ids_text ids @ t" by (simp add: ids_text_def)
  ultimately show ?case using Cons by (simp only: read_ids.simps list.size add_0 add_Suc_right Let_def prod.case) simp
qed (simp add: ids_text_def)

lemma nat_digits_u32: "n < 2 ^ 32 \<Longrightarrow> nat_digits n = to_string_u32 (of_nat n)"
  by (simp add: to_string_u32_def)

lemma read_assignment_line:
  assumes "storable e" "ws = [] \<or> ws = [newline]"
  shows "\<exists>v'. read_assignment (Some (ws @ assignment_line e @ rest)) v = Some (e, Some (newline # rest), v')"
proof -
  obtain topic p pa where e: "e = ((topic, p), pa)" by (metis surj_pair)
  have st: "word_text topic" "length (pa_replicas pa) < 2 ^ 32" "length (pa_isr pa) < 2 ^ 32" using assms(1) by (simp_all add: storable_def e)
  define t6 where "t6 = newline # rest"
  define t5 where "t5 = ids_text (pa_isr pa) @ t6"
  define t4 where "t4 = CHR '' '' # to_string_u32 (of_nat (length (pa_isr pa))) @ t5"
  define t3 where "t3 = ids_text (pa_replicas pa) @ t4"
  define t2 where "t2 = CHR '' '' # to_string_u32 (of_nat (length (pa_replicas pa))) @ t3"
  define t1 where "t1 = CHR '' '' # to_string_u32 (pa_leaderId pa) @ t2"
  define t0 where "t0 = CHR '' '' # to_string_u32 p @ t1"
  have gaps: "at_gap t6" "at_gap t5" "at_gap t4" "at_gap t3" "at_gap t2" "at_gap t1" "at_gap t0"
    unfolding t5_def t3_def by (auto intro!: at_gap_ids_text simp: t6_def t4_def t2_def t1_def t0_def newline_def)
  have line: "assignment_line e @ rest = topic @ t0"
    using st by (simp add: e assignment_line_def t0_def t1_def t2_def t3_def t4_def t5_def t6_def nat_digits_u32)
  have w: "in_word (Some (ws @ topic @ t0)) old = (Some t0, topic)" for old
    using assms(2) in_word_print(2) [OF gaps(7) st(1), where c = newline and old = old] in_word_print(1) [OF gaps(7) st(1), where old = old] by (auto simp: newline_def)
  have n0: "in_u32 (Some t0) old = (Some t1, p)" for old unfolding t0_def by (rule in_u32_print(2) [OF gaps(6)])
  have n1: "in_u32 (Some t1) old = (Some t2, pa_leaderId pa)" for old unfolding t1_def by (rule in_u32_print(2) [OF gaps(5)])
  have n2: "in_u32 (Some t2) old = (Some t3, of_nat (length (pa_replicas pa)))" for old
    unfolding t2_def by (rule in_u32_print(2) [OF gaps(4)])
  have n3: "read_ids (length (pa_replicas pa)) (Some t3) i = (pa_replicas pa, Some t4, last (i # pa_replicas pa))" for i
    unfolding t3_def by (rule read_ids_text [OF gaps(3)])
  have n4: "in_u32 (Some t4) old = (Some t5, of_nat (length (pa_isr pa)))" for old
    unfolding t4_def by (rule in_u32_print(2) [OF gaps(2)])
  have n5: "read_ids (length (pa_isr pa)) (Some t5) i = (pa_isr pa, Some t6, last (i # pa_isr pa))" for i
    unfolding t5_def by (rule read_ids_text [OF gaps(1)])
  show ?thesis
    unfolding line read_assignment_def
    by (simp add: w n0 n1 n2 n3 n4 n5 unat_of_nat_u32 [OF st(2)] unat_of_nat_u32 [OF st(3)] Let_def del: unat_of_nat) (simp add: e t6_def)
qed

lemma read_assignment_end: "ws = [] \<or> ws = [newline] \<Longrightarrow> read_assignment (Some ws) v = None"
  by (auto simp: read_assignment_def in_word_def newline_def)

lemma load_lines:
  assumes "list_all storable es" "ws = [] \<or> ws = [newline]"
  shows "load_loop (Some (ws @ concat (map assignment_line es))) v m = foldl (\<lambda>m (k, pa). omap_put k pa m) m es"
  using assms
proof (induction es arbitrary: ws v m)
  case Nil
  then show ?case by (simp add: load_loop.simps [of "Some ws"] read_assignment_end)
next
  case (Cons e es)
  obtain key pa where e: "e = (key, pa)" by (cases e)
  obtain v' where r: "read_assignment (Some (ws @ assignment_line e @ concat (map assignment_line es))) v =
      Some (e, Some (newline # concat (map assignment_line es)), v')"
    using read_assignment_line [of e ws "concat (map assignment_line es)" v] Cons.prems by auto
  have "load_loop (Some (newline # concat (map assignment_line es))) v' (omap_put key pa m) =
      foldl (\<lambda>m (k, pa). omap_put k pa m) (omap_put key pa m) es"
    using Cons.IH [of "[newline]"] Cons.prems by simp
  then show ?case using r by (simp add: load_loop.simps [of "Some (ws @ _)"] e)
qed

lemma load_persisted:
  assumes "omap_ok (cc_assignments c)" "list_all storable (cc_assignments c)"
    and "cc_assignments_file c0 = cc_assignments_file (persist_assignments c)" "cc_assignments c0 = []"
  shows "cc_assignments (load_assignments c0) = cc_assignments c"
  using load_lines [OF assms(2), of "[]"] foldl_omap_put_sorted [of "[]" "cc_assignments c"] assms(1,3,4)
  by (simp add: load_assignments_def persist_assignments_def)

section \<open>Two runs of a cluster of three\<close>

definition demo_peers :: "(u32, address) omap" where
  "demo_peers = map (\<lambda>i. (i, \<lparr>addr_host = ''h'', addr_port = 9092\<rparr>)) [1, 2, 3]"

text \<open>Broker 1 wins term 1 with the vote of broker 2; broker 3 cannot be reached.\<close>

definition demo_win :: "event list" where
  "demo_win = [StartElection 1 150 150, DeliverVoteCall 0 160 150, VoteReply 0 161 150, VoteCallFails 1 3, FinishElection 1]"

text \<open>
  Broker 1 leads term 1 and has just read its role; broker 3 asks for votes in term 2 and gets the one of
  broker 1, which steps down and then sends the heartbeats of its round, with the new term.
\<close>

definition demo_late_heartbeat :: "event list" where
  "demo_late_heartbeat = demo_win @
     [SeeLeader 1, DeliverVoteCall 1 170 150, StartElection 3 400 150, DeliverVoteCall 2 401 150, SendHeartbeats 1,
      VoteReply 2 402 150, VoteCallFails 3 2, FinishElection 3, DeliverHeartbeat 0 403 150, DeliverHeartbeat 1 403 150]"

definition demo_net :: "event list \<Rightarrow> net" where
  "demo_net es = the (run_events demo_peers es (init_net demo_peers False))"

lemmas net_eval = set_node_def init_net_def init_node_def new_controller_def load_state_def load_assignments_def
  reset_election_deadline_def begin_election_def persist_state_def peer_ids_def all_ids_def is_leader_def election_request_def
  handle_request_vote_def handle_controller_heartbeat_def on_vote_response_def finish_election_def step_down_def
  become_leader_def broker_count_def broadcast_heartbeats_def heartbeat_to_peer_def demo_peers_def demo_win_def
  demo_late_heartbeat_def

lemma demo_reachable:
  assumes "\<exists>s. run_events demo_peers es (init_net demo_peers False) = Some s \<and> P s"
  shows "\<exists>s. reachable demo_peers False s \<and> P s"
  using assms reachable_run [OF reachable.init] by blast

lemma demo_win_run: "\<exists>s. run_events demo_peers demo_win (init_net demo_peers False) = Some s"
  by (simp add: net_eval)

lemma demo_win_reachable:
  "\<exists>s. reachable demo_peers False s \<and> cc_role (nd_ctl (net_nodes s 1)) = Leader \<and> cc_term (nd_ctl (net_nodes s 1)) = 1 \<and>
     net_elected s = [(1, 1)] \<and> net_ballots s = [(2, 1, 1), (1, 1, 1)]"
  by (rule demo_reachable [of demo_win]) (simp add: net_eval)

lemma demo_late_heartbeat_reachable:
  "\<exists>s. reachable demo_peers False s \<and> net_elected s = [(3, 2), (1, 1)] \<and>
     (1, 3, \<lparr>chreq_term = 2, chreq_leaderId = 1\<rparr>) \<in> set (net_heartbeats s) \<and>
     cc_leaderId (nd_ctl (net_nodes s 2)) = 1 \<and> cc_leaderId (nd_ctl (net_nodes s 3)) = 1 \<and>
     cc_term (nd_ctl (net_nodes s 2)) = 2 \<and> cc_term (nd_ctl (net_nodes s 3)) = 2 \<and>
     cc_role (nd_ctl (net_nodes s 3)) = Follower"
  by (rule demo_reachable [of demo_late_heartbeat]) (simp add: net_eval)

lemma demo_peers_ok: "distinct (map fst demo_peers)" "length demo_peers < 2 ^ 32"
  by (simp_all add: demo_peers_def)

lemma load_state_keeps: "cc_assignments (load_state c) = cc_assignments c" "cc_assignments_file (load_state c) = cc_assignments_file c"
  by (simp_all add: load_state_def Let_def split: option.split prod.split)

lemma load_assignments_cong:
  "cc_assignments c = cc_assignments d \<Longrightarrow> cc_assignments_file c = cc_assignments_file d \<Longrightarrow>
     cc_assignments (load_assignments c) = cc_assignments (load_assignments d)"
  by (simp add: load_assignments_def split: option.split)

text \<open>A controller that leads a cluster of three in which broker 3, the leader of a partition, is silent.\<close>

definition demo_controller :: controller where
  "demo_controller = \<lparr>cc_membership = \<lparr>mb_self = 1, mb_peers = demo_peers\<rparr>, cc_unclean = False, cc_role = Leader, cc_term = 1,
     cc_votedFor = 1, cc_leaderId = 1, cc_deadline = 0,
     cc_assignments = [((''t'', 0), \<lparr>pa_leaderId = 3, pa_replicas = [3, 1, 2], pa_isr = [3, 2]\<rparr>)],
     cc_lastAlive = [(2, 900), (3, 100)], cc_raft_file = None, cc_assignments_file = None\<rparr>"

end
