(* ===== verification/ClusterProps.thy ===== *)
theory ClusterProps
  imports ClusterLemmas
begin

text \<open>
  The properties of the controller: what elections promise over every run of the network, what failover and the
  creation of topics decide, and what survives a restart.
\<close>

unbundle bit_operations_syntax

section \<open>Elections\<close>

text \<open>
  C1: two brokers that both hold the leader role in the same term are the same broker, in every state that any
  exchange of messages, losses, delays, restarts and topic traffic can reach.
\<close>

theorem one_leader_per_term:
  assumes "reachable peers unclean s" "distinct (map fst peers)" "length peers < 2 ^ 32"
    and "is_leader (nd_ctl (net_nodes s i))" "is_leader (nd_ctl (net_nodes s j))"
    and "cc_term (nd_ctl (net_nodes s i)) = cc_term (nd_ctl (net_nodes s j))"
  shows "i = j"
proof -
  have inv: "net_inv peers s" by (rule reachable_inv [OF assms(1-3)])
  let ?t = "cc_term (nd_ctl (net_nodes s j))"
  have "(i, ?t) \<in> set (net_elected s)" "(j, ?t) \<in> set (net_elected s)"
    using net_invD(4) [OF inv] assms(4-6) by metis+
  then show ?thesis
    using majorities_agree [OF net_inv_parts(2) [OF inv] assms(2)] elected_okD [OF net_inv_parts(3) [OF inv]] by blast
qed

lemma one_leader_per_term_witness:
  "\<exists>s. reachable demo_peers False s \<and> is_leader (nd_ctl (net_nodes s 1)) \<and> (1 :: u32) = 1"
proof -
  obtain s where s: "reachable demo_peers False s" "is_leader (nd_ctl (net_nodes s 1))"
    using demo_win_reachable by (auto simp: is_leader_def)
  show ?thesis using s one_leader_per_term [OF s(1) demo_peers_ok s(2) s(2) refl] by blast
qed

text \<open>
  C6: at most one broker ever wins the election of a term, counting the brokers that lost the role since by a
  restart or a later term.
\<close>

theorem one_winner_per_term:
  assumes "reachable peers unclean s" "distinct (map fst peers)" "length peers < 2 ^ 32"
    and "(i, t) \<in> set (net_elected s)" "(j, t) \<in> set (net_elected s)"
  shows "i = j"
proof -
  have inv: "net_inv peers s" by (rule reachable_inv [OF assms(1-3)])
  show ?thesis
    using majorities_agree [OF net_inv_parts(2) [OF inv] assms(2)] elected_okD [OF net_inv_parts(3) [OF inv]] assms(4,5) by blast
qed

lemma one_winner_per_term_witness:
  "\<exists>s. reachable demo_peers False s \<and> (1, 1) \<in> set (net_elected s) \<and> (1 :: u32) = 1"
proof -
  obtain s where s: "reachable demo_peers False s" "(1, 1) \<in> set (net_elected s)"
    using demo_win_reachable by auto
  show ?thesis using s one_winner_per_term [OF s(1) demo_peers_ok s(2) s(2)] by blast
qed

text \<open>
  A broker gives its vote of a term to one candidate, its own vote included, also when it restarts between two
  requests.
\<close>

theorem one_vote_per_term:
  assumes "reachable peers unclean s" "distinct (map fst peers)" "length peers < 2 ^ 32"
    and "(voter, t, a) \<in> set (net_ballots s)" "(voter, t, b) \<in> set (net_ballots s)"
  shows "a = b"
  using ballots_okD(2) [OF net_inv_parts(2) [OF reachable_inv [OF assms(1-3)]]] assms(4,5) by blast

lemma one_vote_per_term_witness:
  "\<exists>s. reachable demo_peers False s \<and> (2, 1, 1) \<in> set (net_ballots s) \<and> (1 :: u32) = 1"
proof -
  obtain s where s: "reachable demo_peers False s" "(2, 1, 1) \<in> set (net_ballots s)"
    using demo_win_reachable by auto
  show ?thesis using s one_vote_per_term [OF s(1) demo_peers_ok s(2) s(2)] by blast
qed

text \<open>Along a run, restarts included, no broker's term goes back.\<close>

theorem terms_never_go_back:
  assumes "reachable peers unclean s" "distinct (map fst peers)" "length peers < 2 ^ 32"
    and "run_events peers es s = Some s'"
  shows "cc_term (nd_ctl (net_nodes s i)) \<le> cc_term (nd_ctl (net_nodes s' i))"
  using reachable_inv [OF assms(1-3)] assms(4)
proof (induction es arbitrary: s)
  case (Cons e es)
  obtain s1 where s1: "net_step peers e s = Some s1" "run_events peers es s1 = Some s'"
    using Cons.prems(2) by (auto split: option.splits)
  have "cc_term (nd_ctl (net_nodes s i)) \<le> cc_term (nd_ctl (net_nodes s1 i))"
    by (rule net_step_term [OF Cons.prems(1) s1(1)])
  moreover have "cc_term (nd_ctl (net_nodes s1 i)) \<le> cc_term (nd_ctl (net_nodes s' i))"
    by (rule Cons.IH [OF net_step_inv [OF Cons.prems(1) assms(2,3) s1(1)] s1(2)])
  ultimately show ?case by (rule order_trans)
qed simp

lemma terms_never_go_back_witness:
  "\<exists>s. run_events demo_peers demo_win (init_net demo_peers False) = Some s \<and>
     cc_term (nd_ctl (net_nodes (init_net demo_peers False) 1)) \<le> cc_term (nd_ctl (net_nodes s 1))"
proof -
  obtain s where s: "run_events demo_peers demo_win (init_net demo_peers False) = Some s"
    using demo_win_run by blast
  then show ?thesis using terms_never_go_back [OF reachable.init demo_peers_ok s] by blast
qed

text \<open>
  A restart reads back the term and the vote the broker had in memory, so it cannot vote again, and the broker
  comes back as a follower.
\<close>

theorem restart_keeps_vote:
  assumes "reachable peers unclean s" "distinct (map fst peers)" "length peers < 2 ^ 32"
    and "net_step peers (Restart i now timeout) s = Some s'"
  shows "cc_term (nd_ctl (net_nodes s' i)) = cc_term (nd_ctl (net_nodes s i)) \<and>
    cc_votedFor (nd_ctl (net_nodes s' i)) = cc_votedFor (nd_ctl (net_nodes s i)) \<and>
    cc_role (nd_ctl (net_nodes s' i)) = Follower"
  using restart_reads [OF net_invD(1) [OF reachable_inv [OF assms(1-3)]], of i now timeout] assms(4) by auto

lemma restart_keeps_vote_witness:
  "\<exists>s. reachable demo_peers False s \<and> cc_term (nd_ctl (restart (net_nodes s 1) 500 150)) = 1"
proof -
  obtain s where s: "reachable demo_peers False s" "cc_term (nd_ctl (net_nodes s 1)) = 1"
    using demo_win_reachable by auto
  show ?thesis
    using restart_keeps_vote [OF s(1) demo_peers_ok, of 1 500 150 "set_node s 1 (restart (net_nodes s 1) 500 150)"] s by auto
qed

text \<open>
  The heartbeats of a round carry the term of the moment they are sent, not the one the broker led: a broker
  that lost the role in between sends heartbeats for a term another broker wins, deposes the winner, and is taken
  for the leader of that term by the others.
\<close>

theorem late_heartbeat_deposes_winner:
  "\<exists>peers s. reachable peers False s \<and> distinct (map fst peers) \<and>
     (\<exists>i j t. (j, t) \<in> set (net_elected s) \<and> (i, t) \<notin> set (net_elected s) \<and> i \<noteq> j \<and>
        (i, j, \<lparr>chreq_term = t, chreq_leaderId = i\<rparr>) \<in> set (net_heartbeats s) \<and>
        \<not> is_leader (nd_ctl (net_nodes s j)) \<and> cc_term (nd_ctl (net_nodes s j)) = t \<and>
        cc_leaderId (nd_ctl (net_nodes s j)) = uint i)"
proof -
  obtain s where s: "reachable demo_peers False s" "net_elected s = [(3, 2), (1, 1)]"
    "(1, 3, \<lparr>chreq_term = 2, chreq_leaderId = 1\<rparr>) \<in> set (net_heartbeats s)"
    "cc_leaderId (nd_ctl (net_nodes s 3)) = 1" "cc_term (nd_ctl (net_nodes s 3)) = 2" "cc_role (nd_ctl (net_nodes s 3)) = Follower"
    using demo_late_heartbeat_reachable by blast
  have "(3, 2) \<in> set (net_elected s)" "(1, 2) \<notin> set (net_elected s)" "(1 :: u32) \<noteq> 3"
    by (simp_all add: s(2))
  then show ?thesis
    using s demo_peers_ok(1) by (intro exI [of _ demo_peers] exI [of _ s] conjI exI [of _ 1] exI [of _ 3] exI [of _ 2])
      (simp_all add: is_leader_def)
qed

section \<open>Assignments\<close>

text \<open>
  C29: one failover pass leaves a partition alone when its leader answers; otherwise the smallest alive broker of the
  ISR takes over with the alive part of the ISR, only with unclean elections on and no such broker the smallest alive
  replica takes over alone, and failing that the partition stays as it was. The replicas never change.
\<close>

theorem failover_decides:
  assumes "check_partition_failover c now = ((entries, changed), c')"
    and "map_of (cc_assignments c) key = Some pa"
  shows "\<exists>pa'. map_of (cc_assignments c') key = Some pa' \<and> pa_replicas pa' = pa_replicas pa \<and>
    (let alive = set (alive_broker_ids c now);
         isr = {i \<in> set (pa_isr pa). i \<noteq> pa_leaderId pa \<and> i \<in> alive};
         rest = {i \<in> set (pa_replicas pa). i \<noteq> pa_leaderId pa \<and> i \<in> alive}
     in if pa_leaderId pa \<in> alive then pa' = pa
        else if isr \<noteq> {} then pa_leaderId pa' = Min isr \<and> set (pa_isr pa') = isr
        else if cc_unclean c \<and> rest \<noteq> {} then pa_leaderId pa' = Min rest \<and> pa_isr pa' = [Min rest]
        else pa' = pa)"
proof (intro exI conjI)
  show "map_of (cc_assignments c') key = Some (failed_over c now pa)"
    using assms(2) by (simp add: failover_map [OF assms(1)] map_of_map_values)
  show "pa_replicas (failed_over c now pa) = pa_replicas pa"
    by (simp add: failed_over_def failover_one_cases)
  show "let alive = set (alive_broker_ids c now);
         isr = {i \<in> set (pa_isr pa). i \<noteq> pa_leaderId pa \<and> i \<in> alive};
         rest = {i \<in> set (pa_replicas pa). i \<noteq> pa_leaderId pa \<and> i \<in> alive}
     in if pa_leaderId pa \<in> alive then failed_over c now pa = pa
        else if isr \<noteq> {} then pa_leaderId (failed_over c now pa) = Min isr \<and> set (pa_isr (failed_over c now pa)) = isr
        else if cc_unclean c \<and> rest \<noteq> {} then pa_leaderId (failed_over c now pa) = Min rest \<and> pa_isr (failed_over c now pa) = [Min rest]
        else failed_over c now pa = pa"
    unfolding Let_def alive_others_def [symmetric] by (auto simp: failed_over_def failover_one_cases alive_others_def)
qed

lemma failover_decides_witness:
  "\<exists>pa'. map_of (cc_assignments (snd (check_partition_failover demo_controller 1000))) (''t'', 0) = Some pa' \<and>
     pa_leaderId pa' = 2 \<and> set (pa_isr pa') = {2}"
proof -
  have a: "alive_broker_ids demo_controller 1000 = [1, 2]"
    by (simp add: alive_broker_ids_def demo_controller_def all_ids_def demo_peers_def kAliveThresholdMs_def)
  obtain entries changed c' where r: "check_partition_failover demo_controller 1000 = ((entries, changed), c')" by (metis surj_pair)
  have m: "map_of (cc_assignments demo_controller) (''t'', 0) = Some \<lparr>pa_leaderId = 3, pa_replicas = [3, 1, 2], pa_isr = [3, 2]\<rparr>"
    by (simp add: demo_controller_def)
  have "{i \<in> set [3, 2]. i \<noteq> 3 \<and> i \<in> set [1, 2]} = {2 :: u32}" by auto
  then show ?thesis using failover_decides [OF r m] unfolding a by (simp add: r Let_def) blast
qed

text \<open>
  Without unclean elections a failover loses nothing the ISR holds: a new leader was in the ISR, is alive, and
  the new ISR is part of the old one.
\<close>

theorem clean_failover_stays_in_isr:
  assumes "check_partition_failover c now = (r, c')" "\<not> cc_unclean c"
    and "map_of (cc_assignments c) key = Some pa" "map_of (cc_assignments c') key = Some pa'"
    and "pa_leaderId pa' \<noteq> pa_leaderId pa"
  shows "pa_leaderId pa' \<in> set (pa_isr pa) \<and> pa_leaderId pa' \<in> set (alive_broker_ids c now) \<and>
    set (pa_isr pa') \<subseteq> set (pa_isr pa) \<and> pa_leaderId pa' \<in> set (pa_isr pa')"
proof -
  let ?A = "alive_others (alive_broker_ids c now) pa (pa_isr pa)"
  have pa': "pa' = failed_over c now pa"
    using assms(3,4) by (simp add: failover_map [OF assms(1)] map_of_map_values)
  with assms(2,5) have ne: "?A \<noteq> {}" and new: "pa_leaderId pa' = Min ?A" "set (pa_isr pa') = ?A"
    by (auto simp: failed_over_def failover_one_cases alive_others_def split: if_splits)
  have "Min ?A \<in> ?A" by (rule Min_in [OF finite_alive_others ne])
  then show ?thesis unfolding new by (simp add: alive_others_def subset_iff)
qed

lemma clean_failover_stays_in_isr_witness:
  "pa_leaderId (failed_over demo_controller 1000 \<lparr>pa_leaderId = 3, pa_replicas = [3, 1, 2], pa_isr = [3, 2]\<rparr>) \<in> {3, 2}"
proof -
  let ?pa = "\<lparr>pa_leaderId = 3, pa_replicas = [3, 1, 2], pa_isr = [3, 2]\<rparr>"
  obtain r c' where r: "check_partition_failover demo_controller 1000 = (r, c')" by (metis surj_pair)
  have m: "map_of (cc_assignments demo_controller) (''t'', 0) = Some ?pa" "\<not> cc_unclean demo_controller"
    by (simp_all add: demo_controller_def)
  have m': "map_of (cc_assignments c') (''t'', 0) = Some (failed_over demo_controller 1000 ?pa)"
    using m by (simp add: failover_map [OF r] map_of_map_values)
  have "pa_leaderId (failed_over demo_controller 1000 ?pa) \<noteq> pa_leaderId ?pa"
    by (simp add: failed_over_def failover_one_def alive_broker_ids_def demo_controller_def all_ids_def demo_peers_def kAliveThresholdMs_def Let_def)
  from clean_failover_stays_in_isr [OF r m(2,1) m' this] show ?thesis by auto
qed

text \<open>
  A controller places the partitions of a new topic round-robin over the alive brokers: partition \<open>p\<close> is led by
  alive broker \<open>p mod n\<close> and replicated on as many distinct alive brokers as asked for, at least one and at most all,
  all of them in sync; other topics keep their assignments.
\<close>

theorem create_topic_places:
  assumes "is_leader c" "mb_self (cc_membership c) \<in> set (all_ids (cc_membership c))"
    and "distinct (map fst (mb_peers (cc_membership c)))" "length (mb_peers (cc_membership c)) < 2 ^ 32"
    and "create_topic c topic n rf now = ((result, entries), c')"
  defines "alive \<equiv> alive_broker_ids c now"
  shows "(\<forall>p. unat p < unat n \<longrightarrow> (\<exists>pa. map_of (cc_assignments c') (topic, p) = Some pa \<and>
      pa_leaderId pa = alive ! (unat p mod length alive) \<and> pa_leaderId pa \<in> set (pa_replicas pa) \<and>
      length (pa_replicas pa) = max 1 (min (unat rf) (length alive)) \<and> distinct (pa_replicas pa) \<and>
      set (pa_replicas pa) \<subseteq> set alive \<and> pa_isr pa = pa_replicas pa)) \<and>
    (\<forall>key. fst key \<noteq> topic \<or> unat n \<le> unat (snd key) \<longrightarrow> map_of (cc_assignments c') key = map_of (cc_assignments c) key)"
proof -
  note pl = placement_facts [OF assms(2,4,3), where now = now and rf = rf, folded alive_def]
  note look = create_topic_lookup [OF assms(1,2,5)]
  have "\<exists>pa. map_of (cc_assignments c') (topic, p) = Some pa \<and>
      pa_leaderId pa = alive ! (unat p mod length alive) \<and> pa_leaderId pa \<in> set (pa_replicas pa) \<and>
      length (pa_replicas pa) = max 1 (min (unat rf) (length alive)) \<and> distinct (pa_replicas pa) \<and>
      set (pa_replicas pa) \<subseteq> set alive \<and> pa_isr pa = pa_replicas pa" if "unat p < unat n" for p
    using look(1) [OF that] pl by (intro exI [of _ "placement c rf now (unat p)"]) simp
  then show ?thesis using look(2) by blast
qed

lemma create_topic_places_witness:
  "\<exists>pa. map_of (cc_assignments (snd (create_topic demo_controller ''u'' 3 2 1000))) (''u'', 1) = Some pa \<and> pa_leaderId pa = 2 \<and>
     length (pa_replicas pa) = 2"
proof -
  have l: "is_leader demo_controller" "mb_self (cc_membership demo_controller) \<in> set (all_ids (cc_membership demo_controller))"
    "distinct (map fst (mb_peers (cc_membership demo_controller)))" "length (mb_peers (cc_membership demo_controller)) < 2 ^ 32"
    by (simp_all add: demo_controller_def is_leader_def all_ids_def demo_peers_def)
  have a: "alive_broker_ids demo_controller 1000 = [1, 2]"
    by (simp add: alive_broker_ids_def demo_controller_def all_ids_def demo_peers_def kAliveThresholdMs_def)
  obtain result entries c' where r: "create_topic demo_controller ''u'' 3 2 1000 = ((result, entries), c')" by (metis surj_pair)
  have "unat (1 :: u32) < unat (3 :: u32)" by simp
  note create_topic_places [OF l r, THEN conjunct1, THEN spec, THEN mp, OF this]
  then obtain pa where "map_of (cc_assignments c') (''u'', 1) = Some pa" "pa_leaderId pa = [1, 2] ! (unat (1 :: u32) mod length [1, 2 :: u32])"
    "length (pa_replicas pa) = max 1 (min (unat (2 :: u32)) (length [1, 2 :: u32]))"
    unfolding a by (elim exE conjE)
  then show ?thesis by (simp add: r)
qed

text \<open>
  C33: the assignments a controller persisted are what a restarted one loads, in the same order, when topics are
  words (not empty, no white space): the file separates its fields by spaces.
\<close>

theorem assignments_survive_restart:
  assumes "omap_ok (cc_assignments c)"
    and "\<forall>((topic, p), pa) \<in> set (cc_assignments c). word_text topic \<and> length (pa_replicas pa) < 2 ^ 32 \<and> length (pa_isr pa) < 2 ^ 32"
    and "c' = persist_assignments c"
  shows "cc_assignments (new_controller m unclean raft_file (cc_assignments_file c') now timeout) = cc_assignments c"
proof -
  have st: "list_all storable (cc_assignments c)"
    using assms(2) by (auto simp: list_all_iff storable_def)
  show ?thesis
    using load_persisted [OF assms(1) st] assms(3)
    by (simp add: new_controller_def reset_election_deadline_def load_state_keeps)
qed

lemma assignments_survive_restart_witness:
  "cc_assignments (new_controller (cc_membership demo_controller) False None
      (cc_assignments_file (persist_assignments demo_controller)) 0 150) = cc_assignments demo_controller"
proof -
  have o: "omap_ok (cc_assignments demo_controller)" by (simp add: demo_controller_def omap_ok_def)
  have w: "\<forall>((topic, p), pa) \<in> set (cc_assignments demo_controller). word_text topic \<and> length (pa_replicas pa) < 2 ^ 32 \<and>
      length (pa_isr pa) < 2 ^ 32"
    by (simp add: demo_controller_def word_text_def is_space_def)
  show ?thesis by (rule assignments_survive_restart [OF o w refl])
qed

end
