(* ===== verification/IsrManager.thy ===== *)
theory IsrManager
  imports PartitionSpec
begin

text \<open>
  The leader's side of replication (\<open>src/replication/isr_manager.cpp\<close>): which replicas are in sync, and the high
  watermark of a led partition. A \<open>Partition*\<close> is the key of the partition in the broker's table, which is passed
  and returned; the current time is an argument. An operation returns the new ISR when it changed, for the callback
  the code makes after it released its lock.
\<close>

unbundle bit_operations_syntax

section \<open>State and operations\<close>

definition kReplicaLagTimeMs :: u64 where "kReplicaLagTimeMs = 1000"
definition kReplicaMaxLagMessages :: u64 where "kReplicaMaxLagMessages = 1000"

type_synonym partitions = "(topic_partition, partition) omap"

record partition_state =
  ps_partition :: "topic_partition option"
  ps_replicas :: "u32 list"
  ps_isr :: "u32 list"
  ps_followerProgress :: "(u32, u64) omap"
  ps_lastFetchMs :: "(u32, u64) omap"

definition empty_partition_state :: partition_state where
  "empty_partition_state =
     \<lparr>ps_partition = None, ps_replicas = [], ps_isr = [], ps_followerProgress = [], ps_lastFetchMs = []\<rparr>"

record isr_manager =
  im_selfBrokerId :: u32
  im_partitions :: "(topic_partition, partition_state) omap"

text \<open>The two loops of \<open>recompute\<close>; \<open>followerProgress.at\<close> finds every follower the first one kept.\<close>

definition in_sync :: "u32 \<Rightarrow> u64 \<Rightarrow> u64 \<Rightarrow> partition_state \<Rightarrow> u32 \<Rightarrow> bool" where
  "in_sync self leo now st i \<longleftrightarrow>
     i = self \<or>
     (case (map_of (ps_followerProgress st) i, map_of (ps_lastFetchMs st) i) of
        (Some progress, Some time) \<Rightarrow>
          now - time \<le> kReplicaLagTimeMs \<and> progress \<le> leo \<and> leo - progress \<le> kReplicaMaxLagMessages
      | _ \<Rightarrow> False)"

definition isr_hwm :: "u32 \<Rightarrow> u64 \<Rightarrow> partition_state \<Rightarrow> u32 list \<Rightarrow> u64" where
  "isr_hwm self leo st newIsr =
     foldl (\<lambda>hwm i. if i = self then hwm else min hwm (the (map_of (ps_followerProgress st) i))) leo newIsr"

definition recompute :: "u32 \<Rightarrow> partition_state \<Rightarrow> partitions \<Rightarrow> u64 \<Rightarrow> u32 list option \<times> partition_state \<times> partitions" where
  "recompute self st parts now =
     (case ps_partition st of
        None \<Rightarrow> (None, st, parts)
      | Some ref \<Rightarrow>
          (case map_of parts ref of
             None \<Rightarrow> (None, st, parts)
           | Some p \<Rightarrow>
               (let leo = word_of_int (log_end_offset p);
                    newIsr = sort (filter (in_sync self leo now st) (ps_replicas st));
                    parts' = omap_put ref (set_high_watermark p (sint (isr_hwm self leo st newIsr))) parts
                in if newIsr \<noteq> ps_isr st then (Some newIsr, st\<lparr>ps_isr := newIsr\<rparr>, parts')
                   else (None, st, parts'))))"

definition set_leading :: "isr_manager \<Rightarrow> topic_partition \<Rightarrow> topic_partition \<Rightarrow> u32 list \<Rightarrow> isr_manager" where
  "set_leading m key part replicas =
     (let st = (case map_of (im_partitions m) key of None \<Rightarrow> empty_partition_state | Some st \<Rightarrow> st);
          st = st\<lparr>ps_partition := Some part, ps_replicas := replicas\<rparr>;
          st = (if ps_isr st = [] then st\<lparr>ps_isr := ps_replicas st\<rparr> else st)
      in m\<lparr>im_partitions := omap_put key st (im_partitions m)\<rparr>)"

definition stop_leading :: "isr_manager \<Rightarrow> topic_partition \<Rightarrow> isr_manager" where
  "stop_leading m key = m\<lparr>im_partitions := omap_erase key (im_partitions m)\<rparr>"

definition on_replica_fetch :: "isr_manager \<Rightarrow> partitions \<Rightarrow> topic_partition \<Rightarrow> u32 \<Rightarrow> u64 \<Rightarrow> u64 \<Rightarrow>
    u32 list option \<times> isr_manager \<times> partitions" where
  "on_replica_fetch m parts key replicaId fetchOffset now =
     (case map_of (im_partitions m) key of
        None \<Rightarrow> (None, m, parts)
      | Some st \<Rightarrow>
          (let st = st\<lparr>ps_followerProgress := omap_put replicaId fetchOffset (ps_followerProgress st),
                       ps_lastFetchMs := omap_put replicaId now (ps_lastFetchMs st)\<rparr>;
               (changed, st, parts) = recompute (im_selfBrokerId m) st parts now
           in (changed, m\<lparr>im_partitions := omap_put key st (im_partitions m)\<rparr>, parts)))"

definition on_leader_append :: "isr_manager \<Rightarrow> partitions \<Rightarrow> topic_partition \<Rightarrow> u64 \<Rightarrow>
    u32 list option \<times> isr_manager \<times> partitions" where
  "on_leader_append m parts key now =
     (case map_of (im_partitions m) key of
        None \<Rightarrow> (None, m, parts)
      | Some st \<Rightarrow>
          (let (changed, st, parts) = recompute (im_selfBrokerId m) st parts now
           in (changed, m\<lparr>im_partitions := omap_put key st (im_partitions m)\<rparr>, parts)))"

definition isr_for :: "isr_manager \<Rightarrow> topic_partition \<Rightarrow> u32 list" where
  "isr_for m key = (case map_of (im_partitions m) key of None \<Rightarrow> [] | Some st \<Rightarrow> ps_isr st)"

text \<open>The condition \<open>wait_for_hwm\<close> waits for; on a timeout it is asked once more and its answer returned.\<close>

definition hwm_passed :: "isr_manager \<Rightarrow> partitions \<Rightarrow> topic_partition \<Rightarrow> i64 \<Rightarrow> bool" where
  "hwm_passed m parts key requiredOffset =
     (case map_of (im_partitions m) key of
        None \<Rightarrow> False
      | Some st \<Rightarrow> (case ps_partition st of
           None \<Rightarrow> False
         | Some ref \<Rightarrow> (case map_of parts ref of None \<Rightarrow> False | Some p \<Rightarrow> requiredOffset < high_watermark p)))"

text \<open>One pass of the sweep thread over every led partition, in key order.\<close>

fun sweep_list :: "u32 \<Rightarrow> (topic_partition \<times> partition_state) list \<Rightarrow> partitions \<Rightarrow> u64 \<Rightarrow>
    (topic_partition \<times> u32 list) list \<times> (topic_partition \<times> partition_state) list \<times> partitions" where
  "sweep_list self [] parts now = ([], [], parts)"
| "sweep_list self ((key, st) # rest) parts now =
     (let (changed, st, parts) = recompute self st parts now;
          (changes, rest, parts) = sweep_list self rest parts now
      in ((case changed of None \<Rightarrow> changes | Some isr \<Rightarrow> (key, isr) # changes), (key, st) # rest, parts))"

definition sweep :: "isr_manager \<Rightarrow> partitions \<Rightarrow> u64 \<Rightarrow> (topic_partition \<times> u32 list) list \<times> isr_manager \<times> partitions" where
  "sweep m parts now =
     (let (changes, sts, parts) = sweep_list (im_selfBrokerId m) (im_partitions m) parts now
      in (changes, m\<lparr>im_partitions := sts\<rparr>, parts))"

section \<open>What a recompute decides\<close>

lemma Min_insert_min: "finite A \<Longrightarrow> Min (insert (min a b) A) = Min (insert a (insert b A))" for a b :: "'a::linorder"
  by (cases "A = {}") (simp_all add: min.assoc)

lemma foldl_min_Min:
  "foldl (\<lambda>h i. if i = self then h else min h (f i)) h0 xs = Min (insert h0 (f ` (set xs - {self})))" for h0 :: "'a::linorder"
proof (induction xs arbitrary: h0)
  case (Cons x xs)
  show ?case
  proof (cases "x = self")
    case True
    then show ?thesis using Cons by simp
  next
    case False
    then have "insert h0 (f ` (set (x # xs) - {self})) = insert h0 (insert (f x) (f ` (set xs - {self})))" by auto
    moreover have "Min (insert (min h0 (f x)) (f ` (set xs - {self}))) = Min (insert h0 (insert (f x) (f ` (set xs - {self}))))"
      by (rule Min_insert_min) simp
    ultimately show ?thesis using False Cons by simp
  qed
qed simp

lemma in_syncD:
  assumes "in_sync self leo now st i" "i \<noteq> self"
  obtains progress time where "map_of (ps_followerProgress st) i = Some progress" "map_of (ps_lastFetchMs st) i = Some time"
    "now - time \<le> kReplicaLagTimeMs" "progress \<le> leo" "leo - progress \<le> kReplicaMaxLagMessages"
  using assms by (auto simp: in_sync_def split: option.splits)

lemma isr_hwm_bounds:
  "isr_hwm self leo st isr \<le> leo"
  "i \<in> set isr \<Longrightarrow> i \<noteq> self \<Longrightarrow> isr_hwm self leo st isr \<le> the (map_of (ps_followerProgress st) i)"
  unfolding isr_hwm_def foldl_min_Min by (auto intro!: Min_le)

lemma recompute_cases:
  assumes "recompute self st parts now = (changed, st', parts')" "ps_partition st = Some ref" "map_of parts ref = Some p"
  defines "leo \<equiv> word_of_int (log_end_offset p)"
  defines "isr \<equiv> sort (filter (in_sync self leo now st) (ps_replicas st))"
  shows "st' = st\<lparr>ps_isr := isr\<rparr>" "parts' = omap_put ref (set_high_watermark p (sint (isr_hwm self leo st isr))) parts"
    "changed = (if isr = ps_isr st then None else Some isr)"
  using assms by (auto simp: recompute_def Let_def split: if_splits)

lemma int_unat_Min: "finite A \<Longrightarrow> A \<noteq> {} \<Longrightarrow> int (unat (Min A)) = Min ((\<lambda>w. int (unat w)) ` A)" for A :: "'a::len word set"
proof (rule mono_Min_commute)
  show "mono (\<lambda>w :: 'a word. int (unat w))" unfolding mono_def word_le_nat_alt of_nat_le_iff by blast
qed

lemma isr_hwm_int:
  assumes "unat leo < 2 ^ 63"
  shows "sint (isr_hwm self leo st isr) =
    Min (insert (int (unat leo)) ((\<lambda>i. int (unat (the (map_of (ps_followerProgress st) i)))) ` (set isr - {self})))"
proof -
  have "unat (isr_hwm self leo st isr) \<le> unat leo" using isr_hwm_bounds(1) [of self leo st isr] unfolding word_le_nat_alt .
  then have "sint (isr_hwm self leo st isr) = int (unat (isr_hwm self leo st isr))" using assms by (intro sint_small_u64) simp
  also have "\<dots> = Min ((\<lambda>w. int (unat w)) ` insert leo ((\<lambda>i. the (map_of (ps_followerProgress st) i)) ` (set isr - {self})))"
    unfolding isr_hwm_def foldl_min_Min by (rule int_unat_Min) auto
  finally show ?thesis unfolding image_insert image_image .
qed

end
