(* ===== verification/Follower.thy ===== *)
theory Follower
  imports IsrManager ClientMessages Frames
begin

text \<open>
  The follower's side of replication (\<open>src/replication/follower.cpp\<close>) and the leader's answer to it (the part of
  \<open>Broker::handle_replicate\<close> that runs when this broker leads the partition). One pass of \<open>run_loop\<close> is one function:
  whether the connection could be opened and what the leader answered (\<open>None\<close> for an exception of the socket) are
  arguments, the sleep is left out.
\<close>

unbundle bit_operations_syntax

definition kMaxFetchBytes :: u32 where "kMaxFetchBytes = push_bit 20 1"

record follower_fetcher =
  ff_topic :: string
  ff_partitionId :: u32
  ff_selfBrokerId :: u32
  ff_leaderHost :: string
  ff_leaderPort :: u16
  ff_connected :: bool
  ff_correlationId :: u32

definition new_follower :: "string \<Rightarrow> u32 \<Rightarrow> u32 \<Rightarrow> string \<Rightarrow> u16 \<Rightarrow> follower_fetcher" where
  "new_follower topic partitionId selfBrokerId leaderHost leaderPort =
     \<lparr>ff_topic = topic, ff_partitionId = partitionId, ff_selfBrokerId = selfBrokerId, ff_leaderHost = leaderHost,
      ff_leaderPort = leaderPort, ff_connected = False, ff_correlationId = 1\<rparr>"

definition replica_request :: "follower_fetcher \<Rightarrow> partition \<Rightarrow> replica_fetch_request" where
  "replica_request ff p =
     \<lparr>rfreq_topic = ff_topic ff, rfreq_partitionId = ff_partitionId ff, rfreq_replicaId = ff_selfBrokerId ff,
      rfreq_fetchOffset = word_of_int (log_end_offset p), rfreq_maxBytes = kMaxFetchBytes\<rparr>"

definition replica_frame :: "follower_fetcher \<Rightarrow> partition \<Rightarrow> request_frame" where
  "replica_frame ff p =
     \<lparr>rf_requestType = request_type_u16 Replicate, rf_correlationId = ff_correlationId ff,
      rf_payload = encode_replica_fetch_request [] (replica_request ff p)\<rparr>"

definition apply_fetch :: "partition \<Rightarrow> bytes \<Rightarrow> (decode_error + fetch_response) \<times> partition" where
  "apply_fetch p payload =
     (case decode_fetch_response (mk_reader payload) of
        Inl e \<Rightarrow> (Inl e, p)
      | Inr (resp, _) \<Rightarrow>
          if fresp_errorCode resp \<noteq> NoError \<or> fresp_records resp = [] then (Inr resp, p)
          else (Inr resp, append_replicated p (fresp_records resp)))"

definition fetcher_pass :: "follower_fetcher \<Rightarrow> partition \<Rightarrow> bool \<Rightarrow> (request_frame \<Rightarrow> response_frame option) \<Rightarrow>
    follower_fetcher \<times> partition" where
  "fetcher_pass ff p connects leader =
     (if \<not> ff_connected ff \<and> \<not> connects then (ff, p)
      else let req = replica_frame ff p;
               ff = ff\<lparr>ff_connected := True, ff_correlationId := ff_correlationId ff + 1\<rparr>
           in case leader req of
                None \<Rightarrow> (ff\<lparr>ff_connected := False\<rparr>, p)
              | Some respFrame \<Rightarrow>
                  (case apply_fetch p (sf_payload respFrame) of
                     (Inl _, p) \<Rightarrow> (ff\<lparr>ff_connected := False\<rparr>, p)
                   | (Inr _, p) \<Rightarrow> (ff, p)))"

text \<open>The leader's answer: the records first, then the follower's progress, then the high watermark.\<close>

definition serve_replica :: "isr_manager \<Rightarrow> partitions \<Rightarrow> replica_fetch_request \<Rightarrow> u64 \<Rightarrow>
    (fetch_response \<times> u32 list option \<times> isr_manager \<times> partitions) option" where
  "serve_replica m parts req now =
     (let key = (rfreq_topic req, rfreq_partitionId req)
      in case map_of parts key of
           None \<Rightarrow> None
         | Some p \<Rightarrow>
             (let records = read_up_to_leo p (sint (rfreq_fetchOffset req)) (rfreq_maxBytes req);
                  (changed, m, parts) = on_replica_fetch m parts key (rfreq_replicaId req) (rfreq_fetchOffset req) now
              in case map_of parts key of
                   None \<Rightarrow> None
                 | Some p \<Rightarrow>
                     Some (\<lparr>fresp_errorCode = NoError, fresp_highWatermark = word_of_int (high_watermark p),
                            fresp_records = records, fresp_leaderHost = [], fresp_leaderPort = 0\<rparr>, changed, m, parts)))"

end
