(* ===== verification/Coordinator.thy ===== *)
theory Coordinator
  imports GroupMessages CppText
begin

text \<open>
  The consumer group coordinator (\<open>src/group/coordinator.cpp\<close>). Every section under a group's lock is one function;
  the two operations that wait (\<open>join_group\<close>, \<open>sync_group\<close>) are the section before the wait and the one after
  it. The times read from the clock are arguments, the offset files are part of the state, by group.
\<close>

unbundle bit_operations_syntax

section \<open>State\<close>

definition kRebalanceWindowMs :: u64 where "kRebalanceWindowMs = 1000"

record member_state =
  ms_sessionTimeoutMs :: u32
  ms_lastHeartbeatMs :: u64

record group_state =
  gs_generationId :: u32
  gs_topic :: string
  gs_leaderId :: string
  gs_members :: "(string, member_state) omap"
  gs_rebalanceInProgress :: bool
  gs_needsRebalance :: bool
  gs_joinDeadlineMs :: u64
  gs_syncReady :: bool
  gs_assignment :: "(string, u32 list) omap"
  gs_offsetsLoaded :: bool
  gs_offsets :: "(topic_partition, u64) omap"

record coordinator =
  gc_brokerId :: u32
  gc_host :: string
  gc_port :: u16
  gc_groups :: "(string, group_state) omap"
  gc_nextMemberSeq :: u64
  gc_files :: "(string, string) omap"

definition new_group :: group_state where
  "new_group = \<lparr>gs_generationId = 0, gs_topic = [], gs_leaderId = [], gs_members = [], gs_rebalanceInProgress = False,
     gs_needsRebalance = False, gs_joinDeadlineMs = 0, gs_syncReady = False, gs_assignment = [], gs_offsetsLoaded = False,
     gs_offsets = []\<rparr>"

definition new_coordinator :: "(string, string) omap \<Rightarrow> u32 \<Rightarrow> string \<Rightarrow> u16 \<Rightarrow> coordinator" where
  "new_coordinator fs brokerId host port =
     \<lparr>gc_brokerId = brokerId, gc_host = host, gc_port = port, gc_groups = [], gc_nextMemberSeq = 0, gc_files = fs\<rparr>"

definition get_or_create_group :: "coordinator \<Rightarrow> string \<Rightarrow> group_state" where
  "get_or_create_group c groupId = (case map_of (gc_groups c) groupId of Some g \<Rightarrow> g | None \<Rightarrow> new_group)"

definition put_group :: "string \<Rightarrow> group_state \<Rightarrow> coordinator \<Rightarrow> coordinator" where
  "put_group groupId g c = c\<lparr>gc_groups := omap_put groupId g (gc_groups c)\<rparr>"

definition generate_member_id :: "coordinator \<Rightarrow> string \<Rightarrow> string \<times> coordinator" where
  "generate_member_id c groupId =
     (groupId @ ''-member-'' @ to_string_u64 (gc_nextMemberSeq c), c\<lparr>gc_nextMemberSeq := gc_nextMemberSeq c + 1\<rparr>)"

definition find_coordinator :: "coordinator \<Rightarrow> find_coordinator_request \<Rightarrow> find_coordinator_response" where
  "find_coordinator c req =
     \<lparr>fcresp_errorCode = NoError, fcresp_coordinatorId = gc_brokerId c, fcresp_host = gc_host c, fcresp_port = ucast (gc_port c)\<rparr>"

section \<open>Joining\<close>

text \<open>\<open>join_enter\<close> returns the member id and the deadline the thread waits for.\<close>

definition join_enter :: "coordinator \<Rightarrow> join_group_request \<Rightarrow> u64 \<Rightarrow> u64 \<Rightarrow> (string \<times> u64) \<times> coordinator" where
  "join_enter c req now1 now2 =
     (let g = get_or_create_group c (jgreq_groupId req);
          (memberId, c) = generate_member_id (put_group (jgreq_groupId req) g c) (jgreq_groupId req);
          g = g\<lparr>gs_topic := jgreq_topic req\<rparr>;
          g = (if gs_rebalanceInProgress g then g
               else g\<lparr>gs_rebalanceInProgress := True, gs_members := [], gs_joinDeadlineMs := now1 + kRebalanceWindowMs\<rparr>);
          g = g\<lparr>gs_members := omap_put memberId
                  \<lparr>ms_sessionTimeoutMs = jgreq_sessionTimeoutMs req, ms_lastHeartbeatMs = now2\<rparr> (gs_members g)\<rparr>
      in ((memberId, gs_joinDeadlineMs g), put_group (jgreq_groupId req) g c))"

text \<open>\<open>wait_until\<close> returns when its condition holds, or at the first look after the deadline.\<close>

definition join_wakes :: "group_state \<Rightarrow> u64 \<Rightarrow> u64 \<Rightarrow> bool" where
  "join_wakes g deadline now \<longleftrightarrow> \<not> gs_rebalanceInProgress g \<or> deadline \<le> now"

definition finalize_generation :: "group_state \<Rightarrow> group_state" where
  "finalize_generation g =
     g\<lparr>gs_generationId := gs_generationId g + 1,
       gs_leaderId := (if gs_members g = [] then [] else fst (hd (gs_members g))),
       gs_rebalanceInProgress := False, gs_needsRebalance := False, gs_syncReady := False, gs_assignment := []\<rparr>"

definition join_leave :: "coordinator \<Rightarrow> string \<Rightarrow> string \<Rightarrow> join_group_response \<times> coordinator" where
  "join_leave c groupId memberId =
     (let g = get_or_create_group c groupId;
          g = (if gs_rebalanceInProgress g then finalize_generation g else g)
      in (\<lparr>jgresp_errorCode = NoError, jgresp_generationId = gs_generationId g, jgresp_memberId = memberId,
           jgresp_leaderId = gs_leaderId g, jgresp_members = map fst (gs_members g)\<rparr>, put_group groupId g c))"

section \<open>Synchronising\<close>

text \<open>\<open>sync_enter\<close> answers at once (\<open>Inl\<close>) or waits for the assignment of a generation (\<open>Inr\<close>).\<close>

definition sync_response :: "group_state \<Rightarrow> string \<Rightarrow> sync_group_response" where
  "sync_response g memberId =
     \<lparr>sgresp_errorCode = NoError,
      sgresp_partitions = (case map_of (gs_assignment g) memberId of None \<Rightarrow> [] | Some ps \<Rightarrow> ps)\<rparr>"

definition sync_enter :: "coordinator \<Rightarrow> sync_group_request \<Rightarrow> (sync_group_response + u32) \<times> coordinator" where
  "sync_enter c req =
     (let g = get_or_create_group c (sgreq_groupId req);
          c = put_group (sgreq_groupId req) g c
      in if sgreq_generationId req \<noteq> gs_generationId g
         then (Inl \<lparr>sgresp_errorCode = RebalanceInProgress, sgresp_partitions = []\<rparr>, c)
         else if map_of (gs_members g) (sgreq_memberId req) = None
         then (Inl \<lparr>sgresp_errorCode = UnknownMemberId, sgresp_partitions = []\<rparr>, c)
         else if sgreq_assignments req \<noteq> []
         then let g = g\<lparr>gs_assignment := foldl (\<lambda>m a. omap_put (sga_memberId a) (sga_partitions a) m) [] (sgreq_assignments req),
                        gs_syncReady := True\<rparr>
              in (Inl (sync_response g (sgreq_memberId req)), put_group (sgreq_groupId req) g c)
         else (Inr (sgreq_generationId req), c))"

definition sync_wakes :: "group_state \<Rightarrow> u32 \<Rightarrow> bool" where
  "sync_wakes g generationAtEntry \<longleftrightarrow> gs_syncReady g \<or> gs_generationId g \<noteq> generationAtEntry"

text \<open>After the wait: on a timeout the condition is looked at once more.\<close>

definition sync_leave :: "coordinator \<Rightarrow> string \<Rightarrow> string \<Rightarrow> u32 \<Rightarrow> sync_group_response" where
  "sync_leave c groupId memberId generationAtEntry =
     (let g = get_or_create_group c groupId
      in if \<not> sync_wakes g generationAtEntry then \<lparr>sgresp_errorCode = RequestTimedOut, sgresp_partitions = []\<rparr>
         else if gs_generationId g \<noteq> generationAtEntry then \<lparr>sgresp_errorCode = RebalanceInProgress, sgresp_partitions = []\<rparr>
         else sync_response g memberId)"

section \<open>Heartbeats and leaving\<close>

definition stale_member :: "string \<Rightarrow> u64 \<Rightarrow> string \<times> member_state \<Rightarrow> bool" where
  "stale_member memberId now e \<longleftrightarrow>
     fst e \<noteq> memberId \<and> ucast (ms_sessionTimeoutMs (snd e)) < now - ms_lastHeartbeatMs (snd e)"

definition heartbeat :: "coordinator \<Rightarrow> heartbeat_request \<Rightarrow> u64 \<Rightarrow> u64 \<Rightarrow> heartbeat_response \<times> coordinator" where
  "heartbeat c req now1 now2 =
     (let g = get_or_create_group c (hbreq_groupId req);
          c = put_group (hbreq_groupId req) g c
      in case map_of (gs_members g) (hbreq_memberId req) of
           None \<Rightarrow> (\<lparr>hbresp_errorCode = UnknownMemberId\<rparr>, c)
         | Some st \<Rightarrow>
             if hbreq_generationId req \<noteq> gs_generationId g \<or> gs_needsRebalance g
             then (\<lparr>hbresp_errorCode = RebalanceInProgress\<rparr>, c)
             else let ms = omap_put (hbreq_memberId req) (st\<lparr>ms_lastHeartbeatMs := now1\<rparr>) (gs_members g);
                      g = g\<lparr>gs_members := filter (\<lambda>e. \<not> stale_member (hbreq_memberId req) now2 e) ms,
                            gs_needsRebalance := (gs_needsRebalance g \<or> (\<exists>e \<in> set ms. stale_member (hbreq_memberId req) now2 e))\<rparr>
                  in (\<lparr>hbresp_errorCode = NoError\<rparr>, put_group (hbreq_groupId req) g c))"

definition leave_group :: "coordinator \<Rightarrow> leave_group_request \<Rightarrow> leave_group_response \<times> coordinator" where
  "leave_group c req =
     (let g = get_or_create_group c (lgreq_groupId req);
          g = (if map_of (gs_members g) (lgreq_memberId req) \<noteq> None
               then g\<lparr>gs_members := omap_erase (lgreq_memberId req) (gs_members g), gs_needsRebalance := True\<rparr> else g)
      in (\<lparr>lgresp_errorCode = NoError\<rparr>, put_group (lgreq_groupId req) g c))"

section \<open>Offsets\<close>

definition offset_line :: "topic_partition \<times> u64 \<Rightarrow> string" where
  "offset_line e = (case e of ((topic, partitionId), offset) \<Rightarrow>
     topic @ CHR '' '' # to_string_u32 partitionId @ CHR '' '' # to_string_u64 offset @ [CHR 0x0A])"

lemma load_offsets_shrinks:
  assumes "in_word strm topic = (s1, topic')" "in_u32 s1 p = (s2, p')" "in_u64 s2 off = (s3, off')" "s3 \<noteq> None"
  shows "stream_size s3 < stream_size strm"
proof -
  obtain t where "s1 = Some t" using assms(2-4) by (cases s1) auto
  then show ?thesis
    using in_word_size [of strm topic t topic'] in_u32_size [OF assms(2)] in_u64_size [OF assms(3)] assms(1) by simp
qed

function load_offsets_loop :: "instream \<Rightarrow> string \<Rightarrow> u32 \<Rightarrow> u64 \<Rightarrow> (topic_partition, u64) omap \<Rightarrow> (topic_partition, u64) omap" where
  "load_offsets_loop strm topic partitionId offset m =
     (case in_word strm topic of (s1, topic) \<Rightarrow>
      case in_u32 s1 partitionId of (s2, partitionId) \<Rightarrow>
      case in_u64 s2 offset of (s3, offset) \<Rightarrow>
        if s3 = None then m
        else load_offsets_loop s3 topic partitionId offset (omap_put (topic, partitionId) offset m))"
  by pat_completeness auto

termination
  by (relation "measure (\<lambda>(strm, _). stream_size strm)") (auto intro: load_offsets_shrinks [OF sym sym sym])

declare load_offsets_loop.simps [simp del]

definition load_offsets_if_needed :: "coordinator \<Rightarrow> string \<Rightarrow> group_state \<Rightarrow> group_state" where
  "load_offsets_if_needed c groupId g =
     (if gs_offsetsLoaded g then g
      else let g = g\<lparr>gs_offsetsLoaded := True\<rparr>
           in case map_of (gc_files c) groupId of
                None \<Rightarrow> g
              | Some text \<Rightarrow> g\<lparr>gs_offsets := load_offsets_loop (Some text) [] 0 0 (gs_offsets g)\<rparr>)"

definition persist_offsets :: "coordinator \<Rightarrow> string \<Rightarrow> group_state \<Rightarrow> coordinator" where
  "persist_offsets c groupId g = c\<lparr>gc_files := omap_put groupId (concat (map offset_line (gs_offsets g))) (gc_files c)\<rparr>"

definition commit_offset :: "coordinator \<Rightarrow> commit_offset_request \<Rightarrow> commit_offset_response \<times> coordinator" where
  "commit_offset c req =
     (let g = load_offsets_if_needed c (coreq_groupId req) (get_or_create_group c (coreq_groupId req));
          g = g\<lparr>gs_offsets := omap_put (coreq_topic req, coreq_partitionId req) (coreq_offset req) (gs_offsets g)\<rparr>
      in (\<lparr>coresp_errorCode = NoError\<rparr>, persist_offsets (put_group (coreq_groupId req) g c) (coreq_groupId req) g))"

definition fetch_offset :: "coordinator \<Rightarrow> fetch_offset_request \<Rightarrow> fetch_offset_response \<times> coordinator" where
  "fetch_offset c req =
     (let g = load_offsets_if_needed c (foreq_groupId req) (get_or_create_group c (foreq_groupId req));
          offset = (case map_of (gs_offsets g) (foreq_topic req, foreq_partitionId req) of None \<Rightarrow> - 1 | Some w \<Rightarrow> sint w)
      in (\<lparr>foresp_errorCode = NoError, foresp_offset = offset\<rparr>, put_group (foreq_groupId req) g c))"

end
