(* ===== verification/Broker.thy ===== *)
theory Broker
  imports Controller Follower Coordinator Murmur2
begin

text \<open>
  The broker (\<open>src/broker/broker.cpp\<close>): what it owns, the handler of every request, the dispatch, and the
  reconciliation of its replication state with the assignments it knows. A handler that blocks returns what it waits for;
  what it answers after the wait is a function of its own. A handler also returns the calls it makes to other brokers.
  The clock is one argument per request. \<open>std::unordered_map\<close>s are maps: no result depends on their order.
\<close>

unbundle bit_operations_syntax

section \<open>State\<close>

definition kDefaultMaxSegBytes :: u32 where "kDefaultMaxSegBytes = push_bit 20 128"

record broker =
  bk_id :: u32
  bk_host :: string
  bk_port :: u16
  bk_dirs :: "(topic_partition, files) omap"
  bk_partitions :: partitions
  bk_topics :: "(string, u32) omap"
  bk_topicFiles :: "(string, string) omap"
  bk_groupCoordinator :: coordinator
  bk_cluster :: "controller option"
  bk_isrManager :: "isr_manager option"
  bk_followers :: "(topic_partition, follower_fetcher) omap"
  bk_leadingPartitions :: "topic_partition list"

datatype broker_error = BadPayload decode_error | PartitionFailed storage_error

datatype answer = Answer bytes | WaitHwm topic_partition i64 i64 | WaitJoin string string u64 | WaitSync string string u32

datatype outgoing = CallPeer u32 request_frame | BroadcastAssignments "leader_and_isr_entry list"

type_synonym handled = "broker_error + (answer \<times> outgoing list \<times> broker)"

definition parse :: "'a get \<Rightarrow> bytes \<Rightarrow> broker_error + 'a" where
  "parse get payload = (case get (mk_reader payload) of Inl e \<Rightarrow> Inl (BadPayload e) | Inr (x, _) \<Rightarrow> Inr x)"

text \<open>
  The constructor: a broker with peers has a membership, a controller and an ISR manager, one without has none.
\<close>

definition new_broker :: "u32 \<Rightarrow> string \<Rightarrow> u16 \<Rightarrow> (u32, address) omap option \<Rightarrow> bool \<Rightarrow> (topic_partition, files) omap \<Rightarrow>
    (string, string) omap \<Rightarrow> (string, string) omap \<Rightarrow> string option \<Rightarrow> string option \<Rightarrow> u64 \<Rightarrow> u32 \<Rightarrow> broker" where
  "new_broker brokerId host port peers unclean dirs topicFiles offsetFiles raft assigned now timeout =
     \<lparr>bk_id = brokerId, bk_host = host, bk_port = port, bk_dirs = dirs, bk_partitions = [], bk_topics = [],
      bk_topicFiles = topicFiles, bk_groupCoordinator = new_coordinator offsetFiles brokerId host port,
      bk_cluster = (case peers of None \<Rightarrow> None | Some ps \<Rightarrow>
        Some (new_controller \<lparr>mb_self = brokerId, mb_peers = ps\<rparr> unclean raft assigned now timeout)),
      bk_isrManager = (case peers of None \<Rightarrow> None | Some _ \<Rightarrow> Some \<lparr>im_selfBrokerId = brokerId, im_partitions = []\<rparr>),
      bk_followers = [], bk_leadingPartitions = []\<rparr>"

section \<open>Partitions and topics\<close>

definition get_or_create_partition :: "broker \<Rightarrow> topic_partition \<Rightarrow> broker_error + (partition \<times> broker)" where
  "get_or_create_partition b key =
     (case map_of (bk_partitions b) key of
        Some p \<Rightarrow> Inr (p, b)
      | None \<Rightarrow>
          (case recover (new_partition (case map_of (bk_dirs b) key of None \<Rightarrow> [] | Some fs \<Rightarrow> fs) kDefaultMaxSegBytes) of
             Inl e \<Rightarrow> Inl (PartitionFailed e)
           | Inr p \<Rightarrow> Inr (p, b\<lparr>bk_partitions := omap_put key p (bk_partitions b)\<rparr>)))"

definition partition_count_for :: "broker \<Rightarrow> string \<Rightarrow> u32 \<times> broker" where
  "partition_count_for b topic =
     (case map_of (bk_topics b) topic of
        Some count \<Rightarrow> (count, b)
      | None \<Rightarrow>
          (let count = (case map_of (bk_topicFiles b) topic of
                 None \<Rightarrow> 1
               | Some text \<Rightarrow> (let count = snd (in_u32 (Some text) 1) in if count = 0 then 1 else count))
           in (count, b\<lparr>bk_topics := omap_put topic count (bk_topics b)\<rparr>)))"

text \<open>An address as the answers carry it; of an unknown broker the empty one.\<close>

definition address_fields :: "controller \<Rightarrow> u32 \<Rightarrow> string \<times> u32" where
  "address_fields c i =
     (case address_of (cc_membership c) i of None \<Rightarrow> ([], 0) | Some addr \<Rightarrow> (addr_host addr, ucast (addr_port addr)))"

text \<open>The check before produce, fetch and replicate: in a cluster, is this broker the leader, and if not, who is?\<close>

definition not_leader :: "broker \<Rightarrow> topic_partition \<Rightarrow> (error_code \<times> string \<times> u32) option" where
  "not_leader b key =
     (case bk_cluster b of
        None \<Rightarrow> None
      | Some c \<Rightarrow>
          (case assignment_for c (fst key) (snd key) of
             None \<Rightarrow> Some (UnknownTopic, [], 0)
           | Some pa \<Rightarrow> if pa_leaderId pa \<noteq> bk_id b then Some (NotLeaderForPartition, address_fields c (pa_leaderId pa)) else None))"

section \<open>Reporting the ISR\<close>

text \<open>The callback of the ISR manager: the controller updates its own table, anybody else tells the controller.\<close>

definition report_isr :: "broker \<Rightarrow> topic_partition \<Rightarrow> u32 list \<Rightarrow> outgoing list \<times> broker" where
  "report_isr b key isr =
     (case bk_cluster b of
        None \<Rightarrow> ([], b)
      | Some c \<Rightarrow>
          if is_leader c
          then let (entries, c) = update_isr c (fst key) (snd key) isr
               in (if entries = [] then [] else [BroadcastAssignments entries], b\<lparr>bk_cluster := Some c\<rparr>)
          else if cc_leaderId c < 0 then ([], b)
          else case address_of (cc_membership c) (word_of_int (cc_leaderId c)) of
                 None \<Rightarrow> ([], b)
               | Some _ \<Rightarrow>
                   ([CallPeer (word_of_int (cc_leaderId c))
                       \<lparr>rf_requestType = request_type_u16 IsrUpdate, rf_correlationId = 1,
                        rf_payload = encode_isr_update_request []
                          \<lparr>iureq_topic = fst key, iureq_partitionId = snd key, iureq_isr = isr\<rparr>\<rparr>], b))"

definition isr_changed :: "broker \<Rightarrow> topic_partition \<Rightarrow> u32 list option \<times> isr_manager \<times> partitions \<Rightarrow> outgoing list \<times> broker" where
  "isr_changed b key r =
     (case r of (changed, m, parts) \<Rightarrow>
        (let b = b\<lparr>bk_isrManager := Some m, bk_partitions := parts\<rparr>
         in case changed of None \<Rightarrow> ([], b) | Some isr \<Rightarrow> report_isr b key isr))"

section \<open>Produce and fetch\<close>

definition produce_response_bytes :: "error_code \<Rightarrow> i64 \<Rightarrow> string \<Rightarrow> u32 \<Rightarrow> bytes" where
  "produce_response_bytes err base host port =
     encode_produce_response [] \<lparr>presp_errorCode = err, presp_baseOffset = word_of_int base, presp_leaderHost = host, presp_leaderPort = port\<rparr>"

definition handle_produce :: "broker \<Rightarrow> bytes \<Rightarrow> u64 \<Rightarrow> handled" where
  "handle_produce b payload now =
     bindE (parse decode_produce_request payload) (\<lambda>req.
       let key = (preq_topic req, preq_partitionId req)
       in case not_leader b key of
            Some (err, host, port) \<Rightarrow> Inr (Answer (produce_response_bytes err 0 host port), [], b)
          | None \<Rightarrow>
              bindE (get_or_create_partition b key) (\<lambda>(p, b).
                let recordCount = int (length (preq_records req));
                    (base, p) = pt_append p (preq_records req) now;
                    b = b\<lparr>bk_partitions := omap_put key p (bk_partitions b)\<rparr>;
                    (out, b) = (case (bk_cluster b, bk_isrManager b) of
                        (Some _, Some m) \<Rightarrow> isr_changed b key (on_leader_append m (bk_partitions b) key now)
                      | _ \<Rightarrow> ([], b))
                in if preq_acks req = 0xFF \<and> bk_cluster b \<noteq> None \<and> bk_isrManager b \<noteq> None \<and> 0 < recordCount
                   then Inr (WaitHwm key (base + recordCount - 1) base, out, b)
                   else Inr (Answer (produce_response_bytes NoError base [] 0), out, b)))"

definition produce_after_wait :: "broker \<Rightarrow> topic_partition \<Rightarrow> i64 \<Rightarrow> i64 \<Rightarrow> bytes" where
  "produce_after_wait b key requiredOffset base =
     (let ok = (case bk_isrManager b of None \<Rightarrow> False | Some m \<Rightarrow> hwm_passed m (bk_partitions b) key requiredOffset)
      in produce_response_bytes (if ok then NoError else RequestTimedOut) base [] 0)"

definition fetch_response_bytes :: "error_code \<Rightarrow> u64 \<Rightarrow> log_record list \<Rightarrow> string \<Rightarrow> u32 \<Rightarrow> bytes" where
  "fetch_response_bytes err hwm records host port =
     encode_fetch_response [] \<lparr>fresp_errorCode = err, fresp_highWatermark = hwm, fresp_records = records,
       fresp_leaderHost = host, fresp_leaderPort = port\<rparr>"

definition handle_fetch :: "broker \<Rightarrow> bytes \<Rightarrow> handled" where
  "handle_fetch b payload =
     bindE (parse decode_fetch_request payload) (\<lambda>req.
       let key = (freq_topic req, freq_partitionId req)
       in case not_leader b key of
            Some (err, host, port) \<Rightarrow> Inr (Answer (fetch_response_bytes err 0 [] host port), [], b)
          | None \<Rightarrow>
              bindE (get_or_create_partition b key) (\<lambda>(p, b).
                let records = pt_read p (sint (freq_fetchOffset req)) (freq_maxBytes req)
                in Inr (Answer (fetch_response_bytes NoError (word_of_int (high_watermark p)) records [] 0), [], b)))"

definition handle_replicate :: "broker \<Rightarrow> bytes \<Rightarrow> u64 \<Rightarrow> handled" where
  "handle_replicate b payload now =
     bindE (parse decode_replica_fetch_request payload) (\<lambda>req.
       let key = (rfreq_topic req, rfreq_partitionId req)
       in case not_leader b key of
            Some (err, host, port) \<Rightarrow> Inr (Answer (fetch_response_bytes err 0 [] host port), [], b)
          | None \<Rightarrow>
              bindE (get_or_create_partition b key) (\<lambda>(p, b).
                let records = read_up_to_leo p (sint (rfreq_fetchOffset req)) (rfreq_maxBytes req);
                    (out, b) = (case (bk_cluster b, bk_isrManager b) of
                        (Some _, Some m) \<Rightarrow>
                          isr_changed b key (on_replica_fetch m (bk_partitions b) key (rfreq_replicaId req) (rfreq_fetchOffset req) now)
                      | _ \<Rightarrow> ([], b));
                    p = (case map_of (bk_partitions b) key of None \<Rightarrow> p | Some p \<Rightarrow> p)
                in Inr (Answer (fetch_response_bytes NoError (word_of_int (high_watermark p)) records [] 0), out, b)))"

section \<open>Reconciling replication\<close>

text \<open>One assignment: the state, the keys still relevant, and the partitions now led.\<close>

definition reconcile_one :: "controller \<Rightarrow> topic_partition \<times> partition_assignment \<Rightarrow>
    broker \<times> topic_partition list \<times> topic_partition list \<Rightarrow>
    broker_error + (broker \<times> topic_partition list \<times> topic_partition list)" where
  "reconcile_one c e acc =
     (case e of (k, pa) \<Rightarrow> case acc of (b, relevant, leading) \<Rightarrow>
        if pa_leaderId pa = bk_id b then
          bindE (get_or_create_partition (b\<lparr>bk_followers := omap_erase k (bk_followers b)\<rparr>) k) (\<lambda>(p, b).
            let p = (if k \<in> set (bk_leadingPartitions b) then p else set_high_watermark p (log_end_offset p));
                b = b\<lparr>bk_partitions := omap_put k p (bk_partitions b),
                      bk_isrManager := map_option (\<lambda>m. set_leading m k k (pa_replicas pa)) (bk_isrManager b)\<rparr>
            in Inr (b, k # relevant, k # leading))
        else if bk_id b \<in> set (pa_replicas pa) then
          (let b = b\<lparr>bk_isrManager := map_option (\<lambda>m. stop_leading m k) (bk_isrManager b)\<rparr>
           in case address_of (cc_membership c) (pa_leaderId pa) of
                None \<Rightarrow> Inr (b, k # relevant, leading)
              | Some addr \<Rightarrow>
                  (let needsRecreate = (case map_of (bk_followers b) k of
                         None \<Rightarrow> True
                       | Some ff \<Rightarrow> ff_leaderHost ff \<noteq> addr_host addr \<or> ff_leaderPort ff \<noteq> addr_port addr)
                   in if needsRecreate
                      then bindE (get_or_create_partition b k) (\<lambda>(p, b).
                             Inr (b\<lparr>bk_followers := omap_put k
                                      (new_follower (fst k) (snd k) (bk_id b) (addr_host addr) (addr_port addr)) (bk_followers b)\<rparr>,
                                  k # relevant, leading))
                      else Inr (b, k # relevant, leading)))
        else Inr (b, relevant, leading))"

fun reconcile_all :: "controller \<Rightarrow> (topic_partition \<times> partition_assignment) list \<Rightarrow>
    broker \<times> topic_partition list \<times> topic_partition list \<Rightarrow>
    broker_error + (broker \<times> topic_partition list \<times> topic_partition list)" where
  "reconcile_all c [] acc = Inr acc"
| "reconcile_all c (e # es) acc = bindE (reconcile_one c e acc) (reconcile_all c es)"

definition reconcile_replication :: "broker \<Rightarrow> broker_error + broker" where
  "reconcile_replication b =
     (case (bk_cluster b, bk_isrManager b) of
        (Some c, Some _) \<Rightarrow>
          bindE (reconcile_all c (all_assignments c) (b, [], [])) (\<lambda>(b, relevant, leading).
            Inr (b\<lparr>bk_followers := filter (\<lambda>e. fst e \<in> set relevant) (bk_followers b), bk_leadingPartitions := leading\<rparr>))
      | _ \<Rightarrow> Inr b)"

end
