(* ===== verification/Dispatch.thy ===== *)
theory Dispatch
  imports Broker
begin

text \<open>
  The remaining handlers of \<open>src/broker/broker.cpp\<close> (metadata and topics, groups, elections, assignments) and
  \<open>Broker::handle\<close>, which sends every request type to its handler.
\<close>

unbundle bit_operations_syntax

section \<open>Metadata and topics\<close>

definition handle_metadata :: "broker \<Rightarrow> bytes \<Rightarrow> handled" where
  "handle_metadata b payload =
     bindE (parse decode_metadata_request payload) (\<lambda>req.
       case bk_cluster b of
         Some c \<Rightarrow>
           (let assignments = assignments_for_topic c (mreq_topic req);
                resp = (if assignments = [] then \<lparr>mresp_errorCode = UnknownTopic, mresp_partitions = []\<rparr>
                        else \<lparr>mresp_errorCode = NoError,
                              mresp_partitions = map (\<lambda>(p, pa). let (host, port) = address_fields c (pa_leaderId pa)
                                 in \<lparr>pmeta_partitionId = p, pmeta_leaderId = pa_leaderId pa, pmeta_leaderHost = host,
                                     pmeta_leaderPort = port\<rparr>) assignments\<rparr>)
            in Inr (Answer (encode_metadata_response [] resp), [], b))
       | None \<Rightarrow>
           (let (partitionCount, b) = partition_count_for b (mreq_topic req);
                resp = \<lparr>mresp_errorCode = NoError,
                        mresp_partitions = map (\<lambda>p. \<lparr>pmeta_partitionId = of_nat p, pmeta_leaderId = bk_id b,
                           pmeta_leaderHost = bk_host b, pmeta_leaderPort = ucast (bk_port b)\<rparr>) [0..<unat partitionCount]\<rparr>
            in Inr (Answer (encode_metadata_response [] resp), [], b)))"

definition create_topic_bytes :: "error_code \<Rightarrow> u32 \<Rightarrow> string \<Rightarrow> u32 \<Rightarrow> bytes" where
  "create_topic_bytes err controllerId host port =
     encode_create_topic_response [] \<lparr>ctresp_errorCode = err, ctresp_controllerId = controllerId,
       ctresp_controllerHost = host, ctresp_controllerPort = port\<rparr>"

definition handle_create_topic :: "broker \<Rightarrow> bytes \<Rightarrow> u64 \<Rightarrow> handled" where
  "handle_create_topic b payload now =
     bindE (parse decode_create_topic_request payload) (\<lambda>req.
       case bk_cluster b of
         Some c \<Rightarrow>
           (case create_topic c (ctreq_topic req) (ctreq_numPartitions req) (ctreq_replicationFactor req) now of
              ((None, _), c) \<Rightarrow>
                (let (controllerId, host, port) =
                       (if 0 \<le> cc_leaderId c
                        then (word_of_int (cc_leaderId c), address_fields c (word_of_int (cc_leaderId c)))
                        else (0, [], 0))
                 in Inr (Answer (create_topic_bytes NotLeaderForPartition controllerId host port), [], b\<lparr>bk_cluster := Some c\<rparr>))
            | ((Some _, entries), c) \<Rightarrow>
                bindE (reconcile_replication (b\<lparr>bk_cluster := Some c\<rparr>)) (\<lambda>b.
                  Inr (Answer (create_topic_bytes NoError 0 [] 0), [BroadcastAssignments entries], b)))
       | None \<Rightarrow>
           (let b = (if map_of (bk_topicFiles b) (ctreq_topic req) = None
                     then b\<lparr>bk_topicFiles := omap_put (ctreq_topic req) (to_string_u32 (ctreq_numPartitions req)) (bk_topicFiles b),
                            bk_topics := omap_put (ctreq_topic req) (ctreq_numPartitions req) (bk_topics b)\<rparr>
                     else b)
            in Inr (Answer (create_topic_bytes NoError 0 [] 0), [], b)))"

section \<open>Groups\<close>

definition handle_find_coordinator :: "broker \<Rightarrow> bytes \<Rightarrow> handled" where
  "handle_find_coordinator b payload =
     bindE (parse decode_find_coordinator_request payload) (\<lambda>req.
       case bk_cluster b of
         Some c \<Rightarrow>
           (let ids = all_ids (cc_membership c);
                h = word_of_int (murmur2 (string_bytes (fcreq_groupId req)) AND 0x7fffffff) :: u32;
                coordId = ids ! (unat h mod length ids);
                (host, port) = address_fields c coordId
            in Inr (Answer (encode_find_coordinator_response [] \<lparr>fcresp_errorCode = NoError, fcresp_coordinatorId = coordId,
                      fcresp_host = host, fcresp_port = port\<rparr>), [], b))
       | None \<Rightarrow>
           Inr (Answer (encode_find_coordinator_response [] (find_coordinator (bk_groupCoordinator b) req)), [], b))"

definition handle_join_group :: "broker \<Rightarrow> bytes \<Rightarrow> u64 \<Rightarrow> handled" where
  "handle_join_group b payload now =
     bindE (parse decode_join_group_request payload) (\<lambda>req.
       let ((memberId, deadline), g) = join_enter (bk_groupCoordinator b) req now now
       in Inr (WaitJoin (jgreq_groupId req) memberId deadline, [], b\<lparr>bk_groupCoordinator := g\<rparr>))"

definition join_after_wait :: "broker \<Rightarrow> string \<Rightarrow> string \<Rightarrow> bytes \<times> broker" where
  "join_after_wait b groupId memberId =
     (let (resp, g) = join_leave (bk_groupCoordinator b) groupId memberId
      in (encode_join_group_response [] resp, b\<lparr>bk_groupCoordinator := g\<rparr>))"

definition handle_sync_group :: "broker \<Rightarrow> bytes \<Rightarrow> handled" where
  "handle_sync_group b payload =
     bindE (parse decode_sync_group_request payload) (\<lambda>req.
       let (result, g) = sync_enter (bk_groupCoordinator b) req
       in Inr (case result of
                 Inl resp \<Rightarrow> Answer (encode_sync_group_response [] resp)
               | Inr generation \<Rightarrow> WaitSync (sgreq_groupId req) (sgreq_memberId req) generation, [], b\<lparr>bk_groupCoordinator := g\<rparr>))"

definition sync_after_wait :: "broker \<Rightarrow> string \<Rightarrow> string \<Rightarrow> u32 \<Rightarrow> bytes" where
  "sync_after_wait b groupId memberId generation =
     encode_sync_group_response [] (sync_leave (bk_groupCoordinator b) groupId memberId generation)"

text \<open>The handlers that decode, ask the coordinator, and encode.\<close>

definition group_handler :: "'q get \<Rightarrow> (coordinator \<Rightarrow> 'q \<Rightarrow> 'r \<times> coordinator) \<Rightarrow> (bytes \<Rightarrow> 'r \<Rightarrow> bytes) \<Rightarrow> broker \<Rightarrow> bytes \<Rightarrow> handled" where
  "group_handler decode_req operation encode_resp b payload =
     bindE (parse decode_req payload) (\<lambda>req.
       let (resp, g) = operation (bk_groupCoordinator b) req
       in Inr (Answer (encode_resp [] resp), [], b\<lparr>bk_groupCoordinator := g\<rparr>))"

definition handle_heartbeat :: "broker \<Rightarrow> bytes \<Rightarrow> u64 \<Rightarrow> handled" where
  "handle_heartbeat b payload now =
     group_handler decode_heartbeat_request (\<lambda>g req. heartbeat g req now now) encode_heartbeat_response b payload"

definition handle_leave_group :: "broker \<Rightarrow> bytes \<Rightarrow> handled" where
  "handle_leave_group b payload = group_handler decode_leave_group_request leave_group encode_leave_group_response b payload"

definition handle_commit_offset :: "broker \<Rightarrow> bytes \<Rightarrow> handled" where
  "handle_commit_offset b payload = group_handler decode_commit_offset_request commit_offset encode_commit_offset_response b payload"

definition handle_fetch_offset :: "broker \<Rightarrow> bytes \<Rightarrow> handled" where
  "handle_fetch_offset b payload = group_handler decode_fetch_offset_request fetch_offset encode_fetch_offset_response b payload"

section \<open>Elections and assignments\<close>

definition broker_handle_request_vote :: "broker \<Rightarrow> bytes \<Rightarrow> u64 \<Rightarrow> u32 \<Rightarrow> handled" where
  "broker_handle_request_vote b payload now timeout =
     bindE (parse decode_request_vote_request payload) (\<lambda>req.
       let (resp, b) = (case bk_cluster b of
              Some c \<Rightarrow> (let (resp, c) = handle_request_vote c req now timeout in (resp, b\<lparr>bk_cluster := Some c\<rparr>))
            | None \<Rightarrow> (\<lparr>rvresp_term = rvreq_term req, rvresp_voteGranted = False\<rparr>, b))
       in Inr (Answer (encode_request_vote_response [] resp), [], b))"

definition broker_handle_controller_heartbeat :: "broker \<Rightarrow> bytes \<Rightarrow> u64 \<Rightarrow> u32 \<Rightarrow> handled" where
  "broker_handle_controller_heartbeat b payload now timeout =
     bindE (parse decode_controller_heartbeat_request payload) (\<lambda>req.
       let (resp, b) = (case bk_cluster b of
              Some c \<Rightarrow> (let (resp, c) = handle_controller_heartbeat c req now timeout in (resp, b\<lparr>bk_cluster := Some c\<rparr>))
            | None \<Rightarrow> (\<lparr>chresp_term = chreq_term req, chresp_success = False\<rparr>, b))
       in Inr (Answer (encode_controller_heartbeat_response [] resp), [], b))"

definition broker_handle_broker_heartbeat :: "broker \<Rightarrow> bytes \<Rightarrow> handled" where
  "broker_handle_broker_heartbeat b payload =
     bindE (parse decode_broker_heartbeat_request payload) (\<lambda>req.
       let resp = (case bk_cluster b of Some c \<Rightarrow> handle_broker_heartbeat c | None \<Rightarrow> \<lparr>bhresp_alive = False\<rparr>)
       in Inr (Answer (encode_broker_heartbeat_response [] resp), [], b))"

definition handle_leader_and_isr :: "broker \<Rightarrow> bytes \<Rightarrow> handled" where
  "handle_leader_and_isr b payload =
     bindE (parse decode_leader_and_isr_request payload) (\<lambda>req.
       case bk_cluster b of
         Some c \<Rightarrow>
           bindE (reconcile_replication (b\<lparr>bk_cluster := Some (apply_leader_and_isr c (lireq_assignments req))\<rparr>)) (\<lambda>b.
             Inr (Answer (encode_leader_and_isr_response [] \<lparr>liresp_errorCode = NoError\<rparr>), [], b))
       | None \<Rightarrow> Inr (Answer (encode_leader_and_isr_response [] \<lparr>liresp_errorCode = UnknownRequestType\<rparr>), [], b))"

definition handle_isr_update :: "broker \<Rightarrow> bytes \<Rightarrow> handled" where
  "handle_isr_update b payload =
     bindE (parse decode_isr_update_request payload) (\<lambda>req.
       case bk_cluster b of
         Some c \<Rightarrow>
           (let (entries, c) = update_isr c (iureq_topic req) (iureq_partitionId req) (iureq_isr req)
            in Inr (Answer (encode_isr_update_response [] \<lparr>iuresp_errorCode = NoError\<rparr>),
                    if entries = [] then [] else [BroadcastAssignments entries], b\<lparr>bk_cluster := Some c\<rparr>))
       | None \<Rightarrow> Inr (Answer (encode_isr_update_response [] \<lparr>iuresp_errorCode = UnknownRequestType\<rparr>), [], b))"

section \<open>Dispatch\<close>

definition dispatch :: "broker \<Rightarrow> request_frame \<Rightarrow> u64 \<Rightarrow> u32 \<Rightarrow> handled" where
  "dispatch b req now timeout =
     (let payload = rf_payload req
      in case request_type_of (rf_requestType req) of
           Produce \<Rightarrow> handle_produce b payload now
         | Fetch \<Rightarrow> handle_fetch b payload
         | Metadata \<Rightarrow> handle_metadata b payload
         | CreateTopic \<Rightarrow> handle_create_topic b payload now
         | FindCoordinator \<Rightarrow> handle_find_coordinator b payload
         | JoinGroup \<Rightarrow> handle_join_group b payload now
         | SyncGroup \<Rightarrow> handle_sync_group b payload
         | Heartbeat \<Rightarrow> handle_heartbeat b payload now
         | LeaveGroup \<Rightarrow> handle_leave_group b payload
         | CommitOffset \<Rightarrow> handle_commit_offset b payload
         | FetchOffset \<Rightarrow> handle_fetch_offset b payload
         | RequestVote \<Rightarrow> broker_handle_request_vote b payload now timeout
         | ControllerHeartbeat \<Rightarrow> broker_handle_controller_heartbeat b payload now timeout
         | BrokerHeartbeat \<Rightarrow> broker_handle_broker_heartbeat b payload
         | LeaderAndISR \<Rightarrow> handle_leader_and_isr b payload
         | Replicate \<Rightarrow> handle_replicate b payload now
         | IsrUpdate \<Rightarrow> handle_isr_update b payload
         | UnnamedType _ \<Rightarrow> Inr (Answer (put_error [] UnknownRequestType), [], b))"

text \<open>
  \<open>handle\<close> puts the request's correlation id on the answer; a request that waits is answered through
  \<open>after_wait\<close> by the section after its wait.
\<close>

definition after_wait :: "broker \<Rightarrow> answer \<Rightarrow> bytes \<times> broker" where
  "after_wait b w = (case w of
     Answer payload \<Rightarrow> (payload, b)
   | WaitHwm key requiredOffset base \<Rightarrow> (produce_after_wait b key requiredOffset base, b)
   | WaitJoin groupId memberId _ \<Rightarrow> join_after_wait b groupId memberId
   | WaitSync groupId memberId generation \<Rightarrow> (sync_after_wait b groupId memberId generation, b))"

definition handle :: "broker \<Rightarrow> request_frame \<Rightarrow> u64 \<Rightarrow> u32 \<Rightarrow> broker_error + ((response_frame + u32 \<times> answer) \<times> outgoing list \<times> broker)" where
  "handle b req now timeout =
     bindE (dispatch b req now timeout) (\<lambda>(a, out, b).
       Inr (case a of
              Answer payload \<Rightarrow> Inl \<lparr>sf_correlationId = rf_correlationId req, sf_payload = payload\<rparr>
            | _ \<Rightarrow> Inr (rf_correlationId req, a), out, b))"

definition handle_after_wait :: "broker \<Rightarrow> u32 \<Rightarrow> answer \<Rightarrow> response_frame \<times> broker" where
  "handle_after_wait b correlationId w =
     (let (payload, b) = after_wait b w in (\<lparr>sf_correlationId = correlationId, sf_payload = payload\<rparr>, b))"

end
