(* ===== verification/BrokerLemmas.thy ===== *)
theory BrokerLemmas
  imports Dispatch SamplePartition
begin

text \<open>
  What the broker's handlers do to its partitions: the log behind every key, the handlers that leave the logs alone,
  and the reconciliation of replication.
\<close>

unbundle bit_operations_syntax

section \<open>Payloads and stamped batches\<close>

lemma parse_put:
  assumes "faithful put get ok" "ok v"
  shows "parse get (put [] v) = Inr v"
proof -
  have "get (mk_reader (put [] v)) = Inr (v, advance (mk_reader (put [] v)) (length (put [] v)))"
    using assms unfolding faithful_def by (metis append_Nil2 unread_mk_reader)
  then show ?thesis by (simp add: parse_def)
qed

lemma stamped_facts:
  assumes "stamp_records n ts rs = (st, n')"
  shows "map (\<lambda>r. (rec_key r, rec_value r, rec_timestamp r)) st = map (\<lambda>r. (rec_key r, rec_value r, ts)) rs"
proof (rule nth_equalityI)
  note st = stamp_records [OF assms]
  then show "length (map (\<lambda>r. (rec_key r, rec_value r, rec_timestamp r)) st) = length (map (\<lambda>r. (rec_key r, rec_value r, ts)) rs)"
    by simp
  fix i assume "i < length (map (\<lambda>r. (rec_key r, rec_value r, rec_timestamp r)) st)"
  then have i: "i < length st" "i < length rs" using st by simp_all
  have "rec_key (st ! i) = rec_key (rs ! i)" "rec_value (st ! i) = rec_value (rs ! i)"
    using i st by (metis nth_map)+
  moreover have "rec_timestamp (st ! i) = ts" using i st nth_mem by blast
  ultimately show "map (\<lambda>r. (rec_key r, rec_value r, rec_timestamp r)) st ! i = map (\<lambda>r. (rec_key r, rec_value r, ts)) rs ! i"
    using i by simp
qed

lemma stamped_no_wrap:
  assumes "map (\<lambda>r. (rec_key r, rec_value r, rec_timestamp r)) st = map (\<lambda>r. (rec_key r, rec_value r, ts)) rs"
    and "no_wrap maxBytes (log @ rs)"
  shows "no_wrap maxBytes (log @ st)"
proof -
  have "map frame_size st = map frame_size rs"
  proof -
    let ?f = "\<lambda>(k, v, t :: u64). frame_size \<lparr>rec_offset = 0, rec_timestamp = t, rec_key = k, rec_value = v\<rparr>"
    have "map frame_size xs = map ?f (map (\<lambda>r. (rec_key r, rec_value r, g r)) xs)" for xs and g :: "log_record \<Rightarrow> u64"
      by (simp add: frame_size_def)
    from this [of st rec_timestamp] this [of rs "\<lambda>_. ts"] assms(1) show ?thesis by metis
  qed
  then have "frame_size ` set st = frame_size ` set rs" by (metis list.set_map)
  then show ?thesis using assms(2) unfolding no_wrap_def set_append ball_Un by (metis imageE imageI)
qed

section \<open>What a decoded batch can hold\<close>

text \<open>\<open>takes g sz\<close>: a successful \<open>g\<close> stays inside its buffer and consumes at least the size of its value.\<close>

definition takes :: "'a get \<Rightarrow> ('a \<Rightarrow> nat) \<Rightarrow> bool" where
  "takes g sz \<longleftrightarrow> (\<forall>r v r'. reader_ok r \<longrightarrow> g r = Inr (v, r') \<longrightarrow> rdata r' = rdata r \<and> reader_ok r' \<and> rpos r + sz v \<le> rpos r')"

lemma takesD:
  assumes "takes g sz" "g r = Inr (v, r')" "reader_ok r"
  shows "rdata r' = rdata r" "reader_ok r'" "rpos r + sz v \<le> rpos r'"
  using assms unfolding takes_def by blast+

lemma takes_within: "within g \<Longrightarrow> takes g (\<lambda>_. 0)"
  unfolding takes_def within_def add_0_right by blast

lemma takes_bindG:
  assumes "takes g f" "\<And>x. takes (h x) (\<lambda>y. k y - f x)"
  shows "takes (bindG g h) k"
  unfolding takes_def
proof (intro allI impI)
  fix r v r' assume r: "reader_ok r" "bindG g h r = Inr (v, r')"
  then obtain x s where s: "g r = Inr (x, s)" "h x s = Inr (v, r')" by (auto simp: bindG_def bindE_eq_Inr)
  from takesD [OF assms(1) s(1) r(1)] takesD [OF assms(2) s(2)]
  show "rdata r' = rdata r \<and> reader_ok r' \<and> rpos r + k v \<le> rpos r'" by auto
qed

lemma takes_retG: "k v = 0 \<Longrightarrow> takes (retG v) k"
  by (simp add: takes_def retG_def)

lemma reader_ok_advance: "n \<le> length (unread r) \<Longrightarrow> reader_ok r \<Longrightarrow> reader_ok (advance r n)"
  by (simp add: reader_ok_def unread_def)

lemma need_Inr: "need n r = Inr u \<Longrightarrow> n \<le> length (unread r)"
  by (simp add: need_def remaining_unread split: if_splits)

lemma takes_fixed: "takes get_u8 (\<lambda>_. 1)" "takes get_u32 (\<lambda>_. 4)" "takes get_u64 (\<lambda>_. 8)"
  by (auto simp: takes_def get_u8_def get_u32_def get_u64_def bindE_eq_Inr dest!: need_Inr intro: reader_ok_advance)

lemma takes_raw: "takes (get_raw n) (\<lambda>b. n)" "get_raw n r = Inr (b, r') \<Longrightarrow> length b = n"
  by (auto simp: takes_def get_raw_def bindE_eq_Inr unread_def dest!: need_Inr intro: reader_ok_advance [unfolded unread_def])

lemma takes_record: "takes decode_record frame_size"
  unfolding takes_def
proof (intro allI impI)
  fix r rec r' assume r: "reader_ok r" "decode_record r = Inr (rec, r')"
  then obtain n s frame where u: "get_u32 r = Inr (n, s)" and f: "get_raw (unat n) s = Inr (frame, r')" and d: "decode_frame frame = Inr rec"
    by (auto simp: decode_record_def bindE_eq_Inr)
  note U = takesD [OF takes_fixed(2) u r(1)]
  note F = takesD [OF takes_raw(1) f U(2)]
  show "rdata r' = rdata r \<and> reader_ok r' \<and> rpos r + frame_size rec \<le> rpos r'"
    using U F decode_frame_size [OF d] takes_raw(2) [OF f] by simp
qed

lemma takes_times: "takes g sz \<Longrightarrow> takes (get_times n g) (\<lambda>xs. sum_list (map sz xs))"
  by (induction n) (auto intro!: takes_bindG takes_retG)

lemma length_frames_sum: "length (frames recs) = sum_list (map frame_size recs)"
  by (induction recs) simp_all

text \<open>A batch that was decoded from a payload is not longer than the payload.\<close>

lemma decoded_batch_ok:
  assumes "parse decode_produce_request payload = Inr req" "length payload < 2 ^ 32"
  shows "batch_ok (preq_records req)" "length (preq_records req) < 2 ^ 27"
proof -
  let ?size = "\<lambda>req. length (frames (preq_records req))"
  have "takes (get_list decode_record) (\<lambda>xs. length (frames xs))"
    unfolding get_list_def length_frames_sum
    by (intro takes_bindG [OF takes_within [OF u32.get_within]]) (simp add: takes_times takes_record)
  then have "takes decode_produce_request ?size"
    unfolding decode_produce_request_def
    by (intro takes_bindG [OF takes_within [OF str.get_within]] takes_bindG [OF takes_within [OF u32.get_within]]
      takes_bindG [OF takes_within [OF u8.get_within]]) (auto intro!: takes_bindG takes_retG)
  moreover obtain r where "decode_produce_request (mk_reader payload) = Inr (req, r)"
    using assms(1) by (auto simp: parse_def split: sum.splits)
  ultimately have "?size req \<le> rpos r" "reader_ok r" "rdata r = payload" using takesD by fastforce+
  then have len: "length (frames (preq_records req)) \<le> length payload" by (simp add: reader_ok_def)
  have "frame_size rec \<le> length (frames (preq_records req))" if "rec \<in> set (preq_records req)" for rec
    unfolding length_frames_sum using that by (intro member_le_sum_list) simp_all
  then have "list_all record_ok (preq_records req)"
    using len assms(2) unfolding list_all_iff record_ok_def by fastforce
  moreover show few: "length (preq_records req) < 2 ^ 27" using length_frames [of "preq_records req"] len assms(2) by simp
  ultimately show "batch_ok (preq_records req)" using len assms(2) by (simp add: batch_ok_def)
qed

section \<open>The partition behind a key\<close>

text \<open>The partition a handler gets for a key: the open one, or what recovery makes of the directory.\<close>

definition part_at :: "broker \<Rightarrow> topic_partition \<Rightarrow> broker_error + partition" where
  "part_at b key =
     (case map_of (bk_partitions b) key of
        Some p \<Rightarrow> Inr p
      | None \<Rightarrow> (case recover (new_partition (case map_of (bk_dirs b) key of None \<Rightarrow> [] | Some fs \<Rightarrow> fs) kDefaultMaxSegBytes) of
            Inl e \<Rightarrow> Inl (PartitionFailed e) | Inr p \<Rightarrow> Inr p))"

lemma part_at_cong: "bk_partitions b = bk_partitions b' \<Longrightarrow> bk_dirs b = bk_dirs b' \<Longrightarrow> part_at b = part_at b'"
  by (rule ext) (simp add: part_at_def cong: option.case_cong)

lemma part_at_put: "part_at (b\<lparr>bk_partitions := omap_put k p (bk_partitions b)\<rparr>) = (part_at b)(k := Inr p)"
  by (rule ext) (simp add: part_at_def cong: option.case_cong)

lemma get_or_create_part_at:
  "get_or_create_partition b key = (case part_at b key of Inl e \<Rightarrow> Inl e
     | Inr p \<Rightarrow> Inr (p, if map_of (bk_partitions b) key = None then b\<lparr>bk_partitions := omap_put key p (bk_partitions b)\<rparr> else b))"
  by (simp add: get_or_create_partition_def part_at_def split: option.split sum.split)

lemma get_or_create_Inr:
  assumes "get_or_create_partition b key = Inr (p, b')"
  shows "part_at b key = Inr p" "part_at b' = part_at b" "map_of (bk_partitions b') key = Some p"
    "b' = b\<lparr>bk_partitions := bk_partitions b'\<rparr>"
proof -
  show at: "part_at b key = Inr p" using assms by (simp add: get_or_create_part_at split: sum.splits)
  have b': "b' = (if map_of (bk_partitions b) key = None then b\<lparr>bk_partitions := omap_put key p (bk_partitions b)\<rparr> else b)"
    using assms at by (simp add: get_or_create_part_at)
  have "(part_at b)(key := Inr p) = part_at b" using at by (simp add: fun_eq_iff)
  then show "part_at b' = part_at b" unfolding b' by (simp add: part_at_put)
  show "map_of (bk_partitions b') key = Some p" using at by (auto simp: b' part_at_def split: option.splits)
  show "b' = b\<lparr>bk_partitions := bk_partitions b'\<rparr>" by (simp add: b')
qed

section \<open>The logs of a broker\<close>

definition logs_ok :: "broker \<Rightarrow> (topic_partition \<Rightarrow> log_record list) \<Rightarrow> bool" where
  "logs_ok b logs \<longleftrightarrow> (\<forall>key. \<exists>p. part_at b key = Inr p \<and> part_inv p (logs key) \<and> high_watermark p \<le> log_end_offset p)"

lemma logs_okD: "logs_ok b logs \<Longrightarrow> part_at b key = Inr p \<Longrightarrow> part_inv p (logs key) \<and> high_watermark p \<le> log_end_offset p"
  unfolding logs_ok_def by (metis sum.inject(2))

lemma logs_ok_cong: "part_at b' = part_at b \<Longrightarrow> logs_ok b' logs = logs_ok b logs"
  by (simp add: logs_ok_def)

lemma logs_ok_get:
  assumes "logs_ok b logs"
  obtains p b' where "get_or_create_partition b key = Inr (p, b')" "part_at b' = part_at b" "part_inv p (logs key)"
    "high_watermark p \<le> log_end_offset p" "map_of (bk_partitions b') key = Some p" "b' = b\<lparr>bk_partitions := bk_partitions b'\<rparr>"
proof -
  obtain p where p: "part_at b key = Inr p" "part_inv p (logs key)" "high_watermark p \<le> log_end_offset p"
    using assms unfolding logs_ok_def by blast
  then obtain b' where g: "get_or_create_partition b key = Inr (p, b')" by (simp add: get_or_create_part_at)
  from that [OF g get_or_create_Inr(2) [OF g] p(2,3) get_or_create_Inr(3,4) [OF g]] show thesis .
qed

lemma logs_ok_put:
  assumes "logs_ok b logs" "part_inv p log" "high_watermark p \<le> log_end_offset p"
  shows "logs_ok (b\<lparr>bk_partitions := omap_put k p (bk_partitions b)\<rparr>) (logs(k := log))"
  using assms by (simp add: logs_ok_def part_at_put)

lemma logs_ok_same:
  "logs_ok b logs \<Longrightarrow> bk_partitions b' = bk_partitions b \<Longrightarrow> bk_dirs b' = bk_dirs b \<Longrightarrow> logs_ok b' logs"
  using part_at_cong [of b' b] logs_ok_cong by blast

text \<open>A new broker on an empty data directory.\<close>

lemma new_broker_logs: "logs_ok (new_broker i host port peers unclean [] tf offs raft asg now timeout) (\<lambda>_. [])"
proof -
  have "0 < kDefaultMaxSegBytes" by (simp add: kDefaultMaxSegBytes_def)
  from recover_fresh [OF this] obtain p where p: "recover (new_partition [] kDefaultMaxSegBytes) = Inr p" "part_inv p []" "pt_hwm p = 0"
    by blast
  then show ?thesis using part_inv_leo [OF p(2)] by (simp add: logs_ok_def part_at_def new_broker_def high_watermark_def)
qed

section \<open>The ISR manager and the logs\<close>

text \<open>A recompute touches high watermarks only, and never raises one above the log end.\<close>

definition hwm_only :: "partitions \<Rightarrow> partitions \<Rightarrow> bool" where
  "hwm_only parts parts' \<longleftrightarrow> (\<forall>k. map_of parts' k = map_of parts k \<or>
     (\<exists>p h. map_of parts k = Some p \<and> map_of parts' k = Some (set_high_watermark p h) \<and> (0 \<le> log_end_offset p \<longrightarrow> h \<le> log_end_offset p)))"

lemma hwm_only_refl [simp]: "hwm_only parts parts"
  by (simp add: hwm_only_def)

lemma isr_hwm_le:
  assumes "0 \<le> log_end_offset p"
  shows "sint (isr_hwm self (word_of_int (log_end_offset p)) st isr) \<le> log_end_offset p"
proof -
  have w: "word_of_int (log_end_offset p) = pt_next p" by (simp add: log_end_offset_def)
  have "int (unat (pt_next p)) = sint (pt_next p)"
    using assms sint_lt [of "pt_next p"] by (simp add: log_end_offset_def uint_sint take_bit_int_eq_self)
  then have "int (unat (pt_next p)) < int (2 ^ 63)" using sint_lt [of "pt_next p"] by simp
  then have "unat (pt_next p) < 2 ^ 63" unfolding of_nat_less_iff .
  from isr_hwm_int [OF this, of self st isr] show ?thesis
    using \<open>int (unat (pt_next p)) = sint (pt_next p)\<close> unfolding w
    by (simp only: log_end_offset_def) (rule Min_le, simp_all)
qed

lemma recompute_hwm_only:
  assumes "recompute self st parts now = (changed, st', parts')"
  shows "hwm_only parts parts'"
proof (cases "\<exists>ref p. ps_partition st = Some ref \<and> map_of parts ref = Some p")
  case True
  then obtain ref p where "ps_partition st = Some ref" "map_of parts ref = Some p" by blast
  from recompute_cases(2) [OF assms this] this isr_hwm_le show ?thesis by (auto simp: hwm_only_def)
next
  case False
  then show ?thesis using assms by (auto simp: recompute_def hwm_only_def split: option.splits)
qed

lemma on_leader_append_hwm_only: "on_leader_append m parts key now = (changed, m', parts') \<Longrightarrow> hwm_only parts parts'"
  by (auto simp: on_leader_append_def Let_def intro: recompute_hwm_only split: option.splits prod.splits)

lemma on_replica_fetch_hwm_only: "on_replica_fetch m parts key i off now = (changed, m', parts') \<Longrightarrow> hwm_only parts parts'"
  by (auto simp: on_replica_fetch_def Let_def intro: recompute_hwm_only split: option.splits prod.splits)

lemma report_isr_same: "bk_partitions (snd (report_isr b key isr)) = bk_partitions b" "bk_dirs (snd (report_isr b key isr)) = bk_dirs b"
  by (simp_all add: report_isr_def Let_def split: option.split prod.split)

lemma isr_changed_logs:
  assumes "logs_ok b logs" "hwm_only (bk_partitions b) parts'" "isr_changed b key (changed, m, parts') = (out, b')"
  shows "logs_ok b' logs"
proof -
  let ?b = "b\<lparr>bk_isrManager := Some m, bk_partitions := parts'\<rparr>"
  have "logs_ok ?b logs"
    unfolding logs_ok_def
  proof
    fix k
    obtain p where p: "part_at b k = Inr p" "part_inv p (logs k)" "high_watermark p \<le> log_end_offset p"
      using assms(1) unfolding logs_ok_def by blast
    have pos: "0 \<le> log_end_offset p" using part_inv_leo [OF p(2)] by simp
    consider "map_of parts' k = map_of (bk_partitions b) k"
      | q h where "map_of (bk_partitions b) k = Some q" "map_of parts' k = Some (set_high_watermark q h)"
          "0 \<le> log_end_offset q \<longrightarrow> h \<le> log_end_offset q"
      using assms(2) unfolding hwm_only_def by blast
    then show "\<exists>p. part_at ?b k = Inr p \<and> part_inv p (logs k) \<and> high_watermark p \<le> log_end_offset p"
    proof cases
      case 1
      then have "part_at ?b k = part_at b k" by (simp add: part_at_def cong: option.case_cong)
      then show ?thesis using p by simp
    next
      case 2
      then have "q = p" using p(1) by (simp add: part_at_def)
      with 2 p pos show ?thesis
        by (intro exI [of _ "set_high_watermark p h"])
          (simp add: part_at_def set_high_watermark_def high_watermark_def log_end_offset_def)
    qed
  qed
  moreover have "bk_partitions b' = bk_partitions ?b" "bk_dirs b' = bk_dirs ?b"
    using assms(3) report_isr_same [of ?b key] by (auto simp: isr_changed_def Let_def split: option.splits) (metis snd_conv)+
  ultimately show ?thesis by (rule logs_ok_same)
qed

section \<open>The handlers and the logs\<close>

text \<open>What an operation must do to the logs: keep what is there, and add only where \<open>grows\<close> allows it.\<close>

definition keeps_logs :: "(topic_partition \<Rightarrow> bool) \<Rightarrow> (topic_partition \<Rightarrow> log_record list) \<Rightarrow> broker \<Rightarrow> bool" where
  "keeps_logs grows logs b' \<longleftrightarrow>
     (\<exists>logs'. logs_ok b' logs' \<and> (\<forall>key. prefix (logs key) (logs' key) \<and> (logs' key \<noteq> logs key \<longrightarrow> grows key)))"

lemma keeps_logs_refl: "logs_ok b' logs \<Longrightarrow> keeps_logs grows logs b'"
  unfolding keeps_logs_def by (intro exI [of _ logs]) simp

lemma keeps_logs_same: "logs_ok b logs \<Longrightarrow> bk_partitions b' = bk_partitions b \<Longrightarrow> bk_dirs b' = bk_dirs b \<Longrightarrow> keeps_logs grows logs b'"
  by (intro keeps_logs_refl) (rule logs_ok_same)

lemma partition_count_for_same:
  "bk_partitions (snd (partition_count_for b topic)) = bk_partitions b" "bk_dirs (snd (partition_count_for b topic)) = bk_dirs b"
  by (simp_all add: partition_count_for_def Let_def split: option.split)

text \<open>A produce request on the leader always succeeds and appends the stamped batch.\<close>

lemma handle_produce_leads:
  fixes now :: u64
  assumes "logs_ok b logs" "parse decode_produce_request payload = Inr req" "not_leader b (preq_topic req, preq_partitionId req) = None"
    and "batch_ok (preq_records req)"
    and "length (logs (preq_topic req, preq_partitionId req)) + length (preq_records req) < 2 ^ 63"
  defines "key \<equiv> (preq_topic req, preq_partitionId req)"
  defines "new \<equiv> fst (stamp_records (of_nat (length (logs key))) now (preq_records req))"
  shows "\<exists>out b'. logs_ok b' (logs(key := logs key @ new)) \<and>
    handle_produce b payload now = Inr
      (if preq_acks req = 0xFF \<and> bk_cluster b' \<noteq> None \<and> bk_isrManager b' \<noteq> None \<and> 0 < length (preq_records req)
       then WaitHwm key (int (length (logs key)) + int (length (preq_records req)) - 1) (int (length (logs key)))
       else Answer (produce_response_bytes NoError (int (length (logs key))) [] 0), out, b')"
proof -
  obtain p b1 where g: "get_or_create_partition b key = Inr (p, b1)" "part_at b1 = part_at b" "part_inv p (logs key)"
    by (rule logs_ok_get [OF assms(1)])
  obtain p' where p': "pt_append p (preq_records req) now = (int (length (logs key)), p')" "part_inv p' (logs key @ new)"
    "preq_records req \<noteq> [] \<longrightarrow> pt_hwm p' = int (length (logs key @ new))"
    using pt_append_inv [OF g(3) assms(4), of now] assms(5) unfolding key_def new_def by blast
  have "high_watermark p' \<le> log_end_offset p'"
  proof (cases "preq_records req = []")
    case True
    then have "p' = p" using p'(1) by (simp add: pt_append_def)
    then show ?thesis using logs_okD [OF assms(1) get_or_create_Inr(1) [OF g(1)]] by simp
  next
    case False
    then show ?thesis using p'(3) part_inv_leo [OF p'(2)] by (simp add: high_watermark_def)
  qed
  let ?b2 = "b1\<lparr>bk_partitions := omap_put key p' (bk_partitions b1)\<rparr>"
  have ok: "logs_ok ?b2 (logs(key := logs key @ new))"
    using logs_ok_put [OF _ p'(2) \<open>high_watermark p' \<le> log_end_offset p'\<close>] assms(1) logs_ok_cong [OF g(2)] by blast
  show ?thesis
  proof (cases "\<exists>c m. bk_cluster ?b2 = Some c \<and> bk_isrManager ?b2 = Some m")
    case True
    then obtain c m where cm: "bk_cluster ?b2 = Some c" "bk_isrManager ?b2 = Some m" by blast
    obtain changed m' parts' where l: "on_leader_append m (bk_partitions ?b2) key now = (changed, m', parts')" by (metis prod_cases3)
    obtain out b3 where i: "isr_changed ?b2 key (changed, m', parts') = (out, b3)" by fastforce
    have "logs_ok b3 (logs(key := logs key @ new))" by (rule isr_changed_logs [OF ok on_leader_append_hwm_only [OF l] i])
    then show ?thesis
      using assms(2,3) g(1) p'(1) cm l i by (intro exI [of _ out] exI [of _ b3]) (simp add: handle_produce_def key_def Let_def)
  next
    case False
    then show ?thesis using assms(2,3) g(1) p'(1) ok
      by (intro exI [of _ "[]"] exI [of _ ?b2]) (cases "bk_cluster b1"; cases "bk_isrManager b1"; simp add: handle_produce_def key_def Let_def)
  qed
qed

lemma handle_produce_logs:
  assumes "handle_produce b payload now = Inr (a, out, b')" "logs_ok b logs" "parse decode_produce_request payload = Inr req"
    and "batch_ok (preq_records req)"
    and "length (logs (preq_topic req, preq_partitionId req)) + length (preq_records req) < 2 ^ 63"
  shows "keeps_logs (\<lambda>key. key = (preq_topic req, preq_partitionId req) \<and> not_leader b key = None) logs b'"
proof (cases "not_leader b (preq_topic req, preq_partitionId req)")
  case (Some x)
  then have "b' = b" using assms(1,3) by (cases x) (simp add: handle_produce_def)
  then show ?thesis using assms(2) by (simp add: keeps_logs_refl)
next
  case None
  from handle_produce_leads [OF assms(2,3) None assms(4,5), of now] assms(1) show ?thesis
    unfolding keeps_logs_def by (elim exE conjE) (rule exI, rule conjI, force, force simp: None split: if_splits)
qed

lemma handle_fetch_logs:
  assumes "handle_fetch b payload = Inr (a, out, b')" "logs_ok b logs"
  shows "keeps_logs grows logs b'"
proof -
  from assms(1) obtain req where req: "parse decode_fetch_request payload = Inr req" by (auto simp: handle_fetch_def bindE_eq_Inr)
  let ?key = "(freq_topic req, freq_partitionId req)"
  obtain p b1 where g: "get_or_create_partition b ?key = Inr (p, b1)" "part_at b1 = part_at b" by (rule logs_ok_get [OF assms(2)])
  have "b' = b \<or> b' = b1"
    using assms(1) req g(1) by (cases "not_leader b ?key") (auto simp: handle_fetch_def Let_def)
  then show ?thesis using assms(2) g(2) logs_ok_cong keeps_logs_refl by blast
qed

lemma handle_replicate_logs:
  assumes "handle_replicate b payload now = Inr (a, out, b')" "logs_ok b logs"
  shows "keeps_logs grows logs b'"
proof -
  from assms(1) obtain req where req: "parse decode_replica_fetch_request payload = Inr req" by (auto simp: handle_replicate_def bindE_eq_Inr)
  let ?key = "(rfreq_topic req, rfreq_partitionId req)"
  show ?thesis
  proof (cases "not_leader b ?key")
    case (Some x)
    then have "b' = b" using assms(1) req by (cases x) (simp add: handle_replicate_def)
    then show ?thesis using assms(2) by (simp add: keeps_logs_refl)
  next
    case None
    obtain p b1 where g: "get_or_create_partition b ?key = Inr (p, b1)" "part_at b1 = part_at b" by (rule logs_ok_get [OF assms(2)])
    have ok: "logs_ok b1 logs" using assms(2) logs_ok_cong [OF g(2)] by simp
    have "logs_ok b' logs"
    proof (cases "\<exists>c m. bk_cluster b1 = Some c \<and> bk_isrManager b1 = Some m")
      case True
      then obtain c m where cm: "bk_cluster b1 = Some c" "bk_isrManager b1 = Some m" by blast
      obtain changed m' parts' where l: "on_replica_fetch m (bk_partitions b1) ?key (rfreq_replicaId req) (rfreq_fetchOffset req) now =
          (changed, m', parts')" by (metis prod_cases3)
      obtain out' b3 where i: "isr_changed b1 ?key (changed, m', parts') = (out', b3)" by fastforce
      have "b' = b3" using assms(1) req None g(1) cm l i by (simp add: handle_replicate_def Let_def)
      then show ?thesis using isr_changed_logs [OF ok on_replica_fetch_hwm_only [OF l] i] by simp
    next
      case False
      then have "b' = b1" using assms(1) req None g(1)
        by (cases "bk_cluster b1"; cases "bk_isrManager b1") (simp_all add: handle_replicate_def Let_def)
      then show ?thesis using ok by simp
    qed
    then show ?thesis by (rule keeps_logs_refl)
  qed
qed

section \<open>Reconciling and the logs\<close>

lemma part_inv_set_hwm [simp]: "part_inv (set_high_watermark p h) log = part_inv p log"
  by (simp add: set_high_watermark_def)

lemma set_hwm_ends [simp]: "high_watermark (set_high_watermark p h) = h" "log_end_offset (set_high_watermark p h) = log_end_offset p"
  by (simp_all add: set_high_watermark_def high_watermark_def log_end_offset_def)

lemma reconcile_one_logs:
  assumes "reconcile_one c e (b, relevant, leading) = Inr (b', relevant', leading')" "logs_ok b logs"
  shows "logs_ok b' logs"
proof -
  obtain k pa where e: "e = (k, pa)" by fastforce
  have same: "logs_ok x logs" if "bk_partitions x = bk_partitions b" "bk_dirs x = bk_dirs b" for x
    using that by (rule logs_ok_same [OF assms(2)])
  consider "pa_leaderId pa = bk_id b" | "pa_leaderId pa \<noteq> bk_id b" "bk_id b \<in> set (pa_replicas pa)"
    | "pa_leaderId pa \<noteq> bk_id b" "bk_id b \<notin> set (pa_replicas pa)" by blast
  then show ?thesis
  proof cases
    case 1
    let ?b = "b\<lparr>bk_followers := omap_erase k (bk_followers b)\<rparr>"
    have ok: "logs_ok ?b logs" by (rule same) simp_all
    obtain p b1 where g: "get_or_create_partition ?b k = Inr (p, b1)" "part_at b1 = part_at ?b" "part_inv p (logs k)"
      "high_watermark p \<le> log_end_offset p" by (rule logs_ok_get [OF ok])
    let ?p = "if k \<in> set (bk_leadingPartitions b1) then p else set_high_watermark p (log_end_offset p)"
    have "logs_ok (b1\<lparr>bk_partitions := omap_put k ?p (bk_partitions b1)\<rparr>) (logs(k := logs k))"
      using logs_ok_cong [OF g(2)] ok g(3,4) by (intro logs_ok_put) simp_all
    then have ok1: "logs_ok (b1\<lparr>bk_partitions := omap_put k ?p (bk_partitions b1)\<rparr>) logs" unfolding fun_upd_triv .
    have "logs_ok (b1\<lparr>bk_partitions := omap_put k ?p (bk_partitions b1),
        bk_isrManager := map_option (\<lambda>m. set_leading m k k (pa_replicas pa)) (bk_isrManager b1)\<rparr>) logs"
      by (rule logs_ok_same [OF ok1]) simp_all
    then show ?thesis using assms(1) 1 g(1) by (simp add: reconcile_one_def e Let_def)
  next
    case 2
    let ?b = "b\<lparr>bk_isrManager := map_option (\<lambda>m. stop_leading m k) (bk_isrManager b)\<rparr>"
    have ok: "logs_ok ?b logs" by (rule same) simp_all
    obtain p b1 where g: "get_or_create_partition ?b k = Inr (p, b1)" "part_at b1 = part_at ?b" by (rule logs_ok_get [OF ok])
    have ok1: "logs_ok b1 logs" using logs_ok_cong [OF g(2)] ok by simp
    have "logs_ok (b1\<lparr>bk_followers := fs\<rparr>) logs" for fs by (rule logs_ok_same [OF ok1]) simp_all
    then show ?thesis
      using assms(1) 2 g(1) ok by (auto simp: reconcile_one_def e Let_def split: option.splits if_splits)
  next
    case 3
    then show ?thesis using assms by (simp add: reconcile_one_def e)
  qed
qed

lemma reconcile_all_logs:
  "reconcile_all c es (b, relevant, leading) = Inr (b', relevant', leading') \<Longrightarrow> logs_ok b logs \<Longrightarrow> logs_ok b' logs"
proof (induction es arbitrary: b relevant leading)
  case (Cons e es)
  from Cons.prems(1) obtain b1 rel1 lead1 where "reconcile_one c e (b, relevant, leading) = Inr (b1, rel1, lead1)"
    "reconcile_all c es (b1, rel1, lead1) = Inr (b', relevant', leading')" by (auto simp: bindE_eq_Inr)
  then show ?case using Cons.IH reconcile_one_logs Cons.prems(2) by blast
qed simp

lemma reconcile_logs:
  assumes "reconcile_replication b = Inr b'" "logs_ok b logs"
  shows "logs_ok b' logs"
proof (cases "\<exists>c m. bk_cluster b = Some c \<and> bk_isrManager b = Some m")
  case True
  then obtain c m b1 rel lead where "reconcile_all c (all_assignments c) (b, [], []) = Inr (b1, rel, lead)"
    "b' = b1\<lparr>bk_followers := filter (\<lambda>e. fst e \<in> set rel) (bk_followers b1), bk_leadingPartitions := lead\<rparr>"
    using assms(1) by (auto simp: reconcile_replication_def bindE_eq_Inr)
  then show ?thesis using logs_ok_same [OF reconcile_all_logs [OF _ assms(2)]] by simp
next
  case False
  then show ?thesis using assms by (auto simp: reconcile_replication_def split: option.splits)
qed

section \<open>One key of a reconciliation\<close>

lemma map_of_filter_key: "map_of (filter (\<lambda>e. fst e \<in> S) m) k = (if k \<in> S then map_of m k else None)"
  by (induction m) auto

text \<open>What a broker holds for one partition: the fetcher, the leader's state, the partition itself.\<close>

definition key_view :: "broker \<Rightarrow> topic_partition \<Rightarrow>
    follower_fetcher option \<times> partition_state option option \<times> (broker_error + partition)" where
  "key_view b k =
     (map_of (bk_followers b) k, map_option (\<lambda>m. map_of (im_partitions m) k) (bk_isrManager b), part_at b k)"

lemma part_at_fields [simp]:
  "part_at (b\<lparr>bk_followers := x\<rparr>) = part_at b" "part_at (b\<lparr>bk_isrManager := y\<rparr>) = part_at b"
  "part_at (b\<lparr>bk_leadingPartitions := z\<rparr>) = part_at b"
  by (rule part_at_cong; simp)+

lemma manager_entry [simp]:
  "map_of (im_partitions (stop_leading m key)) k = (if k = key then None else map_of (im_partitions m) k)"
  "k \<noteq> key \<Longrightarrow> map_of (im_partitions (set_leading m key ref replicas)) k = map_of (im_partitions m) k"
  by (simp_all add: stop_leading_def set_leading_def Let_def)

lemma option_map_map: "map_option f (map_option g x) = map_option (\<lambda>y. f (g y)) x"
  by (cases x) simp_all

lemma reconcile_leads:
  assumes "reconcile_one c (k, pa) (b, rel, lead) = Inr (b', rel', lead')" "pa_leaderId pa = bk_id b"
  obtains p where "part_at b k = Inr p" "rel' = k # rel" "lead' = k # lead"
    "part_at b' = (part_at b)(k := Inr (if k \<in> set (bk_leadingPartitions b) then p else set_high_watermark p (log_end_offset p)))"
    "bk_followers b' = omap_erase k (bk_followers b)"
    "bk_isrManager b' = map_option (\<lambda>m. set_leading m k k (pa_replicas pa)) (bk_isrManager b)"
    "bk_id b' = bk_id b" "bk_leadingPartitions b' = bk_leadingPartitions b"
proof -
  let ?b = "b\<lparr>bk_followers := omap_erase k (bk_followers b)\<rparr>"
  obtain p b1 where g: "get_or_create_partition ?b k = Inr (p, b1)" using assms by (auto simp: reconcile_one_def bindE_eq_Inr Let_def)
  note G = get_or_create_Inr [OF g]
  have f: "bk_followers b1 = omap_erase k (bk_followers b)" "bk_isrManager b1 = bk_isrManager b" "bk_id b1 = bk_id b"
    "bk_leadingPartitions b1 = bk_leadingPartitions b" by (subst G(4), simp)+
  from assms g f show thesis
    by (intro that [of p]) (use G(1,2) in \<open>auto simp: reconcile_one_def Let_def part_at_put\<close>)
qed

lemma reconcile_follows:
  assumes "reconcile_one c (k, pa) (b, rel, lead) = Inr (b', rel', lead')" "pa_leaderId pa \<noteq> bk_id b" "bk_id b \<in> set (pa_replicas pa)"
  shows "part_at b' = part_at b" "rel' = k # rel" "lead' = lead" "bk_id b' = bk_id b" "bk_leadingPartitions b' = bk_leadingPartitions b"
    "bk_isrManager b' = map_option (\<lambda>m. stop_leading m k) (bk_isrManager b)"
    "map_of (bk_followers b') = (case address_of (cc_membership c) (pa_leaderId pa) of
        None \<Rightarrow> map_of (bk_followers b)
      | Some addr \<Rightarrow> (map_of (bk_followers b))(k \<mapsto> (case map_of (bk_followers b) k of
          Some ff \<Rightarrow> if ff_leaderHost ff = addr_host addr \<and> ff_leaderPort ff = addr_port addr then ff
                     else new_follower (fst k) (snd k) (bk_id b) (addr_host addr) (addr_port addr)
        | None \<Rightarrow> new_follower (fst k) (snd k) (bk_id b) (addr_host addr) (addr_port addr))))"
proof -
  let ?b = "b\<lparr>bk_isrManager := map_option (\<lambda>m. stop_leading m k) (bk_isrManager b)\<rparr>"
  let ?new = "\<lambda>addr. new_follower (fst k) (snd k) (bk_id b) (addr_host addr) (addr_port addr)"
  have "part_at b' = part_at b \<and> rel' = k # rel \<and> lead' = lead \<and> bk_id b' = bk_id b \<and> bk_leadingPartitions b' = bk_leadingPartitions b \<and>
    bk_isrManager b' = map_option (\<lambda>m. stop_leading m k) (bk_isrManager b) \<and>
    map_of (bk_followers b') = (case address_of (cc_membership c) (pa_leaderId pa) of
        None \<Rightarrow> map_of (bk_followers b)
      | Some addr \<Rightarrow> (map_of (bk_followers b))(k \<mapsto> (case map_of (bk_followers b) k of
          Some ff \<Rightarrow> if ff_leaderHost ff = addr_host addr \<and> ff_leaderPort ff = addr_port addr then ff else ?new addr
        | None \<Rightarrow> ?new addr)))"
  proof (cases "address_of (cc_membership c) (pa_leaderId pa)")
    case None
    then show ?thesis using assms by (auto simp: reconcile_one_def Let_def)
  next
    case (Some addr)
    let ?keep = "\<exists>ff. map_of (bk_followers b) k = Some ff \<and> ff_leaderHost ff = addr_host addr \<and> ff_leaderPort ff = addr_port addr"
    show ?thesis
    proof (cases ?keep)
      case True
      then obtain ff where "map_of (bk_followers b) k = Some ff" "ff_leaderHost ff = addr_host addr" "ff_leaderPort ff = addr_port addr" by blast
      then show ?thesis using assms Some by (auto simp: reconcile_one_def Let_def fun_eq_iff)
    next
      case False
      have new: "(case map_of (bk_followers b) k of None \<Rightarrow> True
         | Some ff \<Rightarrow> ff_leaderHost ff \<noteq> addr_host addr \<or> ff_leaderPort ff \<noteq> addr_port addr)"
        using False by (simp split: option.split)
      obtain p b1 where g: "get_or_create_partition ?b k = Inr (p, b1)"
        using assms Some new by (auto simp: reconcile_one_def bindE_eq_Inr Let_def split: if_splits)
      note G = get_or_create_Inr [OF g]
      have f: "bk_followers b1 = bk_followers b" "bk_isrManager b1 = map_option (\<lambda>m. stop_leading m k) (bk_isrManager b)"
        "bk_id b1 = bk_id b" "bk_leadingPartitions b1 = bk_leadingPartitions b" by (subst G(4), simp)+
      have "b' = b1\<lparr>bk_followers := omap_put k (?new addr) (bk_followers b1)\<rparr> \<and> rel' = k # rel \<and> lead' = lead"
        using assms Some new g f by (auto simp: reconcile_one_def Let_def)
      moreover have "(case map_of (bk_followers b) k of
          Some ff \<Rightarrow> if ff_leaderHost ff = addr_host addr \<and> ff_leaderPort ff = addr_port addr then ff else ?new addr
        | None \<Rightarrow> ?new addr) = ?new addr" using False by (auto split: option.split)
      ultimately show ?thesis using f G(2) Some by simp
    qed
  qed
  then show "part_at b' = part_at b" "rel' = k # rel" "lead' = lead" "bk_id b' = bk_id b" "bk_leadingPartitions b' = bk_leadingPartitions b"
    "bk_isrManager b' = map_option (\<lambda>m. stop_leading m k) (bk_isrManager b)"
    "map_of (bk_followers b') = (case address_of (cc_membership c) (pa_leaderId pa) of
        None \<Rightarrow> map_of (bk_followers b)
      | Some addr \<Rightarrow> (map_of (bk_followers b))(k \<mapsto> (case map_of (bk_followers b) k of
          Some ff \<Rightarrow> if ff_leaderHost ff = addr_host addr \<and> ff_leaderPort ff = addr_port addr then ff else ?new addr
        | None \<Rightarrow> ?new addr)))" by iprover+
qed

lemma reconcile_uninvolved:
  assumes "reconcile_one c (k, pa) (b, rel, lead) = Inr (b', rel', lead')" "pa_leaderId pa \<noteq> bk_id b" "bk_id b \<notin> set (pa_replicas pa)"
  shows "b' = b" "rel' = rel" "lead' = lead"
  using assms by (simp_all add: reconcile_one_def)

lemma reconcile_one_cases:
  obtains "pa_leaderId pa = bk_id b" | "pa_leaderId pa \<noteq> bk_id b" "bk_id b \<in> set (pa_replicas pa)"
    | "pa_leaderId pa \<noteq> bk_id b" "bk_id b \<notin> set (pa_replicas pa)"
  by blast

lemma reconcile_one_same:
  assumes "reconcile_one c (k, pa) (b, rel, lead) = Inr (b', rel', lead')"
  shows "bk_id b' = bk_id b \<and> bk_leadingPartitions b' = bk_leadingPartitions b"
proof (cases rule: reconcile_one_cases [of pa b])
  case 1
  from reconcile_leads [OF assms 1] show ?thesis by iprover
next
  case 2
  from reconcile_follows(4,5) [OF assms 2] show ?thesis by iprover
next
  case 3
  from reconcile_uninvolved [OF assms 3] show ?thesis by simp
qed

lemma reconcile_one_other:
  assumes "reconcile_one c (k0, pa) (b, rel, lead) = Inr (b', rel', lead')" "k \<noteq> k0"
  shows "key_view b' k = key_view b k \<and> (k \<in> set rel' \<longleftrightarrow> k \<in> set rel) \<and> (k \<in> set lead' \<longleftrightarrow> k \<in> set lead)"
proof (cases rule: reconcile_one_cases [of pa b])
  case 1
  show ?thesis by (rule reconcile_leads [OF assms(1) 1]) (use assms(2) in \<open>simp add: key_view_def option_map_map\<close>)
next
  case 2
  show ?thesis using reconcile_follows [OF assms(1) 2] assms(2) by (simp add: key_view_def option_map_map split: option.split)
next
  case 3
  from reconcile_uninvolved [OF assms(1) 3] show ?thesis by simp
qed

text \<open>The loop treats every key once, and what it does for one key depends on that key alone.\<close>

lemma reconcile_all_same:
  "reconcile_all c es (b, rel, lead) = Inr (b', rel', lead') \<Longrightarrow> bk_id b' = bk_id b \<and> bk_leadingPartitions b' = bk_leadingPartitions b"
proof (induction es arbitrary: b rel lead)
  case (Cons e es)
  obtain k0 pa where e: "e = (k0, pa)" by fastforce
  from Cons.prems obtain b1 rel1 lead1 where 1: "reconcile_one c (k0, pa) (b, rel, lead) = Inr (b1, rel1, lead1)"
    and 2: "reconcile_all c es (b1, rel1, lead1) = Inr (b', rel', lead')" by (auto simp: bindE_eq_Inr e)
  show ?case using Cons.IH [OF 2] reconcile_one_same [OF 1] by simp
qed simp

lemma reconcile_all_absent:
  "reconcile_all c es (b, rel, lead) = Inr (b', rel', lead') \<Longrightarrow> k \<notin> fst ` set es \<Longrightarrow>
     key_view b' k = key_view b k \<and> (k \<in> set rel' \<longleftrightarrow> k \<in> set rel) \<and> (k \<in> set lead' \<longleftrightarrow> k \<in> set lead)"
proof (induction es arbitrary: b rel lead)
  case (Cons e es)
  obtain k0 pa where e: "e = (k0, pa)" by fastforce
  from Cons.prems(1) obtain b1 rel1 lead1 where 1: "reconcile_one c (k0, pa) (b, rel, lead) = Inr (b1, rel1, lead1)"
    and 2: "reconcile_all c es (b1, rel1, lead1) = Inr (b', rel', lead')" by (auto simp: bindE_eq_Inr e)
  have "k \<noteq> k0" "k \<notin> fst ` set es" using Cons.prems(2) by (auto simp: e)
  then show ?case using Cons.IH [OF 2] reconcile_one_other [OF 1] by simp
qed simp

lemma reconcile_all_append: "reconcile_all c (xs @ ys) acc = bindE (reconcile_all c xs acc) (reconcile_all c ys)"
proof (induction xs arbitrary: acc)
  case (Cons x xs)
  then show ?case by (cases "reconcile_one c x acc") simp_all
qed simp

lemma reconcile_all_key:
  assumes "reconcile_all c es (b, rel, lead) = Inr (b', rel', lead')" "distinct (map fst es)" "(k, pa) \<in> set es"
  obtains b1 rel1 lead1 b2 rel2 lead2 where "reconcile_one c (k, pa) (b1, rel1, lead1) = Inr (b2, rel2, lead2)"
    "bk_id b1 = bk_id b" "bk_leadingPartitions b1 = bk_leadingPartitions b" "key_view b1 k = key_view b k"
    "key_view b' k = key_view b2 k" "k \<in> set rel1 \<longleftrightarrow> k \<in> set rel" "k \<in> set lead1 \<longleftrightarrow> k \<in> set lead"
    "k \<in> set rel' \<longleftrightarrow> k \<in> set rel2" "k \<in> set lead' \<longleftrightarrow> k \<in> set lead2"
proof -
  obtain xs ys where es: "es = xs @ (k, pa) # ys" using assms(3) by (meson split_list)
  have out: "k \<notin> fst ` set xs" "k \<notin> fst ` set ys" using assms(2) by (auto simp: es)
  from assms(1) obtain b1 rel1 lead1 b2 rel2 lead2 where
    x: "reconcile_all c xs (b, rel, lead) = Inr (b1, rel1, lead1)" and
    o: "reconcile_one c (k, pa) (b1, rel1, lead1) = Inr (b2, rel2, lead2)" and
    y: "reconcile_all c ys (b2, rel2, lead2) = Inr (b', rel', lead')"
    by (auto simp: es reconcile_all_append bindE_eq_Inr)
  from that [OF o] reconcile_all_same [OF x] reconcile_all_absent [OF x out(1)] reconcile_all_absent [OF y out(2)] show thesis by simp
qed

text \<open>The whole reconciliation, seen from one key: nothing happens to a key without an assignment, and one pass of the loop to the others.\<close>

lemma reconcile_entries:
  assumes "reconcile_replication b = Inr b'" "bk_cluster b = Some c" "bk_isrManager b = Some m"
  obtains b1 rel lead where "reconcile_all c (cc_assignments c) (b, [], []) = Inr (b1, rel, lead)"
    "map_of (bk_followers b') k = (if k \<in> set rel then map_of (bk_followers b1) k else None)"
    "bk_isrManager b' = bk_isrManager b1" "part_at b' = part_at b1" "bk_leadingPartitions b' = lead"
  using assms by (auto simp: reconcile_replication_def bindE_eq_Inr all_assignments_def map_of_filter_key)

lemma key_viewD:
  assumes "key_view y k = key_view x k"
  shows "map_of (bk_followers y) k = map_of (bk_followers x) k" "part_at y k = part_at x k"
    "bk_isrManager x = Some m \<Longrightarrow> \<exists>m'. bk_isrManager y = Some m' \<and> map_of (im_partitions m') k = map_of (im_partitions m) k"
  using assms by (auto simp: key_view_def)

lemma reconcile_none:
  assumes "reconcile_replication b = Inr b'" "bk_cluster b = Some c" "bk_isrManager b = Some m" "map_of (cc_assignments c) k = None"
  shows "\<exists>m'. bk_isrManager b' = Some m' \<and> map_of (bk_followers b') k = None \<and> k \<notin> set (bk_leadingPartitions b') \<and>
    map_of (im_partitions m') k = map_of (im_partitions m) k \<and> part_at b' k = part_at b k"
proof -
  obtain b1 rel lead where r: "reconcile_all c (cc_assignments c) (b, [], []) = Inr (b1, rel, lead)"
    "map_of (bk_followers b') k = (if k \<in> set rel then map_of (bk_followers b1) k else None)"
    "bk_isrManager b' = bk_isrManager b1" "part_at b' = part_at b1" "bk_leadingPartitions b' = lead"
    by (rule reconcile_entries [OF assms(1-3)])
  have "k \<notin> fst ` set (cc_assignments c)" using assms(4) by (simp add: map_of_eq_None_iff)
  from reconcile_all_absent [OF r(1) this] r key_viewD [of b1 k b] assms(3) show ?thesis by auto
qed

lemma reconcile_some:
  assumes "reconcile_replication b = Inr b'" "bk_cluster b = Some c" "bk_isrManager b = Some m" "omap_ok (cc_assignments c)"
    and "map_of (cc_assignments c) k = Some pa"
  obtains x rx lx y ry ly mx where "reconcile_one c (k, pa) (x, rx, lx) = Inr (y, ry, ly)" "bk_id x = bk_id b"
    "bk_leadingPartitions x = bk_leadingPartitions b" "map_of (bk_followers x) k = map_of (bk_followers b) k" "part_at x k = part_at b k"
    "bk_isrManager x = Some mx" "map_of (im_partitions mx) k = map_of (im_partitions m) k" "k \<notin> set rx" "k \<notin> set lx"
    "map_of (bk_followers b') k = (if k \<in> set ry then map_of (bk_followers y) k else None)" "part_at b' k = part_at y k"
    "k \<in> set (bk_leadingPartitions b') \<longleftrightarrow> k \<in> set ly"
    "\<And>my. bk_isrManager y = Some my \<Longrightarrow> \<exists>m'. bk_isrManager b' = Some m' \<and> map_of (im_partitions m') k = map_of (im_partitions my) k"
proof -
  obtain b1 rel lead where r: "reconcile_all c (cc_assignments c) (b, [], []) = Inr (b1, rel, lead)"
    "map_of (bk_followers b') k = (if k \<in> set rel then map_of (bk_followers b1) k else None)"
    "bk_isrManager b' = bk_isrManager b1" "part_at b' = part_at b1" "bk_leadingPartitions b' = lead"
    by (rule reconcile_entries [OF assms(1-3)])
  obtain x rx lx y ry ly where o: "reconcile_one c (k, pa) (x, rx, lx) = Inr (y, ry, ly)" "bk_id x = bk_id b"
    "bk_leadingPartitions x = bk_leadingPartitions b" and v: "key_view x k = key_view b k" "key_view b1 k = key_view y k" and
    s: "k \<in> set rx \<longleftrightarrow> k \<in> set []" "k \<in> set lx \<longleftrightarrow> k \<in> set []" "k \<in> set rel \<longleftrightarrow> k \<in> set ry" "k \<in> set lead \<longleftrightarrow> k \<in> set ly"
    by (rule reconcile_all_key [OF r(1) omap_ok_distinct [OF assms(4)] map_of_SomeD [OF assms(5)]])
  obtain mx where "bk_isrManager x = Some mx" "map_of (im_partitions mx) k = map_of (im_partitions m) k"
    using key_viewD(3) [OF v(1) assms(3)] by blast
  from that [OF o key_viewD(1,2) [OF v(1)] this] s r key_viewD [OF v(2)] show thesis by simp
qed

lemma set_leading_entry:
  "\<exists>st. map_of (im_partitions (set_leading m k ref replicas)) k = Some st \<and> ps_partition st = Some ref \<and> ps_replicas st = replicas \<and>
     ps_isr st = (case map_of (im_partitions m) k of None \<Rightarrow> replicas | Some old \<Rightarrow> if ps_isr old = [] then replicas else ps_isr old)"
  by (simp add: set_leading_def Let_def empty_partition_state_def split: option.split)

section \<open>Every request and the logs\<close>

definition same_partitions :: "broker \<Rightarrow> broker \<Rightarrow> bool" where
  "same_partitions b b' \<longleftrightarrow> bk_partitions b' = bk_partitions b \<and> bk_dirs b' = bk_dirs b"

lemma keeps_logs_frame: "logs_ok b logs \<Longrightarrow> same_partitions b b' \<Longrightarrow> keeps_logs grows logs b'"
  unfolding same_partitions_def by (rule keeps_logs_same) simp_all

lemma frame_metadata: "handle_metadata b payload = Inr (a, out, b') \<Longrightarrow> same_partitions b b'"
  by (auto simp: handle_metadata_def bindE_eq_Inr Let_def same_partitions_def partition_count_for_same case_prod_beta split: option.splits)

lemma frame_find_coordinator: "handle_find_coordinator b payload = Inr (a, out, b') \<Longrightarrow> same_partitions b b'"
  by (auto simp: handle_find_coordinator_def bindE_eq_Inr Let_def same_partitions_def case_prod_beta split: option.splits)

lemma frame_join_group: "handle_join_group b payload now = Inr (a, out, b') \<Longrightarrow> same_partitions b b'"
  by (auto simp: handle_join_group_def bindE_eq_Inr Let_def same_partitions_def case_prod_beta split: option.splits)

lemma frame_sync_group: "handle_sync_group b payload = Inr (a, out, b') \<Longrightarrow> same_partitions b b'"
  by (auto simp: handle_sync_group_def bindE_eq_Inr Let_def same_partitions_def case_prod_beta split: option.splits)

lemma frame_group: "group_handler dec op enc b payload = Inr (a, out, b') \<Longrightarrow> same_partitions b b'"
  by (auto simp: group_handler_def bindE_eq_Inr Let_def same_partitions_def case_prod_beta split: option.splits)

lemma frame_request_vote: "broker_handle_request_vote b payload now timeout = Inr (a, out, b') \<Longrightarrow> same_partitions b b'"
  by (auto simp: broker_handle_request_vote_def bindE_eq_Inr Let_def same_partitions_def case_prod_beta split: option.splits)

lemma frame_controller_heartbeat: "broker_handle_controller_heartbeat b payload now timeout = Inr (a, out, b') \<Longrightarrow> same_partitions b b'"
  by (auto simp: broker_handle_controller_heartbeat_def bindE_eq_Inr Let_def same_partitions_def case_prod_beta split: option.splits)

lemma frame_broker_heartbeat: "broker_handle_broker_heartbeat b payload = Inr (a, out, b') \<Longrightarrow> same_partitions b b'"
  by (auto simp: broker_handle_broker_heartbeat_def bindE_eq_Inr Let_def same_partitions_def case_prod_beta split: option.splits)

lemma frame_isr_update: "handle_isr_update b payload = Inr (a, out, b') \<Longrightarrow> same_partitions b b'"
  by (auto simp: handle_isr_update_def bindE_eq_Inr Let_def same_partitions_def case_prod_beta split: option.splits)

lemma handle_create_topic_logs:
  assumes "handle_create_topic b payload now = Inr (a, out, b')" "logs_ok b logs"
  shows "keeps_logs grows logs b'"
proof -
  have same: "logs_ok b2 logs" if "bk_partitions b2 = bk_partitions b" "bk_dirs b2 = bk_dirs b" for b2
    using that by (rule logs_ok_same [OF assms(2)])
  obtain req where req: "parse decode_create_topic_request payload = Inr req" using assms(1) by (auto simp: handle_create_topic_def bindE_eq_Inr)
  show ?thesis
  proof (cases "bk_cluster b")
    case None
    then have "same_partitions b b'" using assms(1) req by (auto simp: handle_create_topic_def same_partitions_def)
    then show ?thesis by (rule keeps_logs_frame [OF assms(2)])
  next
    case (Some c)
    obtain r entries c' where r: "create_topic c (ctreq_topic req) (ctreq_numPartitions req) (ctreq_replicationFactor req) now = ((r, entries), c')"
      by (metis prod.exhaust)
    show ?thesis
    proof (cases r)
      case None
      then have "same_partitions b b'"
        using assms(1) req Some r by (auto simp: handle_create_topic_def same_partitions_def Let_def split: prod.splits)
      then show ?thesis by (rule keeps_logs_frame [OF assms(2)])
    next
      case created: (Some x)
      then have created: "reconcile_replication (b\<lparr>bk_cluster := Some c'\<rparr>) = Inr b'"
        using assms(1) req Some r by (auto simp: handle_create_topic_def bindE_eq_Inr)
      have "logs_ok (b\<lparr>bk_cluster := Some c'\<rparr>) logs" by (rule same) simp_all
      from reconcile_logs [OF created this] show ?thesis by (rule keeps_logs_refl)
    qed
  qed
qed

lemma handle_leader_and_isr_logs:
  assumes "handle_leader_and_isr b payload = Inr (a, out, b')" "logs_ok b logs"
  shows "keeps_logs grows logs b'"
proof -
  consider "b' = b" | c' where "reconcile_replication (b\<lparr>bk_cluster := Some c'\<rparr>) = Inr b'"
    using assms(1) by (auto simp: handle_leader_and_isr_def bindE_eq_Inr split: option.splits)
  then show ?thesis
  proof cases
    case 1
    then show ?thesis using assms(2) by (simp add: keeps_logs_refl)
  next
    case 2
    have "logs_ok (b\<lparr>bk_cluster := Some c'\<rparr>) logs" by (rule logs_ok_same [OF assms(2)]) simp_all
    from reconcile_logs [OF 2 this] show ?thesis by (rule keeps_logs_refl)
  qed
qed

end
