(* ===== verification/PeerCalls.thy ===== *)
theory PeerCalls
  imports BrokerLemmas
begin

text \<open>
  The calls between brokers: \<open>ClusterMembership::call\<close> (\<open>src/cluster/membership.cpp\<close>) over a kept connection that may have
  died, and the threads of \<open>start_election\<close>, \<open>broadcast_heartbeats\<close> and \<open>broadcast_broker_heartbeats\<close>
  (\<open>src/cluster/controller.cpp\<close>) that make them and use the answers. The peer is a handler of request frames with a state
  of its own, the connection the bytes that have arrived on it and are not read yet.
\<close>

unbundle bit_operations_syntax

section \<open>A call\<close>

text \<open>
  \<open>pc.sock\<close>: not connected, or connected with unread bytes. Of an attempt the environment decides whether a connection
  can be made, what other requests did to the peer in the meantime, and how the exchange goes: the request cannot be
  written; it is written and lost (the peer is gone); or it is handled and the first \<open>n\<close> bytes of the answer arrive. After
  these bytes a reader that wants more meets the end of the stream. A handler that throws ends the peer's session without
  an answer. Two more ways are no exceptions: the write on a dead connection raises \<open>SIGPIPE\<close>, which no program handles and
  which ends the calling process; or the connection stays open and no more comes, whether the peer has handled the
  request or not, and the read, which has no timeout, never returns.
\<close>

type_synonym link = "bytes option"

datatype exchange = Unwritten | LostRequest | Handled nat | SignalPipe | Stuck bool

datatype call_stop = KilledInCall | NeverReturns

fun stops :: "exchange \<Rightarrow> call_stop option" where
  "stops SignalPipe = Some KilledInCall"
| "stops (Stuck handled) = Some NeverReturns"
| "stops _ = None"

record 's attempt =
  at_connects :: bool
  at_meanwhile :: "'s \<Rightarrow> 's"
  at_exchange :: exchange

type_synonym ('s, 'e) peer = "'s \<Rightarrow> request_frame \<Rightarrow> 'e + (response_frame \<times> 's)"

definition serve_call :: "('s, 'e) peer \<Rightarrow> 's \<Rightarrow> request_frame \<Rightarrow> bytes \<times> 's" where
  "serve_call h st req = (case h st req of Inl _ \<Rightarrow> ([], st) | Inr (resp, st') \<Rightarrow> (write_response_frame resp, st'))"

definition transfer :: "('s, 'e) peer \<Rightarrow> exchange \<Rightarrow> request_frame \<Rightarrow> bytes \<Rightarrow> 's \<Rightarrow> (net_error + (response_frame \<times> bytes)) \<times> 's" where
  "transfer h x req arrived st =
     (case x of
        Unwritten \<Rightarrow> (Inl ConnectionClosed, st)
      | LostRequest \<Rightarrow> (read_response_frame arrived, st)
      | Handled n \<Rightarrow> (let (bytes, st) = serve_call h st req in (read_response_frame (arrived @ take n bytes), st))
      | SignalPipe \<Rightarrow> (Inl ConnectionClosed, st)
      | Stuck handled \<Rightarrow> (Inl ConnectionClosed, if handled then snd (serve_call h st req) else st))"

fun call_attempts :: "('s, 'e) peer \<Rightarrow> 's attempt list \<Rightarrow> request_frame \<Rightarrow> link \<Rightarrow> 's \<Rightarrow>
    (call_stop + response_frame option) \<times> link \<times> 's" where
  "call_attempts h [] req link st = (Inr None, link, st)"
| "call_attempts h (a # as) req link st =
     (let st = at_meanwhile a st
      in if link = None \<and> \<not> at_connects a then (Inr None, None, st)
         else let arrived = (case link of None \<Rightarrow> [] | Some bs \<Rightarrow> bs);
                  (r, st) = transfer h (at_exchange a) req arrived st
              in case stops (at_exchange a) of
                   Some x \<Rightarrow> (Inl x, None, st)
                 | None \<Rightarrow> (case r of
                     Inr (resp, rest) \<Rightarrow> (Inr (Some resp), Some rest, st)
                   | Inl _ \<Rightarrow> call_attempts h as req None st))"

text \<open>The loop makes two attempts. There is a connection object for every peer but the broker itself.\<close>

definition membership_call :: "membership \<Rightarrow> u32 \<Rightarrow> ('s, 'e) peer \<Rightarrow> 's attempt \<times> 's attempt \<Rightarrow> request_frame \<Rightarrow> link \<Rightarrow> 's \<Rightarrow>
    (call_stop + response_frame option) \<times> link \<times> 's" where
  "membership_call m peerId h a req link st =
     (if peerId = mb_self m \<or> address_of m peerId = None then (Inr None, link, st)
      else call_attempts h [fst a, snd a] req link st)"

section \<open>The threads\<close>

text \<open>
  \<open>Uncaught\<close> is a decoding error that nothing in the thread catches: it ends the process, as \<open>SIGPIPE\<close> in the call does; a
  call that never returns leaves the thread in it. The controller is the one of the moment the answer is used; the term and
  the candidate were read before.
\<close>

datatype thread_stop = Uncaught broker_error | InCall call_stop

definition uncaught :: "broker_error + 'a \<Rightarrow> thread_stop + 'a" where
  "uncaught r = (case r of Inl e \<Rightarrow> Inl (Uncaught e) | Inr a \<Rightarrow> Inr a)"

lemma uncaught_simps [simp]: "uncaught (Inl e) = Inl (Uncaught e)" "uncaught (Inr a) = Inr a"
  by (simp_all add: uncaught_def)

definition vote_thread :: "u32 \<Rightarrow> u32 \<Rightarrow> ('s, 'e) peer \<Rightarrow> 's attempt \<times> 's attempt \<Rightarrow> controller \<Rightarrow> election \<Rightarrow> u64 \<Rightarrow> u32 \<Rightarrow> link \<Rightarrow> 's \<Rightarrow>
    (thread_stop + (controller \<times> election)) \<times> link \<times> 's" where
  "vote_thread peerId corr h a c el now timeout link st =
     (case membership_call (cc_membership c) peerId h a (request_vote_frame corr (election_request c el)) link st of
        (Inl x, link, st) \<Rightarrow> (Inl (InCall x), link, st)
      | (Inr None, link, st) \<Rightarrow> (Inr (c, el), link, st)
      | (Inr (Some resp), link, st) \<Rightarrow>
          (uncaught (bindE (parse decode_request_vote_response (sf_payload resp)) (\<lambda>resp. Inr (on_vote_response c el resp now timeout))),
           link, st))"

definition heartbeat_frame :: "u32 \<Rightarrow> controller_heartbeat_request \<Rightarrow> request_frame" where
  "heartbeat_frame corr req =
     \<lparr>rf_requestType = request_type_u16 ControllerHeartbeat, rf_correlationId = corr,
      rf_payload = encode_controller_heartbeat_request [] req\<rparr>"

definition heartbeat_thread :: "u32 \<Rightarrow> u32 \<Rightarrow> ('s, 'e) peer \<Rightarrow> 's attempt \<times> 's attempt \<Rightarrow> controller_heartbeat_request \<Rightarrow> controller \<Rightarrow>
    u64 \<Rightarrow> u32 \<Rightarrow> link \<Rightarrow> 's \<Rightarrow> (thread_stop + controller) \<times> link \<times> 's" where
  "heartbeat_thread peerId corr h a req c now timeout link st =
     (case membership_call (cc_membership c) peerId h a (heartbeat_frame corr req) link st of
        (Inl x, link, st) \<Rightarrow> (Inl (InCall x), link, st)
      | (Inr None, link, st) \<Rightarrow> (Inr c, link, st)
      | (Inr (Some resp), link, st) \<Rightarrow>
          (uncaught (bindE (parse decode_controller_heartbeat_response (sf_payload resp)) (\<lambda>resp. Inr (on_heartbeat_response c resp now timeout))),
           link, st))"

text \<open>The probe of a broker: whatever it answers, it is alive.\<close>

definition broker_heartbeat_frame :: "u32 \<Rightarrow> request_frame" where
  "broker_heartbeat_frame corr =
     \<lparr>rf_requestType = request_type_u16 BrokerHeartbeat, rf_correlationId = corr,
      rf_payload = encode_broker_heartbeat_request [] ()\<rparr>"

definition broker_heartbeat_thread :: "u32 \<Rightarrow> u32 \<Rightarrow> ('s, 'e) peer \<Rightarrow> 's attempt \<times> 's attempt \<Rightarrow> controller \<Rightarrow> u64 \<Rightarrow> link \<Rightarrow> 's \<Rightarrow>
    (thread_stop + controller) \<times> link \<times> 's" where
  "broker_heartbeat_thread peerId corr h a c now link st =
     (case membership_call (cc_membership c) peerId h a (broker_heartbeat_frame corr) link st of
        (Inl x, link, st) \<Rightarrow> (Inl (InCall x), link, st)
      | (Inr None, link, st) \<Rightarrow> (Inr c, link, st)
      | (Inr (Some resp), link, st) \<Rightarrow> (Inr (on_broker_heartbeat_response c peerId now), link, st))"

text \<open>\<open>broadcast_broker_heartbeats\<close>: a probe to every peer, each on a thread of its own.\<close>

definition broadcast_broker_heartbeats :: "controller \<Rightarrow> u32 \<Rightarrow> (u32 \<times> request_frame) list" where
  "broadcast_broker_heartbeats c corr =
     map (\<lambda>(k, peerId). (peerId, broker_heartbeat_frame (corr + of_nat k))) (enumerate 0 (peer_ids (cc_membership c)))"

text \<open>
  A broker as a peer, at a time and with a timeout that other steps may change. The calls between brokers are answered
  without waiting; an answer that waits is made at once.
\<close>

definition broker_peer :: "(broker \<times> u64 \<times> u32, broker_error) peer" where
  "broker_peer st req =
     (case st of (b, now, timeout) \<Rightarrow>
        (case handle b req now timeout of
           Inl e \<Rightarrow> Inl e
         | Inr (Inl resp, _, b) \<Rightarrow> Inr (resp, b, now, timeout)
         | Inr (Inr (corr, w), _, b) \<Rightarrow> (let (resp, b) = handle_after_wait b corr w in Inr (resp, b, now, timeout))))"

section \<open>Answers on a kept connection\<close>

definition link_clean :: "link \<Rightarrow> bool" where
  "link_clean link \<longleftrightarrow> link = None \<or> link = Some []"

definition answers_fit :: "('s, 'e) peer \<Rightarrow> request_frame \<Rightarrow> bool" where
  "answers_fit h req \<longleftrightarrow> (\<forall>st resp st'. h st req = Inr (resp, st') \<longrightarrow> response_frame_ok resp)"

lemma read_nothing: "read_response_frame [] = Inl ConnectionClosed"
  by (simp add: read_response_frame_def recv_all_def)

lemma transfer_clean:
  assumes "answers_fit h req" "transfer h x req [] st = (r, st')"
  shows "(\<exists>e. r = Inl e \<and> (st' = st \<or> (\<exists>resp. h st req = Inr (resp, st')))) \<or> (\<exists>resp. r = Inr (resp, []) \<and> h st req = Inr (resp, st'))"
proof (cases x)
  case (Handled n)
  show ?thesis
  proof (cases "h st req")
    case (Inr a)
    obtain resp st1 where a: "a = (resp, st1)" by (cases a)
    have ok: "response_frame_ok resp" using assms(1) Inr a unfolding answers_fit_def by blast
    have "r = read_response_frame (take n (write_response_frame resp))" "st' = st1"
      using assms(2) Handled Inr a by (simp_all add: transfer_def serve_call_def)
    then show ?thesis
      using Inr a read_cut_response [OF ok, of n] read_write_response [OF ok, of "[]"]
      by (cases "n < length (write_response_frame resp)") auto
  qed (use assms(2) Handled in \<open>auto simp: transfer_def serve_call_def read_nothing\<close>)
next
  case (Stuck handled)
  then show ?thesis using assms(2) by (cases "h st req") (auto simp: transfer_def serve_call_def)
qed (use assms(2) in \<open>auto simp: transfer_def read_nothing\<close>)

text \<open>
  The states in which the peer may handle the request for the last time: the state it has been brought to by what happened
  before, the request itself included.
\<close>

lemma call_attempts_clean:
  assumes "answers_fit h req" "link_clean link" "call_attempts h as req link st = (r, link', st')"
    and "I st" "\<And>a st. a \<in> set as \<Longrightarrow> I st \<Longrightarrow> I (at_meanwhile a st)"
    and "\<And>st resp st'. I st \<Longrightarrow> h st req = Inr (resp, st') \<Longrightarrow> I st'"
  shows "link_clean link' \<and> I st' \<and> (\<forall>resp. r = Inr (Some resp) \<longrightarrow> (\<exists>st1. I st1 \<and> h st1 req = Inr (resp, st'))) \<and>
    (\<forall>x. r = Inl x \<longrightarrow> (\<exists>a \<in> set as. stops (at_exchange a) = Some x))"
  using assms(2-5)
proof (induction as arbitrary: link st)
  case Nil
  then show ?case by auto
next
  case (Cons a as)
  let ?st = "at_meanwhile a st"
  have I: "I ?st" using Cons.prems by simp
  show ?case
  proof (cases "link = None \<and> \<not> at_connects a")
    case True
    then show ?thesis using Cons.prems(2) I by (auto simp: link_clean_def)
  next
    case False
    have arrived: "(case link of None \<Rightarrow> [] | Some bs \<Rightarrow> bs) = []" using Cons.prems(1) by (auto simp: link_clean_def)
    obtain t st2 where t: "transfer h (at_exchange a) req [] ?st = (t, st2)" by fastforce
    have I2: "I st2" using transfer_clean [OF assms(1) t] I assms(6) by blast
    show ?thesis
    proof (cases "stops (at_exchange a)")
      case (Some x)
      then have "r = Inl x" "link' = None" "st' = st2" using Cons.prems(2) False t by (auto simp: arrived Let_def)
      then show ?thesis using I2 Some by (auto simp: link_clean_def)
    next
      case None
      show ?thesis
      proof (cases t)
        case (Inl e)
        have "call_attempts h as req None st2 = (r, link', st')"
          using Cons.prems(2) False t Inl None by (simp add: arrived Let_def)
        from Cons.IH [OF _ this I2] Cons.prems(4) show ?thesis by (auto simp: link_clean_def)
      next
        case (Inr u)
        obtain resp rest where u: "u = (resp, rest)" by (cases u)
        have "r = Inr (Some resp)" "link' = Some rest" "st' = st2" using Cons.prems(2) False t Inr u None by (auto simp: arrived Let_def)
        then show ?thesis using transfer_clean [OF assms(1) t] Inr u I I2 by (auto simp: link_clean_def)
      qed
    qed
  qed
qed

lemma membership_call_clean:
  assumes "answers_fit h req" "link_clean link" "membership_call m i h a req link st = (r, link', st')"
    and "I st" "\<And>st. I st \<Longrightarrow> I (at_meanwhile (fst a) st)" "\<And>st. I st \<Longrightarrow> I (at_meanwhile (snd a) st)"
    and "\<And>st resp st'. I st \<Longrightarrow> h st req = Inr (resp, st') \<Longrightarrow> I st'"
  shows "link_clean link' \<and> I st' \<and> (\<forall>resp. r = Inr (Some resp) \<longrightarrow> (\<exists>st1. I st1 \<and> h st1 req = Inr (resp, st'))) \<and>
    (\<forall>x. r = Inl x \<longrightarrow> stops (at_exchange (fst a)) = Some x \<or> stops (at_exchange (snd a)) = Some x)"
proof (cases "i = mb_self m \<or> address_of m i = None")
  case False
  then have "call_attempts h [fst a, snd a] req link st = (r, link', st')"
    using assms(3) unfolding membership_call_def if_not_P [OF False] by blast
  from call_attempts_clean [OF assms(1,2) this, of I] show ?thesis using assms(4-7) by auto
qed (use assms in \<open>auto simp: membership_call_def\<close>)

text \<open>
  A sequence of calls to one peer, over the connection they share. A call in which the process dies is the last; after one
  that never returns the others wait for the connection's lock.
\<close>

fun calls_to_peer :: "membership \<Rightarrow> u32 \<Rightarrow> ('s, 'e) peer \<Rightarrow> ((request_frame \<times> 's attempt \<times> 's attempt) list) \<Rightarrow> link \<Rightarrow> 's \<Rightarrow>
    (request_frame \<times> response_frame option) list \<times> link \<times> 's" where
  "calls_to_peer m i h [] link st = ([], link, st)"
| "calls_to_peer m i h ((req, a) # calls) link st =
     (let (r, link, st) = membership_call m i h a req link st
      in case r of
           Inl _ \<Rightarrow> ([], link, st)
         | Inr answer \<Rightarrow> (let (rs, link, st) = calls_to_peer m i h calls link st in ((req, answer) # rs, link, st)))"

lemma calls_to_peer_answers:
  assumes "\<forall>(req, a) \<in> set calls. answers_fit h req" "link_clean link" "calls_to_peer m i h calls link st = (rs, link', st')"
  shows "link_clean link' \<and> (\<forall>(req, r) \<in> set rs. \<forall>resp. r = Some resp \<longrightarrow> (\<exists>st1 st2. h st1 req = Inr (resp, st2)))"
  using assms
proof (induction calls arbitrary: link st rs link' st')
  case (Cons call calls)
  obtain req a where call: "call = (req, a)" by (cases call)
  obtain r link1 st1 where r: "membership_call m i h a req link st = (r, link1, st1)" by (metis prod_cases3)
  have fit: "answers_fit h req" using Cons.prems(1) call by simp
  from membership_call_clean [OF fit Cons.prems(2) r, of "\<lambda>_. True"]
  have clean: "link_clean link1" "\<forall>resp. r = Inr (Some resp) \<longrightarrow> (\<exists>st1 st2. h st1 req = Inr (resp, st2))" by blast+
  show ?case
  proof (cases r)
    case (Inl x)
    then show ?thesis using Cons.prems(3) call r clean(1) by simp
  next
    case (Inr answer)
    obtain rs1 link2 st2 where rs1: "calls_to_peer m i h calls link1 st1 = (rs1, link2, st2)" by (metis prod_cases3)
    have "link_clean link2 \<and> (\<forall>(req, r) \<in> set rs1. \<forall>resp. r = Some resp \<longrightarrow> (\<exists>st1 st2. h st1 req = Inr (resp, st2)))"
      using Cons.IH [OF _ clean(1) rs1] Cons.prems(1) by simp
    moreover have "rs = (req, answer) # rs1" "link' = link2" using Cons.prems(3) call r rs1 Inr by auto
    ultimately show ?thesis using clean(2) Inr by simp
  qed
qed simp

section \<open>Vote requests\<close>

lemma handle_vote:
  "handle b (request_vote_frame corr req) now timeout =
     (case bk_cluster b of
        None \<Rightarrow> Inr (Inl \<lparr>sf_correlationId = corr, sf_payload = encode_request_vote_response [] \<lparr>rvresp_term = rvreq_term req, rvresp_voteGranted = False\<rparr>\<rparr>, [], b)
      | Some c \<Rightarrow> Inr (Inl \<lparr>sf_correlationId = corr, sf_payload = encode_request_vote_response [] (fst (handle_request_vote c req now timeout))\<rparr>, [],
                       b\<lparr>bk_cluster := Some (snd (handle_request_vote c req now timeout))\<rparr>))"
  by (simp add: handle_def dispatch_def request_type_of_def request_vote_frame_def broker_handle_request_vote_def case_prod_beta Let_def
      parse_put [OF request_vote_request.faithful] request_vote_request_ok_def split: option.split)

lemma broker_peer_vote:
  "broker_peer (b, now, timeout) (request_vote_frame corr req) =
     (case bk_cluster b of
        None \<Rightarrow> Inr (\<lparr>sf_correlationId = corr, sf_payload = encode_request_vote_response [] \<lparr>rvresp_term = rvreq_term req, rvresp_voteGranted = False\<rparr>\<rparr>, b, now, timeout)
      | Some c \<Rightarrow> Inr (\<lparr>sf_correlationId = corr, sf_payload = encode_request_vote_response [] (fst (handle_request_vote c req now timeout))\<rparr>,
                       b\<lparr>bk_cluster := Some (snd (handle_request_vote c req now timeout))\<rparr>, now, timeout))"
  by (simp add: broker_peer_def handle_vote split: option.split)

lemma vote_answers_fit: "answers_fit broker_peer (request_vote_frame corr req)"
  unfolding answers_fit_def
  by (auto simp: broker_peer_vote response_frame_ok_def encode_request_vote_response_def put_bool_def put_apps split: option.splits)

text \<open>A request handled again is answered alike, and changes the deadline only.\<close>

lemma handle_request_vote_later:
  "cc_term c < rvreq_term req \<Longrightarrow> handle_request_vote c req now timeout =
     (\<lparr>rvresp_term = rvreq_term req, rvresp_voteGranted = True\<rparr>,
      c\<lparr>cc_term := rvreq_term req, cc_votedFor := uint (rvreq_candidateId req), cc_role := Follower, cc_deadline := now + ucast timeout,
        cc_raft_file := Some (to_string_u32 (rvreq_term req) @ [newline] @ to_string_i64 (uint (rvreq_candidateId req)) @ [newline])\<rparr>)"
  by (simp add: handle_request_vote_def step_down_def reset_election_deadline_def persist_state_def Let_def)

lemma handle_request_vote_now:
  "\<not> cc_term c < rvreq_term req \<Longrightarrow> handle_request_vote c req now timeout =
     (if rvreq_term req = cc_term c \<and> (cc_votedFor c = - 1 \<or> cc_votedFor c = uint (rvreq_candidateId req))
      then (\<lparr>rvresp_term = cc_term c, rvresp_voteGranted = True\<rparr>,
        c\<lparr>cc_votedFor := uint (rvreq_candidateId req), cc_deadline := now + ucast timeout,
          cc_raft_file := Some (to_string_u32 (cc_term c) @ [newline] @ to_string_i64 (uint (rvreq_candidateId req)) @ [newline])\<rparr>)
      else (\<lparr>rvresp_term = cc_term c, rvresp_voteGranted = False\<rparr>, c))"
  by (auto simp: handle_request_vote_def reset_election_deadline_def persist_state_def Let_def)

definition vote_effect :: "controller \<Rightarrow> request_vote_request \<Rightarrow> u64 \<Rightarrow> controller" where
  "vote_effect c req d = (snd (handle_request_vote c req 0 0))\<lparr>cc_deadline := d\<rparr>"

lemma vote_once: "\<exists>d. snd (handle_request_vote c req now timeout) = vote_effect c req d"
proof -
  consider "cc_term c < rvreq_term req"
    | "\<not> cc_term c < rvreq_term req" "rvreq_term req = cc_term c \<and> (cc_votedFor c = - 1 \<or> cc_votedFor c = uint (rvreq_candidateId req))"
    | "\<not> cc_term c < rvreq_term req" "\<not> (rvreq_term req = cc_term c \<and> (cc_votedFor c = - 1 \<or> cc_votedFor c = uint (rvreq_candidateId req)))"
    by blast
  then show ?thesis
  proof cases
    case 1
    then show ?thesis by (auto simp: vote_effect_def handle_request_vote_later intro: exI [of _ "now + ucast timeout"])
  next
    case 2
    have "snd (handle_request_vote c req now timeout) = vote_effect c req (now + ucast timeout)"
      by (simp only: vote_effect_def handle_request_vote_now [OF 2(1)] if_P [OF 2(2)] snd_conv) simp
    then show ?thesis by blast
  next
    case 3
    have "snd (handle_request_vote c req now timeout) = vote_effect c req (cc_deadline c)"
      by (simp only: vote_effect_def handle_request_vote_now [OF 3(1)] if_not_P [OF 3(2)] snd_conv) simp
    then show ?thesis by blast
  qed
qed

lemma vote_answer: "fst (handle_request_vote c req now timeout) = fst (handle_request_vote c req 0 0)"
  by (cases "cc_term c < rvreq_term req") (auto simp: handle_request_vote_later handle_request_vote_now)

lemma vote_again:
  "fst (handle_request_vote (vote_effect c req d) req now timeout) = fst (handle_request_vote c req 0 0)"
  "\<exists>d'. snd (handle_request_vote (vote_effect c req d) req now timeout) = vote_effect c req d'"
proof -
  consider "cc_term c < rvreq_term req" | "\<not> cc_term c < rvreq_term req" by blast
  note c = this
  show "fst (handle_request_vote (vote_effect c req d) req now timeout) = fst (handle_request_vote c req 0 0)"
    using c by cases (auto simp: vote_effect_def handle_request_vote_later handle_request_vote_now)
  show "\<exists>d'. snd (handle_request_vote (vote_effect c req d) req now timeout) = vote_effect c req d'"
    using c
  proof cases
    case 1
    then show ?thesis by (auto simp: vote_effect_def handle_request_vote_later handle_request_vote_now intro: exI [of _ "now + ucast timeout"])
  next
    case 2
    show ?thesis
    proof (cases "rvreq_term req = cc_term c \<and> (cc_votedFor c = - 1 \<or> cc_votedFor c = uint (rvreq_candidateId req))")
      case True
      then show ?thesis using 2 by (auto simp: vote_effect_def handle_request_vote_now intro: exI [of _ "now + ucast timeout"])
    next
      case False
      then show ?thesis using 2 by (auto simp: vote_effect_def handle_request_vote_now intro: exI [of _ d])
    qed
  qed
qed

text \<open>What a broker with a controller answers, and what it has then on disk if it has granted the vote.\<close>

lemma broker_peer_grants:
  assumes "broker_peer st1 (request_vote_frame corr req) = Inr (resp, b, now, timeout)"
  shows "\<exists>v. sf_payload resp = encode_request_vote_response [] v \<and> sf_correlationId resp = corr \<and>
    (rvresp_voteGranted v \<longrightarrow> rvresp_term v = rvreq_term req \<and>
       (\<exists>c. bk_cluster b = Some c \<and> cc_term c = rvreq_term req \<and> cc_votedFor c = uint (rvreq_candidateId req) \<and>
        cc_raft_file c = Some (to_string_u32 (rvreq_term req) @ [newline] @ to_string_i64 (uint (rvreq_candidateId req)) @ [newline])))"
proof -
  obtain b0 now0 timeout0 where st1: "st1 = (b0, now0, timeout0)" by (cases st1) auto
  show ?thesis
  proof (cases "bk_cluster b0")
    case None
    then show ?thesis using assms st1 by (auto simp: broker_peer_vote intro!: exI [of _ "\<lparr>rvresp_term = rvreq_term req, rvresp_voteGranted = False\<rparr>"])
  next
    case (Some c)
    have eq: "sf_payload resp = encode_request_vote_response [] (fst (handle_request_vote c req now0 timeout0))"
      "sf_correlationId resp = corr" "bk_cluster b = Some (snd (handle_request_vote c req now0 timeout0))"
      using assms st1 Some by (auto simp: broker_peer_vote)
    show ?thesis
      by (rule exI [of _ "fst (handle_request_vote c req now0 timeout0)"], cases "cc_term c < rvreq_term req")
        (auto simp: eq handle_request_vote_later handle_request_vote_now)
  qed
qed

lemma vote_response_parsed: "parse decode_request_vote_response (encode_request_vote_response [] v) = Inr v"
  by (rule parse_put [OF request_vote_response.faithful]) (simp add: request_vote_response_ok_def)

section \<open>Properties\<close>

text \<open>
  C18: Answers on a kept connection: whatever calls a broker makes to a peer, in whatever order, over a connection that
  breaks at any byte, and whatever the peer's state is changed to in between, each answer the caller gets is the peer's
  answer to the request of that very call, although nothing compares correlation ids: a connection on which an exchange
  failed is never used again. A call in which the process is killed, or which never returns, is the last that is made.
\<close>

theorem calls_get_their_answers:
  assumes "\<forall>(req, a) \<in> set calls. \<forall>st resp st'. h st req = Inr (resp, st') \<longrightarrow> response_frame_ok resp"
    and "calls_to_peer m i h calls None st = (rs, link', st')" "(req, Some resp) \<in> set rs"
  shows "\<exists>st1 st2. h st1 req = Inr (resp, st2)"
proof -
  have "\<forall>(req, a) \<in> set calls. answers_fit h req" using assms(1) unfolding answers_fit_def by blast
  from calls_to_peer_answers [OF this _ assms(2)] assms(3) show ?thesis by (auto simp: link_clean_def)
qed

text \<open>
  C16: A vote request reaches the peer at most twice, and being handled twice is like being handled once: on a peer that
  nobody else talks to meanwhile, a vote call leaves the controller as it was or as one request leaves it (with a deadline
  of its own), and the answer, when one comes, is the answer to that one request.
\<close>

theorem resent_vote_request_counts_once:
  assumes "bk_cluster b = Some c" "link_clean link"
    and "\<And>b n t. fst (at_meanwhile (fst a) (b, n, t)) = b" "\<And>b n t. fst (at_meanwhile (snd a) (b, n, t)) = b"
    and "membership_call m i broker_peer a (request_vote_frame corr req) link (b, now, timeout) = (r, link', b', now', timeout')"
  shows "link_clean link' \<and>
    (bk_cluster b' = Some c \<or> (\<exists>d. bk_cluster b' = Some ((snd (handle_request_vote c req 0 0))\<lparr>cc_deadline := d\<rparr>))) \<and>
    (\<forall>resp. r = Inr (Some resp) \<longrightarrow>
       (\<exists>d. bk_cluster b' = Some ((snd (handle_request_vote c req 0 0))\<lparr>cc_deadline := d\<rparr>)) \<and>
       parse decode_request_vote_response (sf_payload resp) = Inr (fst (handle_request_vote c req 0 0)))"
proof -
  define I where "I st \<longleftrightarrow> bk_cluster (fst st) = Some c \<or> (\<exists>d. bk_cluster (fst st) = Some (vote_effect c req d))" for st :: "broker \<times> u64 \<times> u32"
  have once: "sf_payload resp = encode_request_vote_response [] (fst (handle_request_vote c req 0 0)) \<and>
      (\<exists>d. bk_cluster (fst st') = Some (vote_effect c req d))"
    if st: "I st" "broker_peer st (request_vote_frame corr req) = Inr (resp, st')" for st resp st'
  proof -
    obtain b0 n t where st0: "st = (b0, n, t)" by (cases st) auto
    from st(1) st0 consider "bk_cluster b0 = Some c" | d where "bk_cluster b0 = Some (vote_effect c req d)" unfolding I_def by auto
    then show ?thesis
    proof cases
      case 1
      then show ?thesis using st(2) st0 vote_answer [of c req n t] vote_once [of c req n t] by (auto simp: broker_peer_vote)
    next
      case 2
      then show ?thesis using st(2) st0 vote_again(1) [of c req d n t] vote_again(2) [of c req d n t] by (auto simp: broker_peer_vote)
    qed
  qed
  have "link_clean link' \<and> I (b', now', timeout') \<and>
      (\<forall>resp. r = Inr (Some resp) \<longrightarrow> (\<exists>st1. I st1 \<and> broker_peer st1 (request_vote_frame corr req) = Inr (resp, b', now', timeout'))) \<and>
      (\<forall>x. r = Inl x \<longrightarrow> stops (at_exchange (fst a)) = Some x \<or> stops (at_exchange (snd a)) = Some x)"
  proof (rule membership_call_clean [OF vote_answers_fit assms(2,5)])
    show "I (b, now, timeout)" using assms(1) by (simp add: I_def)
    show "I (at_meanwhile (fst a) st)" if "I st" for st using that assms(3) by (cases st) (simp add: I_def)
    show "I (at_meanwhile (snd a) st)" if "I st" for st using that assms(4) by (cases st) (simp add: I_def)
    show "I st'" if "I st" "broker_peer st (request_vote_frame corr req) = Inr (resp, st')" for st resp st'
      using once [OF that] by (simp add: I_def)
  qed
  then have end_state: "link_clean link'" "I (b', now', timeout')"
    and answer: "\<And>resp. r = Inr (Some resp) \<Longrightarrow> \<exists>st1. I st1 \<and> broker_peer st1 (request_vote_frame corr req) = Inr (resp, b', now', timeout')"
    by blast+
  have "(\<exists>d. bk_cluster b' = Some (vote_effect c req d)) \<and>
      parse decode_request_vote_response (sf_payload resp) = Inr (fst (handle_request_vote c req 0 0))" if "r = Inr (Some resp)" for resp
    using answer [OF that] once vote_response_parsed by fastforce
  then show ?thesis using end_state unfolding I_def vote_effect_def by simp
qed

text \<open>
  C15: A counted vote is a recorded vote: whatever the connection does and whatever else happens to the peer, the thread
  that asks a broker for its vote never meets an answer it cannot decode, counts at most one vote, and counts it only if
  the peer's controller has this candidate as its vote of the election's term, in memory and in \<open>raft_state\<close>. It ends, unless
  the process is killed by \<open>SIGPIPE\<close> in its call or the peer leaves the call unanswered with the connection open.
\<close>

theorem counted_vote_is_recorded:
  assumes "link_clean link"
    and "vote_thread i corr broker_peer a c el now timeout link st = (r, link', b', now', timeout')"
  shows "link_clean link' \<and>
    ((\<exists>x. r = Inl (InCall x) \<and> (stops (at_exchange (fst a)) = Some x \<or> stops (at_exchange (snd a)) = Some x)) \<or>
     (\<exists>c' el'. r = Inr (c', el') \<and> (el' = el \<or> el' = el\<lparr>el_votes := el_votes el + 1\<rparr>) \<and>
      (el' \<noteq> el \<longrightarrow> c' = c \<and> (\<exists>c2. bk_cluster b' = Some c2 \<and> cc_term c2 = el_term el \<and>
         cc_votedFor c2 = uint (mb_self (cc_membership c)) \<and>
         cc_raft_file c2 = Some (to_string_u32 (el_term el) @ [newline] @ to_string_i64 (uint (mb_self (cc_membership c))) @ [newline])))))"
proof -
  let ?req = "election_request c el"
  obtain r1 link1 st1 where call: "membership_call (cc_membership c) i broker_peer a (request_vote_frame corr ?req) link st = (r1, link1, st1)"
    by (metis prod_cases3)
  have st1: "link1 = link'" "st1 = (b', now', timeout')"
    using assms(2) call by (auto simp: vote_thread_def split: option.splits sum.splits)
  note clean = membership_call_clean [OF vote_answers_fit assms(1) call, of "\<lambda>_. True"]
  consider x where "r1 = Inl x" | "r1 = Inr None" | resp where "r1 = Inr (Some resp)" by (cases r1) auto
  then show ?thesis
  proof cases
    case 1
    then show ?thesis using assms(2) call clean st1 by (auto simp: vote_thread_def)
  next
    case 2
    then show ?thesis using assms(2) call clean st1 by (auto simp: vote_thread_def)
  next
    case (3 resp)
    then obtain st0 where "broker_peer st0 (request_vote_frame corr ?req) = Inr (resp, b', now', timeout')" using clean st1 by blast
    from broker_peer_grants [OF this] obtain v where v: "sf_payload resp = encode_request_vote_response [] v"
      "rvresp_voteGranted v \<longrightarrow> rvresp_term v = rvreq_term ?req \<and>
       (\<exists>c. bk_cluster b' = Some c \<and> cc_term c = rvreq_term ?req \<and> cc_votedFor c = uint (rvreq_candidateId ?req) \<and>
        cc_raft_file c = Some (to_string_u32 (rvreq_term ?req) @ [newline] @ to_string_i64 (uint (rvreq_candidateId ?req)) @ [newline]))"
      by blast
    have r: "r = Inr (on_vote_response c el v now timeout)"
      using assms(2) call 3 v(1) vote_response_parsed [of v] by (simp add: vote_thread_def)
    show ?thesis using r v(2) clean st1 by (auto simp: on_vote_response_def election_request_def)
  qed
qed

text \<open>A peer that counts its answers, an answer cut after five bytes, and a second call over the connection that then works.\<close>

definition demo_peer :: "(u8, unit) peer" where
  "demo_peer st req = Inr (\<lparr>sf_correlationId = rf_correlationId req, sf_payload = [st]\<rparr>, st + 1)"

definition demo_attempt :: "exchange \<Rightarrow> 's attempt" where
  "demo_attempt x = \<lparr>at_connects = True, at_meanwhile = (\<lambda>st. st), at_exchange = x\<rparr>"

definition demo_peers :: "(u32, address) omap" where
  "demo_peers = [(1, \<lparr>addr_host = ''a'', addr_port = 9091\<rparr>), (2, \<lparr>addr_host = ''b'', addr_port = 9092\<rparr>)]"

definition demo_calls :: "(request_frame \<times> u8 attempt \<times> u8 attempt) list" where
  "demo_calls = [(broker_heartbeat_frame 7, demo_attempt (Handled 5), demo_attempt (Handled 9)),
                 (broker_heartbeat_frame 8, demo_attempt (Handled 9), demo_attempt Unwritten)]"

theorem calls_get_their_answers_witness:
  "\<exists>st1 st2. demo_peer st1 (broker_heartbeat_frame 8) = Inr (\<lparr>sf_correlationId = 8, sf_payload = [2]\<rparr>, st2)"
proof -
  have ev: "calls_to_peer \<lparr>mb_self = 1, mb_peers = demo_peers\<rparr> 2 demo_peer demo_calls None 0 =
    ([(broker_heartbeat_frame 7, Some \<lparr>sf_correlationId = 7, sf_payload = [1]\<rparr>),
      (broker_heartbeat_frame 8, Some \<lparr>sf_correlationId = 8, sf_payload = [2]\<rparr>)], Some [], 3)"
    by code_simp
  show ?thesis
    by (rule calls_get_their_answers [OF _ ev])
      (simp_all add: demo_calls_def demo_peer_def response_frame_ok_def)
qed

text \<open>A vote request handled twice because its first answer is lost, and a vote counted.\<close>

definition demo_voter :: broker where
  "demo_voter = new_broker 2 ''b'' 9092 (Some demo_peers) False [] [] [] None None 0 0"

definition demo_candidate :: "controller \<times> election" where
  "demo_candidate = begin_election (new_controller \<lparr>mb_self = 1, mb_peers = demo_peers\<rparr> False None None 0 0) 0 0"

lemma demo_voter_cluster: "bk_cluster demo_voter = Some (new_controller \<lparr>mb_self = 2, mb_peers = demo_peers\<rparr> False None None 0 0)"
  by (simp add: demo_voter_def new_broker_def)

lemma demo_vote:
  "vote_thread 2 7 broker_peer (demo_attempt (Handled 5), demo_attempt (Handled 13)) (fst demo_candidate) (snd demo_candidate) 0 0 None
     (demo_voter, 0, 0) =
   (Inr (fst demo_candidate, (snd demo_candidate)\<lparr>el_votes := 2\<rparr>), Some [],
    demo_voter\<lparr>bk_cluster := Some (snd (handle_request_vote (snd (handle_request_vote (the (bk_cluster demo_voter))
       \<lparr>rvreq_term = 1, rvreq_candidateId = 1\<rparr> 0 0)) \<lparr>rvreq_term = 1, rvreq_candidateId = 1\<rparr> 0 0))\<rparr>, 0, 0)"
  by code_simp

theorem counted_vote_is_recorded_witness:
  "\<exists>c' el' (c2 :: controller). fst (vote_thread 2 7 broker_peer (demo_attempt (Handled 5), demo_attempt (Handled 13)) (fst demo_candidate)
     (snd demo_candidate) 0 0 None (demo_voter, 0, 0)) = Inr (c', el') \<and> el_votes el' = 2 \<and> cc_term c2 = 1 \<and> cc_votedFor c2 = 1 \<and>
     cc_raft_file c2 = Some (''1'' @ [newline] @ ''1'' @ [newline])"
proof -
  have "link_clean None" by (simp add: link_clean_def)
  note rec = conjunct2 [OF counted_vote_is_recorded [OF this demo_vote]]
  have facts: "el_votes (snd demo_candidate) = 1" "el_term (snd demo_candidate) = 1" "mb_self (cc_membership (fst demo_candidate)) = 1"
    "to_string_u32 1 = ''1''" "to_string_i64 1 = ''1''" by code_simp+
  have ne: "(snd demo_candidate)\<lparr>el_votes := 2\<rparr> \<noteq> snd demo_candidate"
  proof
    assume "(snd demo_candidate)\<lparr>el_votes := 2\<rparr> = snd demo_candidate"
    then have "el_votes ((snd demo_candidate)\<lparr>el_votes := 2\<rparr>) = el_votes (snd demo_candidate)" by (rule arg_cong)
    then show False using facts(1) by simp
  qed
  obtain c2 :: controller where "cc_term c2 = 1" "cc_votedFor c2 = 1" "cc_raft_file c2 = Some (''1'' @ [newline] @ ''1'' @ [newline])"
    using rec ne facts by auto
  then show ?thesis unfolding demo_vote by (intro exI conjI) auto
qed

theorem resent_vote_request_counts_once_witness:
  "\<exists>r link' b' now' timeout' d.
     membership_call \<lparr>mb_self = 1, mb_peers = demo_peers\<rparr> 2 broker_peer (demo_attempt (Handled 5), demo_attempt (Handled 13))
       (request_vote_frame 7 \<lparr>rvreq_term = 1, rvreq_candidateId = 1\<rparr>) None (demo_voter, 0, 0) = (Inr (Some r), link', b', now', timeout') \<and>
     bk_cluster b' = Some ((snd (handle_request_vote (the (bk_cluster demo_voter)) \<lparr>rvreq_term = 1, rvreq_candidateId = 1\<rparr> 0 0))\<lparr>cc_deadline := d\<rparr>) \<and>
     parse decode_request_vote_response (sf_payload r) = Inr \<lparr>rvresp_term = 1, rvresp_voteGranted = True\<rparr>"
proof -
  let ?a = "(demo_attempt (Handled 5), demo_attempt (Handled 13)) :: (broker \<times> u64 \<times> u32) attempt \<times> _"
  let ?req = "\<lparr>rvreq_term = 1, rvreq_candidateId = 1\<rparr>"
  let ?call = "membership_call \<lparr>mb_self = 1, mb_peers = demo_peers\<rparr> 2 broker_peer ?a (request_vote_frame 7 ?req) None (demo_voter, 0, 0)"
  obtain r link' b' now' timeout' where call: "?call = (r, link', b', now', timeout')" by (metis prod_cases5)
  have "case fst ?call of Inr (Some resp) \<Rightarrow> True | _ \<Rightarrow> False" by code_simp
  then obtain resp where resp: "r = Inr (Some resp)" using call by (auto split: sum.splits option.splits)
  have c: "bk_cluster demo_voter = Some (the (bk_cluster demo_voter))" by (simp add: demo_voter_cluster)
  have "fst (handle_request_vote (the (bk_cluster demo_voter)) ?req 0 0) = \<lparr>rvresp_term = 1, rvresp_voteGranted = True\<rparr>" by code_simp
  moreover have "fst (at_meanwhile (fst ?a) (b, n, t)) = b" "fst (at_meanwhile (snd ?a) (b, n, t)) = b" for b n t
    by (simp_all add: demo_attempt_def)
  moreover have "link_clean None" by (simp add: link_clean_def)
  ultimately show ?thesis using resent_vote_request_counts_once [OF c _ _ _ call] resp call by auto
qed

end
