(* ===== verification/Replication.thy ===== *)
theory Replication
  imports Follower
begin

text \<open>
  One partition replicated from its leader: the leader's appends, recomputes and answers, and followers that pull on
  a thread of their own, over connections that break. Events are the sections the code runs under one lock; requests
  and answers may be lost, and a request may be served long after its follower gave up on it.
\<close>

unbundle bit_operations_syntax

section \<open>Runs\<close>

record replication =
  rp_manager :: isr_manager
  rp_parts :: partitions
  rp_replica :: "u32 \<Rightarrow> partition"
  rp_requests :: "replica_fetch_request list"
  rp_responses :: "(nat \<times> bytes) list"
  rp_waiting :: "u32 \<Rightarrow> nat option"
  rp_settled :: bool

datatype rep_event =
    Append "log_record list" u64
  | NoteAppend u64
  | SweepTick u64
  | SendFetch u32
  | ServeFetch nat u64
  | ReceiveFetch nat
  | LoseFetch u32

text \<open>
  What producers may send: encodable batches whose records, with a full answer before them, stay below \<open>2\<^sup>3\<^sup>2\<close> bytes, and
  not more than the offsets can count. \<open>rp_settled\<close> is a history variable: a recompute has run since the last append.
\<close>

definition batch_fits :: "partition \<Rightarrow> log_record list \<Rightarrow> bool" where
  "batch_fits p rs \<longleftrightarrow> batch_ok rs \<and> no_wrap kMaxFetchBytes rs \<and> log_end_offset p + int (length rs) < 2 ^ 63"

definition fetcher_of :: "topic_partition \<Rightarrow> u32 \<Rightarrow> follower_fetcher" where
  "fetcher_of key f = new_follower (fst key) (snd key) f [] 0"

fun rep_step :: "topic_partition \<Rightarrow> rep_event \<Rightarrow> replication \<Rightarrow> replication option" where
  "rep_step key (Append rs ts) s =
     (case map_of (rp_parts s) key of
        None \<Rightarrow> None
      | Some p \<Rightarrow>
          if batch_fits p rs
          then Some (s\<lparr>rp_parts := omap_put key (snd (pt_append p rs ts)) (rp_parts s), rp_settled := False\<rparr>)
          else None)"
| "rep_step key (NoteAppend now) s =
     (let (changed, m, parts) = on_leader_append (rp_manager s) (rp_parts s) key now
      in Some (s\<lparr>rp_manager := m, rp_parts := parts, rp_settled := True\<rparr>))"
| "rep_step key (SweepTick now) s =
     (let (changes, m, parts) = sweep (rp_manager s) (rp_parts s) now
      in Some (s\<lparr>rp_manager := m, rp_parts := parts, rp_settled := True\<rparr>))"
| "rep_step key (SendFetch f) s =
     (if rp_waiting s f = None \<and> f \<noteq> im_selfBrokerId (rp_manager s)
      then Some (s\<lparr>rp_requests := rp_requests s @ [replica_request (fetcher_of key f) (rp_replica s f)],
                   rp_waiting := (rp_waiting s)(f := Some (length (rp_requests s)))\<rparr>)
      else None)"
| "rep_step key (ServeFetch k now) s =
     (if k < length (rp_requests s)
      then (case serve_replica (rp_manager s) (rp_parts s) (rp_requests s ! k) now of
              None \<Rightarrow> None
            | Some (resp, changed, m, parts) \<Rightarrow>
                Some (s\<lparr>rp_manager := m, rp_parts := parts, rp_settled := True,
                        rp_responses := rp_responses s @ [(k, encode_fetch_response [] resp)]\<rparr>))
      else None)"
| "rep_step key (ReceiveFetch n) s =
     (if n < length (rp_responses s)
      then let (k, payload) = rp_responses s ! n;
               f = rfreq_replicaId (rp_requests s ! k)
           in if rp_waiting s f = Some k
              then Some (s\<lparr>rp_replica := (rp_replica s)(f := snd (apply_fetch (rp_replica s f) payload)),
                           rp_waiting := (rp_waiting s)(f := None)\<rparr>)
              else None
      else None)"
| "rep_step key (LoseFetch f) s = Some (s\<lparr>rp_waiting := (rp_waiting s)(f := None)\<rparr>)"

text \<open>A leader of an empty log, as \<open>reconcile_replication\<close> registers it, and followers with empty logs.\<close>

definition rep_init :: "topic_partition \<Rightarrow> u32 \<Rightarrow> u32 list \<Rightarrow> partition \<Rightarrow> replication" where
  "rep_init key self replicas fresh =
     \<lparr>rp_manager = set_leading \<lparr>im_selfBrokerId = self, im_partitions = []\<rparr> key key replicas,
      rp_parts = [(key, fresh)], rp_replica = (\<lambda>_. fresh), rp_requests = [], rp_responses = [],
      rp_waiting = (\<lambda>_. None), rp_settled = True\<rparr>"

inductive rep_reachable :: "topic_partition \<Rightarrow> u32 \<Rightarrow> u32 list \<Rightarrow> partition \<Rightarrow> replication \<Rightarrow> bool"
  for key self replicas fresh where
  init: "rep_reachable key self replicas fresh (rep_init key self replicas fresh)"
| step: "rep_reachable key self replicas fresh s \<Longrightarrow> rep_step key e s = Some s' \<Longrightarrow> rep_reachable key self replicas fresh s'"

section \<open>Answers\<close>

lemma part_inv_records: "part_inv p log \<Longrightarrow> list_all record_ok log \<and> contiguous 0 log"
proof -
  assume "part_inv p log"
  then obtain closed active recss recs where l: "layout p closed active recss recs" and log: "log = concat recss @ recs"
    by (auto simp: part_inv_def)
  have run: "run_inv (pt_files p) 0 (closed @ [active]) (recss @ [recs])"
    using layoutD(1,3,4) [OF l] by (intro closed_run_inv) simp_all
  have "list_all record_ok (concat rss)" if "run_inv fs n segs rss" for fs n segs rss
    using that by (induction fs n segs rss rule: run_inv.induct) (auto simp: seg_inv_def files_inv_def)
  from this [OF run] run_inv_contiguous [OF run] show ?thesis by (simp add: log)
qed

lemma contiguous_drop: "contiguous b xs \<Longrightarrow> contiguous (b + of_nat n) (drop n xs)"
proof (induction xs arbitrary: b n)
  case (Cons x xs)
  then show ?case using Cons.IH [of "b + 1" "n - 1"] by (cases n) (auto simp: ac_simps)
qed simp

lemma contiguous_prefix: "prefix xs ys \<Longrightarrow> contiguous b ys \<Longrightarrow> contiguous b xs"
  by (auto simp: prefix_def contiguous_append)

text \<open>The records of an answer: an encodable, contiguous piece of the leader's log.\<close>

definition chunk :: "log_record list \<Rightarrow> nat \<Rightarrow> log_record list \<Rightarrow> bool" where
  "chunk L n rs \<longleftrightarrow> (\<exists>m. rs = take m (drop n L)) \<and> batch_ok rs \<and> contiguous (of_nat n) rs"

lemma chunk_append: "chunk L n rs \<Longrightarrow> n \<le> length L \<Longrightarrow> chunk (L @ X) n rs"
proof -
  assume a: "chunk L n rs" "n \<le> length L"
  then obtain m where m: "rs = take m (drop n L)" by (auto simp: chunk_def)
  then have "rs = take (length rs) (drop n L)" by (cases "m \<le> length L - n") (simp_all add: min_def)
  moreover have "length rs \<le> length (drop n L)" using m by simp
  ultimately have "rs = take (length rs) (drop n (L @ X))" using a(2) by simp
  then show ?thesis using a(1) unfolding chunk_def by blast
qed

lemma read_chunk:
  assumes inv: "part_inv p L" and nw: "no_wrap M L" and n: "n \<le> length L" and M: "unat M < 2 ^ 31"
  shows "chunk L n (read_up_to_leo p (int n) M)" "length (read_up_to_leo p (int n) M) < 2 ^ 31"
proof -
  let ?rs = "fetch_spec (unat M) (drop n L)"
  have rd: "read_up_to_leo p (int n) M = ?rs"
    unfolding read_up_to_leo_def conjunct2 [OF part_inv_next [OF inv]] read_clamped_spec [OF inv order_refl nw]
    by (simp add: log_slice_def)
  have pre: "prefix ?rs (drop n L)" by (rule fetch_spec_prefix)
  have ok: "list_all record_ok ?rs"
    using part_inv_records [OF inv] set_mono_prefix [OF pre] set_drop_subset [of n L] unfolding list_all_iff by blast
  have "length ?rs < 2 ^ 31 \<and> length (frames ?rs) < 2 ^ 62"
  proof (cases "length (frames ?rs) \<le> unat M")
    case True
    then have "length (frames ?rs) < 2 ^ 31" using M by (rule le_less_trans)
    moreover from this have "length ?rs < 2 ^ 31" using length_frames [of ?rs] by linarith
    ultimately show ?thesis by simp
  next
    case False
    then have "length ?rs = 1" by (intro fetch_spec_alone) simp
    then obtain r where r: "?rs = [r]" by (auto simp: length_Suc_conv)
    then have "record_ok r" using ok by simp
    then show ?thesis by (simp add: r record_ok_def)
  qed
  moreover have "contiguous (of_nat n) ?rs"
    using contiguous_drop [of 0 L n] part_inv_records [OF inv] contiguous_prefix [OF pre] by simp
  moreover have "\<exists>m. ?rs = take m (drop n L)"
    using pre by (metis append_eq_conv_conj prefix_def)
  ultimately show "chunk L n (read_up_to_leo p (int n) M)" "length (read_up_to_leo p (int n) M) < 2 ^ 31"
    using ok by (simp_all add: rd chunk_def batch_ok_def)
qed

lemma apply_contiguous:
  assumes inv: "part_inv q Q" and rs: "batch_ok rs" "contiguous (of_nat (length Q)) rs" "length rs < 2 ^ 31" "length Q + length rs < 2 ^ 63"
    and payload: "payload = encode_fetch_response [] \<lparr>fresp_errorCode = NoError, fresp_highWatermark = hw, fresp_records = rs,
       fresp_leaderHost = [], fresp_leaderPort = 0\<rparr>"
  shows "part_inv (snd (apply_fetch q payload)) (Q @ rs)"
proof -
  let ?resp = "\<lparr>fresp_errorCode = NoError, fresp_highWatermark = hw, fresp_records = rs, fresp_leaderHost = [], fresp_leaderPort = 0\<rparr>"
  have ok: "fetch_response_ok ?resp"
    using rs by (simp add: fetch_response_ok_def list_ok_def string_ok_def batch_ok_def)
  obtain r where d: "decode_fetch_response (mk_reader payload) = Inr (?resp, r)"
    using fetch_response.roundtrip [OF ok, of "[]"] by (simp add: payload)
  have "part_inv (append_replicated q rs) (Q @ rs)" by (rule append_replicated_inv(1) [OF inv rs(1,2,4)])
  then show ?thesis using inv by (cases "rs = []") (simp_all add: apply_fetch_def d)
qed

lemma apply_chunk:
  assumes inv: "part_inv q (take n L)" and n: "n \<le> length L" and c: "chunk L n rs" and b: "length L < 2 ^ 63"
    and len: "length rs < 2 ^ 31"
    and payload: "payload = encode_fetch_response [] \<lparr>fresp_errorCode = NoError, fresp_highWatermark = hw, fresp_records = rs,
       fresp_leaderHost = [], fresp_leaderPort = 0\<rparr>"
  shows "part_inv (snd (apply_fetch q payload)) (take (n + length rs) L)"
proof -
  obtain m where m: "rs = take m (drop n L)" using c by (auto simp: chunk_def)
  have split: "take (n + length rs) L = take n L @ rs"
    unfolding take_add by (cases "m \<le> length L - n") (simp_all add: m min_def)
  have "length (take n L @ rs) \<le> length L" unfolding split [symmetric] by simp
  then have "length (take n L) + length rs < 2 ^ 63" using b by simp
  moreover have "batch_ok rs" "contiguous (of_nat (length (take n L))) rs" using c n by (simp_all add: chunk_def)
  ultimately show ?thesis unfolding split using apply_contiguous [OF inv _ _ len _ payload] by simp
qed

section \<open>The invariant\<close>

definition leader_at :: "topic_partition \<Rightarrow> u32 \<Rightarrow> replication \<Rightarrow> partition_state \<Rightarrow> partition \<Rightarrow> bool" where
  "leader_at key self s st p \<longleftrightarrow> im_selfBrokerId (rp_manager s) = self \<and> im_partitions (rp_manager s) = [(key, st)] \<and>
     ps_partition st = Some key \<and> map_of (rp_parts s) key = Some p"

definition replicas_ok :: "replication \<Rightarrow> log_record list \<Rightarrow> bool" where
  "replicas_ok s L \<longleftrightarrow> (\<forall>f. \<exists>n \<le> length L. part_inv (rp_replica s f) (take n L))"

definition replica_end :: "replication \<Rightarrow> u32 \<Rightarrow> i64" where
  "replica_end s f = log_end_offset (rp_replica s f)"

definition progress_ok :: "u32 \<Rightarrow> replication \<Rightarrow> partition_state \<Rightarrow> bool" where
  "progress_ok self s st \<longleftrightarrow>
     (\<forall>f off. map_of (ps_followerProgress st) f = Some off \<longrightarrow> int (unat off) \<le> replica_end s f)"

definition settled_ok :: "u32 \<Rightarrow> replication \<Rightarrow> partition_state \<Rightarrow> partition \<Rightarrow> bool" where
  "settled_ok self s st p \<longleftrightarrow>
     (rp_settled s \<longrightarrow> (\<forall>f \<in> set (ps_isr st). f \<noteq> self \<longrightarrow> high_watermark p \<le> replica_end s f))"

definition requests_ok :: "topic_partition \<Rightarrow> replication \<Rightarrow> bool" where
  "requests_ok key s \<longleftrightarrow> (\<forall>req \<in> set (rp_requests s). (rfreq_topic req, rfreq_partitionId req) = key \<and>
     rfreq_maxBytes req = kMaxFetchBytes \<and> int (unat (rfreq_fetchOffset req)) \<le> replica_end s (rfreq_replicaId req))"

definition answer_to :: "log_record list \<Rightarrow> replica_fetch_request \<Rightarrow> bytes \<Rightarrow> bool" where
  "answer_to L req payload \<longleftrightarrow> (\<exists>hw rs. payload = encode_fetch_response [] \<lparr>fresp_errorCode = NoError, fresp_highWatermark = hw,
       fresp_records = rs, fresp_leaderHost = [], fresp_leaderPort = 0\<rparr> \<and>
     chunk L (unat (rfreq_fetchOffset req)) rs \<and> length rs < 2 ^ 31)"

definition responses_ok :: "replication \<Rightarrow> log_record list \<Rightarrow> bool" where
  "responses_ok s L \<longleftrightarrow>
     (\<forall>(k, payload) \<in> set (rp_responses s). k < length (rp_requests s) \<and> answer_to L (rp_requests s ! k) payload)"

definition waiting_ok :: "replication \<Rightarrow> bool" where
  "waiting_ok s \<longleftrightarrow> (\<forall>f k. rp_waiting s f = Some k \<longrightarrow> k < length (rp_requests s) \<and>
     rfreq_replicaId (rp_requests s ! k) = f \<and> int (unat (rfreq_fetchOffset (rp_requests s ! k))) = replica_end s f)"

definition rep_inv :: "topic_partition \<Rightarrow> u32 \<Rightarrow> replication \<Rightarrow> log_record list \<Rightarrow> bool" where
  "rep_inv key self s L \<longleftrightarrow> (\<exists>st p. leader_at key self s st p \<and> part_inv p L \<and> progress_ok self s st \<and> settled_ok self s st p) \<and>
     no_wrap kMaxFetchBytes L \<and> replicas_ok s L \<and> requests_ok key s \<and> responses_ok s L \<and> waiting_ok s"

lemma replica_bounds:
  assumes "replicas_ok s L" "length L < 2 ^ 63"
  shows "0 \<le> replica_end s f" "replica_end s f \<le> int (length L)" "replica_end s f < 2 ^ 63"
proof -
  obtain n where n: "n \<le> length L" "part_inv (rp_replica s f) (take n L)" using assms(1) unfolding replicas_ok_def by blast
  have "replica_end s f = int n" unfolding replica_end_def part_inv_leo [OF n(2)] using n(1) by simp
  then show "0 \<le> replica_end s f" "replica_end s f \<le> int (length L)" "replica_end s f < 2 ^ 63" using n(1) assms(2) by simp_all
qed

lemma recompute_settles:
  assumes l: "ps_partition st = Some key" "map_of parts key = Some p" and inv: "part_inv p L"
    and prog: "progress_ok self s st" and r: "recompute self st parts now = (changed, st', parts')"
  shows "\<exists>h. st' = st\<lparr>ps_isr := ps_isr st'\<rparr> \<and> parts' = omap_put key (set_high_watermark p h) parts \<and>
    (\<forall>f \<in> set (ps_isr st'). f \<noteq> self \<longrightarrow> h \<le> replica_end s f)"
proof -
  define leo where "leo = (word_of_int (log_end_offset p) :: u64)"
  define isr where "isr = sort (filter (in_sync self leo now st) (ps_replicas st))"
  define hwm where "hwm = isr_hwm self leo st isr"
  note rc = recompute_cases [OF r l, folded leo_def, folded isr_def, folded hwm_def]
  have leo: "leo = of_nat (length L)" unfolding leo_def part_inv_leo [OF inv] by simp
  have b: "length L < 2 ^ 63" by (rule part_inv_bound [OF inv])
  then have "length L < 2 ^ 64" by simp
  then have "unat leo = length L" unfolding leo by (rule unat_of_nat_u64)
  moreover have "hwm \<le> leo" unfolding hwm_def by (rule isr_hwm_bounds(1))
  ultimately have h63: "unat hwm < 2 ^ 63" using b by (simp add: word_le_nat_alt)
  have "sint hwm \<le> replica_end s f" if "f \<in> set isr" "f \<noteq> self" for f
  proof -
    have "in_sync self leo now st f" using that(1) by (simp add: isr_def)
    then obtain off where off: "map_of (ps_followerProgress st) f = Some off" using \<open>f \<noteq> self\<close> by (rule in_syncD)
    have "hwm \<le> off" using isr_hwm_bounds(2) [OF that, of leo st] by (simp add: off hwm_def)
    then have "int (unat hwm) \<le> int (unat off)" unfolding of_nat_le_iff word_le_nat_alt .
    also have "\<dots> \<le> replica_end s f" using prog off by (simp add: progress_ok_def)
    finally show ?thesis unfolding sint_small_u64 [OF h63] .
  qed
  then show ?thesis using rc(1,2) by (intro exI [of _ "sint hwm"]) simp
qed

section \<open>Every event keeps the invariant\<close>

text \<open>A recompute of the led partition, after which the run is settled.\<close>

lemma recompute_inv:
  assumes inv: "rep_inv key self s L" and l: "leader_at key self s st p"
    and prog: "progress_ok self s st1" and st1: "ps_partition st1 = Some key"
    and r: "recompute self st1 (rp_parts s) now = (changed, st', parts')"
    and s': "im_partitions m' = [(key, st')]" "im_selfBrokerId m' = self"
  shows "rep_inv key self (s\<lparr>rp_manager := m', rp_parts := parts', rp_settled := True\<rparr>) L"
proof -
  let ?s' = "s\<lparr>rp_manager := m', rp_parts := parts', rp_settled := True\<rparr>"
  have p: "map_of (rp_parts s) key = Some p" using l by (simp add: leader_at_def)
  obtain st0 p0 where "leader_at key self s st0 p0" "part_inv p0 L"
    and rest: "no_wrap kMaxFetchBytes L" "replicas_ok s L" "requests_ok key s" "responses_ok s L" "waiting_ok s"
    using inv unfolding rep_inv_def by blast
  then have pL: "part_inv p L" using p by (simp add: leader_at_def)
  obtain h where h: "st' = st1\<lparr>ps_isr := ps_isr st'\<rparr>" "parts' = omap_put key (set_high_watermark p h) (rp_parts s)"
    "\<forall>f \<in> set (ps_isr st'). f \<noteq> self \<longrightarrow> h \<le> replica_end s f"
    using recompute_settles [OF st1 p pL prog r] by blast
  have st': "ps_partition st' = Some key" "ps_followerProgress st' = ps_followerProgress st1"
    by (subst h(1), simp add: st1)+
  have same: "replica_end ?s' = replica_end s" by (simp add: fun_eq_iff replica_end_def)
  have "leader_at key self ?s' st' (set_high_watermark p h)" using s' st' h(2) by (simp add: leader_at_def)
  moreover have "part_inv (set_high_watermark p h) L" using pL by (simp add: set_high_watermark_def)
  moreover have "progress_ok self ?s' st'" using prog by (simp add: progress_ok_def same st')
  moreover have "settled_ok self ?s' st' (set_high_watermark p h)"
    using h(3) by (simp add: settled_ok_def same high_watermark_def set_high_watermark_def)
  moreover have "replicas_ok ?s' L" "requests_ok key ?s'" "responses_ok ?s' L" "waiting_ok ?s'"
    using rest by (simp_all add: replicas_ok_def requests_ok_def responses_ok_def waiting_ok_def same)
  ultimately show ?thesis using rest(1) unfolding rep_inv_def by blast
qed

lemma note_append_inv:
  assumes inv: "rep_inv key self s L" and st: "rep_step key (NoteAppend now) s = Some s'"
  shows "rep_inv key self s' L"
proof -
  obtain st p where l: "leader_at key self s st p" "progress_ok self s st" using inv unfolding rep_inv_def by blast
  obtain changed st' parts' where r: "recompute self st (rp_parts s) now = (changed, st', parts')" by (metis prod_cases3)
  have "s' = s\<lparr>rp_manager := (rp_manager s)\<lparr>im_partitions := [(key, st')]\<rparr>, rp_parts := parts', rp_settled := True\<rparr>"
    using st l(1) r by (auto simp: on_leader_append_def leader_at_def)
  then show ?thesis
    using recompute_inv [OF inv l _ r, of "(rp_manager s)\<lparr>im_partitions := [(key, st')]\<rparr>"] l(1) by (simp add: leader_at_def)
qed

lemma sweep_inv:
  assumes inv: "rep_inv key self s L" and st: "rep_step key (SweepTick now) s = Some s'"
  shows "rep_inv key self s' L"
proof -
  obtain st p where l: "leader_at key self s st p" "progress_ok self s st" using inv unfolding rep_inv_def by blast
  obtain changed st' parts' where r: "recompute self st (rp_parts s) now = (changed, st', parts')" by (metis prod_cases3)
  have "s' = s\<lparr>rp_manager := (rp_manager s)\<lparr>im_partitions := [(key, st')]\<rparr>, rp_parts := parts', rp_settled := True\<rparr>"
    using st l(1) r by (auto simp: sweep_def leader_at_def)
  then show ?thesis
    using recompute_inv [OF inv l _ r, of "(rp_manager s)\<lparr>im_partitions := [(key, st')]\<rparr>"] l(1) by (simp add: leader_at_def)
qed

lemma no_wrap_stamped:
  assumes "no_wrap M rs" "stamp_records n ts rs = (rs', n')"
  shows "no_wrap M rs'"
  using assms
proof (induction n ts rs arbitrary: rs' n' rule: stamp_records.induct)
  case (2 n ts r rs)
  obtain rs1 n1 where s: "stamp_records (n + 1) ts rs = (rs1, n1)" by fastforce
  have "no_wrap M rs1" using "2.IH" [OF _ s] "2.prems"(1) by (simp add: no_wrap_def)
  then show ?case using "2.prems" s by (auto simp: no_wrap_def frame_size_def)
qed simp

lemma append_inv:
  assumes inv: "rep_inv key self s L" and st: "rep_step key (Append rs ts) s = Some s'"
  shows "\<exists>rs'. rep_inv key self s' (L @ rs')"
proof -
  obtain ps p where l: "leader_at key self s ps p" "part_inv p L" "progress_ok self s ps"
    and rest: "no_wrap kMaxFetchBytes L" "replicas_ok s L" "requests_ok key s" "responses_ok s L" "waiting_ok s"
    using inv unfolding rep_inv_def by blast
  have p: "map_of (rp_parts s) key = Some p" using l(1) by (simp add: leader_at_def)
  have fits: "batch_fits p rs" and s': "s' = s\<lparr>rp_parts := omap_put key (snd (pt_append p rs ts)) (rp_parts s), rp_settled := False\<rparr>"
    using st p by (auto split: if_splits)
  have "int (length L + length rs) < int (2 ^ 63)" using fits unfolding batch_fits_def part_inv_leo [OF l(2)] by simp
  then have len: "length L + length rs < 2 ^ 63" unfolding of_nat_less_iff .
  obtain rs' n' where sr: "stamp_records (of_nat (length L)) ts rs = (rs', n')" by fastforce
  obtain p' where p': "pt_append p rs ts = (int (length L), p')" "part_inv p' (L @ rs')"
    using pt_append_inv [OF l(2) _ len, of ts] fits sr by (auto simp: batch_fits_def)
  have same: "replica_end s' = replica_end s" by (simp add: fun_eq_iff replica_end_def s')
  have "leader_at key self s' ps p'" using l(1) p'(1) by (simp add: leader_at_def s')
  moreover have "progress_ok self s' ps" "settled_ok self s' ps p'"
    using l(3) by (simp_all add: progress_ok_def settled_ok_def same) (simp add: s')
  moreover have "no_wrap kMaxFetchBytes (L @ rs')"
    using rest(1) no_wrap_stamped [OF _ sr] fits by (auto simp: no_wrap_def batch_fits_def)
  moreover have "replicas_ok s' (L @ rs')"
    unfolding replicas_ok_def
  proof
    fix f
    obtain n where "n \<le> length L" "part_inv (rp_replica s f) (take n L)" using rest(2) unfolding replicas_ok_def by blast
    then show "\<exists>n \<le> length (L @ rs'). part_inv (rp_replica s' f) (take n (L @ rs'))" by (intro exI [of _ n]) (simp add: s')
  qed
  moreover have "answer_to (L @ rs') req payload" if "req \<in> set (rp_requests s)" "answer_to L req payload" for req payload
  proof -
    have "int (unat (rfreq_fetchOffset req)) \<le> int (length L)"
      using rest(3) that(1) replica_bounds(2) [OF rest(2) part_inv_bound [OF l(2)]] unfolding requests_ok_def by (meson order_trans)
    then have n: "unat (rfreq_fetchOffset req) \<le> length L" unfolding of_nat_le_iff .
    show ?thesis using that(2) chunk_append [OF _ n] unfolding answer_to_def by blast
  qed
  then have "responses_ok s' (L @ rs')" using rest(4) by (auto simp: responses_ok_def s')
  moreover have "requests_ok key s'" "waiting_ok s'"
    using rest(3,5) by (simp_all add: requests_ok_def waiting_ok_def same) (simp_all add: s')
  ultimately show ?thesis using p'(2) unfolding rep_inv_def by blast
qed

lemma replica_request_fields [simp]:
  "(rfreq_topic (replica_request (fetcher_of key f) q), rfreq_partitionId (replica_request (fetcher_of key f) q)) = key"
  "rfreq_replicaId (replica_request (fetcher_of key f) q) = f" "rfreq_maxBytes (replica_request (fetcher_of key f) q) = kMaxFetchBytes"
  "rfreq_fetchOffset (replica_request (fetcher_of key f) q) = word_of_int (log_end_offset q)"
  by (simp_all add: replica_request_def fetcher_of_def new_follower_def)

lemma unat_word_of_leo: "0 \<le> i \<Longrightarrow> i < 2 ^ 63 \<Longrightarrow> int (unat (word_of_int i :: u64)) = i"
  by (simp add: uint_word_of_int take_bit_int_eq_self)

lemma send_inv:
  assumes inv: "rep_inv key self s L" and st: "rep_step key (SendFetch f) s = Some s'"
  shows "rep_inv key self s' L"
proof -
  obtain ps p where l: "leader_at key self s ps p" "part_inv p L" "progress_ok self s ps" "settled_ok self s ps p"
    and rest: "no_wrap kMaxFetchBytes L" "replicas_ok s L" "requests_ok key s" "responses_ok s L" "waiting_ok s"
    using inv unfolding rep_inv_def by blast
  let ?req = "replica_request (fetcher_of key f) (rp_replica s f)"
  have s': "s' = s\<lparr>rp_requests := rp_requests s @ [?req], rp_waiting := (rp_waiting s)(f := Some (length (rp_requests s)))\<rparr>"
    using st by (auto split: if_splits)
  have same: "replica_end s' = replica_end s" by (simp add: fun_eq_iff replica_end_def s')
  have off: "int (unat (rfreq_fetchOffset ?req)) = replica_end s f"
    unfolding replica_request_fields replica_end_def
    by (rule unat_word_of_leo) (use replica_bounds [OF rest(2) part_inv_bound [OF l(2)], of f] in \<open>simp_all add: replica_end_def\<close>)
  have "leader_at key self s' ps p" "progress_ok self s' ps" "settled_ok self s' ps p" "replicas_ok s' L"
    using l rest(2) by (simp_all add: leader_at_def progress_ok_def settled_ok_def replicas_ok_def same) (simp_all add: s')
  moreover have "requests_ok key s'"
    using rest(3) off unfolding requests_ok_def same by (auto simp: s')
  moreover have "responses_ok s' L" using rest(4) by (auto simp: responses_ok_def s' nth_append)
  moreover have "waiting_ok s'"
    using rest(5) off unfolding waiting_ok_def same by (auto simp: s' nth_append less_SucI)
  ultimately show ?thesis using l(2) rest(1) unfolding rep_inv_def by blast
qed

lemma serve_inv:
  assumes inv: "rep_inv key self s L" and st: "rep_step key (ServeFetch k now) s = Some s'"
  shows "rep_inv key self s' L"
proof -
  obtain ps p where l: "leader_at key self s ps p" "part_inv p L" "progress_ok self s ps"
    and rest: "no_wrap kMaxFetchBytes L" "replicas_ok s L" "requests_ok key s" "responses_ok s L" "waiting_ok s"
    using inv unfolding rep_inv_def by blast
  let ?req = "rp_requests s ! k"
  have k: "k < length (rp_requests s)" using st by (auto split: if_splits)
  have req: "(rfreq_topic ?req, rfreq_partitionId ?req) = key" "rfreq_maxBytes ?req = kMaxFetchBytes"
    "int (unat (rfreq_fetchOffset ?req)) \<le> replica_end s (rfreq_replicaId ?req)"
    using rest(3) nth_mem [OF k] unfolding requests_ok_def by blast+
  define st1 where "st1 = ps\<lparr>ps_followerProgress := omap_put (rfreq_replicaId ?req) (rfreq_fetchOffset ?req) (ps_followerProgress ps),
     ps_lastFetchMs := omap_put (rfreq_replicaId ?req) now (ps_lastFetchMs ps)\<rparr>"
  obtain changed st' parts' where r: "recompute self st1 (rp_parts s) now = (changed, st', parts')" by (metis prod_cases3)
  let ?m = "(rp_manager s)\<lparr>im_partitions := [(key, st')]\<rparr>"
  let ?s1 = "s\<lparr>rp_manager := ?m, rp_parts := parts', rp_settled := True\<rparr>"
  have prog: "progress_ok self s st1" "ps_partition st1 = Some key"
    using l(1,3) req(3) by (auto simp: progress_ok_def leader_at_def st1_def)
  have inv1: "rep_inv key self ?s1 L"
    by (rule recompute_inv [OF inv l(1) prog r]) (use l(1) in \<open>simp_all add: leader_at_def\<close>)
  then obtain st2 p2 where p2: "leader_at key self ?s1 st2 p2" unfolding rep_inv_def by blast
  then have look: "map_of parts' key = Some p2" by (simp add: leader_at_def)
  define rs where "rs = read_up_to_leo p (sint (rfreq_fetchOffset ?req)) kMaxFetchBytes"
  define payload where "payload = encode_fetch_response [] \<lparr>fresp_errorCode = NoError, fresp_highWatermark = word_of_int (high_watermark p2),
     fresp_records = rs, fresp_leaderHost = [], fresp_leaderPort = 0\<rparr>"
  have of_r: "on_replica_fetch (rp_manager s) (rp_parts s) key (rfreq_replicaId ?req) (rfreq_fetchOffset ?req) now = (changed, ?m, parts')"
    using l(1) r by (simp add: on_replica_fetch_def leader_at_def st1_def Let_def)
  have sv: "serve_replica (rp_manager s) (rp_parts s) ?req now = Some (\<lparr>fresp_errorCode = NoError,
       fresp_highWatermark = word_of_int (high_watermark p2), fresp_records = rs, fresp_leaderHost = [], fresp_leaderPort = 0\<rparr>, changed, ?m, parts')"
    using l(1) of_r look unfolding serve_replica_def req(1) Let_def by (simp add: leader_at_def rs_def req(2))
  have s': "s' = ?s1\<lparr>rp_responses := rp_responses s @ [(k, payload)]\<rparr>"
    using st k sv by (simp add: payload_def)
  have b: "length L < 2 ^ 63" by (rule part_inv_bound [OF l(2)])
  have "int (unat (rfreq_fetchOffset ?req)) \<le> int (length L)"
    using req(3) replica_bounds(2) [OF rest(2) b] by (rule order_trans)
  then have n: "unat (rfreq_fetchOffset ?req) \<le> length L" unfolding of_nat_le_iff .
  then have "unat (rfreq_fetchOffset ?req) < 2 ^ 63" using b by simp
  then have si: "sint (rfreq_fetchOffset ?req) = int (unat (rfreq_fetchOffset ?req))" by (rule sint_small_u64)
  have ans: "answer_to L ?req payload"
    using read_chunk [OF l(2) rest(1) n] unfolding answer_to_def payload_def rs_def si by (auto simp: kMaxFetchBytes_def)
  have same: "replica_end s' = replica_end ?s1" by (simp add: fun_eq_iff replica_end_def s')
  from inv1 obtain st3 p3 where l3: "leader_at key self ?s1 st3 p3" "part_inv p3 L" "progress_ok self ?s1 st3" "settled_ok self ?s1 st3 p3"
    and rest3: "replicas_ok ?s1 L" "requests_ok key ?s1" "responses_ok ?s1 L" "waiting_ok ?s1"
    unfolding rep_inv_def by blast
  have "leader_at key self s' st3 p3" "progress_ok self s' st3" "settled_ok self s' st3 p3" "replicas_ok s' L" "requests_ok key s'" "waiting_ok s'"
    using l3 rest3 unfolding leader_at_def progress_ok_def settled_ok_def replicas_ok_def requests_ok_def waiting_ok_def same
    by (simp_all add: s')
  moreover have "responses_ok s' L" using rest3(3) ans k by (auto simp: responses_ok_def s')
  ultimately show ?thesis using l3(2) rest(1) unfolding rep_inv_def by blast
qed

lemma receive_inv:
  assumes inv: "rep_inv key self s L" and st: "rep_step key (ReceiveFetch i) s = Some s'"
  shows "rep_inv key self s' L"
proof -
  obtain ps p where l: "leader_at key self s ps p" "part_inv p L" "progress_ok self s ps" "settled_ok self s ps p"
    and rest: "no_wrap kMaxFetchBytes L" "replicas_ok s L" "requests_ok key s" "responses_ok s L" "waiting_ok s"
    using inv unfolding rep_inv_def by blast
  obtain k payload where m: "rp_responses s ! i = (k, payload)" by fastforce
  let ?req = "rp_requests s ! k"
  let ?f = "rfreq_replicaId ?req"
  have i: "i < length (rp_responses s)" and w: "rp_waiting s ?f = Some k"
    and s': "s' = s\<lparr>rp_replica := (rp_replica s)(?f := snd (apply_fetch (rp_replica s ?f) payload)), rp_waiting := (rp_waiting s)(?f := None)\<rparr>"
    using st m by (auto simp: Let_def split: if_splits)
  have ans: "answer_to L ?req payload" using rest(4) nth_mem [OF i] unfolding responses_ok_def m by blast
  then obtain hw rs where payload: "payload = encode_fetch_response [] \<lparr>fresp_errorCode = NoError, fresp_highWatermark = hw,
       fresp_records = rs, fresp_leaderHost = [], fresp_leaderPort = 0\<rparr>" "chunk L (unat (rfreq_fetchOffset ?req)) rs" "length rs < 2 ^ 31"
    unfolding answer_to_def by blast
  obtain n where n: "n \<le> length L" "part_inv (rp_replica s ?f) (take n L)" using rest(2) unfolding replicas_ok_def by blast
  have e: "replica_end s ?f = int n" unfolding replica_end_def part_inv_leo [OF n(2)] using n(1) by simp
  have "int (unat (rfreq_fetchOffset ?req)) = int n" using rest(5) w unfolding waiting_ok_def e [symmetric] by blast
  then have off: "unat (rfreq_fetchOffset ?req) = n" unfolding of_nat_eq_iff .
  have new: "part_inv (rp_replica s' ?f) (take (n + length rs) L)"
    using apply_chunk [OF n(2,1) payload(2) [unfolded off] part_inv_bound [OF l(2)] payload(3,1)] by (simp add: s')
  have old: "rp_replica s' g = rp_replica s g" if "g \<noteq> ?f" for g using that by (simp add: s')
  have grow: "replica_end s g \<le> replica_end s' g" for g
  proof (cases "g = ?f")
    case True
    have "replica_end s' ?f = int (length (take (n + length rs) L))" unfolding replica_end_def by (rule part_inv_leo [OF new])
    then show ?thesis using True e n(1) by simp
  qed (simp add: replica_end_def old)
  have reps: "replicas_ok s' L"
    unfolding replicas_ok_def
  proof
    fix g
    show "\<exists>n \<le> length L. part_inv (rp_replica s' g) (take n L)"
    proof (cases "g = ?f")
      case True
      have "take (n + length rs) L = take (min (n + length rs) (length L)) L" by (simp add: min_def)
      then show ?thesis using new True by (intro exI [of _ "min (n + length rs) (length L)"]) simp
    next
      case False
      then show ?thesis using rest(2) old unfolding replicas_ok_def by metis
    qed
  qed
  have "leader_at key self s' ps p" using l(1) by (simp add: leader_at_def s')
  moreover have "progress_ok self s' ps"
    using l(3) grow unfolding progress_ok_def by (meson order_trans)
  moreover have "settled_ok self s' ps p"
    using l(4) grow unfolding settled_ok_def by (simp add: s') (meson order_trans)
  moreover have "requests_ok key s'" using rest(3) grow unfolding requests_ok_def by (simp add: s') (meson order_trans)
  moreover have "responses_ok s' L" using rest(4) by (simp add: responses_ok_def s')
  moreover have "waiting_ok s'" using rest(5) old unfolding waiting_ok_def replica_end_def by (simp add: s')
  ultimately show ?thesis using l(2) rest(1) reps unfolding rep_inv_def by blast
qed

lemma lose_inv:
  assumes inv: "rep_inv key self s L" and st: "rep_step key (LoseFetch f) s = Some s'"
  shows "rep_inv key self s' L"
proof -
  have s': "s' = s\<lparr>rp_waiting := (rp_waiting s)(f := None)\<rparr>" using st by simp
  have same: "replica_end s' = replica_end s" by (simp add: fun_eq_iff replica_end_def s')
  have "leader_at key self s' = leader_at key self s" "progress_ok self s' = progress_ok self s"
    "settled_ok self s' = settled_ok self s" "replicas_ok s' = replicas_ok s" "requests_ok key s' = requests_ok key s"
    "responses_ok s' = responses_ok s"
    unfolding leader_at_def progress_ok_def settled_ok_def replicas_ok_def requests_ok_def responses_ok_def same
    by (simp_all add: s')
  moreover have "waiting_ok s \<Longrightarrow> waiting_ok s'" unfolding waiting_ok_def same by (simp add: s')
  ultimately show ?thesis using inv unfolding rep_inv_def by simp
qed

lemma rep_step_inv:
  assumes inv: "rep_inv key self s L" and st: "rep_step key e s = Some s'"
  shows "\<exists>rs. rep_inv key self s' (L @ rs)"
proof -
  have keep: ?thesis if "rep_inv key self s' L" using that by (metis append_Nil2)
  show ?thesis
  proof (cases e)
    case (Append rs ts)
    then show ?thesis using append_inv [OF inv] st by blast
  qed (use note_append_inv [OF inv] sweep_inv [OF inv] send_inv [OF inv] serve_inv [OF inv] receive_inv [OF inv]
      lose_inv [OF inv] st keep in blast)+
qed

lemma rep_init_inv:
  assumes "part_inv fresh []" "high_watermark fresh = 0"
  shows "rep_inv key self (rep_init key self replicas fresh) []"
proof -
  let ?s = "rep_init key self replicas fresh"
  obtain st where st: "rp_manager ?s = \<lparr>im_selfBrokerId = self, im_partitions = [(key, st)]\<rparr>" "ps_partition st = Some key"
    "ps_followerProgress st = []"
    by (simp add: rep_init_def set_leading_def empty_partition_state_def Let_def)
  have e: "replica_end ?s f = 0" for f using part_inv_leo [OF assms(1)] by (simp add: replica_end_def rep_init_def)
  have "leader_at key self ?s st fresh" using st by (simp add: leader_at_def) (simp add: rep_init_def)
  moreover have "progress_ok self ?s st" "settled_ok self ?s st fresh"
    using st(3) assms(2) e by (simp_all add: progress_ok_def settled_ok_def)
  moreover have "no_wrap kMaxFetchBytes []" by (simp add: no_wrap_def)
  moreover have "replicas_ok ?s []" "requests_ok key ?s" "responses_ok ?s []" "waiting_ok ?s"
    using assms(1) by (simp_all add: replicas_ok_def requests_ok_def responses_ok_def waiting_ok_def rep_init_def)
  ultimately show ?thesis using assms(1) unfolding rep_inv_def by blast
qed

lemma rep_reachable_inv:
  assumes "rep_reachable key self replicas fresh s" "part_inv fresh []" "high_watermark fresh = 0"
  shows "\<exists>L. rep_inv key self s L"
  using assms
proof (induction rule: rep_reachable.induct)
  case init
  then show ?case using rep_init_inv by blast
next
  case (step s e s')
  then show ?case using rep_step_inv by blast
qed

text \<open>What a settled run gives: an in-sync follower holds everything below the high watermark.\<close>

lemma settled_held:
  assumes inv: "rep_inv key self s L"
    and "rp_settled s" "hwm_passed (rp_manager s) (rp_parts s) key offset" "f \<in> set (isr_for (rp_manager s) key)" "f \<noteq> self"
  shows "\<exists>p n. map_of (rp_parts s) key = Some p \<and> part_inv p L \<and> part_inv (rp_replica s f) (take n L) \<and> offset < int n \<and>
    high_watermark p \<le> int n \<and> n \<le> length L"
proof -
  obtain st p where l: "leader_at key self s st p" "part_inv p L" "settled_ok self s st p" and reps: "replicas_ok s L"
    using inv unfolding rep_inv_def by blast
  obtain n where n: "n \<le> length L" "part_inv (rp_replica s f) (take n L)" using reps unfolding replicas_ok_def by blast
  have "f \<in> set (ps_isr st)" and hw: "offset < high_watermark p"
    using l(1) assms(3,4) by (simp_all add: leader_at_def isr_for_def hwm_passed_def)
  then have "high_watermark p \<le> replica_end s f" using l(3) assms(2,5) by (simp add: settled_ok_def)
  also have "replica_end s f = int n" unfolding replica_end_def part_inv_leo [OF n(2)] using n(1) by simp
  finally have le: "high_watermark p \<le> int n" .
  have "map_of (rp_parts s) key = Some p" using l(1) by (simp add: leader_at_def)
  then show ?thesis using l(2) n le hw by (intro exI [of _ p] exI [of _ n]) simp
qed

end
