(* ===== verification/ReplicationProps.thy ===== *)
theory ReplicationProps
  imports Replication SamplePartition
begin

text \<open>
  The properties of replication: followers hold prefixes of the leader's log, a settled high watermark is held by
  every in-sync replica, and the two windows in which that does not help a producer or a consumer.
\<close>

unbundle bit_operations_syntax

section \<open>Sample runs\<close>

fun rep_run :: "topic_partition \<Rightarrow> rep_event list \<Rightarrow> replication \<Rightarrow> replication option" where
  "rep_run key [] s = Some s"
| "rep_run key (e # es) s = (case rep_step key e s of None \<Rightarrow> None | Some s' \<Rightarrow> rep_run key es s')"

lemma rep_run_reachable:
  "rep_reachable key self replicas fresh s \<Longrightarrow> rep_run key es s = Some s' \<Longrightarrow> rep_reachable key self replicas fresh s'"
  by (induction es arbitrary: s) (auto intro: rep_reachable.step split: option.splits)

abbreviation demo_key :: topic_partition where "demo_key \<equiv> (''t'', 0)"

definition demo_rep :: replication where
  "demo_rep = rep_init demo_key 1 [1, 2] demo_fresh"

lemma demo_fresh_ends: "log_end_offset demo_fresh = 0" "high_watermark demo_fresh = 0"
proof -
  show "log_end_offset demo_fresh = 0" using part_inv_leo [OF demo_fresh(1)] by simp
  show "high_watermark demo_fresh = 0" using recover_fresh [of 4096] by (auto simp: demo_fresh_def high_watermark_def)
qed

lemma demo_fits: "log_end_offset p < 1000 \<Longrightarrow> batch_fits p demo_records"
  using demo_batch(1,2) by (simp add: batch_fits_def no_wrap_def demo_records_def kMaxFetchBytes_def frame_size_def)

lemma demo_append:
  assumes "part_inv p log" "length log < 1000"
  shows "\<exists>rs'. part_inv (snd (pt_append p demo_records ts)) (log @ rs') \<and> length rs' = 2 \<and>
    log_end_offset (snd (pt_append p demo_records ts)) = int (length log) + 2 \<and>
    high_watermark (snd (pt_append p demo_records ts)) = int (length log) + 2"
proof -
  obtain rs' n' where s: "stamp_records (of_nat (length log)) ts demo_records = (rs', n')" by fastforce
  have len: "length rs' = 2" using stamp_records [OF s] demo_batch(2) by simp
  obtain p' where p': "pt_append p demo_records ts = (int (length log), p')" "part_inv p' (log @ rs')"
    "pt_hwm p' = int (length (log @ rs'))"
    using pt_append_inv [OF assms(1) demo_batch(1), of ts] assms(2) demo_batch(2,3) s by auto
  then show ?thesis using part_inv_leo [OF p'(2)] len by (intro exI [of _ rs']) (simp add: high_watermark_def)
qed

text \<open>
  Broker 2 has asked for offset 0 and got an empty answer; the leader appends twice and clamps the high watermark
  after the first batch only.
\<close>

definition demo_two_appends :: "rep_event list" where
  "demo_two_appends = [SendFetch 2, ServeFetch 0 1000, Append demo_records 7, NoteAppend 1001, Append demo_records 8]"

text \<open>Broker 2 has asked for nothing yet when the leader appends; then its first request comes.\<close>

definition demo_late_follower :: "rep_event list" where
  "demo_late_follower = [Append demo_records 7, NoteAppend 1001]"

lemma demo_part_hwm [simp]: "log_end_offset (set_high_watermark p h) = log_end_offset p" "high_watermark (set_high_watermark p h) = h"
  by (simp_all add: log_end_offset_def set_high_watermark_def high_watermark_def)

lemma demo_demo_partition: "log_end_offset demo_partition = 2" "high_watermark demo_partition = 2"
  using part_inv_leo [OF demo_partition(1)] demo_partition(2) demo_log_ok(3) by (simp_all add: high_watermark_def)

lemma demo_second_append:
  "log_end_offset (snd (pt_append (set_high_watermark demo_partition h) demo_records 8)) = 4"
  "high_watermark (snd (pt_append (set_high_watermark demo_partition h) demo_records 8)) = 4"
proof -
  have "part_inv (set_high_watermark demo_partition h) demo_log" using demo_partition(1) by (simp add: set_high_watermark_def)
  from demo_append [OF this, of 8] demo_log_ok(3)
  show "log_end_offset (snd (pt_append (set_high_watermark demo_partition h) demo_records 8)) = 4"
    "high_watermark (snd (pt_append (set_high_watermark demo_partition h) demo_records 8)) = 4"
    by auto
qed

lemma demo_fresh_hwm: "set_high_watermark demo_fresh 0 = demo_fresh"
  using demo_fresh_ends(2) by (cases demo_fresh) (simp add: set_high_watermark_def high_watermark_def)

lemmas rep_eval = demo_fresh_hwm demo_rep_def rep_init_def set_leading_def empty_partition_state_def replica_request_def fetcher_of_def
  new_follower_def demo_fresh_ends serve_replica_def on_replica_fetch_def on_leader_append_def recompute_def in_sync_def isr_hwm_def
  kReplicaLagTimeMs_def kReplicaMaxLagMessages_def demo_demo_partition demo_second_append demo_fits
  demo_partition_def [symmetric] hwm_passed_def isr_for_def

lemma demo_two_appends_run:
  "\<exists>s. rep_run demo_key demo_two_appends demo_rep = Some s \<and> \<not> rp_settled s \<and> isr_for (rp_manager s) demo_key = [1, 2] \<and>
     rp_replica s 2 = demo_fresh \<and> hwm_passed (rp_manager s) (rp_parts s) demo_key 1"
  by (simp add: demo_two_appends_def rep_eval Let_def)

lemma demo_late_follower_run:
  "\<exists>s. rep_run demo_key demo_late_follower demo_rep = Some s \<and> rp_settled s \<and> isr_for (rp_manager s) demo_key = [1] \<and>
     (\<exists>p. map_of (rp_parts s) demo_key = Some p \<and> high_watermark p = 2)"
  by (simp add: demo_late_follower_def rep_eval Let_def)

lemma demo_late_fetch_run:
  "\<exists>s. rep_run demo_key (demo_late_follower @ [SendFetch 2, ServeFetch 0 1100]) demo_rep = Some s \<and> rp_settled s \<and>
     isr_for (rp_manager s) demo_key = [1, 2] \<and> (\<exists>p. map_of (rp_parts s) demo_key = Some p \<and> high_watermark p = 0)"
  by (simp add: demo_late_follower_def rep_eval Let_def)

lemma demo_reaches:
  "\<exists>s. rep_run demo_key es demo_rep = Some s \<and> P s \<Longrightarrow> \<exists>s. rep_reachable demo_key 1 [1, 2] demo_fresh s \<and> P s"
  using rep_run_reachable [OF rep_reachable.init] unfolding demo_rep_def by blast

section \<open>Properties\<close>

text \<open>
  C7: whatever is lost, delayed or answered late, every follower's log is a prefix of the leader's: a follower never
  holds a record the leader has not, or in another place, and both logs are well formed on disk.
\<close>

theorem followers_hold_prefixes:
  assumes "rep_reachable key self replicas fresh s" "part_inv fresh []" "high_watermark fresh = 0"
  shows "\<exists>p L. map_of (rp_parts s) key = Some p \<and> part_inv p L \<and> (\<forall>f. \<exists>n \<le> length L. part_inv (rp_replica s f) (take n L))"
proof -
  obtain L where "rep_inv key self s L" using rep_reachable_inv [OF assms] by blast
  then show ?thesis unfolding rep_inv_def replicas_ok_def leader_at_def by blast
qed

lemma followers_hold_prefixes_witness:
  "\<exists>s p L. rep_reachable demo_key 1 [1, 2] demo_fresh s \<and> rp_settled s \<and> map_of (rp_parts s) demo_key = Some p \<and> part_inv p L \<and>
     high_watermark p = 2 \<and> (\<exists>n \<le> length L. part_inv (rp_replica s 2) (take n L))"
proof -
  obtain s p where s: "rep_reachable demo_key 1 [1, 2] demo_fresh s" "rp_settled s" "map_of (rp_parts s) demo_key = Some p"
    "high_watermark p = 2"
    using demo_reaches [OF demo_late_follower_run] by blast
  obtain L where "part_inv p L" "\<exists>n \<le> length L. part_inv (rp_replica s 2) (take n L)"
    using followers_hold_prefixes [OF s(1) demo_fresh(1) demo_fresh_ends(2)] s(3) by (metis option.inject)
  then show ?thesis using s by blast
qed

text \<open>
  C2: once a recompute has run after the last append, every record below the high watermark is in the log of every
  in-sync replica; so the records a producer with \<open>acks=all\<close> was told are stored survive the loss of the leader when
  a member of the ISR takes over.
\<close>

theorem settled_hwm_is_replicated:
  assumes "rep_reachable key self replicas fresh s" "part_inv fresh []" "high_watermark fresh = 0"
    and "rp_settled s" "hwm_passed (rp_manager s) (rp_parts s) key offset" "f \<in> set (isr_for (rp_manager s) key)" "f \<noteq> self"
  shows "\<exists>p L n. map_of (rp_parts s) key = Some p \<and> part_inv p L \<and> part_inv (rp_replica s f) (take n L) \<and> offset < int n \<and>
    high_watermark p \<le> int n \<and> n \<le> length L"
  using rep_reachable_inv [OF assms(1-3)] settled_held [OF _ assms(4-7)] by metis

text \<open>Broker 2 fetches the batch, and its second request tells the leader so.\<close>

definition demo_acknowledged :: "rep_event list" where
  "demo_acknowledged = [Append demo_records 7, SendFetch 2, ServeFetch 0 1000, ReceiveFetch 0, SendFetch 2, ServeFetch 1 1010]"

lemma demo_read: "read_up_to_leo (set_high_watermark demo_partition h) 0 kMaxFetchBytes = demo_log"
    "read_up_to_leo demo_partition 0 kMaxFetchBytes = demo_log"
proof -
  have inv: "part_inv (set_high_watermark demo_partition h) demo_log" for h using demo_partition(1) by (simp add: set_high_watermark_def)
  have nw: "no_wrap kMaxFetchBytes demo_log" by (simp add: no_wrap_def demo_log_def frame_size_def kMaxFetchBytes_def)
  have "fetch_spec (unat kMaxFetchBytes) (log_slice 0 (int (length demo_log)) demo_log) = demo_log"
    by (simp add: log_slice_def fetch_spec_def demo_log_def frame_size_def kMaxFetchBytes_def)
  then have *: "read_up_to_leo (set_high_watermark demo_partition h) 0 kMaxFetchBytes = demo_log" for h
    unfolding read_up_to_leo_def conjunct2 [OF part_inv_next [OF inv]] read_clamped_spec [OF inv order_refl nw] .
  show "read_up_to_leo (set_high_watermark demo_partition h) 0 kMaxFetchBytes = demo_log" by (rule *)
  have "set_high_watermark demo_partition 2 = demo_partition"
    using demo_partition(2) by (cases demo_partition) (simp add: set_high_watermark_def)
  then show "read_up_to_leo demo_partition 0 kMaxFetchBytes = demo_log" using * [of 2] by simp
qed

lemma demo_apply:
  "snd (apply_fetch demo_fresh (encode_fetch_response [] \<lparr>fresp_errorCode = NoError, fresp_highWatermark = hw,
     fresp_records = demo_log, fresp_leaderHost = [], fresp_leaderPort = 0\<rparr>)) = append_replicated demo_fresh demo_log"
proof -
  let ?resp = "\<lparr>fresp_errorCode = NoError, fresp_highWatermark = hw, fresp_records = demo_log, fresp_leaderHost = [], fresp_leaderPort = 0\<rparr>"
  have "fetch_response_ok ?resp" using demo_log_ok by (simp add: fetch_response_ok_def list_ok_def string_ok_def)
  from fetch_response.roundtrip [OF this, of "[]"] show ?thesis using demo_log_ok(5) by (simp add: apply_fetch_def)
qed

lemma demo_replica: "log_end_offset (append_replicated demo_fresh demo_log) = 2"
proof -
  have "batch_ok demo_log" using demo_log_ok by (simp add: batch_ok_def)
  then have "part_inv (append_replicated demo_fresh demo_log) ([] @ demo_log)"
    using append_replicated_inv(1) [OF demo_fresh(1), of demo_log] demo_log_ok by simp
  from part_inv_leo [OF this] demo_log_ok(3) show ?thesis by simp
qed

lemma demo_acknowledged_run:
  "\<exists>s. rep_run demo_key demo_acknowledged demo_rep = Some s \<and> rp_settled s \<and> 2 \<in> set (isr_for (rp_manager s) demo_key) \<and>
     hwm_passed (rp_manager s) (rp_parts s) demo_key 1"
  by (simp add: demo_acknowledged_def rep_eval Let_def demo_read demo_apply demo_replica)

lemma settled_hwm_is_replicated_witness:
  "\<exists>s n. rep_reachable demo_key 1 [1, 2] demo_fresh s \<and> hwm_passed (rp_manager s) (rp_parts s) demo_key 1 \<and> 1 < int n"
proof -
  obtain s where s: "rep_reachable demo_key 1 [1, 2] demo_fresh s" "rp_settled s"
    "hwm_passed (rp_manager s) (rp_parts s) demo_key 1" "2 \<in> set (isr_for (rp_manager s) demo_key)"
    using demo_reaches [OF demo_acknowledged_run] by blast
  have "(2 :: u32) \<noteq> 1" by simp
  from settled_hwm_is_replicated [OF s(1) demo_fresh(1) demo_fresh_ends(2) s(2,3,4) this] show ?thesis using s by blast
qed

text \<open>
  Between an append and the recompute after it the high watermark is the leader's log end: a producer that waits
  for an earlier batch and looks in that window is told its records are on every in-sync replica while an in-sync
  replica has none of them.
\<close>

theorem early_acknowledgement:
  "\<exists>key self replicas fresh s f offset. rep_reachable key self replicas fresh s \<and> part_inv fresh [] \<and> high_watermark fresh = 0 \<and>
     f \<in> set (isr_for (rp_manager s) key) \<and> f \<noteq> self \<and> 0 \<le> offset \<and>
     hwm_passed (rp_manager s) (rp_parts s) key offset \<and> log_end_offset (rp_replica s f) \<le> offset"
proof -
  obtain s where s: "rep_reachable demo_key 1 [1, 2] demo_fresh s" "isr_for (rp_manager s) demo_key = [1, 2]"
    "rp_replica s 2 = demo_fresh" "hwm_passed (rp_manager s) (rp_parts s) demo_key 1"
    using demo_reaches [OF demo_two_appends_run] by blast
  have "(2 :: u32) \<in> set (isr_for (rp_manager s) demo_key)" "(2 :: u32) \<noteq> 1" "log_end_offset (rp_replica s 2) \<le> 1" "(0 :: int) \<le> 1"
    using s(2,3) demo_fresh_ends(1) by simp_all
  note all = s(1) demo_fresh(1) demo_fresh_ends(2) this(1,2,4) s(4) this(3)
  show ?thesis
    by (rule exI [of _ demo_key], rule exI [of _ 1], rule exI [of _ "[1, 2]"], rule exI [of _ demo_fresh], rule exI [of _ s],
        rule exI [of _ 2], rule exI [of _ 1]) (intro conjI all)
qed

text \<open>
  The high watermark can go back while nothing is appended: a replica that has not fetched before joins the ISR with
  its first request, and records that consumers could read are hidden again.
\<close>

theorem hwm_goes_back:
  "\<exists>key self replicas fresh s e s' s'' p p''. rep_reachable key self replicas fresh s \<and> part_inv fresh [] \<and> rp_settled s \<and>
     rep_step key (SendFetch 2) s = Some s' \<and> rep_step key e s' = Some s'' \<and> rp_settled s'' \<and>
     map_of (rp_parts s) key = Some p \<and> map_of (rp_parts s'') key = Some p'' \<and> high_watermark p'' < high_watermark p"
proof -
  obtain s p where s: "rep_run demo_key demo_late_follower demo_rep = Some s" "rp_settled s" "map_of (rp_parts s) demo_key = Some p"
    "high_watermark p = 2"
    using demo_late_follower_run by blast
  obtain s'' p'' where l: "rep_run demo_key (demo_late_follower @ [SendFetch 2, ServeFetch 0 1100]) demo_rep = Some s''" "rp_settled s''"
    "map_of (rp_parts s'') demo_key = Some p''" "high_watermark p'' = 0"
    using demo_late_fetch_run by blast
  have app: "rep_run key (es @ fs) s = (case rep_run key es s of None \<Rightarrow> None | Some s' \<Rightarrow> rep_run key fs s')" for key es fs s
    by (induction es arbitrary: s) (auto split: option.split)
  obtain s' where s': "rep_step demo_key (SendFetch 2) s = Some s'" "rep_step demo_key (ServeFetch 0 1100) s' = Some s''"
    using l(1) s(1) unfolding app by (auto split: option.splits)
  have less: "high_watermark p'' < high_watermark p" using s(4) l(4) by simp
  have "rep_reachable demo_key 1 [1, 2] demo_fresh s" using rep_run_reachable [OF rep_reachable.init] s(1) unfolding demo_rep_def by blast
  note all = this demo_fresh(1) s(2) s' l(2) s(3) l(3) less
  show ?thesis
    by (rule exI [of _ demo_key], rule exI [of _ 1], rule exI [of _ "[1, 2]"], rule exI [of _ demo_fresh], rule exI [of _ s],
        rule exI [of _ "ServeFetch 0 1100"], rule exI [of _ s'], rule exI [of _ s''], rule exI [of _ p], rule exI [of _ p'']) (intro conjI all)
qed

text \<open>
  What one recompute decides: the ISR is the sorted list of the replicas that are the leader itself or fetched
  within the last second and lag at most 1000 records; the high watermark is the least log end among them; a change
  of the ISR is reported, and only a change.
\<close>

theorem recompute_decides:
  assumes "recompute self st parts now = (changed, st', parts')" "ps_partition st = Some ref" "map_of parts ref = Some p"
    and "part_inv p log"
  shows "sorted (ps_isr st') \<and>
    set (ps_isr st') = {i \<in> set (ps_replicas st). i = self \<or> (\<exists>off t. map_of (ps_followerProgress st) i = Some off \<and>
       map_of (ps_lastFetchMs st) i = Some t \<and> now - t \<le> 1000 \<and> unat off \<le> length log \<and> length log - unat off \<le> 1000)} \<and>
    (\<exists>p'. map_of parts' ref = Some p' \<and> part_inv p' log \<and> high_watermark p' =
       Min (insert (int (length log)) ((\<lambda>i. int (unat (the (map_of (ps_followerProgress st) i)))) ` (set (ps_isr st') - {self})))) \<and>
    changed = (if ps_isr st' = ps_isr st then None else Some (ps_isr st'))"
proof -
  define leo where "leo = (word_of_int (log_end_offset p) :: u64)"
  define isr where "isr = sort (filter (in_sync self leo now st) (ps_replicas st))"
  note rc = recompute_cases [OF assms(1-3), folded leo_def, folded isr_def]
  have b: "length log < 2 ^ 63" by (rule part_inv_bound [OF assms(4)])
  have leo: "unat leo = length log" unfolding leo_def part_inv_leo [OF assms(4)] using b by simp
  have sync: "in_sync self leo now st i \<longleftrightarrow> i = self \<or> (\<exists>off t. map_of (ps_followerProgress st) i = Some off \<and>
       map_of (ps_lastFetchMs st) i = Some t \<and> now - t \<le> 1000 \<and> unat off \<le> length log \<and> length log - unat off \<le> 1000)" for i
    unfolding in_sync_def kReplicaLagTimeMs_def kReplicaMaxLagMessages_def leo [symmetric]
    by (auto simp: word_le_nat_alt unat_sub split: option.splits)
  have hwm: "sint (isr_hwm self leo st isr) =
      Min (insert (int (length log)) ((\<lambda>i. int (unat (the (map_of (ps_followerProgress st) i)))) ` (set isr - {self})))"
    unfolding leo [symmetric] by (rule isr_hwm_int) (use b leo in simp)
  show ?thesis
    using hwm rc by (simp add: isr_def sync high_watermark_def set_high_watermark_def assms(4))
qed

definition demo_state :: partition_state where
  "demo_state = \<lparr>ps_partition = Some demo_key, ps_replicas = [3, 2, 1], ps_isr = [1, 2, 3],
     ps_followerProgress = [(2, 1), (3, 2)], ps_lastFetchMs = [(2, 500), (3, 100)]\<rparr>"

lemma recompute_decides_witness:
  "\<exists>p'. map_of (snd (snd (recompute 1 demo_state [(demo_key, demo_partition)] 1200))) demo_key = Some p' \<and> part_inv p' demo_log"
proof -
  obtain changed st' parts' where r: "recompute 1 demo_state [(demo_key, demo_partition)] 1200 = (changed, st', parts')" by (metis prod_cases3)
  have "ps_partition demo_state = Some demo_key" "map_of [(demo_key, demo_partition)] demo_key = Some demo_partition"
    by (simp_all add: demo_state_def)
  from recompute_decides [OF r this demo_partition(1)] show ?thesis by (auto simp: r)
qed

end
