(* ===== verification/Takeover.thy ===== *)
theory Takeover
  imports ReplicationProps ClusterLemmas
begin

text \<open>
  Replication and the controller together, for one partition: the leader reports every change of its ISR to the
  controller (\<open>Broker::Broker\<close>'s callback, \<open>ClusterController::update_isr\<close>), which elects the next leader from the
  ISR it has heard of (\<open>check_partition_failover\<close>). Whichever thread found the change (a session with a fetch or an append,
  the sweep) calls back after it has released the ISR manager's lock, so the reports of several threads may arrive in any
  order; one may be sent twice, be under way, or be lost, when the leader dies.
\<close>

unbundle bit_operations_syntax

section \<open>Runs\<close>

text \<open>
  \<open>to_reports\<close> are the reports sent so far, in the order in which the leader's ISR changed; \<open>to_delivered\<close>, a history
  variable, has the positions of the ones the controller has taken, the latest first. Any report that was sent may be
  delivered at any time and any number of times; one that is lost never is.
\<close>

record takeover =
  to_rep :: replication
  to_ctl :: controller
  to_reports :: "u32 list list"
  to_delivered :: "nat list"

datatype takeover_event = Replicate rep_event | DeliverReport nat

text \<open>The ISR an event reports: what \<open>recompute\<close> returned to the section that called it.\<close>

fun isr_report :: "topic_partition \<Rightarrow> rep_event \<Rightarrow> replication \<Rightarrow> u32 list option" where
  "isr_report key (NoteAppend now) s = fst (on_leader_append (rp_manager s) (rp_parts s) key now)"
| "isr_report key (SweepTick now) s = map_of (fst (sweep (rp_manager s) (rp_parts s) now)) key"
| "isr_report key (ServeFetch k now) s =
     (case serve_replica (rp_manager s) (rp_parts s) (rp_requests s ! k) now of
        None \<Rightarrow> None | Some (resp, changed, m, parts) \<Rightarrow> changed)"
| "isr_report key _ s = None"

fun takeover_step :: "topic_partition \<Rightarrow> takeover_event \<Rightarrow> takeover \<Rightarrow> takeover option" where
  "takeover_step key (Replicate e) s =
     (case rep_step key e (to_rep s) of
        None \<Rightarrow> None
      | Some r \<Rightarrow> Some (s\<lparr>to_rep := r, to_reports := to_reports s @
          (case isr_report key e (to_rep s) of None \<Rightarrow> [] | Some isr \<Rightarrow> [isr])\<rparr>))"
| "takeover_step key (DeliverReport k) s =
     (if k < length (to_reports s)
      then Some (s\<lparr>to_ctl := snd (update_isr (to_ctl s) (fst key) (snd key) (to_reports s ! k)), to_delivered := k # to_delivered s\<rparr>)
      else None)"


definition takeover_init :: "topic_partition \<Rightarrow> u32 \<Rightarrow> u32 list \<Rightarrow> partition \<Rightarrow> controller \<Rightarrow> takeover" where
  "takeover_init key self replicas fresh c =
     \<lparr>to_rep = rep_init key self replicas fresh, to_ctl = c, to_reports = [], to_delivered = []\<rparr>"

inductive takeover_reachable :: "topic_partition \<Rightarrow> u32 \<Rightarrow> u32 list \<Rightarrow> partition \<Rightarrow> controller \<Rightarrow> takeover \<Rightarrow> bool"
  for key self replicas fresh c where
  init: "takeover_reachable key self replicas fresh c (takeover_init key self replicas fresh c)"
| step: "takeover_reachable key self replicas fresh c s \<Longrightarrow> takeover_step key e s = Some s' \<Longrightarrow>
    takeover_reachable key self replicas fresh c s'"

inductive_cases takeover_reachable_cases: "takeover_reachable key self replicas fresh c s"

text \<open>The controller that placed the partition: it leads the cluster and all replicas are in sync.\<close>

definition placed :: "controller \<Rightarrow> topic_partition \<Rightarrow> u32 \<Rightarrow> u32 list \<Rightarrow> bool" where
  "placed c key self replicas \<longleftrightarrow> is_leader c \<and>
     map_of (cc_assignments c) key = Some \<lparr>pa_leaderId = self, pa_replicas = replicas, pa_isr = replicas\<rparr>"

section \<open>What the controller knows\<close>








section \<open>A clean failover\<close>




text \<open>Broker 1 leads, broker 3 is the controller and has heard of broker 2 only.\<close>

definition demo_office :: controller where
  "demo_office = \<lparr>cc_membership = \<lparr>mb_self = 3, mb_peers = [(1, \<lparr>addr_host = ''a'', addr_port = 9\<rparr>), (2, \<lparr>addr_host = ''b'', addr_port = 9\<rparr>),
       (3, \<lparr>addr_host = ''c'', addr_port = 9\<rparr>)]\<rparr>, cc_unclean = False, cc_role = Leader, cc_term = 1, cc_votedFor = 3, cc_leaderId = 3,
     cc_deadline = 0, cc_assignments = [(demo_key, \<lparr>pa_leaderId = 1, pa_replicas = [1, 2], pa_isr = [1, 2]\<rparr>)],
     cc_lastAlive = [(2, 2000)], cc_raft_file = None, cc_assignments_file = None\<rparr>"

fun takeover_run :: "topic_partition \<Rightarrow> takeover_event list \<Rightarrow> takeover \<Rightarrow> takeover option" where
  "takeover_run key [] s = Some s"
| "takeover_run key (e # es) s = (case takeover_step key e s of None \<Rightarrow> None | Some s' \<Rightarrow> takeover_run key es s')"

lemma takeover_run_reachable:
  "takeover_reachable key self replicas fresh c s \<Longrightarrow> takeover_run key es s = Some s' \<Longrightarrow>
   takeover_reachable key self replicas fresh c s'"
  by (induction es arbitrary: s) (auto intro: takeover_reachable.step split: option.splits)

lemma demo_office_placed: "placed demo_office demo_key 1 [1, 2]" "\<not> cc_unclean demo_office"
  by (simp_all add: placed_def demo_office_def is_leader_def)


lemmas takeover_eval = takeover_init_def demo_rep_def [symmetric] rep_eval Let_def demo_read demo_apply demo_replica


text \<open>
  Broker 2 has asked once; the leader appends, the producer waits for broker 2, and the next sweep drops it and wakes
  the producer, before the sweep thread reports.
\<close>

definition demo_dropped_follower :: "rep_event list" where
  "demo_dropped_follower = [SendFetch 2, ServeFetch 0 1000, Append demo_records 7, NoteAppend 1001, SweepTick 2100]"

lemma demo_unreported_run:
  "\<exists>s. takeover_run demo_key (map Replicate demo_dropped_follower) (takeover_init demo_key 1 [1, 2] demo_fresh demo_office) = Some s \<and>
     to_delivered s = [] \<and> to_ctl s = demo_office \<and> rp_settled (to_rep s) \<and> rp_replica (to_rep s) 2 = demo_fresh \<and>
     hwm_passed (rp_manager (to_rep s)) (rp_parts (to_rep s)) demo_key 1"
  by (simp add: demo_dropped_follower_def sweep_def takeover_eval)


text \<open>
  The acknowledgement does not wait for the controller. A sweep takes a slow replica out of the ISR, which lets the
  high watermark pass the record and wakes the waiting producer; if the leader dies before its report arrives, the
  controller, with no unclean election, hands the partition to the slow replica, which has no such record.
\<close>

definition loses_acknowledged :: "topic_partition \<Rightarrow> u32 \<Rightarrow> takeover \<Rightarrow> int \<Rightarrow> bool" where
  "loses_acknowledged key self s offset \<longleftrightarrow> (\<exists>now r c' pa. rp_settled (to_rep s) \<and> 0 \<le> offset \<and>
     hwm_passed (rp_manager (to_rep s)) (rp_parts (to_rep s)) key offset \<and>
     check_partition_failover (to_ctl s) now = (r, c') \<and> map_of (cc_assignments c') key = Some pa \<and> pa_leaderId pa \<noteq> self \<and>
     log_end_offset (rp_replica (to_rep s) (pa_leaderId pa)) \<le> offset)"

lemma demo_loses:
  assumes "map_of (cc_assignments (to_ctl s)) demo_key = Some \<lparr>pa_leaderId = 1, pa_replicas = [1, 2], pa_isr = [1, 2]\<rparr>"
    and "cc_membership (to_ctl s) = cc_membership demo_office" "cc_lastAlive (to_ctl s) = cc_lastAlive demo_office"
    and "rp_settled (to_rep s)" "rp_replica (to_rep s) 2 = demo_fresh" "hwm_passed (rp_manager (to_rep s)) (rp_parts (to_rep s)) demo_key 1"
  shows "loses_acknowledged demo_key 1 s 1"
proof -
  obtain r c' where r: "check_partition_failover (to_ctl s) 2100 = (r, c')" by (metis surj_pair)
  have "failed_over (to_ctl s) 2100 \<lparr>pa_leaderId = 1, pa_replicas = [1, 2], pa_isr = [1, 2]\<rparr> =
      \<lparr>pa_leaderId = 2, pa_replicas = [1, 2], pa_isr = [2]\<rparr>"
    using assms(2,3)
    by (simp add: failed_over_def failover_one_def alive_broker_ids_def all_ids_def demo_office_def kAliveThresholdMs_def Let_def)
  then have "map_of (cc_assignments c') demo_key = Some \<lparr>pa_leaderId = 2, pa_replicas = [1, 2], pa_isr = [2]\<rparr>"
    using assms(1) by (simp add: failover_map [OF r] map_of_map_values)
  then show ?thesis using r assms(4-6) demo_fresh_ends(1) unfolding loses_acknowledged_def by fastforce
qed

theorem acknowledged_before_controller_knows:
  "\<exists>key self replicas fresh c s offset. takeover_reachable key self replicas fresh c s \<and> placed c key self replicas \<and>
     part_inv fresh [] \<and> high_watermark fresh = 0 \<and> \<not> cc_unclean c \<and> to_delivered s = [] \<and> loses_acknowledged key self s offset"
proof -
  obtain s where s: "takeover_run demo_key (map Replicate demo_dropped_follower) (takeover_init demo_key 1 [1, 2] demo_fresh demo_office) = Some s"
    "to_delivered s = []" "to_ctl s = demo_office" "rp_settled (to_rep s)" "rp_replica (to_rep s) 2 = demo_fresh"
    "hwm_passed (rp_manager (to_rep s)) (rp_parts (to_rep s)) demo_key 1"
    using demo_unreported_run by blast
  have reach: "takeover_reachable demo_key 1 [1, 2] demo_fresh demo_office s"
    by (rule takeover_run_reachable [OF takeover_reachable.init s(1)])
  have "loses_acknowledged demo_key 1 s 1" by (rule demo_loses) (simp_all add: s demo_office_def)
  then show ?thesis using reach demo_office_placed demo_fresh(1) demo_fresh_ends(2) s(2) by blast
qed

text \<open>
  Nor do reports arrive in the order of the changes. The sweep drops broker 2 (report 0), its first fetch takes it back
  (report 1), the sweep drops it again (report 2), and a record is acknowledged by the leader alone. All three reports
  arrive, each once, but the fetch's session is the last to call back: the controller believes that broker 2 is in sync and
  makes it leader, without an unclean election, and the acknowledged record is lost.
\<close>

definition demo_reordered :: "takeover_event list" where
  "demo_reordered = map Replicate [SweepTick 1200, SendFetch 2, ServeFetch 0 1210, SweepTick 2300, Append demo_records 7,
     NoteAppend 2301] @ [DeliverReport 0, DeliverReport 2, DeliverReport 1]"

lemma demo_reordered_run:
  "\<exists>s. takeover_run demo_key demo_reordered (takeover_init demo_key 1 [1, 2] demo_fresh demo_office) = Some s \<and>
     to_delivered s = [1, 2, 0] \<and> length (to_reports s) = 3 \<and>
     map_of (cc_assignments (to_ctl s)) demo_key = Some \<lparr>pa_leaderId = 1, pa_replicas = [1, 2], pa_isr = [1, 2]\<rparr> \<and>
     cc_membership (to_ctl s) = cc_membership demo_office \<and> cc_lastAlive (to_ctl s) = cc_lastAlive demo_office \<and>
     rp_settled (to_rep s) \<and> rp_replica (to_rep s) 2 = demo_fresh \<and>
     hwm_passed (rp_manager (to_rep s)) (rp_parts (to_rep s)) demo_key 1"
  by (simp add: demo_reordered_def sweep_def update_isr_def persist_assignments_def is_leader_def demo_office_def takeover_eval)

theorem acknowledged_lost_by_reordering:
  "\<exists>key self replicas fresh c s offset. takeover_reachable key self replicas fresh c s \<and> placed c key self replicas \<and>
     part_inv fresh [] \<and> high_watermark fresh = 0 \<and> \<not> cc_unclean c \<and>
     distinct (to_delivered s) \<and> set (to_delivered s) = {..<length (to_reports s)} \<and> loses_acknowledged key self s offset"
proof -
  obtain s where s: "takeover_run demo_key demo_reordered (takeover_init demo_key 1 [1, 2] demo_fresh demo_office) = Some s"
    "to_delivered s = [1, 2, 0]" "length (to_reports s) = 3"
    "map_of (cc_assignments (to_ctl s)) demo_key = Some \<lparr>pa_leaderId = 1, pa_replicas = [1, 2], pa_isr = [1, 2]\<rparr>"
    "cc_membership (to_ctl s) = cc_membership demo_office" "cc_lastAlive (to_ctl s) = cc_lastAlive demo_office"
    "rp_settled (to_rep s)" "rp_replica (to_rep s) 2 = demo_fresh" "hwm_passed (rp_manager (to_rep s)) (rp_parts (to_rep s)) demo_key 1"
    using demo_reordered_run by blast
  have reach: "takeover_reachable demo_key 1 [1, 2] demo_fresh demo_office s"
    by (rule takeover_run_reachable [OF takeover_reachable.init s(1)])
  have "set (to_delivered s) = {..<length (to_reports s)}" "distinct (to_delivered s)" using s(2,3) by auto
  then show ?thesis using reach demo_office_placed demo_fresh(1) demo_fresh_ends(2) demo_loses [OF s(4-9)] by blast
qed

section \<open>A replaced leader that follows again\<close>

lemma served_follower_in_isr:
  assumes m: "map_of (im_partitions m) key = Some st" "ps_partition st = Some key" and p: "map_of parts key = Some p" "part_inv p L"
    and f: "f \<in> set (ps_replicas st)" and lag: "n \<le> length L" "length L - n \<le> 1000"
    and fetch: "on_replica_fetch m parts key f (of_nat n) now = (changed, m', parts')"
  shows "f \<in> set (isr_for m' key)"
proof -
  define st1 where "st1 = st\<lparr>ps_followerProgress := omap_put f (of_nat n) (ps_followerProgress st),
    ps_lastFetchMs := omap_put f now (ps_lastFetchMs st)\<rparr>"
  obtain st' where r: "recompute (im_selfBrokerId m) st1 parts now = (changed, st', parts')"
    and m': "m' = m\<lparr>im_partitions := omap_put key st' (im_partitions m)\<rparr>"
    using fetch m(1) by (auto simp: on_replica_fetch_def st1_def Let_def split: prod.splits)
  have st1: "ps_partition st1 = Some key" "f \<in> set (ps_replicas st1)" using m(2) f by (simp_all add: st1_def)
  have b: "length L < 2 ^ 63" by (rule part_inv_bound [OF p(2)])
  then have words: "unat (of_nat (length L) :: u64) = length L" "unat (of_nat n :: u64) = n" using lag(1)
    by (simp_all add: unat_of_nat_u64)
  then have "(of_nat n :: u64) \<le> of_nat (length L)" using lag(1) by (simp add: word_le_nat_alt)
  moreover from this have "unat (of_nat (length L) - of_nat n :: u64) = length L - n" by (simp only: unat_sub words)
  then have "of_nat (length L) - of_nat n \<le> (1000 :: u64)" using lag(2) by (simp add: word_le_nat_alt)
  ultimately have "in_sync (im_selfBrokerId m) (word_of_int (log_end_offset p)) now st1 f"
    by (simp add: in_sync_def st1_def part_inv_leo [OF p(2)] kReplicaLagTimeMs_def kReplicaMaxLagMessages_def)
  then have "f \<in> set (ps_isr st')" using st1(2) recompute_cases(1) [OF r st1(1) p(1)] by simp
  then show ?thesis by (simp add: m' isr_for_def)
qed

text \<open>
  A follower never truncates. A broker that led the partition keeps the records \<open>X\<close> it had not replicated when it
  was replaced: following the new leader, whose log goes on with \<open>Y\<close>, it asks from its own log end and appends what it
  gets behind \<open>X\<close>, so the two logs differ for good wherever \<open>X\<close> and \<open>Y\<close> do. All the same the leader counts it as in
  sync, as soon as it asks for an offset within the last 1000, and the controller may elect it.
\<close>

theorem replaced_leader_keeps_its_records:
  assumes "part_inv q (L @ X)" "part_inv p (L @ Y)" "no_wrap kMaxFetchBytes (L @ Y)" "map_of parts key = Some p"
    and "map_of (im_partitions m) key = Some st" "ps_partition st = Some key" "f \<in> set (ps_replicas st)"
    and "length Y \<le> length X + 1000" "length X \<le> length Y"
    and "serve_replica m parts (replica_request (new_follower (fst key) (snd key) f host port) q) now = Some (resp, changed, m', parts')"
  shows "\<exists>Z. part_inv (snd (apply_fetch q (encode_fetch_response [] resp))) (L @ X @ Z) \<and> prefix Z (drop (length X) Y) \<and>
    f \<in> set (isr_for m' key)"
proof -
  let ?n = "length (L @ X)"
  have b: "length (L @ Y) < 2 ^ 63" by (rule part_inv_bound [OF assms(2)])
  have n: "?n \<le> length (L @ Y)" using assms(9) by simp
  define rs where "rs = read_up_to_leo p (int ?n) kMaxFetchBytes"
  have leo: "log_end_offset q = int ?n" by (rule part_inv_leo [OF assms(1)])
  have w: "sint (of_nat ?n :: u64) = int ?n"
    using n b by (intro sint_of_nat_u64) linarith
  obtain r1: "on_replica_fetch m parts key f (of_nat ?n) now = (changed, m', parts')"
    and resp: "\<exists>hw. resp = \<lparr>fresp_errorCode = NoError, fresp_highWatermark = hw, fresp_records = rs, fresp_leaderHost = [], fresp_leaderPort = 0\<rparr>"
    using assms(10,4) w unfolding serve_replica_def replica_request_def new_follower_def leo rs_def
    by (auto simp: Let_def split: prod.splits option.splits)
  then obtain hw where resp: "resp = \<lparr>fresp_errorCode = NoError, fresp_highWatermark = hw, fresp_records = rs, fresp_leaderHost = [], fresp_leaderPort = 0\<rparr>" by blast
  have c: "chunk (L @ Y) ?n rs" "length rs < 2 ^ 31"
    using read_chunk [OF assms(2,3) n] unfolding rs_def by (simp_all add: kMaxFetchBytes_def)
  then obtain k where k: "rs = take k (drop ?n (L @ Y))" by (auto simp: chunk_def)
  then have pre: "prefix rs (drop (length X) Y)" by (simp add: take_is_prefix)
  have "?n + length rs \<le> length (L @ Y)" using n k by (simp add: min_def) linarith
  then have "length (L @ X) + length rs < 2 ^ 63" using b by linarith
  moreover have "encode_fetch_response [] resp = encode_fetch_response [] \<lparr>fresp_errorCode = NoError, fresp_highWatermark = hw,
      fresp_records = rs, fresp_leaderHost = [], fresp_leaderPort = 0\<rparr>" by (simp only: resp)
  moreover have "batch_ok rs" "contiguous (of_nat ?n) rs" using c(1) by (simp_all add: chunk_def)
  ultimately have "part_inv (snd (apply_fetch q (encode_fetch_response [] resp))) ((L @ X) @ rs)"
    using c(2) by (intro apply_contiguous [OF assms(1)])
  moreover note pre
  moreover have "f \<in> set (isr_for m' key)"
    by (rule served_follower_in_isr [OF assms(5,6,4,2,7) n _ r1]) (use assms(8) in simp)
  ultimately show ?thesis by (intro exI [of _ rs]) simp
qed

text \<open>Broker 1 led and appended a record at time 7; broker 2 took over before it was replicated and appended two at time 8.\<close>

definition demo_fork :: "u64 \<Rightarrow> log_record list" where
  "demo_fork ts = [\<lparr>rec_offset = 0, rec_timestamp = ts, rec_key = [1], rec_value = [2, 3]\<rparr>,
     \<lparr>rec_offset = 1, rec_timestamp = ts, rec_key = [4], rec_value = []\<rparr>]"

lemma demo_fork:
  "part_inv (snd (pt_append demo_fresh [hd demo_records] 7)) [hd (demo_fork 7)]"
  "part_inv (snd (pt_append demo_fresh demo_records 8)) (demo_fork 8)"
  "no_wrap kMaxFetchBytes (demo_fork 8)" "hd (demo_fork 7) \<noteq> hd (demo_fork 8)"
proof -
  have "batch_ok [hd demo_records]" "length [hd demo_records] = 1"
    by (simp_all add: batch_ok_def demo_records_def record_ok_def frame_size_def)
  from pt_append_inv [OF demo_fresh(1) this(1), of 7]
  show "part_inv (snd (pt_append demo_fresh [hd demo_records] 7)) [hd (demo_fork 7)]"
    by (auto simp: demo_records_def demo_fork_def)
  from pt_append_inv [OF demo_fresh(1) demo_batch(1), of 8]
  show "part_inv (snd (pt_append demo_fresh demo_records 8)) (demo_fork 8)"
    by (auto simp: demo_records_def demo_fork_def)
  show "no_wrap kMaxFetchBytes (demo_fork 8)" by (simp add: no_wrap_def demo_fork_def kMaxFetchBytes_def frame_size_def)
  show "hd (demo_fork 7) \<noteq> hd (demo_fork 8)" by (simp add: demo_fork_def)
qed

lemma replaced_leader_keeps_its_records_witness:
  "\<exists>q Z. part_inv q (hd (demo_fork 7) # Z) \<and> prefix Z (tl (demo_fork 8)) \<and> hd (demo_fork 7) \<noteq> hd (demo_fork 8)"
proof -
  let ?q = "snd (pt_append demo_fresh [hd demo_records] 7)" and ?p = "snd (pt_append demo_fresh demo_records 8)"
  let ?st = "\<lparr>ps_partition = Some demo_key, ps_replicas = [1, 2], ps_isr = [2], ps_followerProgress = [], ps_lastFetchMs = []\<rparr>"
  let ?m = "\<lparr>im_selfBrokerId = 2, im_partitions = [(demo_key, ?st)]\<rparr>" and ?parts = "[(demo_key, ?p)]"
  let ?req = "replica_request (new_follower (fst demo_key) (snd demo_key) 1 [] 0) ?q"
  have inv: "part_inv ?q ([] @ [hd (demo_fork 7)])" "part_inv ?p ([] @ demo_fork 8)" "no_wrap kMaxFetchBytes ([] @ demo_fork 8)"
    using demo_fork by simp_all
  have "serve_replica ?m ?parts ?req 9 \<noteq> None"
    by (simp add: serve_replica_def replica_request_def new_follower_def on_replica_fetch_def recompute_def Let_def)
  then obtain resp changed m' parts' where sv: "serve_replica ?m ?parts ?req 9 = Some (resp, changed, m', parts')" by auto
  have look: "map_of ?parts demo_key = Some ?p" "map_of (im_partitions ?m) demo_key = Some ?st" "ps_partition ?st = Some demo_key"
    "1 \<in> set (ps_replicas ?st)" "length (demo_fork 8) \<le> length [hd (demo_fork 7)] + 1000" "length [hd (demo_fork 7)] \<le> length (demo_fork 8)"
    by (simp_all add: demo_fork_def)
  from replaced_leader_keeps_its_records [OF inv look sv] demo_fork(4) show ?thesis by (auto simp: drop_Suc)
qed

end
