(* ===== verification/GroupRuns.thy ===== *)
theory GroupRuns
  imports Coordinator
begin

text \<open>
  Consumer groups under any interleaving of their members' requests, and the offsets a coordinator keeps. One event
  is one section under a group's lock; a join that waits is known by its group, its member id and its deadline.
\<close>

unbundle bit_operations_syntax

section \<open>Runs\<close>

record group_run =
  gr_coord :: coordinator
  gr_waiting :: "(string \<times> string \<times> u64) list"
  gr_joined :: "(string \<times> join_group_response) list"

datatype group_event =
    JoinEnter join_group_request u64 u64
  | JoinLeave nat u64
  | SyncCall sync_group_request
  | HeartbeatCall heartbeat_request u64 u64
  | LeaveCall leave_group_request
  | CommitCall commit_offset_request
  | FetchCall fetch_offset_request

fun group_step :: "group_event \<Rightarrow> group_run \<Rightarrow> group_run option" where
  "group_step (JoinEnter req now1 now2) s =
     (let ((memberId, deadline), c) = join_enter (gr_coord s) req now1 now2
      in Some (s\<lparr>gr_coord := c, gr_waiting := gr_waiting s @ [(jgreq_groupId req, memberId, deadline)]\<rparr>))"
| "group_step (JoinLeave k now) s =
     (if k < length (gr_waiting s)
      then let (groupId, memberId, deadline) = gr_waiting s ! k
           in if join_wakes (get_or_create_group (gr_coord s) groupId) deadline now
              then let (resp, c) = join_leave (gr_coord s) groupId memberId
                   in Some (s\<lparr>gr_coord := c, gr_waiting := take k (gr_waiting s) @ drop (Suc k) (gr_waiting s),
                              gr_joined := gr_joined s @ [(groupId, resp)]\<rparr>)
              else None
      else None)"
| "group_step (SyncCall req) s = Some (s\<lparr>gr_coord := snd (sync_enter (gr_coord s) req)\<rparr>)"
| "group_step (HeartbeatCall req now1 now2) s = Some (s\<lparr>gr_coord := snd (heartbeat (gr_coord s) req now1 now2)\<rparr>)"
| "group_step (LeaveCall req) s = Some (s\<lparr>gr_coord := snd (leave_group (gr_coord s) req)\<rparr>)"
| "group_step (CommitCall req) s = Some (s\<lparr>gr_coord := snd (commit_offset (gr_coord s) req)\<rparr>)"
| "group_step (FetchCall req) s = Some (s\<lparr>gr_coord := snd (fetch_offset (gr_coord s) req)\<rparr>)"

definition group_init :: "coordinator \<Rightarrow> group_run" where
  "group_init c = \<lparr>gr_coord = c, gr_waiting = [], gr_joined = []\<rparr>"

text \<open>Reachable in \<open>n\<close> events.\<close>

inductive group_reachable :: "coordinator \<Rightarrow> nat \<Rightarrow> group_run \<Rightarrow> bool" for c where
  init: "gc_groups c = [] \<Longrightarrow> group_reachable c 0 (group_init c)"
| step: "group_reachable c n s \<Longrightarrow> group_step e s = Some s' \<Longrightarrow> group_reachable c (Suc n) s'"

fun group_events :: "group_event list \<Rightarrow> group_run \<Rightarrow> group_run option" where
  "group_events [] s = Some s"
| "group_events (e # es) s = (case group_step e s of None \<Rightarrow> None | Some s' \<Rightarrow> group_events es s')"

lemma group_events_reachable:
  "group_reachable c n s \<Longrightarrow> group_events es s = Some s' \<Longrightarrow> group_reachable c (n + length es) s'"
proof (induction es arbitrary: n s)
  case (Cons e es)
  obtain s1 where s1: "group_step e s = Some s1" "group_events es s1 = Some s'"
    using Cons.prems(2) by (auto split: option.splits)
  show ?case using Cons.IH [OF group_reachable.step [OF Cons.prems(1) s1(1)] s1(2)] by simp
qed simp

section \<open>Generations\<close>

lemma get_put_group [simp]:
  "get_or_create_group (put_group gid g c) gid' = (if gid' = gid then g else get_or_create_group c gid')"
  by (simp add: get_or_create_group_def put_group_def)

lemma get_group_updates [simp]:
  "get_or_create_group (c\<lparr>gc_nextMemberSeq := n\<rparr>) gid = get_or_create_group c gid"
  "get_or_create_group (c\<lparr>gc_files := fs\<rparr>) gid = get_or_create_group c gid"
  "get_or_create_group (persist_offsets c g' h) gid = get_or_create_group c gid"
  by (simp_all add: get_or_create_group_def persist_offsets_def)

lemma get_put_same [simp]: "get_or_create_group (put_group gid (get_or_create_group c gid) c) gid' = get_or_create_group c gid'"
  by simp

definition same_generation :: "coordinator \<Rightarrow> coordinator \<Rightarrow> bool" where
  "same_generation c c' \<longleftrightarrow> (\<forall>gid. gs_generationId (get_or_create_group c' gid) = gs_generationId (get_or_create_group c gid) \<and>
     gs_leaderId (get_or_create_group c' gid) = gs_leaderId (get_or_create_group c gid))"

lemma load_offsets_generation [simp]:
  "gs_generationId (load_offsets_if_needed c gid g) = gs_generationId g"
  "gs_leaderId (load_offsets_if_needed c gid g) = gs_leaderId g"
  by (simp_all add: load_offsets_if_needed_def Let_def split: option.split)

lemma ops_same_generation:
  "same_generation c (snd (join_enter c req now1 now2))"
  "same_generation c (snd (sync_enter c sreq))"
  "same_generation c (snd (heartbeat c hreq now1 now2))"
  "same_generation c (snd (leave_group c lreq))"
  "same_generation c (snd (commit_offset c creq))"
  "same_generation c (snd (fetch_offset c freq))"
  by (simp_all add: same_generation_def join_enter_def generate_member_id_def sync_enter_def heartbeat_def leave_group_def
      commit_offset_def fetch_offset_def Let_def split: option.split)

lemma join_leave_generation:
  assumes "join_leave c gid m = (resp, c')"
  defines "g \<equiv> get_or_create_group c gid"
  shows "jgresp_generationId resp = gs_generationId (get_or_create_group c' gid)"
    "jgresp_leaderId resp = gs_leaderId (get_or_create_group c' gid)"
    "gs_rebalanceInProgress g \<Longrightarrow> gs_generationId (get_or_create_group c' gid) = gs_generationId g + 1"
    "\<not> gs_rebalanceInProgress g \<Longrightarrow> get_or_create_group c' gid = g"
    "gid' \<noteq> gid \<Longrightarrow> get_or_create_group c' gid' = get_or_create_group c gid'"
  using assms by (auto simp: join_leave_def finalize_generation_def Let_def split: if_splits)

definition group_inv :: "nat \<Rightarrow> group_run \<Rightarrow> bool" where
  "group_inv n s \<longleftrightarrow>
     (\<forall>gid. unat (gs_generationId (get_or_create_group (gr_coord s) gid)) \<le> n) \<and>
     (\<forall>gid resp. (gid, resp) \<in> set (gr_joined s) \<longrightarrow>
        unat (jgresp_generationId resp) \<le> unat (gs_generationId (get_or_create_group (gr_coord s) gid)) \<and>
        (jgresp_generationId resp = gs_generationId (get_or_create_group (gr_coord s) gid) \<longrightarrow>
           jgresp_leaderId resp = gs_leaderId (get_or_create_group (gr_coord s) gid))) \<and>
     (\<forall>gid r r'. (gid, r) \<in> set (gr_joined s) \<longrightarrow> (gid, r') \<in> set (gr_joined s) \<longrightarrow>
        jgresp_generationId r = jgresp_generationId r' \<longrightarrow> jgresp_leaderId r = jgresp_leaderId r')"

lemma group_invD:
  assumes "group_inv n s"
  shows "unat (gs_generationId (get_or_create_group (gr_coord s) gid)) \<le> n"
    "(gid, resp) \<in> set (gr_joined s) \<Longrightarrow>
       unat (jgresp_generationId resp) \<le> unat (gs_generationId (get_or_create_group (gr_coord s) gid))"
    "(gid, resp) \<in> set (gr_joined s) \<Longrightarrow> jgresp_generationId resp = gs_generationId (get_or_create_group (gr_coord s) gid) \<Longrightarrow>
       jgresp_leaderId resp = gs_leaderId (get_or_create_group (gr_coord s) gid)"
    "(gid, r) \<in> set (gr_joined s) \<Longrightarrow> (gid, r') \<in> set (gr_joined s) \<Longrightarrow> jgresp_generationId r = jgresp_generationId r' \<Longrightarrow>
       jgresp_leaderId r = jgresp_leaderId r'"
  using assms unfolding group_inv_def by (elim conjE, iprover)+

lemma same_generation_inv:
  assumes "group_inv n s" "same_generation (gr_coord s) (gr_coord s')" "gr_joined s' = gr_joined s"
  shows "group_inv (Suc n) s'"
proof -
  have eq: "gs_generationId (get_or_create_group (gr_coord s') gid) = gs_generationId (get_or_create_group (gr_coord s) gid)"
    "gs_leaderId (get_or_create_group (gr_coord s') gid) = gs_leaderId (get_or_create_group (gr_coord s) gid)" for gid
    using assms(2) by (simp_all add: same_generation_def)
  have "unat (gs_generationId (get_or_create_group (gr_coord s) gid)) \<le> Suc n" for gid
    using group_invD(1) [OF assms(1), of gid] by simp
  then show ?thesis
    unfolding group_inv_def eq assms(3)
    using group_invD(2) [OF assms(1)] group_invD(3) [OF assms(1)] group_invD(4) [OF assms(1)] by (intro conjI allI impI)
qed

lemma join_leave_inv:
  assumes inv: "group_inv n s" and n: "Suc n < 2 ^ 32" and st: "group_step (JoinLeave k now) s = Some s'"
  shows "group_inv (Suc n) s'"
proof -
  obtain gid m deadline where w: "gr_waiting s ! k = (gid, m, deadline)" by (metis prod_cases3)
  obtain resp c' where j: "join_leave (gr_coord s) gid m = (resp, c')" by fastforce
  have s': "gr_coord s' = c'" "gr_joined s' = gr_joined s @ [(gid, resp)]"
    using st w j by (auto split: if_splits)
  note jl = join_leave_generation [OF j]
  let ?g = "get_or_create_group (gr_coord s) gid" and ?g' = "get_or_create_group c' gid"
  have up: "unat (gs_generationId ?g + 1) = unat (gs_generationId ?g) + 1"
  proof -
    have "unat (gs_generationId ?g) + 1 < 2 ^ 32" using group_invD(1) [OF inv, of gid] n by linarith
    then show ?thesis by (simp add: unat_word_ariths)
  qed
  have mono: "unat (gs_generationId ?g) \<le> unat (gs_generationId ?g')" "unat (gs_generationId ?g') \<le> Suc n"
    using jl(3,4) up group_invD(1) [OF inv, of gid] by (cases "gs_rebalanceInProgress ?g"; simp)+
  have fresh: "jgresp_leaderId r = gs_leaderId ?g'"
    if "(gid, r) \<in> set (gr_joined s)" "jgresp_generationId r = gs_generationId ?g'" for r
  proof (cases "gs_rebalanceInProgress ?g")
    case True
    then have "unat (jgresp_generationId r) = unat (gs_generationId ?g) + 1" using that(2) jl(3) up by simp
    then show ?thesis using group_invD(2) [OF inv that(1)] by simp
  next
    case False
    then show ?thesis using jl(4) group_invD(3) [OF inv that(1)] that(2) by simp
  qed
  show ?thesis
    unfolding group_inv_def s'
  proof (intro conjI allI impI)
    show "unat (gs_generationId (get_or_create_group c' h)) \<le> Suc n" for h
      using mono(2) jl(5) [of h] group_invD(1) [OF inv, of h] by (cases "h = gid") auto
    fix h r assume r: "(h, r) \<in> set (gr_joined s @ [(gid, resp)])"
    show "unat (jgresp_generationId r) \<le> unat (gs_generationId (get_or_create_group c' h))"
      using r jl(1,5) mono(1) group_invD(2) [OF inv, of h r] by (cases "h = gid") auto
    show "jgresp_leaderId r = gs_leaderId (get_or_create_group c' h)"
      if "jgresp_generationId r = gs_generationId (get_or_create_group c' h)"
      using r that jl(2,5) fresh [of r] group_invD(3) [OF inv, of h r] by (cases "h = gid") auto
    fix r' assume "(h, r') \<in> set (gr_joined s @ [(gid, resp)])" "jgresp_generationId r = jgresp_generationId r'"
    then show "jgresp_leaderId r = jgresp_leaderId r'"
      using r jl(1,2) fresh [of r] fresh [of r'] group_invD(4) [OF inv, of h r r'] by auto
  qed
qed

lemma group_reachable_inv:
  "group_reachable c n s \<Longrightarrow> n < 2 ^ 32 \<Longrightarrow> group_inv n s"
proof (induction rule: group_reachable.induct)
  case init
  then show ?case by (simp add: group_inv_def group_init_def get_or_create_group_def new_group_def)
next
  case (step n s e s')
  then have inv: "group_inv n s" by simp
  show ?case
  proof (cases e)
    case (JoinEnter req now1 now2)
    then show ?thesis
      using step.hyps(2) ops_same_generation(1) [of "gr_coord s" req now1 now2]
      by (intro same_generation_inv [OF inv]) (auto split: prod.splits)
  next
    case (JoinLeave k now)
    then show ?thesis using join_leave_inv [OF inv step.prems] step.hyps(2) by simp
  qed (use step.hyps(2) in \<open>auto intro!: same_generation_inv [OF inv] simp: ops_same_generation\<close>)
qed

section \<open>Assignments posted for a generation\<close>

text \<open>
  What is left of an assignment posted in generation \<open>t\<close> after \<open>k\<close> more generations: while \<open>k\<close> is 0 the assignment
  itself, afterwards nothing.
\<close>

definition posted :: "u32 \<Rightarrow> (string, u32 list) omap \<Rightarrow> nat \<Rightarrow> group_state \<Rightarrow> bool" where
  "posted t as k g \<longleftrightarrow> gs_generationId g = t + of_nat k \<and> (k = 0 \<longrightarrow> gs_syncReady g \<and> gs_assignment g = as)"

definition posts :: "string \<Rightarrow> group_event \<Rightarrow> bool" where
  "posts gid e \<longleftrightarrow> (\<exists>req. e = SyncCall req \<and> sgreq_groupId req = gid \<and> sgreq_assignments req \<noteq> [])"

lemma load_offsets_sync [simp]:
  "gs_syncReady (load_offsets_if_needed c gid g) = gs_syncReady g"
  "gs_assignment (load_offsets_if_needed c gid g) = gs_assignment g"
  by (simp_all add: load_offsets_if_needed_def Let_def split: option.split)

lemma ops_posted:
  assumes "posted t as k (get_or_create_group c gid)"
  shows "posted t as k (get_or_create_group (snd (join_enter c req now1 now2)) gid)"
    "sgreq_groupId sreq = gid \<longrightarrow> sgreq_assignments sreq = [] \<Longrightarrow> posted t as k (get_or_create_group (snd (sync_enter c sreq)) gid)"
    "posted t as k (get_or_create_group (snd (heartbeat c hreq now1 now2)) gid)"
    "posted t as k (get_or_create_group (snd (leave_group c lreq)) gid)"
    "posted t as k (get_or_create_group (snd (commit_offset c creq)) gid)"
    "posted t as k (get_or_create_group (snd (fetch_offset c freq)) gid)"
  using assms
  by (auto simp: posted_def join_enter_def generate_member_id_def sync_enter_def heartbeat_def leave_group_def
      commit_offset_def fetch_offset_def Let_def split: option.split)

lemma join_leave_posted:
  assumes "posted t as k (get_or_create_group c gid)" "join_leave c gid' m = (resp, c')"
  shows "\<exists>k' \<le> Suc k. posted t as k' (get_or_create_group c' gid)"
proof (cases "gid = gid' \<and> gs_rebalanceInProgress (get_or_create_group c gid')")
  case True
  then have "gs_generationId (get_or_create_group c' gid) = t + of_nat (Suc k)"
    using join_leave_generation(3) [OF assms(2)] assms(1) by (simp add: posted_def)
  then show ?thesis by (intro exI [of _ "Suc k"]) (simp add: posted_def)
next
  case False
  then have "get_or_create_group c' gid = get_or_create_group c gid"
    using join_leave_generation(4) [OF assms(2)] join_leave_generation(5) [OF assms(2), of gid] by (cases "gid = gid'") simp_all
  then show ?thesis using assms(1) by (intro exI [of _ k]) simp
qed

lemma step_posted:
  assumes p: "posted t as k (get_or_create_group (gr_coord s) gid)" and st: "group_step e s = Some s'" and e: "\<not> posts gid e"
  shows "\<exists>k' \<le> Suc k. posted t as k' (get_or_create_group (gr_coord s') gid)"
proof -
  have keep: ?thesis if "posted t as k (get_or_create_group (gr_coord s') gid)" using that by (intro exI [of _ k]) simp
  show ?thesis
  proof (cases e)
    case (JoinLeave i now)
    obtain gid' m deadline where w: "gr_waiting s ! i = (gid', m, deadline)" by (metis prod_cases3)
    obtain resp c' where j: "join_leave (gr_coord s) gid' m = (resp, c')" by fastforce
    have "gr_coord s' = c'" using st w j JoinLeave by (auto split: if_splits)
    then show ?thesis using join_leave_posted [OF p j] by simp
  next
    case (JoinEnter req now1 now2)
    then show ?thesis using st ops_posted(1) [OF p, of req now1 now2] by (intro keep) (auto split: prod.splits)
  next
    case (SyncCall req)
    then show ?thesis using st e ops_posted(2) [OF p, of req] by (intro keep) (auto simp: posts_def)
  qed (use st ops_posted(3-6) [OF p] keep in auto)
qed

lemma events_posted:
  assumes "posted t as k (get_or_create_group (gr_coord s) gid)" "group_events es s = Some s'" "\<forall>e \<in> set es. \<not> posts gid e"
  shows "\<exists>k' \<le> k + length es. posted t as k' (get_or_create_group (gr_coord s') gid)"
  using assms
proof (induction es arbitrary: s k)
  case (Cons e es)
  obtain s1 where s1: "group_step e s = Some s1" "group_events es s1 = Some s'"
    using Cons.prems(2) by (auto split: option.splits)
  have "\<not> posts gid e" using Cons.prems(3) by simp
  from step_posted [OF Cons.prems(1) s1(1) this]
  obtain k1 where k1: "k1 \<le> Suc k" "posted t as k1 (get_or_create_group (gr_coord s1) gid)" by blast
  have "\<exists>k' \<le> k1 + length es. posted t as k' (get_or_create_group (gr_coord s') gid)"
    using Cons.IH [OF k1(2) s1(2)] Cons.prems(3) by simp
  then obtain k' where "k' \<le> k1 + length es" "posted t as k' (get_or_create_group (gr_coord s') gid)" by blast
  then show ?case using k1(1) by (intro exI [of _ k']) simp
qed auto

lemma posted_sync_leave:
  assumes "posted t as k (get_or_create_group c gid)" "k < 2 ^ 32"
  shows "sync_leave c gid m t = (if k = 0 then \<lparr>sgresp_errorCode = NoError,
      sgresp_partitions = (case map_of as m of None \<Rightarrow> [] | Some ps \<Rightarrow> ps)\<rparr>
     else \<lparr>sgresp_errorCode = RebalanceInProgress, sgresp_partitions = []\<rparr>)"
proof (cases "k = 0")
  case True
  then show ?thesis using assms(1) by (simp add: sync_leave_def sync_wakes_def sync_response_def posted_def)
next
  case False
  have "unat (of_nat k :: u32) = k" using assms(2) by (rule unat_of_nat_u32)
  then have "(of_nat k :: u32) \<noteq> 0" using False by (metis unat_0)
  then show ?thesis using assms(1) False by (simp add: sync_leave_def sync_wakes_def posted_def)
qed

lemma foldl_assignments:
  "distinct (map sga_memberId as) \<Longrightarrow> a \<in> set as \<Longrightarrow>
     map_of (foldl (\<lambda>m a. omap_put (sga_memberId a) (sga_partitions a) m) m as) (sga_memberId a) = Some (sga_partitions a)"
proof (induction as rule: rev_induct)
  case (snoc b as)
  then show ?case by (cases "sga_memberId b = sga_memberId a") (auto simp: image_iff)
qed simp

section \<open>Offsets\<close>

definition storable_offset :: "topic_partition \<times> u64 \<Rightarrow> bool" where
  "storable_offset e \<longleftrightarrow> word_text (fst (fst e))"

lemma load_offset_lines:
  assumes "list_all storable_offset es" "ws = [] \<or> ws = [CHR 0x0A]"
  shows "load_offsets_loop (Some (ws @ concat (map offset_line es))) topic p off m = foldl (\<lambda>m (k, v). omap_put k v m) m es"
  using assms
proof (induction es arbitrary: ws topic p off m)
  case Nil
  then show ?case by (auto simp: load_offsets_loop.simps [of "Some ws"] in_word_def)
next
  case (Cons e es)
  obtain t q v where e: "e = ((t, q), v)" by (metis surj_pair)
  let ?r = "CHR 0x0A # concat (map offset_line es)"
  define t2 where "t2 = CHR '' '' # to_string_u64 v @ ?r"
  define t1 where "t1 = CHR '' '' # to_string_u32 q @ t2"
  have w: "word_text t" using Cons.prems(1) by (simp add: storable_offset_def e)
  have gaps: "at_gap t1" "at_gap t2" "at_gap ?r" by (simp_all add: t1_def t2_def)
  have line: "concat (map offset_line (e # es)) = t @ t1" by (simp add: e offset_line_def t1_def t2_def)
  have rd: "in_word (Some (ws @ t @ t1)) old = (Some t1, t)" for old
    using Cons.prems(2) in_word_print(2) [OF gaps(1) w, where c = "CHR 0x0A" and old = old] in_word_print(1) [OF gaps(1) w, where old = old]
    by auto
  have n1: "in_u32 (Some t1) old = (Some t2, q)" for old unfolding t1_def by (rule in_u32_print(2) [OF gaps(2)])
  have n2: "in_u64 (Some t2) old = (Some ?r, v)" for old unfolding t2_def by (rule in_u64_print [OF gaps(3)])
  have "load_offsets_loop (Some ?r) t q v (omap_put (t, q) v m) = foldl (\<lambda>m (k, v). omap_put k v m) (omap_put (t, q) v m) es"
    using Cons.IH [of "[CHR 0x0A]"] Cons.prems(1) by simp
  then show ?case
    unfolding line load_offsets_loop.simps [of "Some (ws @ t @ t1)"] by (simp add: rd n1 n2 e)
qed

end
