(* ===== verification/GroupProps.thy ===== *)
theory GroupProps
  imports GroupRuns
begin

text \<open>
  The properties of consumer groups: one leader per generation, the assignment a member gets, the eviction of silent
  members, committed offsets; and the late waker, for which a join answers with a member the group does not have.
\<close>

unbundle bit_operations_syntax

section \<open>A small group\<close>

definition demo_join :: join_group_request where
  "demo_join = \<lparr>jgreq_groupId = ''g'', jgreq_topic = ''t'', jgreq_sessionTimeoutMs = 300\<rparr>"

definition demo_coordinator :: coordinator where
  "demo_coordinator = new_coordinator [] 1 ''h'' 9092"

text \<open>Two members join, the window ends, both answers are sent.\<close>

definition demo_two_joins :: "group_event list" where
  "demo_two_joins = [JoinEnter demo_join 0 0, JoinEnter demo_join 10 10, JoinLeave 0 1000, JoinLeave 0 1001]"

text \<open>A third member joins before the second one's thread has run again.\<close>

definition demo_late_waker :: "group_event list" where
  "demo_late_waker = [JoinEnter demo_join 0 0, JoinEnter demo_join 10 10, JoinLeave 0 1000, JoinEnter demo_join 1001 1001, JoinLeave 0 1002]"

definition demo_group :: "group_event list \<Rightarrow> group_run" where
  "demo_group es = the (group_events es (group_init demo_coordinator))"

lemma demo_two_joins_run:
  "group_events demo_two_joins (group_init demo_coordinator) \<noteq> None"
  "map (\<lambda>(g, r). (g, jgresp_memberId r, jgresp_generationId r, jgresp_leaderId r)) (gr_joined (demo_group demo_two_joins)) =
     [(''g'', ''g-member-0'', 1, ''g-member-0''), (''g'', ''g-member-1'', 1, ''g-member-0'')]"
  by code_simp+

lemma demo_late_waker_run:
  "group_events demo_late_waker (group_init demo_coordinator) \<noteq> None"
  "map (\<lambda>(g, r). (g, jgresp_errorCode r, jgresp_memberId r, jgresp_generationId r, jgresp_members r)) (gr_joined (demo_group demo_late_waker)) =
     [(''g'', NoError, ''g-member-0'', 1, [''g-member-0'', ''g-member-1'']), (''g'', NoError, ''g-member-1'', 2, [''g-member-2''])]"
  by code_simp+

lemma demo_group_reachable:
  assumes "group_events es (group_init demo_coordinator) \<noteq> None"
  shows "group_reachable demo_coordinator (length es) (demo_group es)"
proof -
  have "group_reachable demo_coordinator 0 (group_init demo_coordinator)"
    by (rule group_reachable.init) (simp add: demo_coordinator_def new_coordinator_def)
  moreover have "group_events es (group_init demo_coordinator) = Some (demo_group es)" using assms by (auto simp: demo_group_def)
  ultimately show ?thesis using group_events_reachable by fastforce
qed

section \<open>Joining\<close>

text \<open>
  C24: however joins, time-outs, heartbeats and departures interleave, two members that were given the same
  generation were given the same leader, as long as the generation counter has not wrapped.
\<close>

theorem one_leader_per_generation:
  assumes "group_reachable c n s" "n < 2 ^ 32"
    and "(groupId, r) \<in> set (gr_joined s)" "(groupId, r') \<in> set (gr_joined s)" "jgresp_generationId r = jgresp_generationId r'"
  shows "jgresp_leaderId r = jgresp_leaderId r'"
  using group_invD(4) [OF group_reachable_inv [OF assms(1,2)] assms(3,4,5)] .

lemma one_leader_per_generation_witness:
  "\<exists>r r'. (''g'', r) \<in> set (gr_joined (demo_group demo_two_joins)) \<and> (''g'', r') \<in> set (gr_joined (demo_group demo_two_joins)) \<and>
     jgresp_memberId r \<noteq> jgresp_memberId r' \<and> jgresp_leaderId r = jgresp_leaderId r'"
proof -
  note run = demo_two_joins_run
  obtain r r' where j: "gr_joined (demo_group demo_two_joins) = [(''g'', r), (''g'', r')]"
    "jgresp_generationId r = 1" "jgresp_generationId r' = 1" "jgresp_memberId r = ''g-member-0''" "jgresp_memberId r' = ''g-member-1''"
    using run(2) by (auto simp: map_eq_Cons_conv)
  have "length demo_two_joins < 2 ^ 32" by (simp add: demo_two_joins_def)
  from one_leader_per_generation [OF demo_group_reachable [OF run(1)] this, of "''g''" r r'] j
  show ?thesis by (intro exI [of _ r] exI [of _ r']) simp
qed

text \<open>
  A member whose thread runs late after its window ended finds the next window open, past its own deadline, and
  closes it: it is answered without an error, with a generation that does not have it as a member.
\<close>

theorem late_waker_is_no_member:
  "\<exists>c n s groupId resp. group_reachable c n s \<and> (groupId, resp) \<in> set (gr_joined s) \<and> jgresp_errorCode resp = NoError \<and>
     jgresp_memberId resp \<notin> set (jgresp_members resp)"
proof -
  note run = demo_late_waker_run
  obtain x resp where j: "gr_joined (demo_group demo_late_waker) = [x, (''g'', resp)]" "jgresp_errorCode resp = NoError"
    "jgresp_memberId resp = ''g-member-1''" "jgresp_members resp = [''g-member-2'']"
    using run(2) by (auto simp: map_eq_Cons_conv)
  have "(''g'', resp) \<in> set (gr_joined (demo_group demo_late_waker))" by (simp add: j(1))
  moreover have "jgresp_memberId resp \<notin> set (jgresp_members resp)" by (simp add: j(3,4))
  ultimately show ?thesis using demo_group_reachable [OF run(1)] j(2) by blast
qed

section \<open>Synchronising\<close>

text \<open>
  After an accepted assignment, and whatever follows short of another assignment for the group and of 2^32 events,
  each member's synchronisation in that generation returns the partitions it was assigned, or says that a rebalance
  moved the group on; never another assignment.
\<close>

theorem assignment_reaches_members:
  assumes "sync_enter (gr_coord s) req = (Inl resp, c')" "sgresp_errorCode resp = NoError" "sgreq_assignments req \<noteq> []"
    and "distinct (map sga_memberId (sgreq_assignments req))" "a \<in> set (sgreq_assignments req)"
    and "group_events es (s\<lparr>gr_coord := c'\<rparr>) = Some s'" "\<forall>e \<in> set es. \<not> posts (sgreq_groupId req) e" "length es < 2 ^ 32"
  shows "sync_leave (gr_coord s') (sgreq_groupId req) (sga_memberId a) (sgreq_generationId req) \<in>
    {\<lparr>sgresp_errorCode = NoError, sgresp_partitions = sga_partitions a\<rparr>,
     \<lparr>sgresp_errorCode = RebalanceInProgress, sgresp_partitions = []\<rparr>} \<and>
    (gs_generationId (get_or_create_group (gr_coord s') (sgreq_groupId req)) = sgreq_generationId req \<longrightarrow>
     sync_leave (gr_coord s') (sgreq_groupId req) (sga_memberId a) (sgreq_generationId req) =
       \<lparr>sgresp_errorCode = NoError, sgresp_partitions = sga_partitions a\<rparr>)"
proof -
  let ?gid = "sgreq_groupId req" and ?t = "sgreq_generationId req"
  let ?as = "foldl (\<lambda>m a. omap_put (sga_memberId a) (sga_partitions a) m) [] (sgreq_assignments req)"
  have "posted ?t ?as 0 (get_or_create_group c' ?gid)"
    using assms(1-3) by (auto simp: sync_enter_def posted_def Let_def split: if_splits option.splits)
  then have "posted ?t ?as 0 (get_or_create_group (gr_coord (s\<lparr>gr_coord := c'\<rparr>)) ?gid)" by simp
  from events_posted [OF this assms(6,7)] obtain k where
    k: "k \<le> length es" "posted ?t ?as k (get_or_create_group (gr_coord s') ?gid)" by auto
  have lt: "k < 2 ^ 32" using k(1) assms(8) by simp
  have "unat (of_nat k :: u32) = k" using lt by (rule unat_of_nat_u32)
  then have "k = 0" if "(of_nat k :: u32) = 0" using that by (metis unat_0)
  then have "gs_generationId (get_or_create_group (gr_coord s') ?gid) = ?t \<longrightarrow> k = 0" using k(2) by (simp add: posted_def)
  then show ?thesis
    using posted_sync_leave [OF k(2) lt, of "sga_memberId a"] foldl_assignments [OF assms(4,5), of "[]"] by auto
qed

definition demo_sync :: sync_group_request where
  "demo_sync = \<lparr>sgreq_groupId = ''g'', sgreq_memberId = ''g-member-0'', sgreq_generationId = 1,
     sgreq_assignments = [\<lparr>sga_memberId = ''g-member-0'', sga_partitions = [0, 2]\<rparr>, \<lparr>sga_memberId = ''g-member-1'', sga_partitions = [1]\<rparr>]\<rparr>"

lemma demo_sync_accepted:
  "(case fst (sync_enter (gr_coord (demo_group demo_two_joins)) demo_sync) of Inl resp \<Rightarrow> sgresp_errorCode resp = NoError | Inr _ \<Rightarrow> False)"
  by code_simp

lemma assignment_reaches_members_witness:
  "sync_leave (snd (sync_enter (gr_coord (demo_group demo_two_joins)) demo_sync)) ''g'' ''g-member-1'' 1 \<in>
     {\<lparr>sgresp_errorCode = NoError, sgresp_partitions = [1]\<rparr>, \<lparr>sgresp_errorCode = RebalanceInProgress, sgresp_partitions = []\<rparr>}"
proof -
  let ?s = "demo_group demo_two_joins"
  obtain resp c' where r: "sync_enter (gr_coord ?s) demo_sync = (Inl resp, c')" "sgresp_errorCode resp = NoError"
    using demo_sync_accepted by (cases "sync_enter (gr_coord ?s) demo_sync") (auto split: sum.splits)
  let ?a = "\<lparr>sga_memberId = ''g-member-1'', sga_partitions = [1]\<rparr>"
  have ok: "sgreq_assignments demo_sync \<noteq> []" "distinct (map sga_memberId (sgreq_assignments demo_sync))" "?a \<in> set (sgreq_assignments demo_sync)"
    by (simp_all add: demo_sync_def)
  have run: "group_events [] (?s\<lparr>gr_coord := c'\<rparr>) = Some (?s\<lparr>gr_coord := c'\<rparr>)" "\<forall>e \<in> set []. \<not> posts (sgreq_groupId demo_sync) e"
    "length ([] :: group_event list) < 2 ^ 32" by simp_all
  have "sync_leave c' ''g'' ''g-member-1'' 1 \<in>
     {\<lparr>sgresp_errorCode = NoError, sgresp_partitions = [1]\<rparr>, \<lparr>sgresp_errorCode = RebalanceInProgress, sgresp_partitions = []\<rparr>}"
    using assignment_reaches_members [OF r ok run] by (simp add: demo_sync_def)
  then show ?thesis unfolding r(1) snd_conv .
qed

section \<open>Heartbeats\<close>

text \<open>
  A heartbeat of a known member in the right generation, with no rebalance due, is accepted, renews that member
  and no other, and evicts exactly the other members that were silent for longer than their session timeout; a rebalance
  is due afterwards exactly if somebody was evicted. Any other heartbeat is refused and changes nothing.
\<close>

theorem heartbeat_decides:
  assumes "heartbeat c req now1 now2 = (resp, c')" "omap_ok (gs_members (get_or_create_group c (hbreq_groupId req)))"
  defines "g \<equiv> get_or_create_group c (hbreq_groupId req)" and "g' \<equiv> get_or_create_group c' (hbreq_groupId req)"
  shows "(case map_of (gs_members g) (hbreq_memberId req) of
      None \<Rightarrow> resp = \<lparr>hbresp_errorCode = UnknownMemberId\<rparr> \<and> g' = g
    | Some st \<Rightarrow>
        if hbreq_generationId req \<noteq> gs_generationId g \<or> gs_needsRebalance g
        then resp = \<lparr>hbresp_errorCode = RebalanceInProgress\<rparr> \<and> g' = g
        else resp = \<lparr>hbresp_errorCode = NoError\<rparr> \<and>
          map_of (gs_members g') (hbreq_memberId req) = Some (st\<lparr>ms_lastHeartbeatMs := now1\<rparr>) \<and>
          (\<forall>m. m \<noteq> hbreq_memberId req \<longrightarrow> map_of (gs_members g') m =
             (case map_of (gs_members g) m of None \<Rightarrow> None
              | Some st \<Rightarrow> if now2 - ms_lastHeartbeatMs st \<le> ucast (ms_sessionTimeoutMs st) then Some st else None)) \<and>
          (gs_needsRebalance g' \<longleftrightarrow> (\<exists>m. map_of (gs_members g) m \<noteq> None \<and> map_of (gs_members g') m = None)))"
proof (cases "map_of (gs_members g) (hbreq_memberId req)")
  case None
  then show ?thesis using assms(1) by (auto simp: heartbeat_def g_def g'_def Let_def)
next
  case (Some st)
  show ?thesis
  proof (cases "hbreq_generationId req \<noteq> gs_generationId g \<or> gs_needsRebalance g")
    case True
    then show ?thesis using assms(1) Some by (auto simp: heartbeat_def g_def g'_def Let_def)
  next
    case False
    define ms where "ms = omap_put (hbreq_memberId req) (st\<lparr>ms_lastHeartbeatMs := now1\<rparr>) (gs_members g)"
    have resp: "resp = \<lparr>hbresp_errorCode = NoError\<rparr>"
      and g': "gs_members g' = filter (\<lambda>e. \<not> stale_member (hbreq_memberId req) now2 e) ms"
      "gs_needsRebalance g' = (\<exists>e \<in> set ms. stale_member (hbreq_memberId req) now2 e)"
      using assms(1) Some False by (auto simp: heartbeat_def g_def g'_def ms_def Let_def)
    have "omap_ok ms" using assms(2) unfolding ms_def g_def by (rule omap_ok_put)
    then have dist: "distinct (map fst ms)" by (rule omap_ok_distinct)
    have look: "map_of (gs_members g') m = (case map_of ms m of None \<Rightarrow> None
        | Some st \<Rightarrow> if \<not> stale_member (hbreq_memberId req) now2 (m, st) then Some st else None)" for m
      unfolding g' by (rule map_of_filter_distinct [OF dist])
    have self: "map_of (gs_members g') (hbreq_memberId req) = Some (st\<lparr>ms_lastHeartbeatMs := now1\<rparr>)"
      by (simp add: look ms_def stale_member_def)
    have others: "map_of (gs_members g') m = (case map_of (gs_members g) m of None \<Rightarrow> None
        | Some st \<Rightarrow> if now2 - ms_lastHeartbeatMs st \<le> ucast (ms_sessionTimeoutMs st) then Some st else None)"
      if "m \<noteq> hbreq_memberId req" for m
      using that by (simp add: look ms_def stale_member_def not_less split: option.split)
    have "gs_needsRebalance g' \<longleftrightarrow> (\<exists>m st. map_of ms m = Some st \<and> stale_member (hbreq_memberId req) now2 (m, st))"
      unfolding g' using map_of_is_SomeI [OF dist] by (auto dest: map_of_SomeD)
    also have "\<dots> \<longleftrightarrow> (\<exists>m. map_of (gs_members g) m \<noteq> None \<and> map_of (gs_members g') m = None)"
      unfolding look ms_def by (auto simp: stale_member_def split: if_splits option.splits)
    finally show ?thesis using resp self others Some False by simp
  qed
qed

definition demo_heartbeat :: heartbeat_request where
  "demo_heartbeat = \<lparr>hbreq_groupId = ''g'', hbreq_memberId = ''g-member-1'', hbreq_generationId = 1\<rparr>"

lemma heartbeat_decides_witness:
  "gs_needsRebalance (get_or_create_group (snd (heartbeat (gr_coord (demo_group demo_two_joins)) demo_heartbeat 2000 2000)) ''g'') \<longleftrightarrow>
     (\<exists>m. map_of (gs_members (get_or_create_group (gr_coord (demo_group demo_two_joins)) ''g'')) m \<noteq> None \<and>
          map_of (gs_members (get_or_create_group (snd (heartbeat (gr_coord (demo_group demo_two_joins)) demo_heartbeat 2000 2000)) ''g'')) m = None)"
proof -
  let ?c = "gr_coord (demo_group demo_two_joins)"
  obtain resp c' where r: "heartbeat ?c demo_heartbeat 2000 2000 = (resp, c')" by fastforce
  have g: "map fst (gs_members (get_or_create_group ?c ''g'')) = [''g-member-0'', ''g-member-1'']"
    "gs_generationId (get_or_create_group ?c ''g'') = 1" "\<not> gs_needsRebalance (get_or_create_group ?c ''g'')"
    by code_simp+
  have ok: "omap_ok (gs_members (get_or_create_group ?c (hbreq_groupId demo_heartbeat)))"
    unfolding omap_ok_def demo_heartbeat_def heartbeat_request.simps g(1) by code_simp
  have "''g-member-1'' \<in> fst ` set (gs_members (get_or_create_group ?c ''g''))"
    unfolding set_map [symmetric] g(1) by simp
  then obtain st where st: "map_of (gs_members (get_or_create_group ?c ''g'')) ''g-member-1'' = Some st"
    by (metis map_of_eq_None_iff not_None_eq)
  have "gs_needsRebalance (get_or_create_group c' ''g'') \<longleftrightarrow> (\<exists>m. map_of (gs_members (get_or_create_group ?c ''g'')) m \<noteq> None \<and>
      map_of (gs_members (get_or_create_group c' ''g'')) m = None)"
    using heartbeat_decides [OF r ok] st g(2,3) by (simp add: demo_heartbeat_def)
  then show ?thesis unfolding r snd_conv .
qed

section \<open>Offsets\<close>

text \<open>
  C25: a committed offset is what the next fetch returns, other partitions keep theirs, and all of them survive a
  restart of the coordinator on the file the commit left, when topics are words (not empty, no white space).
\<close>

theorem committed_offsets_survive:
  assumes "commit_offset c req = (resp, c')"
    and "omap_ok (gs_offsets (load_offsets_if_needed c (coreq_groupId req) (get_or_create_group c (coreq_groupId req))))"
    and "\<forall>((topic, p), off) \<in> set (gs_offsets (load_offsets_if_needed c (coreq_groupId req) (get_or_create_group c (coreq_groupId req)))).
      word_text topic"
    and "word_text (coreq_topic req)"
  shows "foresp_offset (fst (fetch_offset c' \<lparr>foreq_groupId = coreq_groupId req, foreq_topic = topic, foreq_partitionId = p\<rparr>)) =
      (if (topic, p) = (coreq_topic req, coreq_partitionId req) then sint (coreq_offset req)
       else foresp_offset (fst (fetch_offset c \<lparr>foreq_groupId = coreq_groupId req, foreq_topic = topic, foreq_partitionId = p\<rparr>))) \<and>
    fst (fetch_offset (new_coordinator (gc_files c') brokerId host port)
        \<lparr>foreq_groupId = coreq_groupId req, foreq_topic = topic, foreq_partitionId = p\<rparr>) =
      fst (fetch_offset c' \<lparr>foreq_groupId = coreq_groupId req, foreq_topic = topic, foreq_partitionId = p\<rparr>)"
proof -
  let ?gid = "coreq_groupId req"
  define g where "g = load_offsets_if_needed c ?gid (get_or_create_group c ?gid)"
  define offs where "offs = omap_put (coreq_topic req, coreq_partitionId req) (coreq_offset req) (gs_offsets g)"
  have c': "get_or_create_group c' ?gid = g\<lparr>gs_offsets := offs\<rparr>"
    "map_of (gc_files c') ?gid = Some (concat (map offset_line offs))"
    using assms(1) by (auto simp: commit_offset_def g_def offs_def persist_offsets_def Let_def)
  have loaded: "gs_offsetsLoaded g" by (simp add: g_def load_offsets_if_needed_def Let_def split: option.split)
  then have keep: "load_offsets_if_needed c' ?gid (g\<lparr>gs_offsets := offs\<rparr>) = g\<lparr>gs_offsets := offs\<rparr>"
    by (simp add: load_offsets_if_needed_def)
  have ok: "omap_ok offs" using assms(2) by (simp add: offs_def g_def)
  have "set offs \<subseteq> insert ((coreq_topic req, coreq_partitionId req), coreq_offset req) (set (gs_offsets g))"
    unfolding offs_def by (rule set_omap_put)
  then have st: "list_all storable_offset offs"
    using assms(3,4) unfolding list_all_iff storable_offset_def g_def by force
  have again: "gs_offsets (load_offsets_if_needed (new_coordinator (gc_files c') brokerId host port) ?gid new_group) = offs"
    using load_offset_lines [OF st, of "[]" "[]" 0 0 "[]"] foldl_omap_put_sorted [of "[]" offs] ok c'(2)
    by (simp add: load_offsets_if_needed_def new_coordinator_def new_group_def Let_def)
  have fresh: "get_or_create_group (new_coordinator (gc_files c') brokerId host port) ?gid = new_group"
    by (simp add: get_or_create_group_def new_coordinator_def)
  show ?thesis
    by (simp add: fetch_offset_def c'(1) keep again fresh Let_def) (simp add: offs_def g_def)
qed

lemma committed_offsets_survive_witness:
  "foresp_offset (fst (fetch_offset (snd (commit_offset demo_coordinator
      \<lparr>coreq_groupId = ''g'', coreq_memberId = ''m'', coreq_generationId = 1, coreq_topic = ''t'', coreq_partitionId = 2, coreq_offset = 17\<rparr>))
     \<lparr>foreq_groupId = ''g'', foreq_topic = ''t'', foreq_partitionId = 2\<rparr>)) = 17"
proof -
  let ?req = "\<lparr>coreq_groupId = ''g'', coreq_memberId = ''m'', coreq_generationId = 1, coreq_topic = ''t'', coreq_partitionId = 2, coreq_offset = 17\<rparr>"
  obtain resp c' where r: "commit_offset demo_coordinator ?req = (resp, c')" by fastforce
  have "gs_offsets (load_offsets_if_needed demo_coordinator ''g'' (get_or_create_group demo_coordinator ''g'')) = []"
    by (simp add: demo_coordinator_def new_coordinator_def get_or_create_group_def new_group_def load_offsets_if_needed_def)
  then have "omap_ok (gs_offsets (load_offsets_if_needed demo_coordinator (coreq_groupId ?req) (get_or_create_group demo_coordinator (coreq_groupId ?req))))"
    "\<forall>((topic, p), off) \<in> set (gs_offsets (load_offsets_if_needed demo_coordinator (coreq_groupId ?req)
      (get_or_create_group demo_coordinator (coreq_groupId ?req)))). word_text topic" "word_text (coreq_topic ?req)"
    by (simp_all add: word_text_def is_space_def)
  from committed_offsets_survive [OF r this, of "''t''" 2] show ?thesis by (simp add: r)
qed

end
