(* ===== verification/BrokerProps.thy ===== *)
theory BrokerProps
  imports BrokerLemmas
begin

text \<open>
  The properties of a broker as its clients and its peers see it: what is produced is fetched, no request loses a
  record, reconciliation makes the replication state what the assignments say, and brokers agree on coordinators.
\<close>

unbundle bit_operations_syntax

section \<open>A small broker\<close>

definition demo_broker :: broker where
  "demo_broker = new_broker 1 ''h'' 9092 None False [] [] [] None None 0 0"

definition demo_produce :: produce_request where
  "demo_produce = \<lparr>preq_topic = ''t'', preq_partitionId = 0, preq_acks = 1, preq_records = demo_records\<rparr>"

definition demo_fetch :: fetch_request where
  "demo_fetch = \<lparr>freq_topic = ''t'', freq_partitionId = 0, freq_fetchOffset = 0, freq_maxBytes = 100\<rparr>"

lemma demo_broker_logs: "logs_ok demo_broker (\<lambda>_. [])"
  unfolding demo_broker_def by (rule new_broker_logs)

lemma demo_broker_fields: "bk_cluster demo_broker = None" "not_leader demo_broker key = None"
  by (simp_all add: demo_broker_def new_broker_def not_leader_def)

section \<open>Producing and fetching\<close>

text \<open>
  C8: what a client produces is what it fetches. On a standalone broker whose partition holds \<open>log\<close> (open or still
  on disk, new or old), a produce request is answered with the offset of its first record; a fetch after it, from any
  offset, gets those of the old and new records from there that fit in \<open>maxBytes\<close>, and the high watermark behind the
  new ones. The new records carry the keys and values that were sent and the broker's clock.
\<close>

theorem produce_then_fetch:
  assumes "bk_cluster b = None" "part_at b (preq_topic req, preq_partitionId req) = Inr p" "part_inv p log"
    and "produce_request_ok req" "batch_ok (preq_records req)" "preq_records req \<noteq> []" "length log + length (preq_records req) < 2 ^ 63"
    and "fetch_request_ok freq" "freq_topic freq = preq_topic req" "freq_partitionId freq = preq_partitionId req"
    and "no_wrap (freq_maxBytes freq) (log @ preq_records req)"
  shows "\<exists>b' new.
    handle b \<lparr>rf_requestType = request_type_u16 Produce, rf_correlationId = i, rf_payload = encode_produce_request [] req\<rparr> now timeout =
      Inr (Inl \<lparr>sf_correlationId = i, sf_payload = encode_produce_response []
        \<lparr>presp_errorCode = NoError, presp_baseOffset = of_nat (length log), presp_leaderHost = [], presp_leaderPort = 0\<rparr>\<rparr>, [], b') \<and>
    handle b' \<lparr>rf_requestType = request_type_u16 Fetch, rf_correlationId = j, rf_payload = encode_fetch_request [] freq\<rparr> now' timeout' =
      Inr (Inl \<lparr>sf_correlationId = j, sf_payload = encode_fetch_response []
        \<lparr>fresp_errorCode = NoError, fresp_highWatermark = of_nat (length (log @ new)),
         fresp_records = fetch_spec (unat (freq_maxBytes freq)) (drop (nat (sint (freq_fetchOffset freq))) (log @ new)),
         fresp_leaderHost = [], fresp_leaderPort = 0\<rparr>\<rparr>, [], b') \<and>
    map (\<lambda>r. (rec_key r, rec_value r, rec_timestamp r)) new = map (\<lambda>r. (rec_key r, rec_value r, now)) (preq_records req)"
proof -
  let ?key = "(preq_topic req, preq_partitionId req)"
  obtain new n' where st: "stamp_records (of_nat (length log)) now (preq_records req) = (new, n')" by fastforce
  obtain b1 where g: "get_or_create_partition b ?key = Inr (p, b1)" using assms(2) by (simp add: get_or_create_part_at)
  note G = get_or_create_Inr [OF g]
  have b1: "bk_cluster b1 = None" by (subst G(4)) (simp add: assms(1))
  have nl: "not_leader x key = None" if "bk_cluster x = None" for x key using that by (simp add: not_leader_def)
  obtain p' where p': "pt_append p (preq_records req) now = (int (length log), p')" "part_inv p' (log @ new)"
    "pt_hwm p' = int (length (log @ new))"
    using pt_append_inv [OF assms(3,5,7), of now] st assms(6) by auto
  let ?b = "b1\<lparr>bk_partitions := omap_put ?key p' (bk_partitions b1)\<rparr>"
  have produce: "handle_produce b (encode_produce_request [] req) now =
      Inr (Answer (produce_response_bytes NoError (int (length log)) [] 0), [], ?b)"
    unfolding handle_produce_def parse_put [of _ _ produce_request_ok, OF produce_request.faithful assms(4)]
    by (simp add: nl assms(1) g p'(1) b1)
  have facts: "map (\<lambda>r. (rec_key r, rec_value r, rec_timestamp r)) new = map (\<lambda>r. (rec_key r, rec_value r, now)) (preq_records req)"
    by (rule stamped_facts [OF st])
  have "pt_read p' off (freq_maxBytes freq) = fetch_spec (unat (freq_maxBytes freq)) (log_slice off (pt_hwm p') (log @ new))" for off
    unfolding pt_read_def by (rule read_clamped_spec [OF p'(2) _ stamped_no_wrap [OF facts assms(11)]]) (simp add: p'(3))
  then have read: "pt_read p' off (freq_maxBytes freq) = fetch_spec (unat (freq_maxBytes freq)) (drop (nat off) (log @ new))" for off
    by (simp add: log_slice_def p'(3))
  have "get_or_create_partition ?b ?key = Inr (p', ?b)" by (simp add: get_or_create_partition_def)
  then have fetch: "handle_fetch ?b (encode_fetch_request [] freq) =
      Inr (Answer (fetch_response_bytes NoError (word_of_int (int (length (log @ new))))
        (fetch_spec (unat (freq_maxBytes freq)) (drop (nat (sint (freq_fetchOffset freq))) (log @ new))) [] 0), [], ?b)"
    unfolding handle_fetch_def parse_put [of _ _ fetch_request_ok, OF fetch_request.faithful assms(8)]
    by (simp add: nl b1 assms(9,10) read high_watermark_def p'(3))
  show ?thesis
    using produce fetch facts
    by (intro exI [of _ ?b] exI [of _ new])
      (simp add: handle_def dispatch_def request_type_of_def produce_response_bytes_def fetch_response_bytes_def)
qed

text \<open>
  C3: whatever requests arrive, in whatever order and however malformed, no request takes a record away from any
  partition, moves it or changes it: the log behind every key stays or is extended at its end, and it is extended only by
  a produce request for that key on the broker that leads it. Every log stays readable, its high watermark at or below its end.
\<close>

theorem requests_keep_logs:
  assumes "dispatch b req now timeout = Inr (a, out, b')" "logs_ok b logs"
    and "length (rf_payload req) < 2 ^ 32" "\<forall>key. length (logs key) < 2 ^ 62"
  shows "\<exists>logs'. logs_ok b' logs' \<and> (\<forall>key. prefix (logs key) (logs' key) \<and> (logs' key \<noteq> logs key \<longrightarrow>
    request_type_of (rf_requestType req) = Produce \<and> not_leader b key = None \<and>
    (\<exists>preq. parse decode_produce_request (rf_payload req) = Inr preq \<and> key = (preq_topic preq, preq_partitionId preq))))"
proof -
  let ?grows = "\<lambda>key. request_type_of (rf_requestType req) = Produce \<and> not_leader b key = None \<and>
    (\<exists>preq. parse decode_produce_request (rf_payload req) = Inr preq \<and> key = (preq_topic preq, preq_partitionId preq))"
  have "keeps_logs ?grows logs b'"
  proof (cases "request_type_of (rf_requestType req)")
    case Produce
    then have h: "handle_produce b (rf_payload req) now = Inr (a, out, b')" using assms(1) by (simp add: dispatch_def)
    then obtain preq where preq: "parse decode_produce_request (rf_payload req) = Inr preq" by (auto simp: handle_produce_def bindE_eq_Inr)
    note fits = decoded_batch_ok [OF preq assms(3)]
    have "length (logs (preq_topic preq, preq_partitionId preq)) < 2 ^ 62" using assms(4) by blast
    then have "length (logs (preq_topic preq, preq_partitionId preq)) + length (preq_records preq) < 2 ^ 63" using fits(2) by simp
    from handle_produce_logs [OF h assms(2) preq fits(1) this] show ?thesis
      unfolding keeps_logs_def using Produce preq by (metis (no_types, lifting))
  qed (use assms(1,2) in \<open>auto simp: dispatch_def handle_heartbeat_def handle_leave_group_def handle_commit_offset_def handle_fetch_offset_def
      intro: handle_fetch_logs [OF _ assms(2)] handle_replicate_logs [OF _ assms(2)] handle_create_topic_logs [OF _ assms(2)]
        handle_leader_and_isr_logs [OF _ assms(2)] keeps_logs_frame [OF assms(2)] frame_metadata frame_find_coordinator frame_join_group
        frame_sync_group frame_group frame_request_vote frame_controller_heartbeat frame_broker_heartbeat frame_isr_update
        keeps_logs_refl\<close>)
  then show ?thesis unfolding keeps_logs_def .
qed

lemma produce_then_fetch_witness:
  "\<exists>b' new. handle demo_broker \<lparr>rf_requestType = 1, rf_correlationId = 5, rf_payload = encode_produce_request [] demo_produce\<rparr> 7 0 =
      Inr (Inl \<lparr>sf_correlationId = 5, sf_payload = encode_produce_response []
        \<lparr>presp_errorCode = NoError, presp_baseOffset = 0, presp_leaderHost = [], presp_leaderPort = 0\<rparr>\<rparr>, [], b') \<and>
    handle b' \<lparr>rf_requestType = 2, rf_correlationId = 6, rf_payload = encode_fetch_request [] demo_fetch\<rparr> 8 0 =
      Inr (Inl \<lparr>sf_correlationId = 6, sf_payload = encode_fetch_response []
        \<lparr>fresp_errorCode = NoError, fresp_highWatermark = 2, fresp_records = new, fresp_leaderHost = [], fresp_leaderPort = 0\<rparr>\<rparr>, [], b') \<and>
    map rec_value new = [[2, 3], []]"
proof -
  obtain p where p: "part_at demo_broker (preq_topic demo_produce, preq_partitionId demo_produce) = Inr p" "part_inv p []"
    using demo_broker_logs unfolding logs_ok_def by blast
  have ok: "produce_request_ok demo_produce" "batch_ok (preq_records demo_produce)" "preq_records demo_produce \<noteq> []"
    "length ([] :: log_record list) + length (preq_records demo_produce) < 2 ^ 63" "fetch_request_ok demo_fetch"
    "freq_topic demo_fetch = preq_topic demo_produce" "freq_partitionId demo_fetch = preq_partitionId demo_produce"
    "no_wrap (freq_maxBytes demo_fetch) ([] @ preq_records demo_produce)"
    by (simp_all add: demo_produce_def demo_fetch_def batch_ok_def produce_request_ok_def fetch_request_ok_def list_ok_def string_ok_def
      demo_records_def record_ok_def frame_size_def no_wrap_def)
  have fields: "preq_records demo_produce = demo_records" "freq_maxBytes demo_fetch = 100" "freq_fetchOffset demo_fetch = 0"
    "map (\<lambda>r. (rec_key r, rec_value r, 7)) demo_records = [([1], [2, 3], 7 :: u64), ([4], [], 7)]"
    "length ([] :: log_record list) = 0" "unat (100 :: u32) = 100" "nat (sint (0 :: u64)) = 0"
    by (simp_all add: demo_produce_def demo_fetch_def demo_records_def)
  obtain b' new where
    produce: "handle demo_broker \<lparr>rf_requestType = 1, rf_correlationId = 5, rf_payload = encode_produce_request [] demo_produce\<rparr> 7 0 =
      Inr (Inl \<lparr>sf_correlationId = 5, sf_payload = encode_produce_response []
        \<lparr>presp_errorCode = NoError, presp_baseOffset = 0, presp_leaderHost = [], presp_leaderPort = 0\<rparr>\<rparr>, [], b')" and
    fetch: "handle b' \<lparr>rf_requestType = 2, rf_correlationId = 6, rf_payload = encode_fetch_request [] demo_fetch\<rparr> 8 0 =
      Inr (Inl \<lparr>sf_correlationId = 6, sf_payload = encode_fetch_response []
        \<lparr>fresp_errorCode = NoError, fresp_highWatermark = of_nat (length new), fresp_records = fetch_spec 100 new,
         fresp_leaderHost = [], fresp_leaderPort = 0\<rparr>\<rparr>, [], b')" and
    new: "map (\<lambda>r. (rec_key r, rec_value r, rec_timestamp r)) new = [([1], [2, 3], 7), ([4], [], 7)]"
    using produce_then_fetch [OF demo_broker_fields(1) p ok, of 5 7 0 6 8 0] 
    unfolding fields request_type_u16.simps append_Nil drop_0
    by (elim exE conjE) (rule that, simp_all)
  have "length new = 2" "map rec_value new = [[2, 3], []]" using new by (auto simp: map_eq_Cons_conv)
  moreover have "fetch_spec 100 new = new" using new by (auto simp: map_eq_Cons_conv fetch_spec_def frame_size_def)
  ultimately show ?thesis using produce fetch by (intro exI [of _ b'] exI [of _ new]) simp
qed

lemma requests_keep_logs_witness:
  "\<exists>a out b' logs'. dispatch demo_broker \<lparr>rf_requestType = 1, rf_correlationId = 5, rf_payload = encode_produce_request [] demo_produce\<rparr> 7 0 =
     Inr (a, out, b') \<and> logs_ok b' logs' \<and> (\<forall>key. key \<noteq> (''t'', 0) \<longrightarrow> logs' key = [])"
proof -
  let ?req = "\<lparr>rf_requestType = 1, rf_correlationId = 5, rf_payload = encode_produce_request [] demo_produce\<rparr>"
  have parse: "parse decode_produce_request (encode_produce_request [] demo_produce) = Inr demo_produce"
    by (rule parse_put [OF produce_request.faithful])
      (simp add: demo_produce_def produce_request_ok_def list_ok_def string_ok_def demo_records_def record_ok_def frame_size_def)
  obtain p b1 where g: "get_or_create_partition demo_broker (''t'', 0) = Inr (p, b1)" by (rule logs_ok_get [OF demo_broker_logs])
  have b1: "bk_cluster b1 = None" by (subst get_or_create_Inr(4) [OF g]) (simp add: demo_broker_fields)
  obtain base p' where "pt_append p demo_records 7 = (base, p')" by fastforce
  then obtain a out b' where d: "dispatch demo_broker ?req 7 0 = Inr (a, out, b')"
    using parse g b1 by (simp add: dispatch_def request_type_of_def handle_produce_def demo_broker_fields) (simp add: demo_produce_def)
  have "length (rf_payload ?req) < 2 ^ 32"
    by (simp add: encode_produce_request_def demo_produce_def put_string_def put_u16_def put_bytes_def put_u8_def put_u32_def
      put_list_def demo_records_def encode_record_bytes length_record_body frame_size_def)
  from requests_keep_logs [OF d demo_broker_logs this] parse obtain logs' where
    "logs_ok b' logs'" "\<forall>key. logs' key \<noteq> [] \<longrightarrow> key = (''t'', 0)" by (auto simp: demo_produce_def)
  then show ?thesis using d by (intro exI conjI) auto
qed

section \<open>Reconciliation\<close>

text \<open>
  C23: after a reconciliation the replication state of every partition is what its assignment says, whatever the others
  are. A partition this broker leads has no fetcher, its leader state has the assigned replicas, and its high watermark is
  the log end if the broker did not lead it before, or untouched if it did. A partition it only replicates has no leader
  state and, if the leader's address is known, a fetcher to that address, the old one if it pointed there. For any other
  partition there is no fetcher, and leader state and partition are as they were.
\<close>

theorem reconcile_decides:
  assumes "reconcile_replication b = Inr b'" "bk_cluster b = Some c" "bk_isrManager b = Some m" "omap_ok (cc_assignments c)"
  shows "\<exists>m'. bk_isrManager b' = Some m' \<and>
    (case map_of (cc_assignments c) k of
       None \<Rightarrow> map_of (bk_followers b') k = None \<and> k \<notin> set (bk_leadingPartitions b') \<and>
         map_of (im_partitions m') k = map_of (im_partitions m) k \<and> part_at b' k = part_at b k
     | Some pa \<Rightarrow>
         if pa_leaderId pa = bk_id b then
           map_of (bk_followers b') k = None \<and> k \<in> set (bk_leadingPartitions b') \<and>
           (\<exists>st. map_of (im_partitions m') k = Some st \<and> ps_partition st = Some k \<and> ps_replicas st = pa_replicas pa \<and>
              ps_isr st = (case map_of (im_partitions m) k of None \<Rightarrow> pa_replicas pa
                           | Some old \<Rightarrow> if ps_isr old = [] then pa_replicas pa else ps_isr old)) \<and>
           (\<exists>p. part_at b k = Inr p \<and>
              part_at b' k = Inr (if k \<in> set (bk_leadingPartitions b) then p else set_high_watermark p (log_end_offset p)))
         else if bk_id b \<in> set (pa_replicas pa) then
           k \<notin> set (bk_leadingPartitions b') \<and> map_of (im_partitions m') k = None \<and> part_at b' k = part_at b k \<and>
           (case address_of (cc_membership c) (pa_leaderId pa) of
              None \<Rightarrow> map_of (bk_followers b') k = map_of (bk_followers b) k
            | Some addr \<Rightarrow> (\<exists>ff. map_of (bk_followers b') k = Some ff \<and>
                (map_of (bk_followers b) k = Some ff \<or> ff = new_follower (fst k) (snd k) (bk_id b) (addr_host addr) (addr_port addr)) \<and>
                ff_leaderHost ff = addr_host addr \<and> ff_leaderPort ff = addr_port addr))
         else
           map_of (bk_followers b') k = None \<and> k \<notin> set (bk_leadingPartitions b') \<and>
           map_of (im_partitions m') k = map_of (im_partitions m) k \<and> part_at b' k = part_at b k)"
proof (cases "map_of (cc_assignments c) k")
  case None
  from reconcile_none [OF assms(1-3) None] None show ?thesis by simp
next
  case (Some pa)
  show ?thesis
  proof (rule reconcile_some [OF assms Some])
    fix x rx lx y ry ly mx
    assume o: "reconcile_one c (k, pa) (x, rx, lx) = Inr (y, ry, ly)"
      and x: "bk_id x = bk_id b" "bk_leadingPartitions x = bk_leadingPartitions b" "map_of (bk_followers x) k = map_of (bk_followers b) k"
        "part_at x k = part_at b k" "bk_isrManager x = Some mx" "map_of (im_partitions mx) k = map_of (im_partitions m) k"
        "k \<notin> set rx" "k \<notin> set lx"
      and y: "map_of (bk_followers b') k = (if k \<in> set ry then map_of (bk_followers y) k else None)" "part_at b' k = part_at y k"
        "k \<in> set (bk_leadingPartitions b') \<longleftrightarrow> k \<in> set ly"
      and m': "\<And>my. bk_isrManager y = Some my \<Longrightarrow> \<exists>m'. bk_isrManager b' = Some m' \<and> map_of (im_partitions m') k = map_of (im_partitions my) k"
    show ?thesis
    proof (cases rule: reconcile_one_cases [of pa x])
      case 1
      from reconcile_leads [OF o 1] obtain p where
        l: "part_at x k = Inr p" "ry = k # rx" "ly = k # lx" "bk_followers y = omap_erase k (bk_followers x)"
          "part_at y = (part_at x)(k := Inr (if k \<in> set (bk_leadingPartitions x) then p else set_high_watermark p (log_end_offset p)))"
          "bk_isrManager y = Some (set_leading mx k k (pa_replicas pa))" using x(5) by auto
      from m' [OF l(6)] obtain m' where "bk_isrManager b' = Some m'"
        "map_of (im_partitions m') k = map_of (im_partitions (set_leading mx k k (pa_replicas pa))) k" by blast
      then show ?thesis using Some 1 l x y set_leading_entry [of mx k k "pa_replicas pa"] by simp
    next
      case 2
      note f = reconcile_follows [OF o 2]
      have "bk_isrManager y = Some (stop_leading mx k)" using f(6) x(5) by simp
      from m' [OF this] show ?thesis using Some 2 f(1-5,7) x y by (auto simp: new_follower_def split: option.splits)
    next
      case 3
      note u = reconcile_uninvolved [OF o 3]
      from m' [of mx] u(1) x(5) show ?thesis using Some 3 u x y by auto
    qed
  qed
qed

text \<open>Broker 1 of two; broker 2 leads the only partition, which broker 1 replicates.\<close>

definition demo_membership :: "(u32, address) omap" where
  "demo_membership = [(1, \<lparr>addr_host = ''a'', addr_port = 9091\<rparr>), (2, \<lparr>addr_host = ''b'', addr_port = 9092\<rparr>)]"

definition demo_member :: "u32 \<Rightarrow> broker" where
  "demo_member i = new_broker i ''h'' 9091 (Some demo_membership) False [] [] [] None None 0 0"

definition demo_assigned :: controller where
  "demo_assigned = (the (bk_cluster (demo_member 1)))
     \<lparr>cc_assignments := [((''t'', 0), \<lparr>pa_leaderId = 2, pa_replicas = [2, 1], pa_isr = [2, 1]\<rparr>)]\<rparr>"

lemma demo_member_fields:
  "bk_id (demo_member i) = i" "bk_isrManager (demo_member i) = Some \<lparr>im_selfBrokerId = i, im_partitions = []\<rparr>" "bk_followers (demo_member i) = []"
  "bk_cluster (demo_member i) = Some (new_controller \<lparr>mb_self = i, mb_peers = demo_membership\<rparr> False None None 0 0)"
  "mb_peers (cc_membership (new_controller \<lparr>mb_self = i, mb_peers = demo_membership\<rparr> False None None 0 0)) = demo_membership"
  by (simp_all add: demo_member_def new_broker_def new_controller_def load_state_def load_assignments_def reset_election_deadline_def Let_def)

lemma reconcile_decides_witness:
  "\<exists>b' m' ff. reconcile_replication (demo_member 1\<lparr>bk_cluster := Some demo_assigned\<rparr>) = Inr b' \<and> bk_isrManager b' = Some m' \<and>
     map_of (im_partitions m') (''t'', 0) = None \<and> map_of (bk_followers b') (''t'', 0) = Some ff \<and> ff_leaderHost ff = ''b''"
proof -
  let ?b = "demo_member 1\<lparr>bk_cluster := Some demo_assigned\<rparr>"
  have as: "cc_assignments demo_assigned = [((''t'', 0), \<lparr>pa_leaderId = 2, pa_replicas = [2, 1], pa_isr = [2, 1]\<rparr>)]"
    by (simp add: demo_assigned_def)
  have addr: "address_of (cc_membership demo_assigned) 2 = Some \<lparr>addr_host = ''b'', addr_port = 9092\<rparr>"
    by (simp add: demo_assigned_def demo_member_fields address_of_def) (simp add: demo_membership_def)
  have "logs_ok (demo_member 1) (\<lambda>_. [])" unfolding demo_member_def by (rule new_broker_logs)
  then have "logs_ok (?b\<lparr>bk_isrManager := x\<rparr>) (\<lambda>_. [])" for x by (rule logs_ok_same) simp_all
  then obtain p b1 where g: "get_or_create_partition (?b\<lparr>bk_isrManager := Some (stop_leading \<lparr>im_selfBrokerId = 1, im_partitions = []\<rparr> (''t'', 0))\<rparr>)
      (''t'', 0) = Inr (p, b1)" by (rule logs_ok_get) 
  then obtain b' where r: "reconcile_replication ?b = Inr b'"
    by (simp add: reconcile_replication_def all_assignments_def as reconcile_one_def addr demo_member_fields)
  have "omap_ok (cc_assignments demo_assigned)" by (simp add: as omap_ok_Cons)
  from reconcile_decides [OF r _ _ this, of _ "(''t'', 0)"] obtain m' where "bk_isrManager b' = Some m'"
    "map_of (im_partitions m') (''t'', 0) = None" "\<exists>ff. map_of (bk_followers b') (''t'', 0) = Some ff \<and> ff_leaderHost ff = ''b''"
    by (auto simp: as addr demo_member_fields)
  then show ?thesis using r by blast
qed

section \<open>Coordinators\<close>

text \<open>
  All brokers of a cluster send a group to the same coordinator: the answer depends on the membership and the
  group's name only, and names a member of the cluster with its address.
\<close>

theorem find_coordinator_agrees:
  assumes "bk_cluster b1 = Some c1" "bk_cluster b2 = Some c2" "mb_peers (cc_membership c1) = peers" "mb_peers (cc_membership c2) = peers"
    and "peers \<noteq> []" "find_coordinator_request_ok req"
  shows "\<exists>i addr. map_of peers i = Some addr \<and>
    (\<forall>b \<in> {b1, b2}. handle_find_coordinator b (encode_find_coordinator_request [] req) =
      Inr (Answer (encode_find_coordinator_response []
        \<lparr>fcresp_errorCode = NoError, fcresp_coordinatorId = i, fcresp_host = addr_host addr, fcresp_port = ucast (addr_port addr)\<rparr>), [], b))"
proof -
  let ?i = "map fst peers ! (unat (word_of_int (murmur2 (string_bytes (fcreq_groupId req)) AND 0x7fffffff) :: u32) mod length peers)"
  have "?i \<in> set (map fst peers)" by (rule nth_mem) (use assms(5) in simp)
  then obtain addr where addr: "map_of peers ?i = Some addr" by (metis list.set_map map_of_eq_None_iff not_None_eq)
  have "handle_find_coordinator b (encode_find_coordinator_request [] req) =
      Inr (Answer (encode_find_coordinator_response []
        \<lparr>fcresp_errorCode = NoError, fcresp_coordinatorId = ?i, fcresp_host = addr_host addr, fcresp_port = ucast (addr_port addr)\<rparr>), [], b)"
    if "bk_cluster b = Some c" "mb_peers (cc_membership c) = peers" for b c
    unfolding handle_find_coordinator_def parse_put [of _ _ find_coordinator_request_ok, OF find_coordinator_request.faithful assms(6)]
    using that addr by (simp add: all_ids_def address_fields_def address_of_def Let_def)
  then show ?thesis using addr assms(1-4) by blast
qed

lemma find_coordinator_agrees_witness:
  "\<exists>a. handle_find_coordinator (demo_member 1) (encode_find_coordinator_request [] \<lparr>fcreq_groupId = ''g''\<rparr>) = Inr (a, [], demo_member 1) \<and>
       handle_find_coordinator (demo_member 2) (encode_find_coordinator_request [] \<lparr>fcreq_groupId = ''g''\<rparr>) = Inr (a, [], demo_member 2)"
proof -
  have "demo_membership \<noteq> []" "find_coordinator_request_ok \<lparr>fcreq_groupId = ''g''\<rparr>"
    by (simp_all add: demo_membership_def find_coordinator_request_ok_def string_ok_def)
  from find_coordinator_agrees [OF demo_member_fields(4) demo_member_fields(4) demo_member_fields(5) demo_member_fields(5) this]
  show ?thesis by fast
qed

end
