(* ===== verification/Clients.thy ===== *)
theory Clients
  imports ClientMessages GroupMessages Controller Murmur2
begin

text \<open>
  The command line programs (\<open>src/cli\<close>): the producer's choice of a partition and its retries, the consumer alone and
  in a group, the administrator's request, the broker's peer list. The network is a parameter: whether a connection to
  an endpoint can be opened, and what a request over it leads to. The command lines are read in \<open>Arguments\<close>; what is
  printed is returned.
\<close>

unbundle bit_operations_syntax

section \<open>Talking to a broker\<close>

type_synonym endpoint = "string \<times> u16"

text \<open>
  A request is answered; or an exception of the socket reports the connection lost; or nothing comes and the
  connection stays open, and as no socket has a timeout the read never returns; or the request is sent over a connection
  that the peer has closed, and \<open>SIGPIPE\<close>, which nothing handles, ends the program.
\<close>

datatype reply = Replied response_frame | Lost | Silent | PipeBroken

record 's network =
  net_connect :: "'s \<Rightarrow> endpoint \<Rightarrow> bool \<times> 's"
  net_call :: "'s \<Rightarrow> endpoint \<Rightarrow> request_frame \<Rightarrow> reply \<times> 's"

text \<open>
  How a client's action ends, unless it returns: with an exception, which the program may catch; or it hangs, or is
  killed, which no handler sees.
\<close>

datatype client_error =
    CannotConnect
  | ConnectionLost
  | BadResponse decode_error
  | RequestFailed error_code
  | Hangs
  | Killed

definition thrown :: "client_error \<Rightarrow> bool" where
  "thrown e \<longleftrightarrow> e \<noteq> Hangs \<and> e \<noteq> Killed"

lemma thrown_simps [simp]:
  "thrown CannotConnect" "thrown ConnectionLost" "thrown (BadResponse d)" "thrown (RequestFailed c)" "\<not> thrown Hangs" "\<not> thrown Killed"
  by (simp_all add: thrown_def)

type_synonym ('s, 'a) client = "'s \<Rightarrow> (client_error + 'a) \<times> 's"

definition retC :: "'a \<Rightarrow> ('s, 'a) client" where
  "retC a s = (Inr a, s)"

definition failC :: "client_error \<Rightarrow> ('s, 'a) client" where
  "failC e s = (Inl e, s)"

definition bindC :: "('s, 'a) client \<Rightarrow> ('a \<Rightarrow> ('s, 'b) client) \<Rightarrow> ('s, 'b) client" where
  "bindC m f s = (case m s of (Inl e, s) \<Rightarrow> (Inl e, s) | (Inr a, s) \<Rightarrow> f a s)"

definition connect :: "'s network \<Rightarrow> endpoint \<Rightarrow> ('s, unit) client" where
  "connect net ep s = (let (ok, s) = net_connect net s ep in if ok then (Inr (), s) else (Inl CannotConnect, s))"

definition call :: "'s network \<Rightarrow> endpoint \<Rightarrow> request_type \<Rightarrow> u32 \<Rightarrow> bytes \<Rightarrow> 'a get \<Rightarrow> ('s, 'a) client" where
  "call net ep ty i payload get s =
     (case net_call net s ep \<lparr>rf_requestType = request_type_u16 ty, rf_correlationId = i, rf_payload = payload\<rparr> of
        (Lost, s) \<Rightarrow> (Inl ConnectionLost, s)
      | (Silent, s) \<Rightarrow> (Inl Hangs, s)
      | (PipeBroken, s) \<Rightarrow> (Inl Killed, s)
      | (Replied frame, s) \<Rightarrow> (case get (mk_reader (sf_payload frame)) of
           Inl e \<Rightarrow> (Inl (BadResponse e), s)
         | Inr (resp, _) \<Rightarrow> (Inr resp, s)))"

definition metadata_call :: "'s network \<Rightarrow> endpoint \<Rightarrow> u32 \<Rightarrow> string \<Rightarrow> ('s, metadata_response) client" where
  "metadata_call net ep i topic =
     call net ep Metadata i (encode_metadata_request [] \<lparr>mreq_topic = topic\<rparr>) decode_metadata_response"

text \<open>The first partition entry with the id and a leader's host.\<close>

definition leader_endpoint :: "partition_metadata list \<Rightarrow> u32 \<Rightarrow> endpoint option" where
  "leader_endpoint pms partitionId =
     map_option (\<lambda>pm. (pmeta_leaderHost pm, ucast (pmeta_leaderPort pm)))
       (find (\<lambda>pm. pmeta_partitionId pm = partitionId \<and> pmeta_leaderHost pm \<noteq> []) pms)"

section \<open>Endpoints on the command line\<close>

datatype usage_error = MalformedEndpoint | BadNumber num_error

fun rfind :: "char \<Rightarrow> string \<Rightarrow> nat option" where
  "rfind c [] = None"
| "rfind c (x # xs) = (case rfind c xs of Some n \<Rightarrow> Some (Suc n) | None \<Rightarrow> if x = c then Some 0 else None)"

fun find_char :: "char \<Rightarrow> string \<Rightarrow> nat option" where
  "find_char c [] = None"
| "find_char c (x # xs) = (if x = c then Some 0 else map_option Suc (find_char c xs))"

definition stoul :: "string \<Rightarrow> usage_error + u64" where
  "stoul s = (case stoull s of Inl e \<Rightarrow> Inl (BadNumber e) | Inr n \<Rightarrow> Inr n)"

definition split_broker :: "string \<Rightarrow> usage_error + endpoint" where
  "split_broker hostPort =
     (case rfind (CHR '':'') hostPort of
        None \<Rightarrow> Inl MalformedEndpoint
      | Some colon \<Rightarrow> bindE (stoul (drop (Suc colon) hostPort)) (\<lambda>port. Inr (take colon hostPort, ucast port)))"

text \<open>The tokens \<open>std::getline\<close> cuts a text into.\<close>

function getlines :: "char \<Rightarrow> string \<Rightarrow> string list" where
  "getlines c s = (if s = [] then [] else takeWhile (\<lambda>x. x \<noteq> c) s # getlines c (tl (dropWhile (\<lambda>x. x \<noteq> c) s)))"
  by pat_completeness auto
termination
proof (relation "measure (\<lambda>(c, s). length s)")
  fix c :: char and s :: string assume "s \<noteq> []"
  then have "length (tl (dropWhile (\<lambda>x. x \<noteq> c) s)) < length s"
    using length_dropWhile_le [of "\<lambda>x. x \<noteq> c" s] by (cases s) (auto simp: le_imp_less_Suc)
  then show "((c, tl (dropWhile (\<lambda>x. x \<noteq> c) s)), c, s) \<in> measure (\<lambda>(c, s). length s)" by simp
qed simp

declare getlines.simps [simp del]

definition parse_peer :: "string \<Rightarrow> usage_error + (u32 \<times> address)" where
  "parse_peer token =
     (case (find_char (CHR ''@'') token, rfind (CHR '':'') token) of
        (Some at, Some colon) \<Rightarrow>
          if colon < at then Inl MalformedEndpoint
          else bindE (stoul (take at token)) (\<lambda>peerId.
                 bindE (stoul (drop (Suc colon) token)) (\<lambda>peerPort.
                 Inr (ucast peerId, \<lparr>addr_host = take (colon - at - 1) (drop (Suc at) token), addr_port = ucast peerPort\<rparr>)))
      | _ \<Rightarrow> Inl MalformedEndpoint)"

fun parse_tokens :: "string list \<Rightarrow> (u32, address) omap \<Rightarrow> usage_error + (u32, address) omap" where
  "parse_tokens [] peers = Inr peers"
| "parse_tokens (token # tokens) peers =
     bindE (parse_peer token) (\<lambda>(peerId, addr). parse_tokens tokens (omap_put peerId addr peers))"

definition parse_peers :: "string \<Rightarrow> usage_error + (u32, address) omap" where
  "parse_peers spec = parse_tokens (getlines (CHR '','') spec) []"

text \<open>What \<open>mk-broker\<close> hands to its broker: itself is always among the peers.\<close>

definition broker_peers :: "string option \<Rightarrow> u32 \<Rightarrow> string \<Rightarrow> u16 \<Rightarrow> usage_error + (u32, address) omap option" where
  "broker_peers peersSpec brokerId host port =
     (case peersSpec of
        None \<Rightarrow> Inr None
      | Some spec \<Rightarrow> bindE (parse_peers spec) (\<lambda>peers. Inr (Some (omap_put brokerId \<lparr>addr_host = host, addr_port = port\<rparr> peers))))"

section \<open>The producer\<close>

definition kMaxProduceAttempts :: nat where "kMaxProduceAttempts = 10"
definition kInitialBackoffMs :: u32 where "kInitialBackoffMs = 50"
definition kMaxBackoffMs :: u32 where "kMaxBackoffMs = 2000"

text \<open>The lookup between two attempts catches every exception.\<close>

definition resolve_leader :: "'s network \<Rightarrow> endpoint \<Rightarrow> string \<Rightarrow> u32 \<Rightarrow> ('s, endpoint option) client" where
  "resolve_leader net broker_ep topic partitionId s =
     (case bindC (connect net broker_ep) (\<lambda>_. metadata_call net broker_ep 1 topic) s of
        (Inl e, s) \<Rightarrow> (if thrown e then Inr None else Inl e, s)
      | (Inr resp, s) \<Rightarrow>
          if mresp_errorCode resp \<noteq> NoError then (Inr None, s)
          else (Inr (leader_endpoint (mresp_partitions resp) partitionId), s))"

text \<open>Which partition, and whom to ask first; \<open>random\<close> is the choice for a message without a key.\<close>

definition choose_partition :: "'s network \<Rightarrow> endpoint \<Rightarrow> string \<Rightarrow> bytes option \<Rightarrow> u32 option \<Rightarrow> (u32 \<Rightarrow> u32) \<Rightarrow>
    ('s, u32 \<times> endpoint \<times> u32) client" where
  "choose_partition net broker_ep topic key partitionOverride random =
     (case partitionOverride of
        Some partitionId \<Rightarrow> retC (partitionId, broker_ep, 1)
      | None \<Rightarrow>
          bindC (connect net broker_ep) (\<lambda>_. bindC (metadata_call net broker_ep 1 topic) (\<lambda>resp.
            if mresp_errorCode resp \<noteq> NoError \<or> mresp_partitions resp = [] then failC (RequestFailed (mresp_errorCode resp))
            else let partitionCount = of_nat (length (mresp_partitions resp));
                     partitionId = (case key of Some k \<Rightarrow> partition_for_key k partitionCount | None \<Rightarrow> random partitionCount)
                 in retC (partitionId, case leader_endpoint (mresp_partitions resp) partitionId of None \<Rightarrow> broker_ep | Some ep \<Rightarrow> ep, 2))))"

text \<open>
  The retry loop: the attempts left, whom to ask, the correlation id, the back-off; the answer is the base offset,
  or nothing when the attempts are used up, and the times it slept. Every exception is caught and leads to another
  attempt; a call that hangs or kills ends the loop there.
\<close>

fun produce_loop :: "'s network \<Rightarrow> endpoint \<Rightarrow> string \<Rightarrow> u32 \<Rightarrow> bytes \<Rightarrow> nat \<Rightarrow> endpoint \<Rightarrow> u32 \<Rightarrow> u32 \<Rightarrow> 's \<Rightarrow>
    (client_error + u64 option) \<times> u32 list \<times> 's" where
  "produce_loop net broker_ep topic partitionId payload 0 ep i backoff s = (Inr None, [], s)"
| "produce_loop net broker_ep topic partitionId payload (Suc n) ep i backoff s =
     (let (connected, s) = connect net ep s;
          (r, i, s) = (case connected of
             Inl e \<Rightarrow> (Inl e, i, s)
           | Inr _ \<Rightarrow> (let (r, s) = call net ep Produce i payload decode_produce_response s in (r, i + 1, s)));
          retry = (\<lambda>s. case resolve_leader net broker_ep topic partitionId s of
               (Inl e, s) \<Rightarrow> (Inl e, [backoff], s)
             | (Inr resolved, s) \<Rightarrow>
                 (let (base, sleeps, s) = produce_loop net broker_ep topic partitionId payload n
                        (case resolved of None \<Rightarrow> ep | Some ep' \<Rightarrow> ep') i (min (backoff * 2) kMaxBackoffMs) s
                  in (base, backoff # sleeps, s)))
      in case r of
           Inl e \<Rightarrow> if thrown e then retry s else (Inl e, [], s)
         | Inr resp \<Rightarrow>
             if presp_errorCode resp = NoError then (Inr (Some (presp_baseOffset resp)), [], s)
             else if presp_errorCode resp = NotLeaderForPartition \<and> presp_leaderHost resp \<noteq> []
             then produce_loop net broker_ep topic partitionId payload n (presp_leaderHost resp, ucast (presp_leaderPort resp)) i backoff s
             else retry s)"

declare produce_loop.simps(2) [simp del]

definition produce_main :: "'s network \<Rightarrow> endpoint \<Rightarrow> string \<Rightarrow> bytes option \<Rightarrow> bytes \<Rightarrow> u8 \<Rightarrow> u32 option \<Rightarrow> (u32 \<Rightarrow> u32) \<Rightarrow>
    's \<Rightarrow> (client_error + u64 option \<times> u32 list) \<times> 's" where
  "produce_main net broker_ep topic key val acks partitionOverride random s =
     (case choose_partition net broker_ep topic key partitionOverride random s of
        (Inl e, s) \<Rightarrow> (Inl e, s)
      | (Inr (partitionId, ep, i), s) \<Rightarrow>
          (let rec = \<lparr>rec_offset = 0, rec_timestamp = 0, rec_key = (case key of None \<Rightarrow> [] | Some k \<Rightarrow> k), rec_value = val\<rparr>;
               payload = encode_produce_request []
                 \<lparr>preq_topic = topic, preq_partitionId = partitionId, preq_acks = acks, preq_records = [rec]\<rparr>;
               (base, sleeps, s) = produce_loop net broker_ep topic partitionId payload kMaxProduceAttempts ep i kInitialBackoffMs s
           in (case base of Inl e \<Rightarrow> Inl e | Inr b \<Rightarrow> Inr (b, sleeps), s)))"

section \<open>The administrator\<close>

text \<open>At most \<open>n\<close> attempts; a redirect names the controller.\<close>

fun create_topic_loop :: "'s network \<Rightarrow> bytes \<Rightarrow> nat \<Rightarrow> endpoint \<Rightarrow> ('s, bool) client" where
  "create_topic_loop net payload 0 ep = retC False"
| "create_topic_loop net payload (Suc n) ep =
     bindC (connect net ep) (\<lambda>_. bindC (call net ep CreateTopic 1 payload decode_create_topic_response) (\<lambda>resp.
       if ctresp_errorCode resp = NotLeaderForPartition \<and> ctresp_controllerHost resp \<noteq> []
       then create_topic_loop net payload n (ctresp_controllerHost resp, ucast (ctresp_controllerPort resp))
       else if ctresp_errorCode resp \<noteq> NoError then failC (RequestFailed (ctresp_errorCode resp))
       else retC True))"

definition create_topic_main :: "'s network \<Rightarrow> endpoint \<Rightarrow> string \<Rightarrow> u32 \<Rightarrow> u32 \<Rightarrow> ('s, bool) client" where
  "create_topic_main net broker_ep topic partitions replicationFactor =
     create_topic_loop net (encode_create_topic_request []
       \<lparr>ctreq_topic = topic, ctreq_numPartitions = partitions, ctreq_replicationFactor = replicationFactor\<rparr>) 3 broker_ep"

section \<open>The consumer of one partition\<close>

definition kMaxPollBytes :: u32 where "kMaxPollBytes = push_bit 20 1"
definition kSessionTimeoutMs :: u32 where "kSessionTimeoutMs = 10000"

record direct =
  dr_endpoint :: endpoint
  dr_offset :: u64
  dr_correlationId :: u32

definition direct_start :: "'s network \<Rightarrow> endpoint \<Rightarrow> string \<Rightarrow> u32 \<Rightarrow> u64 \<Rightarrow> ('s, direct) client" where
  "direct_start net broker_ep topic partitionId offset =
     bindC (connect net broker_ep) (\<lambda>_. bindC (metadata_call net broker_ep 1 topic) (\<lambda>resp.
       let ep = (case leader_endpoint (mresp_partitions resp) partitionId of None \<Rightarrow> broker_ep | Some ep \<Rightarrow> ep)
       in bindC (connect net ep) (\<lambda>_. retC \<lparr>dr_endpoint = ep, dr_offset = offset, dr_correlationId = 1\<rparr>)))"

text \<open>The offset after a batch was printed: behind its last record.\<close>

definition next_offset :: "u64 \<Rightarrow> log_record list \<Rightarrow> u64" where
  "next_offset offset records = foldl (\<lambda>_ rec. rec_offset rec + 1) offset records"

text \<open>One pass of the loop; it returns what is printed.\<close>

definition direct_step :: "'s network \<Rightarrow> string \<Rightarrow> u32 \<Rightarrow> direct \<Rightarrow> ('s, log_record list \<times> direct) client" where
  "direct_step net topic partitionId d =
     bindC (call net (dr_endpoint d) Fetch (dr_correlationId d) (encode_fetch_request []
        \<lparr>freq_topic = topic, freq_partitionId = partitionId, freq_fetchOffset = dr_offset d, freq_maxBytes = kMaxPollBytes\<rparr>)
        decode_fetch_response) (\<lambda>resp.
       let d = d\<lparr>dr_correlationId := dr_correlationId d + 1\<rparr>
       in if fresp_errorCode resp = NotLeaderForPartition \<and> fresp_leaderHost resp \<noteq> []
          then let ep = (fresp_leaderHost resp, ucast (fresp_leaderPort resp))
               in bindC (connect net ep) (\<lambda>_. retC ([], d\<lparr>dr_endpoint := ep\<rparr>))
          else if fresp_errorCode resp \<noteq> NoError then failC (RequestFailed (fresp_errorCode resp))
          else retC (fresp_records resp, d\<lparr>dr_offset := next_offset (dr_offset d) (fresp_records resp)\<rparr>))"

fun direct_steps :: "'s network \<Rightarrow> string \<Rightarrow> u32 \<Rightarrow> nat \<Rightarrow> direct \<Rightarrow> ('s, log_record list \<times> direct) client" where
  "direct_steps net topic partitionId 0 d = retC ([], d)"
| "direct_steps net topic partitionId (Suc n) d =
     bindC (direct_step net topic partitionId d) (\<lambda>(printed, d).
     bindC (direct_steps net topic partitionId n d) (\<lambda>(more, d). retC (printed @ more, d)))"

section \<open>The members of a group\<close>

fun range_loop :: "nat \<Rightarrow> u32 \<Rightarrow> u32 \<Rightarrow> u32 \<Rightarrow> string list \<Rightarrow> (string, u32 list) omap \<Rightarrow> (string, u32 list) omap" where
  "range_loop i base extra p [] assignment = assignment"
| "range_loop i base extra p (member # members) assignment =
     (let count = base + (if i < unat extra then 1 else 0);
          parts = map (\<lambda>k. p + of_nat k) [0..<unat count]
      in range_loop (Suc i) base extra (p + count) members (omap_put member parts assignment))"

definition compute_range_assignment :: "string list \<Rightarrow> u32 \<Rightarrow> (string, u32 list) omap" where
  "compute_range_assignment members partitionCount =
     (let members = sort members
      in if members = [] then []
         else range_loop 0 (partitionCount div of_nat (length members)) (partitionCount mod of_nat (length members)) 0 members [])"

definition sync_assignments :: "(string, u32 list) omap \<Rightarrow> sync_group_assignment list" where
  "sync_assignments assignment = map (\<lambda>(i, parts). \<lparr>sga_memberId = i, sga_partitions = parts\<rparr>) assignment"

definition resolve_coordinator :: "'s network \<Rightarrow> endpoint \<Rightarrow> string \<Rightarrow> ('s, endpoint) client" where
  "resolve_coordinator net broker_ep groupId =
     bindC (connect net broker_ep) (\<lambda>_.
     bindC (call net broker_ep FindCoordinator 1 (encode_find_coordinator_request [] \<lparr>fcreq_groupId = groupId\<rparr>)
        decode_find_coordinator_response) (\<lambda>resp.
       retC (if fcresp_errorCode resp = NoError \<and> fcresp_host resp \<noteq> [] then (fcresp_host resp, ucast (fcresp_port resp)) else broker_ep)))"

record group_member =
  gm_coordinator :: endpoint
  gm_correlationId :: u32
  gm_groupId :: string
  gm_topic :: string
  gm_memberId :: string
  gm_generationId :: u32

text \<open>A request over the main connection takes the next correlation id.\<close>

definition main_call :: "'s network \<Rightarrow> group_member \<Rightarrow> request_type \<Rightarrow> bytes \<Rightarrow> 'a get \<Rightarrow> ('s, 'a \<times> group_member) client" where
  "main_call net g ty payload get =
     bindC (call net (gm_coordinator g) ty (gm_correlationId g) payload get) (\<lambda>resp.
       retC (resp, g\<lparr>gm_correlationId := gm_correlationId g + 1\<rparr>))"

text \<open>Joining and synchronising; the leader computes everybody's partitions. \<open>None\<close>: the synchronisation failed, join again.\<close>

definition join_and_sync :: "'s network \<Rightarrow> group_member \<Rightarrow> ('s, u32 list option \<times> group_member) client" where
  "join_and_sync net g =
     bindC (main_call net g JoinGroup (encode_join_group_request []
        \<lparr>jgreq_groupId = gm_groupId g, jgreq_topic = gm_topic g, jgreq_sessionTimeoutMs = kSessionTimeoutMs\<rparr>)
        decode_join_group_response) (\<lambda>(joined, g).
       if jgresp_errorCode joined \<noteq> NoError then failC (RequestFailed (jgresp_errorCode joined))
       else let g = g\<lparr>gm_memberId := jgresp_memberId joined, gm_generationId := jgresp_generationId joined\<rparr>
            in bindC (if jgresp_memberId joined = jgresp_leaderId joined
                 then bindC (main_call net g Metadata (encode_metadata_request [] \<lparr>mreq_topic = gm_topic g\<rparr>) decode_metadata_response)
                   (\<lambda>(resp, g). if mresp_errorCode resp \<noteq> NoError \<or> mresp_partitions resp = []
                      then failC (RequestFailed (mresp_errorCode resp))
                      else retC (sync_assignments (compute_range_assignment (jgresp_members joined)
                             (of_nat (length (mresp_partitions resp)))), g))
                 else retC ([], g)) (\<lambda>(assignments, g).
               bindC (main_call net g SyncGroup (encode_sync_group_request []
                 \<lparr>sgreq_groupId = gm_groupId g, sgreq_memberId = gm_memberId g, sgreq_generationId = gm_generationId g,
                  sgreq_assignments = assignments\<rparr>) decode_sync_group_response) (\<lambda>(synced, g).
               retC (if sgresp_errorCode synced \<noteq> NoError then None else Some (sgresp_partitions synced), g))))"

text \<open>Where to resume every partition.\<close>

fun resume_offsets :: "'s network \<Rightarrow> u64 option \<Rightarrow> u32 list \<Rightarrow> group_member \<Rightarrow> (u32, u64) omap \<Rightarrow>
    ('s, (u32, u64) omap \<times> group_member) client" where
  "resume_offsets net offsetOverride [] g offsets = retC (offsets, g)"
| "resume_offsets net offsetOverride (p # ps) g offsets =
     (case offsetOverride of
        Some off \<Rightarrow> resume_offsets net offsetOverride ps g (omap_put p off offsets)
      | None \<Rightarrow>
          bindC (main_call net g FetchOffset (encode_fetch_offset_request []
             \<lparr>foreq_groupId = gm_groupId g, foreq_topic = gm_topic g, foreq_partitionId = p\<rparr>) decode_fetch_offset_response)
            (\<lambda>(resp, g). resume_offsets net offsetOverride ps g
               (omap_put p (if 0 \<le> foresp_offset resp then word_of_int (foresp_offset resp) else 0) offsets)))"

text \<open>The leaders' endpoints, and a connection for every assigned partition.\<close>

definition partition_endpoints :: "partition_metadata list \<Rightarrow> (u32, endpoint) omap" where
  "partition_endpoints pms =
     foldl (\<lambda>m pm. if pmeta_leaderHost pm = [] then m
              else omap_put (pmeta_partitionId pm) (pmeta_leaderHost pm, ucast (pmeta_leaderPort pm)) m) [] pms"

fun open_partitions :: "'s network \<Rightarrow> endpoint \<Rightarrow> (u32, endpoint) omap \<Rightarrow> u32 list \<Rightarrow> (u32, endpoint) omap \<Rightarrow>
    ('s, (u32, endpoint) omap) client" where
  "open_partitions net broker_ep addrs [] sockets = retC sockets"
| "open_partitions net broker_ep addrs (p # ps) sockets =
     (let ep = (case map_of addrs p of None \<Rightarrow> broker_ep | Some ep \<Rightarrow> ep)
      in bindC (connect net ep) (\<lambda>_. open_partitions net broker_ep addrs ps (omap_put p ep sockets)))"

record poll =
  pl_member :: group_member
  pl_offsets :: "(u32, u64) omap"
  pl_sockets :: "(u32, endpoint) omap"

text \<open>One partition of one round: what is printed. The answer to the commit is read, not decoded.\<close>

definition poll_partition :: "'s network \<Rightarrow> u32 \<Rightarrow> poll \<Rightarrow> ('s, log_record list \<times> poll) client" where
  "poll_partition net p st =
     (let g = pl_member st;
          offset = (case map_of (pl_offsets st) p of None \<Rightarrow> 0 | Some off \<Rightarrow> off);
          ep = (case map_of (pl_sockets st) p of None \<Rightarrow> ([], 0) | Some ep \<Rightarrow> ep)
      in bindC (call net ep Fetch (gm_correlationId g) (encode_fetch_request []
           \<lparr>freq_topic = gm_topic g, freq_partitionId = p, freq_fetchOffset = offset, freq_maxBytes = kMaxPollBytes\<rparr>)
           decode_fetch_response) (\<lambda>resp.
         let g = g\<lparr>gm_correlationId := gm_correlationId g + 1\<rparr>;
             st = st\<lparr>pl_member := g, pl_offsets := omap_put p offset (pl_offsets st)\<rparr>
         in if fresp_errorCode resp = NotLeaderForPartition \<and> fresp_leaderHost resp \<noteq> []
            then let ep = (fresp_leaderHost resp, ucast (fresp_leaderPort resp))
                 in bindC (connect net ep) (\<lambda>_. retC ([], st\<lparr>pl_sockets := omap_put p ep (pl_sockets st)\<rparr>))
            else if fresp_errorCode resp \<noteq> NoError \<or> fresp_records resp = [] then retC ([], st)
            else let offset = next_offset offset (fresp_records resp)
                 in bindC (main_call net g CommitOffset (encode_commit_offset_request []
                      \<lparr>coreq_groupId = gm_groupId g, coreq_memberId = gm_memberId g, coreq_generationId = gm_generationId g,
                       coreq_topic = gm_topic g, coreq_partitionId = p, coreq_offset = offset\<rparr>) (\<lambda>r. Inr ((), r)))
                    (\<lambda>(_, g). retC (fresp_records resp, st\<lparr>pl_member := g, pl_offsets := omap_put p offset (pl_offsets st)\<rparr>))))"

fun poll_round :: "'s network \<Rightarrow> u32 list \<Rightarrow> poll \<Rightarrow> ('s, (u32 \<times> log_record list) list \<times> poll) client" where
  "poll_round net [] st = retC ([], st)"
| "poll_round net (p # ps) st =
     bindC (poll_partition net p st) (\<lambda>(printed, st). bindC (poll_round net ps st) (\<lambda>(more, st). retC ((p, printed) # more, st)))"

text \<open>What a member does before its first round.\<close>

definition prepare_polling :: "'s network \<Rightarrow> endpoint \<Rightarrow> u64 option \<Rightarrow> u32 list \<Rightarrow> group_member \<Rightarrow> ('s, poll) client" where
  "prepare_polling net broker_ep offsetOverride parts g =
     bindC (resume_offsets net offsetOverride parts g []) (\<lambda>(offsets, g).
     bindC (main_call net g Metadata (encode_metadata_request [] \<lparr>mreq_topic = gm_topic g\<rparr>) decode_metadata_response) (\<lambda>(resp, g).
     bindC (open_partitions net broker_ep (partition_endpoints (mresp_partitions resp)) parts []) (\<lambda>sockets.
     retC \<lparr>pl_member = g, pl_offsets = offsets, pl_sockets = sockets\<rparr>)))"

text \<open>The heartbeat thread: whether a heartbeat asks for a new join, or the thread ends for want of a connection.\<close>

definition heartbeat_once :: "'s network \<Rightarrow> endpoint \<Rightarrow> u32 \<Rightarrow> string \<Rightarrow> string \<Rightarrow> u32 \<Rightarrow> ('s, bool) client" where
  "heartbeat_once net ep i groupId memberId generationId =
     bindC (call net ep Heartbeat i (encode_heartbeat_request []
        \<lparr>hbreq_groupId = groupId, hbreq_memberId = memberId, hbreq_generationId = generationId\<rparr>) decode_heartbeat_response)
       (\<lambda>resp. retC (hbresp_errorCode resp \<noteq> NoError))"

text \<open>The farewell: exceptions are caught.\<close>

definition leave_call :: "'s network \<Rightarrow> group_member \<Rightarrow> ('s, unit) client" where
  "leave_call net g s =
     (case main_call net g LeaveGroup (encode_leave_group_request [] \<lparr>lgreq_groupId = gm_groupId g, lgreq_memberId = gm_memberId g\<rparr>)
        (\<lambda>r. Inr ((), r)) s of
        (Inl e, s) \<Rightarrow> (if thrown e then Inr () else Inl e, s)
      | (Inr _, s) \<Rightarrow> (Inr (), s))"

section \<open>The loops of group mode\<close>

text \<open>
  The flags \<open>needRejoin\<close> and \<open>g_shuttingDown\<close> are set by the heartbeat thread and by a signal; when the poll loop sees
  them is up to the environment. \<open>n\<close> passes of the poll loop:
\<close>

fun poll_rounds :: "'s network \<Rightarrow> u32 list \<Rightarrow> nat \<Rightarrow> poll \<Rightarrow> ('s, (u32 \<times> log_record list) list \<times> poll) client" where
  "poll_rounds net ps 0 st = retC ([], st)"
| "poll_rounds net ps (Suc n) st =
     bindC (poll_round net ps st) (\<lambda>(printed, st).
     bindC (poll_rounds net ps n st) (\<lambda>(more, st). retC (printed @ more, st)))"

text \<open>
  The heartbeat thread, for \<open>n\<close> heartbeats before it sees a flag: whether it asks for a new join. A lost connection ends
  it without a word; one that hangs keeps the member from its next join, which waits for the thread.
\<close>

fun heartbeat_loop :: "'s network \<Rightarrow> endpoint \<Rightarrow> string \<Rightarrow> string \<Rightarrow> u32 \<Rightarrow> u32 \<Rightarrow> nat \<Rightarrow> ('s, bool) client" where
  "heartbeat_loop net ep groupId memberId generationId i 0 s = (Inr False, s)"
| "heartbeat_loop net ep groupId memberId generationId i (Suc n) s =
     (case heartbeat_once net ep i groupId memberId generationId s of
        (Inl e, s) \<Rightarrow> (if thrown e then Inr False else Inl e, s)
      | (Inr needRejoin, s) \<Rightarrow>
          if needRejoin then (Inr True, s) else heartbeat_loop net ep groupId memberId generationId (i + 1) n s)"

text \<open>
  One generation: the passes until a flag is seen, and whether it was the shutdown. The schedule says this for every
  turn of the outer loop; what is printed comes with the partition it is from. The heartbeats, which go over a connection of
  their own, are not interleaved with the polls here (\<open>run_turns\<close> in \<open>Heartbeats\<close> does that). A turn whose synchronisation fails sleeps
  and joins again.
\<close>

fun group_loop :: "'s network \<Rightarrow> endpoint \<Rightarrow> u64 option \<Rightarrow> (nat \<times> bool) list \<Rightarrow> group_member \<Rightarrow>
    ('s, (u32 \<times> log_record list) list \<times> group_member) client" where
  "group_loop net broker_ep offsetOverride [] g = retC ([], g)"
| "group_loop net broker_ep offsetOverride ((rounds, shuttingDown) # turns) g =
     bindC (join_and_sync net g) (\<lambda>(assigned, g). case assigned of
         None \<Rightarrow> group_loop net broker_ep offsetOverride turns g
       | Some parts \<Rightarrow>
           bindC (prepare_polling net broker_ep offsetOverride parts g) (\<lambda>st.
           bindC (connect net (gm_coordinator g)) (\<lambda>_.
           bindC (poll_rounds net parts rounds st) (\<lambda>(printed, st).
             if shuttingDown then bindC (leave_call net (pl_member st)) (\<lambda>_. retC (printed, pl_member st))
             else bindC (group_loop net broker_ep offsetOverride turns (pl_member st)) (\<lambda>(more, g).
                    retC (printed @ more, g))))))"

definition run_group_mode :: "'s network \<Rightarrow> endpoint \<Rightarrow> string \<Rightarrow> string \<Rightarrow> u64 option \<Rightarrow> (nat \<times> bool) list \<Rightarrow>
    ('s, (u32 \<times> log_record list) list \<times> group_member) client" where
  "run_group_mode net broker_ep topic groupId offsetOverride turns =
     bindC (resolve_coordinator net broker_ep groupId) (\<lambda>coord.
     bindC (connect net coord) (\<lambda>_.
       group_loop net broker_ep offsetOverride turns
         \<lparr>gm_coordinator = coord, gm_correlationId = 1, gm_groupId = groupId, gm_topic = topic, gm_memberId = [],
          gm_generationId = 0\<rparr>))"

end
