(* ===== verification/ClientProps.thy ===== *)
theory ClientProps
  imports Clients BrokerProps GroupProps
begin

text \<open>
  The properties of the command line programs, each with the brokers at the other end: every partition of a group has
  one reader, a producer that asked the wrong broker reaches the leader, a consumer prints the log.
\<close>

unbundle bit_operations_syntax

section \<open>A network of brokers\<close>

text \<open>An endpoint is one broker or nobody; a request that the broker does not answer at once loses the connection.\<close>

definition broker_network :: "u64 \<Rightarrow> u32 \<Rightarrow> (endpoint \<Rightarrow> broker option) network" where
  "broker_network now timeout =
     \<lparr>net_connect = (\<lambda>s ep. (s ep \<noteq> None, s)),
      net_call = (\<lambda>s ep frame. case s ep of
          None \<Rightarrow> (Lost, s)
        | Some b \<Rightarrow> (case handle b frame now timeout of
             Inr (Inl resp, _, b') \<Rightarrow> (Replied resp, s(ep \<mapsto> b'))
           | Inr (Inr _, _, b') \<Rightarrow> (Lost, s(ep \<mapsto> b'))
           | Inl _ \<Rightarrow> (Lost, s)))\<rparr>"

lemma network_connect [simp]: "connect (broker_network now timeout) ep s = (if s ep = None then Inl CannotConnect else Inr (), s)"
  by (simp add: connect_def broker_network_def)

text \<open>A broker that answers with an encoded response is understood.\<close>

lemma network_call:
  assumes "s ep = Some b" "dispatch b \<lparr>rf_requestType = request_type_u16 ty, rf_correlationId = i, rf_payload = payload\<rparr> now timeout =
      Inr (Answer (put [] resp), out, b')"
    and "faithful put get ok" "ok resp"
  shows "call (broker_network now timeout) ep ty i payload get s = (Inr resp, s(ep \<mapsto> b'))"
proof -
  obtain r' where "get (mk_reader (put [] resp)) = Inr (resp, r')"
    using assms(3,4) unfolding faithful_def by (metis append_Nil2 unread_mk_reader)
  then show ?thesis using assms(1,2) by (simp add: call_def broker_network_def handle_def)
qed

section \<open>Range assignment\<close>

text \<open>The \<open>j\<close>-th of the ranges: the first \<open>extra\<close> of them have one partition more.\<close>

definition range_of :: "nat \<Rightarrow> nat \<Rightarrow> nat \<Rightarrow> nat list" where
  "range_of base extra j = [j * base + min j extra ..< Suc j * base + min (Suc j) extra]"

lemma length_range_of: "length (range_of base extra j) = base + (if j < extra then 1 else 0)"
  by (auto simp: range_of_def)

lemma concat_ranges: "concat (map (range_of base extra) [0..<n]) = [0..<n * base + min n extra]"
proof (induction n)
  case (Suc n)
  have "n * base + min n extra \<le> Suc n * base + min (Suc n) extra" by auto
  then show ?case using Suc upt_add_eq_append [of 0 "n * base + min n extra" "Suc n * base + min (Suc n) extra - (n * base + min n extra)"]
    by (simp add: range_of_def ac_simps)
qed simp

lemma range_loop_ranges:
  assumes "sorted_wrt (<) members" "\<forall>k \<in> fst ` set m. \<forall>x \<in> set members. k < x"
    and "(i + length members) * unat base + min (i + length members) (unat extra) < 2 ^ 32"
  shows "range_loop i base extra (of_nat (i * unat base + min i (unat extra))) members m =
    m @ zip members (map (\<lambda>j. map of_nat (range_of (unat base) (unat extra) j)) [i..<i + length members])"
  using assms
proof (induction members arbitrary: i m)
  case (Cons x xs)
  let ?B = "unat base" and ?E = "unat extra"
  let ?p = "i * ?B + min i ?E" and ?c = "?B + (if i < ?E then 1 else 0)"
  have step: "Suc i * ?B + min (Suc i) ?E = ?p + ?c" by auto
  have "Suc i * ?B + min (Suc i) ?E \<le> (i + length (x # xs)) * ?B + min (i + length (x # xs)) ?E"
    by (intro add_mono mult_right_mono min.mono) simp_all
  then have small: "?p + ?c < 2 ^ 32" using Cons.prems(3) step by linarith
  have "of_nat ?c = base + (if i < ?E then 1 else 0)" by simp
  then have count: "unat (base + (if i < ?E then 1 else 0)) = ?c" using small by (metis unat_of_nat_u32 add_lessD1 add.commute)
  have parts: "map (\<lambda>k. of_nat ?p + of_nat k :: u32) [0..<?c] = map of_nat (range_of ?B ?E i)"
  proof -
    have "map (\<lambda>k. of_nat ?p + of_nat k :: u32) [0..<?c] = map of_nat (map (\<lambda>k. k + ?p) [0..<?c])" by (simp add: add.commute)
    also have "map (\<lambda>k. k + ?p) [0..<?c] = [?p..<?p + ?c]" by (simp add: map_add_upt add.commute)
    finally show ?thesis unfolding range_of_def step .
  qed
  have put: "omap_put x ys m = m @ [(x, ys)]" for ys using Cons.prems(2) by (intro omap_put_last) auto
  let ?m = "m @ [(x, map of_nat (range_of ?B ?E i))]"
  have "range_loop (Suc i) base extra (of_nat (Suc i * ?B + min (Suc i) ?E)) xs ?m =
      ?m @ zip xs (map (\<lambda>j. map of_nat (range_of ?B ?E j)) [Suc i..<Suc i + length xs])"
    using Cons.prems by (intro Cons.IH) auto
  moreover have "of_nat ?p + (base + (if i < ?E then 1 else 0)) = (of_nat (Suc i * ?B + min (Suc i) ?E) :: u32)"
    unfolding step by simp
  ultimately show ?case
    by (simp only: range_loop.simps Let_def count parts put) (simp add: upt_rec [of i "Suc (i + length xs)"] del: upt_Suc)
qed simp

lemma unat_u32_less: "unat (w :: u32) < 2 ^ 32"
  using unsigned_less [of w, where ?'a = nat] by simp

lemma range_assignment:
  assumes "distinct members" "members \<noteq> []" "length members < 2 ^ 32"
  defines "n \<equiv> length members"
  shows "compute_range_assignment members count =
    zip (sort members) (map (\<lambda>j. map of_nat (range_of (unat count div n) (unat count mod n) j)) [0..<n])"
    "concat (map (range_of (unat count div n) (unat count mod n)) [0..<n]) = [0..<unat count]"
proof -
  have pos: "0 < n" using assms(2) by (simp add: n_def)
  have un: "unat (of_nat n :: u32) = n" using assms(3) unfolding n_def by (rule unat_of_nat_u32)
  have be: "unat (count div of_nat n) = unat count div n" "unat (count mod of_nat n) = unat count mod n"
    unfolding unat_div unat_mod un by simp_all
  have total: "n * (unat count div n) + min n (unat count mod n) = unat count"
    using mod_less_divisor [OF pos, of "unat count"] by (simp add: min_absorb2)
  show "concat (map (range_of (unat count div n) (unat count mod n)) [0..<n]) = [0..<unat count]"
    unfolding concat_ranges total ..
  have "sorted_wrt (<) (sort members)" using assms(1) by (simp add: strict_sorted_iff)
  moreover have "unat count < 2 ^ 32" by (rule unat_u32_less)
  ultimately have "range_loop 0 (count div of_nat n) (count mod of_nat n) (of_nat (0 * unat (count div of_nat n) + min 0 (unat (count mod of_nat n))))
      (sort members) [] =
    [] @ zip (sort members) (map (\<lambda>j. map of_nat (range_of (unat (count div of_nat n)) (unat (count mod of_nat n)) j)) [0..<0 + length (sort members)])"
    using total be by (intro range_loop_ranges) (simp_all add: n_def)
  moreover have "sort members \<noteq> []" using assms(2) by (metis set_empty set_sort)
  ultimately show "compute_range_assignment members count =
      zip (sort members) (map (\<lambda>j. map of_nat (range_of (unat count div n) (unat count mod n) j)) [0..<n])"
    unfolding be by (simp add: compute_range_assignment_def n_def)
qed

text \<open>Which range holds a partition: exactly one.\<close>

lemma ranges_disjoint:
  assumes "p \<in> set (range_of base extra i)" "p \<in> set (range_of base extra j)" "i < j"
  shows False
proof -
  have "Suc i * base + min (Suc i) extra \<le> j * base + min j extra"
    using assms(3) by (intro add_mono mult_right_mono min.mono) simp_all
  then show ?thesis using assms(1,2) by (simp add: range_of_def)
qed

lemma one_range:
  assumes "concat (map (range_of base extra) [0..<n]) = [0..<c]" "p < c"
  shows "\<exists>!j. j < n \<and> p \<in> set (range_of base extra j)"
proof -
  have "p \<in> set (concat (map (range_of base extra) [0..<n]))" unfolding assms(1) using assms(2) by simp
  then obtain j where "j < n" "p \<in> set (range_of base extra j)" by auto
  then show ?thesis using ranges_disjoint by (metis linorder_neqE_nat)
qed

lemma sync_assignments_foldl:
  assumes "omap_ok asg"
  shows "foldl (\<lambda>m a. omap_put (sga_memberId a) (sga_partitions a) m) [] (sync_assignments asg) = asg"
proof -
  have "foldl (\<lambda>m a. omap_put (sga_memberId a) (sga_partitions a) m) m (sync_assignments asg) =
      foldl (\<lambda>m (k, v). omap_put k v m) m asg" for m
    by (induction asg arbitrary: m) (auto simp: sync_assignments_def)
  then show ?thesis using foldl_omap_put_sorted [of "[]" asg] assms by simp
qed

text \<open>What the members get after the leader posted the ranges.\<close>

lemma posted_ranges:
  assumes "sync_enter c req = (Inl resp, c')" "sgresp_errorCode resp = NoError"
    and "sgreq_assignments req = sync_assignments (compute_range_assignment members count)"
    and "distinct members" "members \<noteq> []" "length members < 2 ^ 32" "j < length members"
  shows "sgresp_partitions (sync_leave c' (sgreq_groupId req) (sort members ! j) (sgreq_generationId req)) =
    map of_nat (range_of (unat count div length members) (unat count mod length members) j)"
proof -
  let ?asg = "compute_range_assignment members count"
  note asg = range_assignment [OF assms(4-6), of count]
  have keys: "map fst ?asg = sort members" unfolding asg(1) by simp
  have ok: "omap_ok ?asg" unfolding omap_ok_def keys using assms(4) by (simp add: strict_sorted_iff)
  have "?asg \<noteq> []" using keys assms(5) by (metis length_greater_0_conv length_map length_sort)
  then have "sgreq_assignments req \<noteq> []" by (simp add: assms(3) sync_assignments_def)
  then have "posted (sgreq_generationId req) ?asg 0 (get_or_create_group c' (sgreq_groupId req))"
    using assms(1,2) sync_assignments_foldl [OF ok] by (auto simp: sync_enter_def posted_def assms(3) Let_def split: if_splits option.splits)
  note leave = posted_sync_leave [OF this, of "sort members ! j"]
  have "map_of ?asg (sort members ! j) =
      Some (map (\<lambda>j. map of_nat (range_of (unat count div length members) (unat count mod length members) j)) [0..<length members] ! j)"
    unfolding asg(1) using assms(4,7) by (intro map_of_zip_nth) simp_all
  then show ?thesis using leave assms(7) by simp
qed

text \<open>The words of a range are the partitions below \<open>c\<close> with that number.\<close>

lemma words_below:
  fixes p c :: u32
  assumes "set ns \<subseteq> {..<unat c}" "distinct ns"
  shows "p \<in> set (map of_nat ns) \<longleftrightarrow> unat p \<in> set ns" "distinct (map of_nat ns :: u32 list)" "set (map of_nat ns) \<subseteq> {p. p < c}"
proof -
  have unat: "unat (of_nat n :: u32) = n" if "n \<in> set ns" for n
    using that assms(1) unat_u32_less [of c] by (intro unat_of_nat_u32) auto
  have mem: "q \<in> set (map of_nat ns) \<longleftrightarrow> unat q \<in> set ns" for q :: u32
  proof
    assume "q \<in> set (map of_nat ns)"
    then show "unat q \<in> set ns" using unat by auto
  next
    assume "unat q \<in> set ns"
    then have "of_nat (unat q) \<in> (of_nat ` set ns :: u32 set)" by (rule imageI)
    then show "q \<in> set (map of_nat ns)" by simp
  qed
  then show "p \<in> set (map of_nat ns) \<longleftrightarrow> unat p \<in> set ns" .
  have "inj_on (of_nat :: nat \<Rightarrow> u32) (set ns)" by (rule inj_on_inverseI [where g = unat]) (rule unat)
  then show "distinct (map of_nat ns :: u32 list)" using assms(2) by (simp add: distinct_map)
  show "set (map of_nat ns) \<subseteq> {p. p < c}" using mem assms(1) unfolding word_less_nat_alt by blast
qed

text \<open>
  C13: every partition of a topic has exactly one reader. When the leader of a group posts the ranges it computed for the
  members it was told, the synchronisation of that generation hands every partition to one member and no other, and the
  members' shares differ by at most one partition.
\<close>

theorem every_partition_has_one_reader:
  assumes "sync_enter c req = (Inl resp, c')" "sgresp_errorCode resp = NoError"
    and "sgreq_assignments req = sync_assignments (compute_range_assignment members partitionCount)"
    and "distinct members" "members \<noteq> []" "length members < 2 ^ 32"
  defines "share \<equiv> \<lambda>m. sgresp_partitions (sync_leave c' (sgreq_groupId req) m (sgreq_generationId req))"
  shows "(\<forall>p < partitionCount. \<exists>!m. m \<in> set members \<and> p \<in> set (share m)) \<and>
    (\<forall>m \<in> set members. set (share m) \<subseteq> {p. p < partitionCount} \<and> distinct (share m) \<and>
      length (share m) \<in> {unat partitionCount div length members, unat partitionCount div length members + 1})"
proof -
  let ?n = "length members" and ?m = "\<lambda>j. sort members ! j"
  let ?r = "range_of (unat partitionCount div ?n) (unat partitionCount mod ?n)"
  note cover = range_assignment(2) [OF assms(4-6), of partitionCount]
  have at: "share (?m j) = map of_nat (?r j)" if "j < ?n" for j
    unfolding share_def by (rule posted_ranges [OF assms(1-6) that])
  have index: "\<exists>j < ?n. m = ?m j" if "m \<in> set members" for m using that by (metis in_set_conv_nth length_sort set_sort)
  have bound: "set (?r j) \<subseteq> {..<unat partitionCount}" if "j < ?n" for j
  proof -
    have "set (?r j) \<subseteq> set (concat (map ?r [0..<?n]))" using that by auto
    then show ?thesis unfolding cover by auto
  qed
  have "distinct (?r j)" for j by (simp add: range_of_def)
  note words = words_below [OF bound this]
  have "\<exists>!m. m \<in> set members \<and> p \<in> set (share m)" if p: "p < partitionCount" for p
  proof -
    have "unat p < unat partitionCount" using p by (simp add: word_less_nat_alt)
    from one_range [OF cover this] obtain j where
      j: "j < ?n" "unat p \<in> set (?r j)" "\<And>i. i < ?n \<Longrightarrow> unat p \<in> set (?r i) \<Longrightarrow> i = j" by blast
    have "?m j \<in> set members" using nth_mem [of j "sort members"] j(1) by simp
    moreover have "p \<in> set (share (?m j))" unfolding at [OF j(1)] words(1) [OF j(1)] by (rule j(2))
    moreover have "m = ?m j" if m: "m \<in> set members" "p \<in> set (share m)" for m
      using index [OF m(1)] m(2) at words(1) j(3) by metis
    ultimately show ?thesis by blast
  qed
  moreover have "set (share m) \<subseteq> {p. p < partitionCount} \<and> distinct (share m) \<and>
      length (share m) \<in> {unat partitionCount div ?n, unat partitionCount div ?n + 1}" if m: "m \<in> set members" for m
  proof -
    obtain j where j: "j < ?n" "m = ?m j" using index [OF m] by blast
    then show ?thesis unfolding j(2) at [OF j(1)] length_map length_range_of using words(2,3) [OF j(1)] by simp
  qed
  ultimately show ?thesis by blast
qed

text \<open>The two members that joined share three partitions.\<close>

definition demo_post :: sync_group_request where
  "demo_post = \<lparr>sgreq_groupId = ''g'', sgreq_memberId = ''g-member-0'', sgreq_generationId = 1,
     sgreq_assignments = sync_assignments (compute_range_assignment [''g-member-0'', ''g-member-1''] 3)\<rparr>"

lemma demo_post_accepted:
  "(case fst (sync_enter (gr_coord (demo_group demo_two_joins)) demo_post) of Inl resp \<Rightarrow> sgresp_errorCode resp = NoError | Inr _ \<Rightarrow> False)"
  by code_simp

lemma every_partition_has_one_reader_witness:
  "\<exists>!m. m \<in> {''g-member-0'', ''g-member-1''} \<and>
     2 \<in> set (sgresp_partitions (sync_leave (snd (sync_enter (gr_coord (demo_group demo_two_joins)) demo_post)) ''g'' m 1))"
proof -
  let ?c = "gr_coord (demo_group demo_two_joins)"
  obtain resp c' where r: "sync_enter ?c demo_post = (Inl resp, c')" "sgresp_errorCode resp = NoError"
    using demo_post_accepted by (cases "sync_enter ?c demo_post") (auto split: sum.splits)
  have "sgreq_assignments demo_post = sync_assignments (compute_range_assignment [''g-member-0'', ''g-member-1''] 3)"
    "distinct [''g-member-0'', ''g-member-1'']" "[''g-member-0'', ''g-member-1''] \<noteq> []" "length [''g-member-0'', ''g-member-1''] < 2 ^ 32"
    by (simp_all add: demo_post_def)
  from every_partition_has_one_reader [OF r this, THEN conjunct1, rule_format, of 2]
  have "\<exists>!m. m \<in> set [''g-member-0'', ''g-member-1''] \<and> 2 \<in> set (sgresp_partitions (sync_leave c' ''g'' m 1))"
    by (simp add: demo_post_def)
  then show ?thesis unfolding r(1) snd_conv by simp
qed

section \<open>Producing through the wrong broker\<close>

lemma not_leader_redirect:
  assumes "bk_cluster b = Some c" "assignment_for c topic p = Some pa" "pa_leaderId pa \<noteq> bk_id b"
    and "address_of (cc_membership c) (pa_leaderId pa) = Some addr"
  shows "not_leader b (topic, p) = Some (NotLeaderForPartition, addr_host addr, ucast (addr_port addr))"
  using assms by (simp add: not_leader_def address_fields_def)

lemma ucast_port: "ucast (ucast (w :: u16) :: u32) = w"
  by (rule bit_word_eqI) (auto simp: bit_simps)

text \<open>
  C12: a producer that asks a broker which does not lead the partition is sent to the leader and succeeds there at once:
  it reports the offset of its records in the leader's log, the log has them once, the other broker is unchanged and the
  producer did not sleep.
\<close>

theorem redirect_reaches_leader:
  assumes "s ep = Some b1" "bk_cluster b1 = Some c1" "assignment_for c1 (preq_topic req) (preq_partitionId req) = Some pa"
    and "pa_leaderId pa \<noteq> bk_id b1" "address_of (cc_membership c1) (pa_leaderId pa) = Some addr" "addr_host addr \<noteq> []" "string_ok (addr_host addr)"
    and "s (addr_host addr, addr_port addr) = Some b2" "not_leader b2 (preq_topic req, preq_partitionId req) = None" "logs_ok b2 logs"
    and "produce_request_ok req" "batch_ok (preq_records req)" "preq_acks req \<noteq> 0xFF"
    and "length (logs (preq_topic req, preq_partitionId req)) + length (preq_records req) < 2 ^ 63"
  defines "key \<equiv> (preq_topic req, preq_partitionId req)"
  shows "\<exists>b2' new.
    produce_loop (broker_network now timeout) broker_ep (preq_topic req) (preq_partitionId req) (encode_produce_request [] req)
      (Suc (Suc n)) ep i backoff s =
      (Inr (Some (of_nat (length (logs key)))), [], s((addr_host addr, addr_port addr) \<mapsto> b2')) \<and>
    logs_ok b2' (logs(key := logs key @ new)) \<and>
    map (\<lambda>r. (rec_key r, rec_value r, rec_timestamp r)) new = map (\<lambda>r. (rec_key r, rec_value r, now)) (preq_records req)"
proof -
  let ?ep = "(addr_host addr, addr_port addr)" and ?payload = "encode_produce_request [] req"
  let ?net = "broker_network now timeout"
  have parse: "parse decode_produce_request ?payload = Inr req" by (rule parse_put [OF produce_request.faithful assms(11)])
  have nl: "not_leader b1 key = Some (NotLeaderForPartition, addr_host addr, ucast (addr_port addr))"
    unfolding key_def by (rule not_leader_redirect [OF assms(2-5)])
  have "dispatch b1 \<lparr>rf_requestType = request_type_u16 Produce, rf_correlationId = i, rf_payload = ?payload\<rparr> now timeout =
      Inr (Answer (encode_produce_response [] \<lparr>presp_errorCode = NotLeaderForPartition, presp_baseOffset = 0,
        presp_leaderHost = addr_host addr, presp_leaderPort = ucast (addr_port addr)\<rparr>), [], b1)" for i
    using nl by (simp add: dispatch_def request_type_of_def handle_produce_def parse key_def produce_response_bytes_def)
  from network_call [where s = s and ep = ep and put = encode_produce_response, OF assms(1) this produce_response.faithful]
  have first: "call ?net ep Produce i ?payload decode_produce_response s =
      (Inr \<lparr>presp_errorCode = NotLeaderForPartition, presp_baseOffset = 0,
        presp_leaderHost = addr_host addr, presp_leaderPort = ucast (addr_port addr)\<rparr>, s)" for i
    using assms(1,7) by (simp add: produce_response_ok_def fun_upd_idem)
  obtain n' new where st: "stamp_records (of_nat (length (logs key))) now (preq_records req) = (new, n')" by fastforce
  obtain out b2' where p: "logs_ok b2' (logs(key := logs key @ new))"
    "handle_produce b2 ?payload now = Inr (Answer (produce_response_bytes NoError (int (length (logs key))) [] 0), out, b2')"
    using handle_produce_leads [OF assms(10) parse assms(9,12,14), of now] assms(13) st by (auto simp: key_def)
  have "dispatch b2 \<lparr>rf_requestType = request_type_u16 Produce, rf_correlationId = i, rf_payload = ?payload\<rparr> now timeout =
      Inr (Answer (encode_produce_response [] \<lparr>presp_errorCode = NoError, presp_baseOffset = of_nat (length (logs key)),
        presp_leaderHost = [], presp_leaderPort = 0\<rparr>), out, b2')" for i
    using p(2) by (simp add: dispatch_def request_type_of_def produce_response_bytes_def)
  from network_call [where s = s and ep = ?ep and put = encode_produce_response, OF assms(8) this produce_response.faithful]
  have second: "call ?net ?ep Produce i ?payload decode_produce_response s =
      (Inr \<lparr>presp_errorCode = NoError, presp_baseOffset = of_nat (length (logs key)), presp_leaderHost = [], presp_leaderPort = 0\<rparr>,
       s(?ep \<mapsto> b2'))" for i
    by (simp add: produce_response_ok_def string_ok_def)
  have "produce_loop ?net broker_ep (preq_topic req) (preq_partitionId req) ?payload (Suc n) ?ep j backoff s =
      (Inr (Some (of_nat (length (logs key)))), [], s(?ep \<mapsto> b2'))" for j
    using assms(8) second by (simp add: produce_loop.simps(2))
  then have "produce_loop ?net broker_ep (preq_topic req) (preq_partitionId req) ?payload (Suc (Suc n)) ep i backoff s =
      (Inr (Some (of_nat (length (logs key)))), [], s(?ep \<mapsto> b2'))"
    unfolding produce_loop.simps(2) [of _ _ _ _ _ "Suc n"] using assms(1,6) first by (simp add: ucast_port)
  then show ?thesis using p(1) stamped_facts [OF st] by blast
qed

definition demo_request :: produce_request where
  "demo_request = \<lparr>preq_topic = ''t'', preq_partitionId = 0, preq_acks = 1, preq_records = demo_records\<rparr>"

definition demo_cluster :: "endpoint \<Rightarrow> broker option" where
  "demo_cluster = [(''a'', 9091) \<mapsto> demo_member 1\<lparr>bk_cluster := Some demo_assigned\<rparr>,
     (''b'', 9092) \<mapsto> demo_member 2\<lparr>bk_cluster := Some demo_assigned\<rparr>]"

lemma demo_cluster_fields:
  "demo_cluster (''a'', 9091) = Some (demo_member 1\<lparr>bk_cluster := Some demo_assigned\<rparr>)"
  "demo_cluster (''b'', 9092) = Some (demo_member 2\<lparr>bk_cluster := Some demo_assigned\<rparr>)"
  "assignment_for demo_assigned ''t'' 0 = Some \<lparr>pa_leaderId = 2, pa_replicas = [2, 1], pa_isr = [2, 1]\<rparr>"
  "address_of (cc_membership demo_assigned) 2 = Some \<lparr>addr_host = ''b'', addr_port = 9092\<rparr>"
  by (simp_all add: demo_cluster_def demo_assigned_def assignment_for_def address_of_def demo_member_fields)
    (simp add: demo_membership_def)

lemma demo_request_ok: "produce_request_ok demo_request" "batch_ok (preq_records demo_request)" "preq_acks demo_request \<noteq> 0xFF"
  by (simp_all add: demo_request_def produce_request_ok_def list_ok_def string_ok_def batch_ok_def demo_records_def record_ok_def frame_size_def)

lemma redirect_reaches_leader_witness:
  "\<exists>b2'. produce_loop (broker_network 7 0) (''a'', 9091) ''t'' 0 (encode_produce_request [] demo_request) 10 (''a'', 9091) 1 50 demo_cluster =
     (Inr (Some 0), [], demo_cluster((''b'', 9092) \<mapsto> b2'))"
proof -
  let ?b2 = "demo_member 2\<lparr>bk_cluster := Some demo_assigned\<rparr>" and ?addr = "\<lparr>addr_host = ''b'', addr_port = 9092\<rparr>"
  have logs: "logs_ok ?b2 (\<lambda>_. [])"
    by (rule logs_ok_same [of "demo_member 2"]) (simp_all add: demo_member_def new_broker_logs)
  have "\<exists>b2' new. produce_loop (broker_network 7 0) (''a'', 9091) (preq_topic demo_request) (preq_partitionId demo_request)
      (encode_produce_request [] demo_request) (Suc (Suc 8)) (''a'', 9091) 1 50 demo_cluster =
      (Inr (Some (of_nat (length ([] :: log_record list)))), [], demo_cluster((addr_host ?addr, addr_port ?addr) \<mapsto> b2')) \<and>
    logs_ok b2' ((\<lambda>_. [])((preq_topic demo_request, preq_partitionId demo_request) := [] @ new)) \<and>
    map (\<lambda>r. (rec_key r, rec_value r, rec_timestamp r)) new = map (\<lambda>r. (rec_key r, rec_value r, 7)) (preq_records demo_request)"
  proof (rule redirect_reaches_leader [where s = demo_cluster and ep = "(''a'', 9091)" and addr = ?addr and ?b2.0 = ?b2
      and ?c1.0 = demo_assigned and pa = "\<lparr>pa_leaderId = 2, pa_replicas = [2, 1], pa_isr = [2, 1]\<rparr>"
      and logs = "\<lambda>_. []" and req = demo_request, OF demo_cluster_fields(1)])
    show "addr_host ?addr \<noteq> []" "string_ok (addr_host ?addr)" by (simp_all add: string_ok_def)
    show "demo_cluster (addr_host ?addr, addr_port ?addr) = Some ?b2" by (simp add: demo_cluster_fields)
    show "logs_ok ?b2 (\<lambda>_. [])" by (rule logs)
  qed (simp_all add: demo_request_ok demo_cluster_fields demo_member_fields not_leader_def,
    simp_all add: demo_request_def demo_cluster_fields demo_member_fields demo_batch)
  moreover have "Suc (Suc 8) = 10" "preq_topic demo_request = ''t''" "preq_partitionId demo_request = 0" by (simp_all add: demo_request_def)
  ultimately show ?thesis by auto
qed

section \<open>Consuming\<close>

lemma rec_offset_nth:
  assumes "part_inv p log" "i < length log"
  shows "rec_offset (log ! i) = of_nat i"
proof -
  have "rec_offset (log ! i) = word_of_int (sint (rec_offset (log ! i)))" by simp
  then show ?thesis unfolding part_inv_offset [OF assms] by simp
qed

lemma next_offset_last: "records \<noteq> [] \<Longrightarrow> next_offset off records = rec_offset (last records) + 1"
  unfolding next_offset_def by (cases records rule: rev_cases) simp_all

lemma no_wrap_records: "no_wrap maxBytes log \<Longrightarrow> r \<in> set log \<Longrightarrow> record_ok r"
  unfolding no_wrap_def record_ok_def by fastforce

text \<open>One fetch: the records that fit, and the offset behind them.\<close>

lemma fetch_call:
  assumes "s ep = Some b" "not_leader b (topic, p) = None" "part_at b (topic, p) = Inr pt" "part_inv pt log"
    and "high_watermark pt = int h" "h \<le> length log" "no_wrap kMaxPollBytes log" "length log < 2 ^ 32" "string_ok topic"
    and "off \<le> h"
  defines "recs \<equiv> fetch_spec (unat kMaxPollBytes) (drop off (take h log))"
  shows "\<exists>b'. call (broker_network now timeout) ep Fetch i (encode_fetch_request []
        \<lparr>freq_topic = topic, freq_partitionId = p, freq_fetchOffset = of_nat off, freq_maxBytes = kMaxPollBytes\<rparr>) decode_fetch_response s =
      (Inr \<lparr>fresp_errorCode = NoError, fresp_highWatermark = word_of_int (high_watermark pt), fresp_records = recs,
         fresp_leaderHost = [], fresp_leaderPort = 0\<rparr>, s(ep \<mapsto> b'))
    \<and> not_leader b' = not_leader b \<and> part_at b' = part_at b \<and> bk_groupCoordinator b' = bk_groupCoordinator b"
    "next_offset (of_nat off) recs = of_nat (off + length recs)" "off + length recs \<le> h"
proof -
  let ?req = "\<lparr>freq_topic = topic, freq_partitionId = p, freq_fetchOffset = of_nat off, freq_maxBytes = kMaxPollBytes\<rparr>"
  obtain b' where g: "get_or_create_partition b (topic, p) = Inr (pt, b')" using assms(3) by (simp add: get_or_create_part_at)
  note G = get_or_create_Inr [OF g]
  have parse: "parse decode_fetch_request (encode_fetch_request [] ?req) = Inr ?req"
    by (rule parse_put [OF fetch_request.faithful]) (simp add: fetch_request_ok_def assms(9))
  have "off < 2 ^ 32" using assms(6,8,10) by linarith
  then have "off < 2 ^ 63" by simp
  then have sint: "sint (of_nat off :: u64) = int off" by (rule sint_of_nat_u64)
  have "pt_hwm pt = int h" using assms(5) by (simp add: high_watermark_def)
  then have read: "pt_read pt (sint (of_nat off :: u64)) kMaxPollBytes = recs"
    unfolding pt_read_def recs_def sint using read_clamped_spec [OF assms(4) _ assms(7), of "int h"] assms(6)
    by (simp add: log_slice_def)
  let ?resp = "\<lparr>fresp_errorCode = NoError, fresp_highWatermark = word_of_int (high_watermark pt), fresp_records = recs,
      fresp_leaderHost = [], fresp_leaderPort = 0\<rparr>"
  have "dispatch b \<lparr>rf_requestType = request_type_u16 Fetch, rf_correlationId = i, rf_payload = encode_fetch_request [] ?req\<rparr> now timeout =
      Inr (Answer (encode_fetch_response [] ?resp), [], b')" for i
    by (simp add: dispatch_def request_type_of_def handle_fetch_def parse assms(2) g read fetch_response_bytes_def)
  note answer = network_call [where s = s and ep = ep and put = encode_fetch_response, OF assms(1) this fetch_response.faithful]
  have pre: "prefix recs (drop off (take h log))" unfolding recs_def by (rule fetch_spec_prefix)
  then have sub: "set recs \<subseteq> set log" using set_mono_prefix [OF pre] by (meson in_set_dropD in_set_takeD subset_iff)
  have "length recs \<le> length log" using prefix_length_le [OF pre] by simp
  then have ok: "fetch_response_ok ?resp"
    using sub no_wrap_records [OF assms(7)] assms(8)
    by (auto simp: fetch_response_ok_def string_ok_def list_ok_def list_all_iff)
  obtain zs where zs: "drop off (take h log) = recs @ zs" using pre by (rule prefixE)
  show len: "off + length recs \<le> h" using arg_cong [OF zs, of length] assms(6,10) by simp
  show nxt: "next_offset (of_nat off) recs = of_nat (off + length recs)"
  proof (cases "recs = []")
    case True
    then show ?thesis by (simp add: next_offset_def)
  next
    case False
    have "last recs = drop off (take h log) ! (length recs - 1)" using False by (simp add: zs last_conv_nth nth_append)
    also have "\<dots> = log ! (off + length recs - 1)" using False len assms(6) by (cases recs) simp_all
    finally have "rec_offset (last recs) = of_nat (off + length recs - 1)"
      using rec_offset_nth [OF assms(4)] False len assms(6) by (cases recs) simp_all
    then show ?thesis using False by (cases recs) (simp_all add: next_offset_last)
  qed
  have nl: "not_leader b' = not_leader b" by (rule ext, subst G(4)) (simp add: not_leader_def cong: option.case_cong)
  moreover have "bk_groupCoordinator b' = bk_groupCoordinator b" by (subst G(4)) simp
  ultimately show "\<exists>b'. call (broker_network now timeout) ep Fetch i (encode_fetch_request [] ?req) decode_fetch_response s =
      (Inr ?resp, s(ep \<mapsto> b')) \<and> not_leader b' = not_leader b \<and> part_at b' = part_at b \<and>
      bk_groupCoordinator b' = bk_groupCoordinator b"
    using answer [OF ok] G(2) by blast
qed

lemma direct_step_fetch:
  assumes "s (dr_endpoint d) = Some b" "not_leader b (topic, p) = None" "part_at b (topic, p) = Inr pt" "part_inv pt log"
    and "high_watermark pt = int h" "h \<le> length log" "no_wrap kMaxPollBytes log" "length log < 2 ^ 32" "string_ok topic"
    and "dr_offset d = of_nat off" "off \<le> h"
  defines "recs \<equiv> fetch_spec (unat kMaxPollBytes) (drop off (take h log))"
  shows "\<exists>b'. direct_step (broker_network now timeout) topic p d s =
      (Inr (recs, d\<lparr>dr_correlationId := dr_correlationId d + 1, dr_offset := of_nat (off + length recs)\<rparr>), s(dr_endpoint d \<mapsto> b')) \<and>
    not_leader b' (topic, p) = None \<and> part_at b' = part_at b"
  using fetch_call(1) [where s = s and ep = "dr_endpoint d" and now = now and timeout = timeout and i = "dr_correlationId d",
      OF assms(1-9,11)] fetch_call(2) [where s = s and ep = "dr_endpoint d", OF assms(1-9,11)] assms(2,10) unfolding recs_def
  by (auto simp: direct_step_def bindC_def retC_def)

text \<open>
  C9: a consumer prints the log. From any offset up to the high watermark, a consumer that polls a broker often enough
  (once per record is always enough) prints exactly the records from its offset to the high watermark, in order, none
  twice and none left out, however the fetches cut them up, and goes on from the high watermark.
\<close>

theorem consumer_prints_log:
  assumes "s (dr_endpoint d) = Some b" "not_leader b (topic, p) = None" "part_at b (topic, p) = Inr pt" "part_inv pt log"
    and "high_watermark pt = int h" "h \<le> length log" "no_wrap kMaxPollBytes log" "length log < 2 ^ 32" "string_ok topic"
    and "dr_offset d = of_nat off" "off \<le> h" "h - off \<le> n"
  shows "\<exists>d' s'. direct_steps (broker_network now timeout) topic p n d s = (Inr (drop off (take h log), d'), s') \<and>
    dr_offset d' = of_nat h \<and> dr_endpoint d' = dr_endpoint d"
  using assms(1-3,10-12)
proof (induction n arbitrary: d s b off)
  case 0
  then have "off = h" by simp
  then show ?case using 0 by (simp add: retC_def)
next
  case (Suc n)
  let ?net = "broker_network now timeout"
  define recs where "recs = fetch_spec (unat kMaxPollBytes) (drop off (take h log))"
  obtain b' where step: "direct_step ?net topic p d s =
      (Inr (recs, d\<lparr>dr_correlationId := dr_correlationId d + 1, dr_offset := of_nat (off + length recs)\<rparr>), s(dr_endpoint d \<mapsto> b'))"
    "not_leader b' (topic, p) = None" "part_at b' = part_at b"
    using direct_step_fetch [where s = s and d = d, OF Suc.prems(1-3) assms(4-9) Suc.prems(4,5), of now timeout] unfolding recs_def by blast
  let ?d = "d\<lparr>dr_correlationId := dr_correlationId d + 1, dr_offset := of_nat (off + length recs)\<rparr>" and ?s = "s(dr_endpoint d \<mapsto> b')"
  have "prefix recs (drop off (take h log))" unfolding recs_def by (rule fetch_spec_prefix)
  then obtain zs where zs: "drop off (take h log) = recs @ zs" by (rule prefixE)
  have len: "off + length recs \<le> h" using arg_cong [OF zs, of length] assms(6) Suc.prems(5) by simp
  have rest: "drop (off + length recs) (take h log) = zs"
    using arg_cong [OF zs, of "drop (length recs)"] by (simp add: add.commute)
  have "recs \<noteq> []" if "off < h" unfolding recs_def using assms(6) that by (intro fetch_spec_progress) simp
  then have "0 < length recs \<or> h \<le> off" by fastforce
  then have "h - (off + length recs) \<le> n" using Suc.prems(6) by linarith
  then have "\<exists>d' s'. direct_steps ?net topic p n ?d ?s = (Inr (drop (off + length recs) (take h log), d'), s') \<and>
      dr_offset d' = of_nat h \<and> dr_endpoint d' = dr_endpoint ?d"
    using step len Suc.prems(3) by (intro Suc.IH [where b = b']) simp_all
  then obtain d' s' where more: "direct_steps ?net topic p n ?d ?s = (Inr (zs, d'), s')" "dr_offset d' = of_nat h"
    "dr_endpoint d' = dr_endpoint d" unfolding rest by auto
  then show ?case using step(1) zs by (simp add: bindC_def retC_def)
qed

lemma consumer_prints_log_witness:
  "\<exists>d' s'. direct_steps (broker_network 7 0) ''t'' 0 2 \<lparr>dr_endpoint = (''h'', 9092), dr_offset = 0, dr_correlationId = 1\<rparr>
     [(''h'', 9092) \<mapsto> demo_broker\<lparr>bk_partitions := [((''t'', 0), demo_partition)]\<rparr>] = (Inr (demo_log, d'), s') \<and> dr_offset d' = 2"
proof -
  let ?b = "demo_broker\<lparr>bk_partitions := [((''t'', 0), demo_partition)]\<rparr>"
  let ?d = "\<lparr>dr_endpoint = (''h'', 9092), dr_offset = 0, dr_correlationId = 1\<rparr>"
  have "\<exists>d' s'. direct_steps (broker_network 7 0) ''t'' 0 2 ?d [(''h'', 9092) \<mapsto> ?b] = (Inr (drop 0 (take 2 demo_log), d'), s') \<and>
      dr_offset d' = of_nat 2 \<and> dr_endpoint d' = dr_endpoint ?d"
  proof (rule consumer_prints_log [where s = "[(''h'', 9092) \<mapsto> ?b]" and b = ?b and log = demo_log and pt = demo_partition])
    show "no_wrap kMaxPollBytes demo_log" by (simp add: no_wrap_def demo_log_def frame_size_def kMaxPollBytes_def)
    show "not_leader ?b (''t'', 0) = None" using demo_broker_fields(1) by (simp add: not_leader_def)
  qed (simp_all add: part_at_def demo_partition demo_log_ok high_watermark_def string_ok_def)
  then show ?thesis using demo_log_ok(3) by auto
qed

end
