(* ===== verification/Retries.thy ===== *)
theory Retries
  imports Clients
begin

text \<open>
  The producer's retry loop: how many requests it sends, how long it sleeps, that it does not give up before its attempts
  are used up, and what keeps it from returning. Requests, and the ones that hang or kill, are counted by a network that
  hands everything on.
\<close>

unbundle bit_operations_syntax

section \<open>A counting network\<close>

record 's counted =
  ct_state :: 's
  ct_connects :: nat
  ct_produces :: nat
  ct_lookups :: nat
  ct_silent :: nat
  ct_broken :: nat

definition count_reply :: "reply \<Rightarrow> 's counted \<Rightarrow> 's counted" where
  "count_reply r c =
     (case r of
        Silent \<Rightarrow> c\<lparr>ct_silent := ct_silent c + 1\<rparr>
      | PipeBroken \<Rightarrow> c\<lparr>ct_broken := ct_broken c + 1\<rparr>
      | _ \<Rightarrow> c)"

definition counting :: "'s network \<Rightarrow> 's counted network" where
  "counting net =
     \<lparr>net_connect = (\<lambda>c ep. let (ok, s) = net_connect net (ct_state c) ep in (ok, c\<lparr>ct_state := s, ct_connects := ct_connects c + 1\<rparr>)),
      net_call = (\<lambda>c ep frame. let (r, s) = net_call net (ct_state c) ep frame
        in (r, count_reply r
             (if rf_requestType frame = request_type_u16 Produce then c\<lparr>ct_state := s, ct_produces := ct_produces c + 1\<rparr>
              else c\<lparr>ct_state := s, ct_lookups := ct_lookups c + 1\<rparr>)))\<rparr>"

definition uncounted :: "'s \<Rightarrow> 's counted" where
  "uncounted s = \<lparr>ct_state = s, ct_connects = 0, ct_produces = 0, ct_lookups = 0, ct_silent = 0, ct_broken = 0\<rparr>"

text \<open>What an action that ends so adds to the two counts of replies.\<close>

definition stopped :: "(client_error + 'a) \<Rightarrow> client_error \<Rightarrow> nat" where
  "stopped r e = (if r = Inl e then 1 else 0)"

lemma stopped_simps [simp]: "stopped (Inr x) e = 0" "stopped (Inl e') e = (if e' = e then 1 else 0)"
  by (simp_all add: stopped_def)

lemma connect_counting:
  "connect (counting net) ep c =
     (let (r, s) = connect net ep (ct_state c) in (r, c\<lparr>ct_state := s, ct_connects := ct_connects c + 1\<rparr>))"
  by (simp add: connect_def counting_def case_prod_beta Let_def)

lemma connect_thrown: "connect net ep s = (Inl e, s') \<Longrightarrow> thrown e"
  by (auto simp: connect_def Let_def split: prod.splits if_splits)

lemma call_counting:
  assumes "call (counting net) ep ty i payload get c = (r, c')"
  shows "call net ep ty i payload get (ct_state c) = (r, ct_state c')" "ct_connects c' = ct_connects c"
    "ct_produces c' = ct_produces c + (if request_type_u16 ty = request_type_u16 Produce then 1 else 0)"
    "ct_lookups c' = ct_lookups c + (if request_type_u16 ty = request_type_u16 Produce then 0 else 1)"
    "ct_silent c' = ct_silent c + stopped r Hangs" "ct_broken c' = ct_broken c + stopped r Killed"
  using assms by (auto simp: call_def counting_def count_reply_def Let_def split: prod.splits sum.splits reply.splits if_splits)

text \<open>A lookup connects once and asks at most once.\<close>

lemma resolve_counting:
  assumes "resolve_leader (counting net) ep topic p c = (r, c')"
  shows "resolve_leader net ep topic p (ct_state c) = (r, ct_state c')" "ct_connects c' = ct_connects c + 1"
    "ct_produces c' = ct_produces c" "ct_lookups c' \<le> ct_lookups c + 1"
    "ct_silent c' = ct_silent c + stopped r Hangs" "ct_broken c' = ct_broken c + stopped r Killed" "r = Inl e \<Longrightarrow> \<not> thrown e"
proof -
  let ?c1 = "c\<lparr>ct_state := snd (connect net ep (ct_state c)), ct_connects := ct_connects c + 1\<rparr>"
  have con: "connect (counting net) ep c = (fst (connect net ep (ct_state c)), ?c1)" by (simp add: connect_counting case_prod_beta)
  obtain q s1 where q: "connect net ep (ct_state c) = (q, s1)" by fastforce
  have "resolve_leader net ep topic p (ct_state c) = (r, ct_state c') \<and> ct_connects c' = ct_connects c + 1 \<and>
    ct_produces c' = ct_produces c \<and> ct_lookups c' \<le> ct_lookups c + 1 \<and>
    ct_silent c' = ct_silent c + stopped r Hangs \<and> ct_broken c' = ct_broken c + stopped r Killed \<and> (\<forall>e. r = Inl e \<longrightarrow> \<not> thrown e)"
  proof (cases q)
    case (Inl e)
    then show ?thesis using assms con q connect_thrown [of net ep "ct_state c" e s1] by (auto simp: resolve_leader_def bindC_def)
  next
    case (Inr u)
    obtain m c2 where m: "metadata_call (counting net) ep 1 topic ?c1 = (m, c2)" by fastforce
    note C = call_counting [OF m [unfolded metadata_call_def]]
    show ?thesis
      using assms con q Inr m C by (cases m) (auto simp: resolve_leader_def bindC_def metadata_call_def stopped_def split: if_splits)
  qed
  then show "resolve_leader net ep topic p (ct_state c) = (r, ct_state c')" "ct_connects c' = ct_connects c + 1"
    "ct_produces c' = ct_produces c" "ct_lookups c' \<le> ct_lookups c + 1"
    "ct_silent c' = ct_silent c + stopped r Hangs" "ct_broken c' = ct_broken c + stopped r Killed" "r = Inl e \<Longrightarrow> \<not> thrown e"
    by blast+
qed

section \<open>The loop\<close>

fun backoffs :: "nat \<Rightarrow> u32 \<Rightarrow> u32 list" where
  "backoffs 0 b = []"
| "backoffs (Suc n) b = b # backoffs n (min (b * 2) kMaxBackoffMs)"

text \<open>One attempt: connect, ask, and what the answer says.\<close>

definition attempt :: "'s network \<Rightarrow> endpoint \<Rightarrow> u32 \<Rightarrow> bytes \<Rightarrow> 's \<Rightarrow> (client_error + produce_response) \<times> u32 \<times> 's" where
  "attempt net ep i payload s =
     (let (connected, s) = connect net ep s
      in case connected of
           Inl e \<Rightarrow> (Inl e, i, s)
         | Inr _ \<Rightarrow> (let (r, s) = call net ep Produce i payload decode_produce_response s in (r, i + 1, s)))"

lemma attempt_counting:
  assumes "attempt (counting net) ep i payload c = (r, j, c')"
  shows "attempt net ep i payload (ct_state c) = (r, j, ct_state c')" "ct_connects c' = ct_connects c + 1"
    "ct_produces c' \<le> ct_produces c + 1" "ct_lookups c' = ct_lookups c"
    "ct_silent c' = ct_silent c + stopped r Hangs" "ct_broken c' = ct_broken c + stopped r Killed"
proof -
  let ?c1 = "c\<lparr>ct_state := snd (connect net ep (ct_state c)), ct_connects := ct_connects c + 1\<rparr>"
  have con: "connect (counting net) ep c = (fst (connect net ep (ct_state c)), ?c1)" by (simp add: connect_counting case_prod_beta)
  obtain q s1 where q: "connect net ep (ct_state c) = (q, s1)" by fastforce
  have "attempt net ep i payload (ct_state c) = (r, j, ct_state c') \<and> ct_connects c' = ct_connects c + 1 \<and>
    ct_produces c' \<le> ct_produces c + 1 \<and> ct_lookups c' = ct_lookups c \<and>
    ct_silent c' = ct_silent c + stopped r Hangs \<and> ct_broken c' = ct_broken c + stopped r Killed"
  proof (cases q)
    case (Inl e)
    then show ?thesis using assms con q connect_thrown [of net ep "ct_state c" e s1] by (auto simp: attempt_def)
  next
    case (Inr u)
    obtain m c2 where m: "call (counting net) ep Produce i payload decode_produce_response ?c1 = (m, c2)" by fastforce
    show ?thesis using assms con q Inr m call_counting [OF m] by (auto simp: attempt_def)
  qed
  then show "attempt net ep i payload (ct_state c) = (r, j, ct_state c')" "ct_connects c' = ct_connects c + 1"
    "ct_produces c' \<le> ct_produces c + 1" "ct_lookups c' = ct_lookups c"
    "ct_silent c' = ct_silent c + stopped r Hangs" "ct_broken c' = ct_broken c + stopped r Killed"
    by blast+
qed

definition retry_after :: "'s network \<Rightarrow> endpoint \<Rightarrow> string \<Rightarrow> u32 \<Rightarrow> bytes \<Rightarrow> nat \<Rightarrow> endpoint \<Rightarrow> u32 \<Rightarrow> u32 \<Rightarrow> 's \<Rightarrow>
    (client_error + u64 option) \<times> u32 list \<times> 's" where
  "retry_after net bep topic p payload n ep i backoff s =
     (case resolve_leader net bep topic p s of
        (Inl e, s) \<Rightarrow> (Inl e, [backoff], s)
      | (Inr resolved, s) \<Rightarrow>
          (let (base, sleeps, s) = produce_loop net bep topic p payload n (case resolved of None \<Rightarrow> ep | Some ep' \<Rightarrow> ep') i
                 (min (backoff * 2) kMaxBackoffMs) s
           in (base, backoff # sleeps, s)))"

lemma produce_loop_Suc:
  "produce_loop net bep topic p payload (Suc n) ep i backoff s =
     (let (r, i, s) = attempt net ep i payload s
      in case r of
           Inl e \<Rightarrow> if thrown e then retry_after net bep topic p payload n ep i backoff s else (Inl e, [], s)
         | Inr resp \<Rightarrow>
             if presp_errorCode resp = NoError then (Inr (Some (presp_baseOffset resp)), [], s)
             else if presp_errorCode resp = NotLeaderForPartition \<and> presp_leaderHost resp \<noteq> []
             then produce_loop net bep topic p payload n (presp_leaderHost resp, ucast (presp_leaderPort resp)) i backoff s
             else retry_after net bep topic p payload n ep i backoff s)"
  by (auto simp: produce_loop.simps(2) attempt_def retry_after_def Let_def split: prod.split sum.split)

text \<open>What every run of the loop satisfies, from attempt to attempt.\<close>

definition bounded_run :: "nat \<Rightarrow> u32 \<Rightarrow> 's counted \<Rightarrow> (client_error + u64 option) \<Rightarrow> u32 list \<Rightarrow> 's counted \<Rightarrow> bool" where
  "bounded_run n backoff c base sleeps c' \<longleftrightarrow>
     length sleeps \<le> n \<and> sleeps = backoffs (length sleeps) backoff \<and>
     ct_produces c' \<le> ct_produces c + n \<and> ct_lookups c' \<le> ct_lookups c + length sleeps \<and>
     ct_connects c' \<le> ct_connects c + n + length sleeps \<and>
     (base = Inr None \<longrightarrow> ct_connects c' = ct_connects c + n + length sleeps) \<and>
     ct_silent c' = ct_silent c + stopped base Hangs \<and> ct_broken c' = ct_broken c + stopped base Killed \<and>
     (\<forall>e. base = Inl e \<longrightarrow> \<not> thrown e)"

lemma bounded_done:
  assumes "ct_connects c1 = ct_connects c + 1" "ct_produces c1 \<le> ct_produces c + 1" "ct_lookups c1 = ct_lookups c"
    and "ct_silent c1 = ct_silent c + stopped base Hangs" "ct_broken c1 = ct_broken c + stopped base Killed"
    and "base \<noteq> Inr None" "\<And>e. base = Inl e \<Longrightarrow> \<not> thrown e"
  shows "bounded_run (Suc n) backoff c base [] c1"
  using assms by (simp add: bounded_run_def)

lemma bounded_redirect:
  assumes "ct_connects c1 = ct_connects c + 1" "ct_produces c1 \<le> ct_produces c + 1" "ct_lookups c1 = ct_lookups c"
    and "ct_silent c1 = ct_silent c" "ct_broken c1 = ct_broken c"
    and "bounded_run n backoff c1 base sleeps c'"
  shows "bounded_run (Suc n) backoff c base sleeps c'"
  using assms by (simp add: bounded_run_def)

text \<open>The way back to the loop, given what the loop does with one attempt less.\<close>

lemma retry_counting:
  assumes "retry_after (counting net) bep topic p payload n ep i backoff c1 = (base, sleeps, c')"
    and "ct_connects c1 = ct_connects c + 1" "ct_produces c1 \<le> ct_produces c + 1" "ct_lookups c1 = ct_lookups c"
    and "ct_silent c1 = ct_silent c" "ct_broken c1 = ct_broken c"
    and IH: "\<And>ep i backoff c base sleeps c'. produce_loop (counting net) bep topic p payload n ep i backoff c = (base, sleeps, c') \<Longrightarrow>
      produce_loop net bep topic p payload n ep i backoff (ct_state c) = (base, sleeps, ct_state c') \<and> bounded_run n backoff c base sleeps c'"
  shows "retry_after net bep topic p payload n ep i backoff (ct_state c1) = (base, sleeps, ct_state c') \<and>
    bounded_run (Suc n) backoff c base sleeps c'"
proof -
  obtain res c2 where look: "resolve_leader (counting net) bep topic p c1 = (res, c2)" by fastforce
  note L = resolve_counting [OF look]
  show ?thesis
  proof (cases res)
    case (Inl e)
    then have "base = Inl e" "sleeps = [backoff]" "c' = c2" using assms(1) look by (simp_all add: retry_after_def)
    then show ?thesis using L(1-6) L(7) [OF Inl] Inl assms(2-6) by (simp add: retry_after_def bounded_run_def)
  next
    case (Inr resolved)
    let ?ep = "case resolved of None \<Rightarrow> ep | Some ep' \<Rightarrow> ep'"
    obtain base1 sleeps1 c3 where rest: "produce_loop (counting net) bep topic p payload n ?ep i (min (backoff * 2) kMaxBackoffMs) c2 =
        (base1, sleeps1, c3)" by (metis prod_cases3)
    have "base = base1" "sleeps = backoff # sleeps1" "c' = c3" using assms(1) look Inr rest by (simp_all add: retry_after_def)
    then show ?thesis using IH [OF rest] L(1-6) Inr assms(2-6) by (simp add: retry_after_def bounded_run_def)
  qed
qed

lemma produce_loop_bounded:
  assumes "produce_loop (counting net) bep topic p payload n ep i backoff c = (base, sleeps, c')"
  shows "produce_loop net bep topic p payload n ep i backoff (ct_state c) = (base, sleeps, ct_state c') \<and>
    bounded_run n backoff c base sleeps c'"
  using assms
proof (induction n arbitrary: ep i backoff c base sleeps c')
  case 0
  then show ?case by (auto simp: bounded_run_def)
next
  case (Suc n)
  obtain r j c1 where att: "attempt (counting net) ep i payload c = (r, j, c1)" by (metis prod_cases3)
  note A = attempt_counting [OF att]
  note eq = Suc.prems [unfolded produce_loop_Suc att Let_def prod.case]
  note loop = produce_loop_Suc [of net bep topic p payload n ep i backoff "ct_state c", unfolded A(1) Let_def prod.case]
  show ?case
  proof (cases r)
    case (Inl e)
    show ?thesis
    proof (cases "thrown e")
      case True
      then have q: "ct_silent c1 = ct_silent c" "ct_broken c1 = ct_broken c" using A(5,6) Inl by (auto simp: thrown_def)
      from eq Inl True have "retry_after (counting net) bep topic p payload n ep j backoff c1 = (base, sleeps, c')" by simp
      from retry_counting [OF this A(2-4) q Suc.IH] show ?thesis unfolding loop using Inl True by simp
    next
      case False
      then have "base = Inl e" "sleeps = []" "c' = c1" using eq Inl by simp_all
      then show ?thesis unfolding loop using False Inl A by (auto intro: bounded_done)
    qed
  next
    case (Inr resp)
    then have q: "ct_silent c1 = ct_silent c" "ct_broken c1 = ct_broken c" using A(5,6) by simp_all
    consider "presp_errorCode resp = NoError"
      | "presp_errorCode resp \<noteq> NoError" "presp_errorCode resp = NotLeaderForPartition \<and> presp_leaderHost resp \<noteq> []"
      | "presp_errorCode resp \<noteq> NoError" "\<not> (presp_errorCode resp = NotLeaderForPartition \<and> presp_leaderHost resp \<noteq> [])" by blast
    then show ?thesis
    proof cases
      case 1
      then show ?thesis unfolding loop using eq Inr A(2-4) q by (auto intro: bounded_done)
    next
      case 2
      then have "produce_loop (counting net) bep topic p payload n (presp_leaderHost resp, ucast (presp_leaderPort resp)) j backoff c1 =
          (base, sleeps, c')" using eq Inr by simp
      from Suc.IH [OF this] 2 show ?thesis unfolding loop using Inr bounded_redirect [OF A(2-4) q] by simp
    next
      case 3
      note sel = Inr sum.case if_not_P [OF 3(1)] if_not_P [OF 3(2)]
      show ?thesis unfolding loop sel by (rule retry_counting [OF eq [unfolded sel] A(2-4) q Suc.IH])
    qed
  qed
qed

section \<open>Giving up\<close>

lemma take_backoffs: "n \<le> m \<Longrightarrow> backoffs n b = take n (backoffs m b)"
proof (induction n arbitrary: m b)
  case (Suc n)
  then show ?case by (cases m) simp_all
qed simp

lemma sum_take_le: "sum_list (take n xs) \<le> sum_list xs" for xs :: "nat list"
proof -
  have "sum_list xs = sum_list (take n xs) + sum_list (drop n xs)" unfolding sum_list_append [symmetric] by simp
  then show ?thesis by simp
qed

lemma backoffs_10: "backoffs 10 kInitialBackoffMs = [50, 100, 200, 400, 800, 1600, 2000, 2000, 2000, 2000]"
  by code_simp

text \<open>
  C22: the producer gives up, unless the network leaves it hanging. Whatever the network does (connections refused or
  lost, answers that cannot be decoded, errors, redirects in a circle), a run sends at most 10 produce requests and 10
  metadata requests and sleeps the doubling times 50, 100, 200, ... up to 2000 ms, in all at most 11.15 seconds, and it
  gives up only after it has tried to reach a leader 10 times. It returns if and only if no request stayed unanswered on
  an open connection and none was sent into a closed one: the first of the former hangs the producer for good, as the
  sockets have no timeout, the first of the latter kills it, and neither counts as a failed attempt.
\<close>

theorem producer_gives_up:
  assumes "produce_loop (counting net) bep topic p payload kMaxProduceAttempts ep i kInitialBackoffMs (uncounted s) = (r, sleeps, c)"
  shows "produce_loop net bep topic p payload kMaxProduceAttempts ep i kInitialBackoffMs s = (r, sleeps, ct_state c) \<and>
    ct_produces c \<le> 10 \<and> ct_lookups c \<le> 10 \<and>
    sleeps = take (length sleeps) [50, 100, 200, 400, 800, 1600, 2000, 2000, 2000, 2000] \<and>
    sum_list (map unat sleeps) \<le> 11150 \<and>
    (r = Inr None \<longrightarrow> ct_connects c = 10 + length sleeps) \<and>
    ((\<exists>base. r = Inr base) \<longleftrightarrow> ct_silent c = 0 \<and> ct_broken c = 0) \<and>
    (r = Inl Hangs \<longleftrightarrow> ct_silent c = 1) \<and> (r = Inl Killed \<longleftrightarrow> ct_broken c = 1)"
proof -
  note run = produce_loop_bounded [OF assms]
  then have len: "length sleeps \<le> 10" and sl: "sleeps = backoffs (length sleeps) kInitialBackoffMs"
    by (simp_all add: bounded_run_def kMaxProduceAttempts_def)
  have sleeps: "sleeps = take (length sleeps) [50, 100, 200, 400, 800, 1600, 2000, 2000, 2000, 2000]"
    using take_backoffs [OF len] sl backoffs_10 by metis
  have "sum_list (map unat sleeps) \<le> sum_list (map unat [50, 100, 200, 400, 800, 1600, 2000, 2000, 2000, 2000 :: u32])"
    using arg_cong [OF sleeps, of "map unat"] sum_take_le unfolding take_map [symmetric] by metis
  then have "sum_list (map unat sleeps) \<le> 11150" by simp
  moreover have "ct_produces c \<le> 10" "ct_lookups c \<le> 10" "r = Inr None \<longrightarrow> ct_connects c = 10 + length sleeps"
    using conjunct2 [OF run] len by (auto simp: bounded_run_def kMaxProduceAttempts_def uncounted_def)
  moreover have st: "ct_silent c = stopped r Hangs" "ct_broken c = stopped r Killed" "\<And>e. r = Inl e \<Longrightarrow> e = Hangs \<or> e = Killed"
    using conjunct2 [OF run] by (auto simp: bounded_run_def uncounted_def thrown_def)
  then have "(\<exists>base. r = Inr base) \<longleftrightarrow> ct_silent c = 0 \<and> ct_broken c = 0" "r = Inl Hangs \<longleftrightarrow> ct_silent c = 1" "r = Inl Killed \<longleftrightarrow> ct_broken c = 1"
    by (cases r; auto simp: stopped_def split: if_splits)+
  moreover note conjunct1 [OF run] sleeps
  ultimately show ?thesis by (intro conjI) (simp_all only: uncounted_def counted.simps)
qed

text \<open>A network in which nobody listens: ten attempts, each followed by a lookup that fails as well.\<close>

lemma producer_gives_up_witness:
  "\<exists>c :: unit counted. produce_loop (counting \<lparr>net_connect = (\<lambda>s _. (False, s)), net_call = (\<lambda>s _ _. (Lost, s))\<rparr>) (''h'', 9092) ''t'' 0 []
      10 (''h'', 9092) 1 50 (uncounted ()) =
    (Inr None, [50, 100, 200, 400, 800, 1600, 2000, 2000, 2000, 2000], c) \<and> ct_connects c = 20 \<and> ct_silent c = 0"
proof -
  let ?net = "\<lparr>net_connect = (\<lambda>s _. (False, s)), net_call = (\<lambda>s _ _. (Lost, s))\<rparr> :: unit network"
  have down: "produce_loop ?net (''h'', 9092) ''t'' 0 [] n ep i b s = (Inr None, backoffs n b, s)" for n ep i b s
  proof (induction n arbitrary: ep i b s)
    case (Suc n)
    then show ?case by (simp add: produce_loop_Suc retry_after_def attempt_def connect_def resolve_leader_def bindC_def)
  qed simp
  obtain r sleeps c where run: "produce_loop (counting ?net) (''h'', 9092) ''t'' 0 [] kMaxProduceAttempts (''h'', 9092) 1 kInitialBackoffMs (uncounted ()) =
      (r, sleeps, c)" by (metis prod_cases3)
  from producer_gives_up [OF run] have "r = Inr None" "sleeps = backoffs 10 50" "ct_connects c = 10 + length sleeps" "ct_silent c = 0"
    unfolding down by (auto simp: kMaxProduceAttempts_def kInitialBackoffMs_def)
  then show ?thesis using run backoffs_10 unfolding kMaxProduceAttempts_def kInitialBackoffMs_def by auto
qed

text \<open>A broker that accepts the connection and says nothing: the producer sends one request and never goes on.\<close>

theorem silent_broker_hangs_producer:
  assumes "net_connect net s ep = (True, s1)"
    and "net_call net s1 ep \<lparr>rf_requestType = request_type_u16 Produce, rf_correlationId = i, rf_payload = payload\<rparr> = (Silent, s2)"
  shows "produce_loop net bep topic p payload (Suc n) ep i backoff s = (Inl Hangs, [], s2)"
  using assms by (simp add: produce_loop_Suc attempt_def connect_def call_def)

lemma silent_broker_hangs_producer_witness:
  "produce_loop \<lparr>net_connect = (\<lambda>s _. (True, s)), net_call = (\<lambda>s _ _. (Silent, s))\<rparr> (''h'', 9092) ''t'' 0 [] 10 (''h'', 9092) 1 50 () =
    (Inl Hangs, [], ())"
  using silent_broker_hangs_producer [of "\<lparr>net_connect = (\<lambda>s _. (True, s)), net_call = (\<lambda>s _ _. (Silent, s))\<rparr>" "()" "(''h'', 9092)" "()" 1 "[]" "()"
      "(''h'', 9092)" "''t''" 0 9 50] by simp

end
