(* ===== verification/GroupClient.thy ===== *)
theory GroupClient
  imports ClientProps
begin

text \<open>
  A member of a consumer group with the brokers it reads from and its coordinator: what it prints, what it commits, and
  where the member after it goes on.
\<close>

unbundle bit_operations_syntax

section \<open>Committed offsets\<close>

definition saved_in :: "coordinator \<Rightarrow> string \<Rightarrow> topic_partition \<Rightarrow> u64 option" where
  "saved_in c groupId = map_of (gs_offsets (load_offsets_if_needed c groupId (get_or_create_group c groupId)))"

lemma load_loaded: "gs_offsetsLoaded (load_offsets_if_needed c groupId g)"
  by (simp add: load_offsets_if_needed_def Let_def split: option.split)

lemma load_once: "gs_offsetsLoaded g \<Longrightarrow> load_offsets_if_needed c groupId g = g"
  by (simp add: load_offsets_if_needed_def)

lemma commit_saved:
  assumes "commit_offset c req = (resp, c')"
  shows "saved_in c' (coreq_groupId req) = (saved_in c (coreq_groupId req))((coreq_topic req, coreq_partitionId req) \<mapsto> coreq_offset req)"
    "coresp_errorCode resp = NoError"
  using assms by (auto simp: commit_offset_def saved_in_def Let_def load_once load_loaded)

lemma fetch_offset_saved:
  assumes "fetch_offset c req = (resp, c')"
  shows "saved_in c' (foreq_groupId req) = saved_in c (foreq_groupId req)"
    "resp = \<lparr>foresp_errorCode = NoError, foresp_offset =
       (case saved_in c (foreq_groupId req) (foreq_topic req, foreq_partitionId req) of None \<Rightarrow> - 1 | Some w \<Rightarrow> sint w)\<rparr>"
  using assms by (auto simp: fetch_offset_def saved_in_def Let_def load_once load_loaded)

text \<open>What the coordinator at an endpoint has saved for a group, and the offset a member resumes from.\<close>

definition saved_at :: "(endpoint \<Rightarrow> broker option) \<Rightarrow> endpoint \<Rightarrow> string \<Rightarrow> topic_partition \<Rightarrow> u64 option" where
  "saved_at s ep groupId = (case s ep of None \<Rightarrow> Map.empty | Some b \<Rightarrow> saved_in (bk_groupCoordinator b) groupId)"

definition resumes_at :: "u64 option \<Rightarrow> nat \<Rightarrow> bool" where
  "resumes_at w off \<longleftrightarrow> (case w of None \<Rightarrow> off = 0 | Some w \<Rightarrow> w = of_nat off)"

section \<open>What calls leave alone\<close>

text \<open>The brokers keep their partitions and their leaders; only coordinators and caches change.\<close>

definition same_view :: "(endpoint \<Rightarrow> broker option) \<Rightarrow> (endpoint \<Rightarrow> broker option) \<Rightarrow> bool" where
  "same_view s s' \<longleftrightarrow> (\<forall>ep. case s ep of None \<Rightarrow> s' ep = None
     | Some b \<Rightarrow> (\<exists>b'. s' ep = Some b' \<and> part_at b' = part_at b \<and> not_leader b' = not_leader b))"

lemma same_view_refl [simp]: "same_view s s"
  by (simp add: same_view_def split: option.split)

lemma same_viewD: "same_view s s' \<Longrightarrow> s ep = Some b \<Longrightarrow> \<exists>b'. s' ep = Some b' \<and> part_at b' = part_at b \<and> not_leader b' = not_leader b"
  unfolding same_view_def by (drule spec [of _ ep]) simp

lemma same_view_trans: "same_view s t \<Longrightarrow> same_view t u \<Longrightarrow> same_view s u"
  unfolding same_view_def
proof
  fix ep assume st: "\<forall>ep. case s ep of None \<Rightarrow> t ep = None | Some b \<Rightarrow> \<exists>b'. t ep = Some b' \<and> part_at b' = part_at b \<and> not_leader b' = not_leader b"
    and tu: "\<forall>ep. case t ep of None \<Rightarrow> u ep = None | Some b \<Rightarrow> \<exists>b'. u ep = Some b' \<and> part_at b' = part_at b \<and> not_leader b' = not_leader b"
  show "case s ep of None \<Rightarrow> u ep = None | Some b \<Rightarrow> \<exists>b'. u ep = Some b' \<and> part_at b' = part_at b \<and> not_leader b' = not_leader b"
    using spec [OF st, of ep] spec [OF tu, of ep] by (auto split: option.splits)
qed

lemma same_view_put:
  "s ep = Some b \<Longrightarrow> part_at b' = part_at b \<Longrightarrow> not_leader b' = not_leader b \<Longrightarrow> same_view s (s(ep \<mapsto> b'))"
  by (auto simp: same_view_def split: option.split)

lemma same_view_coordinator: "s ep = Some b \<Longrightarrow> same_view s (s(ep \<mapsto> b\<lparr>bk_groupCoordinator := c\<rparr>))"
proof (rule same_view_put)
  show "part_at (b\<lparr>bk_groupCoordinator := c\<rparr>) = part_at b" by (rule part_at_cong) simp_all
  show "not_leader (b\<lparr>bk_groupCoordinator := c\<rparr>) = not_leader b"
    by (rule ext) (simp add: not_leader_def cong: option.case_cong)
qed

section \<open>Calls to the coordinator\<close>

text \<open>A commit is answered and saved; asking for an offset saves nothing.\<close>

lemma commit_call:
  assumes "s ep = Some b" "commit_offset_request_ok req"
  shows "\<exists>s'. call (broker_network now timeout) ep CommitOffset i (encode_commit_offset_request [] req) (\<lambda>r. Inr ((), r)) s = (Inr (), s') \<and>
    same_view s s' \<and> saved_at s' ep (coreq_groupId req) =
      (saved_at s ep (coreq_groupId req))((coreq_topic req, coreq_partitionId req) \<mapsto> coreq_offset req)"
proof -
  obtain resp c' where r: "commit_offset (bk_groupCoordinator b) req = (resp, c')" by fastforce
  have parse: "parse decode_commit_offset_request (encode_commit_offset_request [] req) = Inr req"
    by (rule parse_put [OF commit_offset_request.faithful assms(2)])
  let ?s = "s(ep \<mapsto> b\<lparr>bk_groupCoordinator := c'\<rparr>)"
  have "call (broker_network now timeout) ep CommitOffset i (encode_commit_offset_request [] req) (\<lambda>r. Inr ((), r)) s = (Inr (), ?s)"
    using assms(1) r
    by (simp add: call_def broker_network_def handle_def dispatch_def request_type_of_def handle_commit_offset_def group_handler_def parse)
  moreover have "same_view s ?s" by (rule same_view_coordinator [where s = s and ep = ep, OF assms(1)])
  ultimately show ?thesis using commit_saved(1) [OF r] assms(1) by (intro exI [of _ ?s]) (simp add: saved_at_def)
qed

lemma fetch_offset_call:
  assumes "s ep = Some b" "fetch_offset_request_ok req" "resumes_at (saved_at s ep (foreq_groupId req) (foreq_topic req, foreq_partitionId req)) off"
    and "off < 2 ^ 63"
  shows "\<exists>s' resp. call (broker_network now timeout) ep FetchOffset i (encode_fetch_offset_request [] req) decode_fetch_offset_response s = (Inr resp, s') \<and>
    (if 0 \<le> foresp_offset resp then word_of_int (foresp_offset resp) else 0) = (of_nat off :: u64) \<and>
    same_view s s' \<and> saved_at s' ep (foreq_groupId req) = saved_at s ep (foreq_groupId req) \<and>
    (\<exists>c. s' = s(ep \<mapsto> b\<lparr>bk_groupCoordinator := c\<rparr>))"
proof -
  obtain resp c' where r: "fetch_offset (bk_groupCoordinator b) req = (resp, c')" by fastforce
  note saved = fetch_offset_saved [OF r]
  have parse: "parse decode_fetch_offset_request (encode_fetch_offset_request [] req) = Inr req"
    by (rule parse_put [OF fetch_offset_request.faithful assms(2)])
  let ?s = "s(ep \<mapsto> b\<lparr>bk_groupCoordinator := c'\<rparr>)"
  have "fetch_offset_response_ok resp"
    using saved(2) sint_in_i64 by (simp add: fetch_offset_response_ok_def in_i64_def split: option.split)
  moreover have "dispatch b \<lparr>rf_requestType = request_type_u16 FetchOffset, rf_correlationId = i, rf_payload = encode_fetch_offset_request [] req\<rparr> now timeout =
      Inr (Answer (encode_fetch_offset_response [] resp), [], b\<lparr>bk_groupCoordinator := c'\<rparr>)"
    using r by (simp add: dispatch_def request_type_of_def handle_fetch_offset_def group_handler_def parse)
  ultimately have "call (broker_network now timeout) ep FetchOffset i (encode_fetch_offset_request [] req) decode_fetch_offset_response s = (Inr resp, ?s)"
    by (intro network_call [where s = s and ep = ep and put = encode_fetch_offset_response, OF assms(1) _ fetch_offset_response.faithful])
  moreover have "(if 0 \<le> foresp_offset resp then word_of_int (foresp_offset resp) else 0) = (of_nat off :: u64)"
    using saved(2) assms(3,4) assms(1) unfolding saved_at_def resumes_at_def by (auto split: option.splits)
  moreover have "same_view s ?s" by (rule same_view_coordinator [where s = s and ep = ep, OF assms(1)])
  moreover have "saved_at ?s ep (foreq_groupId req) = saved_at s ep (foreq_groupId req)"
    using saved(1) assms(1) by (simp add: saved_at_def)
  ultimately show ?thesis by blast
qed

section \<open>Polling\<close>

text \<open>
  Partition \<open>p\<close> is served at an endpoint: the broker there leads it, its log is \<open>log p\<close> up to the high watermark
  \<open>h p\<close>, and both fit the numbers of the protocol.
\<close>

definition served :: "(endpoint \<Rightarrow> broker option) \<Rightarrow> string \<Rightarrow> (u32 \<Rightarrow> log_record list) \<Rightarrow> (u32 \<Rightarrow> nat) \<Rightarrow> u32 \<Rightarrow> endpoint \<Rightarrow> bool" where
  "served s topic log h p ep \<longleftrightarrow> (\<exists>b pt. s ep = Some b \<and> not_leader b (topic, p) = None \<and> part_at b (topic, p) = Inr pt \<and>
     part_inv pt (log p) \<and> high_watermark pt = int (h p) \<and> h p \<le> length (log p) \<and> no_wrap kMaxPollBytes (log p) \<and>
     length (log p) < 2 ^ 32)"

lemma served_view: "served s topic log h p ep \<Longrightarrow> same_view s s' \<Longrightarrow> served s' topic log h p ep"
  unfolding served_def by (metis same_viewD)

text \<open>
  A member that polls: it stands in every partition where the group's committed offset is, below the high watermark.
\<close>

definition member_ok :: "(endpoint \<Rightarrow> broker option) \<Rightarrow> group_member \<Rightarrow> bool" where
  "member_ok s g \<longleftrightarrow> s (gm_coordinator g) \<noteq> None \<and> string_ok (gm_groupId g) \<and> string_ok (gm_memberId g) \<and> string_ok (gm_topic g)"

definition polling :: "(endpoint \<Rightarrow> broker option) \<Rightarrow> (u32 \<Rightarrow> log_record list) \<Rightarrow> (u32 \<Rightarrow> nat) \<Rightarrow> (u32 \<Rightarrow> nat) \<Rightarrow> u32 list \<Rightarrow> poll \<Rightarrow> bool" where
  "polling s log h off ps st \<longleftrightarrow> member_ok s (pl_member st) \<and>
     (\<forall>p \<in> set ps. off p \<le> h p \<and> map_of (pl_offsets st) p = Some (of_nat (off p)) \<and>
        resumes_at (saved_at s (gm_coordinator (pl_member st)) (gm_groupId (pl_member st)) (gm_topic (pl_member st), p)) (off p) \<and>
        (\<exists>ep. map_of (pl_sockets st) p = Some ep \<and> served s (gm_topic (pl_member st)) log h p ep))"

definition fetched :: "(u32 \<Rightarrow> log_record list) \<Rightarrow> (u32 \<Rightarrow> nat) \<Rightarrow> (u32 \<Rightarrow> nat) \<Rightarrow> u32 \<Rightarrow> log_record list" where
  "fetched log h off p = fetch_spec (unat kMaxPollBytes) (drop (off p) (take (h p) (log p)))"

definition same_member :: "group_member \<Rightarrow> group_member \<Rightarrow> bool" where
  "same_member g g' \<longleftrightarrow> g' = g\<lparr>gm_correlationId := gm_correlationId g'\<rparr>"

lemma same_member_refl [simp]: "same_member g g"
  by (simp add: same_member_def)

lemma same_member_trans: "same_member g g1 \<Longrightarrow> same_member g1 g2 \<Longrightarrow> same_member g g2"
  unfolding same_member_def by (cases g, cases g1, cases g2) simp

lemma same_member_fields:
  "same_member g g' \<Longrightarrow> gm_coordinator g' = gm_coordinator g \<and> gm_groupId g' = gm_groupId g \<and> gm_memberId g' = gm_memberId g \<and>
     gm_topic g' = gm_topic g"
  unfolding same_member_def by (cases g, cases g') simp

text \<open>One partition of one round.\<close>

lemma poll_partition_reads:
  assumes pol: "polling s log h off ps st" and p: "p \<in> set ps" "distinct ps"
  defines "recs \<equiv> fetched log h off p"
  shows "\<exists>st' s'. poll_partition (broker_network now timeout) p st s = (Inr (recs, st'), s') \<and>
    same_view s s' \<and> same_member (pl_member st) (pl_member st') \<and> polling s' log h (off(p := off p + length recs)) ps st' \<and>
    off p + length recs \<le> h p"
proof -
  let ?g = "pl_member st" and ?net = "broker_network now timeout"
  obtain ep where ep: "map_of (pl_sockets st) p = Some ep" "served s (gm_topic ?g) log h p ep"
    and off: "off p \<le> h p" "map_of (pl_offsets st) p = Some (of_nat (off p))"
    and mem: "s (gm_coordinator ?g) \<noteq> None" "string_ok (gm_groupId ?g)" "string_ok (gm_memberId ?g)" "string_ok (gm_topic ?g)"
    using pol p(1) unfolding polling_def member_ok_def by blast
  obtain b pt where b: "s ep = Some b" "not_leader b (gm_topic ?g, p) = None" "part_at b (gm_topic ?g, p) = Inr pt"
     "part_inv pt (log p)" "high_watermark pt = int (h p)" "h p \<le> length (log p)" "no_wrap kMaxPollBytes (log p)"
     "length (log p) < 2 ^ 32"
    using ep(2) unfolding served_def by blast
  note fetch = fetch_call [where s = s and ep = ep, OF b mem(4) off(1)]
  have fold: "fetch_spec (unat kMaxPollBytes) (drop (off p) (take (h p) (log p))) = recs" by (simp add: recs_def fetched_def)
  obtain b' where f: "call ?net ep Fetch (gm_correlationId ?g) (encode_fetch_request []
        \<lparr>freq_topic = gm_topic ?g, freq_partitionId = p, freq_fetchOffset = of_nat (off p), freq_maxBytes = kMaxPollBytes\<rparr>)
        decode_fetch_response s =
      (Inr \<lparr>fresp_errorCode = NoError, fresp_highWatermark = word_of_int (high_watermark pt), fresp_records = recs,
         fresp_leaderHost = [], fresp_leaderPort = 0\<rparr>, s(ep \<mapsto> b'))"
    "not_leader b' = not_leader b" "part_at b' = part_at b" "bk_groupCoordinator b' = bk_groupCoordinator b"
    using fetch(1) [of now timeout "gm_correlationId ?g"] unfolding fold by blast
  note nxt = fetch(2,3) [unfolded fold]
  let ?s1 = "s(ep \<mapsto> b')" and ?g1 = "?g\<lparr>gm_correlationId := gm_correlationId ?g + 1\<rparr>"
  let ?st1 = "st\<lparr>pl_member := ?g1, pl_offsets := omap_put p (of_nat (off p)) (pl_offsets st)\<rparr>"
  have v1: "same_view s ?s1" by (rule same_view_put [where s = s and ep = ep, OF b(1) f(3,2)])
  have sv1: "saved_at ?s1 = saved_at s" using b(1) f(4) by (simp add: saved_at_def fun_eq_iff)
  have keep: "polling s' log h (off(p := n)) ps st'"
    if "same_view s s'" "same_member ?g (pl_member st')" "n \<le> h p" "map_of (pl_offsets st') = (map_of (pl_offsets st))(p \<mapsto> of_nat n)"
      "pl_sockets st' = pl_sockets st"
      "resumes_at (saved_at s' (gm_coordinator ?g) (gm_groupId ?g) (gm_topic ?g, p)) n"
      "\<forall>q. q \<noteq> p \<longrightarrow> saved_at s' (gm_coordinator ?g) (gm_groupId ?g) (gm_topic ?g, q) = saved_at s (gm_coordinator ?g) (gm_groupId ?g) (gm_topic ?g, q)"
    for s' n st'
  proof -
    have "s' (gm_coordinator ?g) \<noteq> None" using mem(1) same_viewD [OF that(1)] by fastforce
    then show ?thesis
      using pol that same_member_fields [OF that(2)] served_view [OF _ that(1)]
      unfolding polling_def member_ok_def by auto
  qed
  show ?thesis
  proof (cases "recs = []")
    case True
    then have "poll_partition ?net p st s = (Inr ([], ?st1), ?s1)"
      by (simp add: poll_partition_def ep(1) off(2) f(1) bindC_def retC_def Let_def)
    moreover have "polling ?s1 log h (off(p := off p)) ps ?st1"
      using pol p(1) off(1) by (intro keep [OF v1]) (auto simp: sv1 polling_def same_member_def)
    ultimately show ?thesis using True v1 off(1) by (intro exI [of _ ?st1] exI [of _ ?s1]) (simp add: same_member_def)
  next
    case False
    let ?n = "off p + length recs"
    let ?req = "\<lparr>coreq_groupId = gm_groupId ?g1, coreq_memberId = gm_memberId ?g1, coreq_generationId = gm_generationId ?g1,
       coreq_topic = gm_topic ?g1, coreq_partitionId = p, coreq_offset = of_nat ?n\<rparr>"
    obtain bc where bc: "?s1 (gm_coordinator ?g) = Some bc" using mem(1) same_viewD [OF v1] by fastforce
    have ok: "commit_offset_request_ok ?req" using mem by (simp add: commit_offset_request_ok_def)
    obtain s2 where c: "call ?net (gm_coordinator ?g) CommitOffset (gm_correlationId ?g + 1) (encode_commit_offset_request [] ?req)
        (\<lambda>r. Inr ((), r)) ?s1 = (Inr (), s2)" "same_view ?s1 s2"
      "saved_at s2 (gm_coordinator ?g) (gm_groupId ?g) = (saved_at s (gm_coordinator ?g) (gm_groupId ?g))((gm_topic ?g, p) \<mapsto> of_nat ?n)"
      using commit_call [where s = ?s1 and ep = "gm_coordinator ?g", OF bc ok, of now timeout "gm_correlationId ?g + 1"] sv1 by auto
    let ?st2 = "?st1\<lparr>pl_member := ?g1\<lparr>gm_correlationId := gm_correlationId ?g1 + 1\<rparr>, pl_offsets := omap_put p (of_nat ?n) (pl_offsets ?st1)\<rparr>"
    have "poll_partition ?net p st s = (Inr (recs, ?st2), s2)"
      using False nxt(1) c(1) by (simp add: poll_partition_def ep(1) off(2) f(1) bindC_def retC_def main_call_def Let_def)
    moreover have v2: "same_view s s2" by (rule same_view_trans [OF v1 c(2)])
    moreover have "polling s2 log h (off(p := ?n)) ps ?st2"
      using nxt(2) c(3) by (intro keep [OF v2]) (auto simp: resumes_at_def same_member_def)
    moreover have "same_member ?g (pl_member ?st2)" by (simp add: same_member_def)
    ultimately show ?thesis using nxt(2) by (intro exI [of _ ?st2] exI [of _ s2]) simp
  qed
qed

text \<open>One round over the partitions \<open>qs\<close>, each once.\<close>

definition moved_on :: "(u32 \<Rightarrow> log_record list) \<Rightarrow> (u32 \<Rightarrow> nat) \<Rightarrow> u32 list \<Rightarrow> (u32 \<Rightarrow> nat) \<Rightarrow> u32 \<Rightarrow> nat" where
  "moved_on log h qs off p = (if p \<in> set qs then off p + length (fetched log h off p) else off p)"

lemma fetched_cong: "off p = off' p \<Longrightarrow> fetched log h off p = fetched log h off' p"
  by (simp add: fetched_def)

lemma poll_round_reads:
  assumes "polling s log h off ps st" "distinct ps" "set qs \<subseteq> set ps" "distinct qs"
  shows "\<exists>st' s'. poll_round (broker_network now timeout) qs st s = (Inr (map (\<lambda>p. (p, fetched log h off p)) qs, st'), s') \<and>
    same_member (pl_member st) (pl_member st') \<and> polling s' log h (moved_on log h qs off) ps st'"
  using assms
proof (induction qs arbitrary: s off st)
  case Nil
  have "moved_on log h [] off = off" by (simp add: moved_on_def fun_eq_iff)
  then show ?case using Nil(1) by (simp add: retC_def)
next
  case (Cons q qs)
  let ?net = "broker_network now timeout" and ?off = "off(q := off q + length (fetched log h off q))"
  have "q \<in> set ps" using Cons.prems(3) by simp
  from poll_partition_reads [OF Cons.prems(1) this Cons.prems(2), of now timeout]
  obtain st1 s1 where one: "poll_partition ?net q st s = (Inr (fetched log h off q, st1), s1)"
    "same_member (pl_member st) (pl_member st1)" "polling s1 log h ?off ps st1" by blast
  have "set qs \<subseteq> set ps" "distinct qs" using Cons.prems(3,4) by simp_all
  from Cons.IH [OF one(3) Cons.prems(2) this] obtain st2 s2 where
    more: "poll_round ?net qs st1 s1 = (Inr (map (\<lambda>p. (p, fetched log h ?off p)) qs, st2), s2)"
    "same_member (pl_member st1) (pl_member st2)" "polling s2 log h (moved_on log h qs ?off) ps st2" by blast
  have same: "fetched log h ?off p = fetched log h off p" if "p \<noteq> q" for p using that by (intro fetched_cong) simp
  have "map (\<lambda>p. (p, fetched log h ?off p)) qs = map (\<lambda>p. (p, fetched log h off p)) qs"
    using Cons.prems(4) by (auto intro!: same)
  moreover have "moved_on log h qs ?off = moved_on log h (q # qs) off"
    using Cons.prems(4) same by (auto simp: moved_on_def fun_eq_iff)
  ultimately show ?case
    using one more same_member_trans [OF one(2) more(2)] by (simp add: bindC_def retC_def)
qed

text \<open>What is printed of one partition.\<close>

definition printed_of :: "u32 \<Rightarrow> (u32 \<times> log_record list) list \<Rightarrow> log_record list" where
  "printed_of p printed = concat (map snd (filter (\<lambda>e. fst e = p) printed))"

lemma printed_of_simps [simp]:
  "printed_of p [] = []" "printed_of p (xs @ ys) = printed_of p xs @ printed_of p ys"
  by (simp_all add: printed_of_def)

lemma printed_of_round: "distinct ps \<Longrightarrow> p \<in> set ps \<Longrightarrow> printed_of p (map (\<lambda>p. (p, f p)) ps) = f p"
proof (induction ps)
  case (Cons q ps)
  have "printed_of p (map (\<lambda>p. (p, f p)) ps) = []" if "p \<notin> set ps"
    using that by (auto simp: printed_of_def filter_empty_conv)
  then show ?case using Cons by (cases "p = q") (auto simp: printed_of_def)
qed simp

lemma fetched_slice:
  assumes "off p \<le> h p" "h p \<le> length (log p)"
  shows "off p + length (fetched log h off p) \<le> h p"
    "fetched log h off p = drop (off p) (take (off p + length (fetched log h off p)) (log p))"
    "off p < h p \<Longrightarrow> 0 < length (fetched log h off p)"
proof -
  have "prefix (fetched log h off p) (drop (off p) (take (h p) (log p)))" unfolding fetched_def by (rule fetch_spec_prefix)
  then obtain zs where zs: "drop (off p) (take (h p) (log p)) = fetched log h off p @ zs" by (rule prefixE)
  show le: "off p + length (fetched log h off p) \<le> h p" using arg_cong [OF zs, of length] assms by simp
  have "take (length (fetched log h off p)) (drop (off p) (take (h p) (log p))) = fetched log h off p" unfolding zs by simp
  then show "fetched log h off p = drop (off p) (take (off p + length (fetched log h off p)) (log p))"
    using le by (simp add: take_drop min_absorb2 add.commute)
  show "0 < length (fetched log h off p)" if "off p < h p"
    unfolding fetched_def using that assms(2) fetch_spec_progress by fastforce
qed

lemma pollingD:
  assumes "polling s log h off ps st" "p \<in> set ps"
  shows "off p \<le> h p" "h p \<le> length (log p)" "length (log p) < 2 ^ 32"
    "resumes_at (saved_at s (gm_coordinator (pl_member st)) (gm_groupId (pl_member st)) (gm_topic (pl_member st), p)) (off p)"
  using assms unfolding polling_def served_def by blast+

lemma drop_take_append:
  assumes "a \<le> b" "b \<le> c"
  shows "drop a (take b xs) @ drop b (take c xs) = drop a (take c xs)"
proof -
  let ?ys = "take c xs"
  have "drop a ?ys = drop a (take b ?ys @ drop b ?ys)" by (simp only: append_take_drop_id)
  also have "\<dots> = drop a (take b ?ys) @ drop b ?ys"
  proof (cases "b \<le> length ?ys")
    case True
    then show ?thesis using assms(1) by (simp only: drop_append length_take min_absorb2) simp
  next
    case False
    then have "length ?ys \<le> b" by linarith
    then have "drop b ?ys = []" "take b ?ys = ?ys" by (simp_all only: drop_all take_all)
    then show ?thesis by simp
  qed
  also have "take b ?ys = take b xs" using assms(2) by (simp add: min_absorb1)
  finally show ?thesis ..
qed

lemma poll_rounds_read:
  assumes "polling s log h off ps st" "distinct ps"
  shows "\<exists>printed st' s' off'. poll_rounds (broker_network now timeout) ps n st s = (Inr (printed, st'), s') \<and>
    same_member (pl_member st) (pl_member st') \<and> polling s' log h off' ps st' \<and>
    (\<forall>p \<in> set ps. off p \<le> off' p \<and> printed_of p printed = drop (off p) (take (off' p) (log p)) \<and>
       (h p - off p \<le> n \<longrightarrow> off' p = h p))"
  using assms(1)
proof (induction n arbitrary: s off st)
  case 0
  show ?case
    by (intro exI [of _ "[]"] exI [of _ st] exI [of _ s] exI [of _ off])
      (use 0 pollingD(1) [OF 0] in \<open>auto simp: retC_def intro: le_antisym\<close>)
next
  case (Suc n)
  let ?net = "broker_network now timeout" and ?off = "moved_on log h ps off"
  obtain st1 s1 where one: "poll_round ?net ps st s = (Inr (map (\<lambda>p. (p, fetched log h off p)) ps, st1), s1)"
    "same_member (pl_member st) (pl_member st1)" "polling s1 log h ?off ps st1"
    using poll_round_reads [OF Suc.prems assms(2) order_refl assms(2)] by blast
  from Suc.IH [OF this(3)] obtain printed st2 s2 off' where
    more: "poll_rounds ?net ps n st1 s1 = (Inr (printed, st2), s2)" "same_member (pl_member st1) (pl_member st2)"
      "polling s2 log h off' ps st2"
      "\<forall>p \<in> set ps. ?off p \<le> off' p \<and> printed_of p printed = drop (?off p) (take (off' p) (log p)) \<and> (h p - ?off p \<le> n \<longrightarrow> off' p = h p)"
    by blast
  let ?printed = "map (\<lambda>p. (p, fetched log h off p)) ps @ printed"
  have "off p \<le> off' p \<and> printed_of p ?printed = drop (off p) (take (off' p) (log p)) \<and> (h p - off p \<le> Suc n \<longrightarrow> off' p = h p)"
    if p: "p \<in> set ps" for p
  proof -
    note sl = fetched_slice [where off = off and h = h and log = log and p = p, OF pollingD(1,2) [OF Suc.prems p]]
    have off: "?off p = off p + length (fetched log h off p)" using p by (simp add: moved_on_def)
    have le: "off p \<le> ?off p" by (simp add: off)
    have le': "?off p \<le> off' p" using bspec [OF more(4) p] by blast
    have "printed_of p ?printed = drop (off p) (take (?off p) (log p)) @ drop (?off p) (take (off' p) (log p))"
      using more(4) p sl(2) unfolding off [symmetric] by (simp add: printed_of_round [OF assms(2) p])
    then have "printed_of p ?printed = drop (off p) (take (off' p) (log p))" by (simp add: drop_take_append [OF le le'])
    moreover have "h p - ?off p \<le> n" if "h p - off p \<le> Suc n"
    proof (cases "off p < h p")
      case True
      then show ?thesis using that sl(3) unfolding off by linarith
    qed (simp add: off)
    ultimately show ?thesis using le le' bspec [OF more(4) p] by (auto simp del: printed_of_simps)
  qed
  then show ?case using one(1) more(1,3) same_member_trans [OF one(2) more(2)]
    by (intro exI [of _ ?printed] exI [of _ st2] exI [of _ s2] exI [of _ off']) (simp add: bindC_def retC_def)
qed

section \<open>Handing over\<close>

lemma member_view: "member_ok s g \<Longrightarrow> same_view s s' \<Longrightarrow> member_ok s' g"
  unfolding member_ok_def using same_viewD by fastforce

lemma resume_offsets_read:
  assumes "member_ok s g"
    and "\<forall>p \<in> set ps. resumes_at (saved_at s (gm_coordinator g) (gm_groupId g) (gm_topic g, p)) (off p) \<and> off p < 2 ^ 63"
  shows "\<exists>offsets g' s'. resume_offsets (broker_network now timeout) None ps g m s = (Inr (offsets, g'), s') \<and>
    same_view s s' \<and> same_member g g' \<and>
    saved_at s' (gm_coordinator g) (gm_groupId g) = saved_at s (gm_coordinator g) (gm_groupId g) \<and>
    map_of offsets = (\<lambda>p. if p \<in> set ps then Some (of_nat (off p)) else map_of m p)"
  using assms
proof (induction ps arbitrary: s g m)
  case Nil
  then show ?case by (simp add: retC_def)
next
  case (Cons p ps)
  let ?net = "broker_network now timeout"
  let ?req = "\<lparr>foreq_groupId = gm_groupId g, foreq_topic = gm_topic g, foreq_partitionId = p\<rparr>"
  obtain b where b: "s (gm_coordinator g) = Some b" "string_ok (gm_groupId g)" "string_ok (gm_topic g)"
    using Cons.prems(1) by (auto simp: member_ok_def)
  have ok: "fetch_offset_request_ok ?req" using b(2,3) by (simp add: fetch_offset_request_ok_def)
  have at: "resumes_at (saved_at s (gm_coordinator g) (foreq_groupId ?req) (foreq_topic ?req, foreq_partitionId ?req)) (off p)" "off p < 2 ^ 63"
    using Cons.prems(2) by simp_all
  obtain s1 resp where c: "call ?net (gm_coordinator g) FetchOffset (gm_correlationId g) (encode_fetch_offset_request [] ?req)
      decode_fetch_offset_response s = (Inr resp, s1)"
    "(if 0 \<le> foresp_offset resp then word_of_int (foresp_offset resp) else 0) = (of_nat (off p) :: u64)" "same_view s s1"
    "saved_at s1 (gm_coordinator g) (gm_groupId g) = saved_at s (gm_coordinator g) (gm_groupId g)"
    using fetch_offset_call [where s = s and ep = "gm_coordinator g", OF b(1) ok at, of now timeout "gm_correlationId g"] by auto
  let ?g = "g\<lparr>gm_correlationId := gm_correlationId g + 1\<rparr>"
  have g: "same_member g ?g" by (simp add: same_member_def)
  have "member_ok s1 ?g" using member_view [OF Cons.prems(1) c(3)] by (simp add: member_ok_def)
  moreover have "\<forall>p \<in> set ps. resumes_at (saved_at s1 (gm_coordinator ?g) (gm_groupId ?g) (gm_topic ?g, p)) (off p) \<and> off p < 2 ^ 63"
    using Cons.prems(2) c(4) by simp
  ultimately obtain offsets g' s' where r: "resume_offsets ?net None ps ?g (omap_put p (of_nat (off p)) m) s1 = (Inr (offsets, g'), s')"
    "same_view s1 s'" "same_member ?g g'" "saved_at s' (gm_coordinator ?g) (gm_groupId ?g) = saved_at s1 (gm_coordinator ?g) (gm_groupId ?g)"
    "map_of offsets = (\<lambda>q. if q \<in> set ps then Some (of_nat (off q)) else map_of (omap_put p (of_nat (off p)) m) q)"
    using Cons.IH by blast
  have "resume_offsets ?net None (p # ps) g m s = (Inr (offsets, g'), s')"
    using c(1) r(1) unfolding resume_offsets.simps main_call_def bindC_def retC_def by (simp add: c(2))
  moreover have "map_of offsets = (\<lambda>q. if q \<in> set (p # ps) then Some (of_nat (off q)) else map_of m q)"
    unfolding r(5) by (auto simp: fun_eq_iff)
  moreover have "saved_at s' (gm_coordinator g) (gm_groupId g) = saved_at s (gm_coordinator g) (gm_groupId g)"
    using r(4) c(4) by simp
  ultimately show ?case using same_view_trans [OF c(3) r(2)] same_member_trans [OF g r(3)] by blast
qed

text \<open>Asking for the metadata and connecting leave logs, leaders and offsets alone.\<close>

lemma metadata_call_keeps:
  assumes "call (broker_network now timeout) ep Metadata i payload get s = (r, s')"
  shows "same_view s s' \<and> saved_at s' = saved_at s"
proof (cases "s ep")
  case None
  then show ?thesis using assms by (simp add: call_def broker_network_def)
next
  case (Some b)
  let ?frame = "\<lparr>rf_requestType = request_type_u16 Metadata, rf_correlationId = i, rf_payload = payload\<rparr>"
  have d: "dispatch b ?frame now timeout = handle_metadata b payload" by (simp add: dispatch_def request_type_of_def)
  show ?thesis
  proof (cases "handle_metadata b payload")
    case (Inl e)
    then show ?thesis using assms Some d by (simp add: call_def broker_network_def handle_def)
  next
    case (Inr a)
    obtain ans out b' where a: "a = (ans, out, b')" by (metis prod_cases3)
    have "\<exists>m. b' = b\<lparr>bk_topics := m\<rparr>"
    proof -
      have "\<exists>m. snd (partition_count_for b topic) = b\<lparr>bk_topics := m\<rparr>" for topic
        by (cases "map_of (bk_topics b) topic") (auto simp: partition_count_for_def Let_def intro: exI [of _ "bk_topics b"])
      moreover have "\<exists>m. b0 = b0\<lparr>bk_topics := m\<rparr>" for b0 :: broker by (rule exI [of _ "bk_topics b0"]) simp
      ultimately show ?thesis
        using Inr a by (auto simp: handle_metadata_def bindE_eq_Inr Let_def case_prod_beta split: option.splits)
    qed
    then obtain m where m: "b' = b\<lparr>bk_topics := m\<rparr>" ..
    have "part_at b' = part_at b" unfolding m by (rule part_at_cong) simp_all
    moreover have "not_leader b' = not_leader b" unfolding m by (rule ext) (simp add: not_leader_def cong: option.case_cong)
    ultimately have v: "same_view s (s(ep \<mapsto> b'))" by (intro same_view_put [where s = s and ep = ep, OF Some])
    have s': "s' = s(ep \<mapsto> b')"
      using assms Some d Inr a by (auto simp: call_def broker_network_def handle_def split: answer.splits sum.splits prod.splits)
    have "saved_at s' = saved_at s"
    proof (rule ext, rule ext)
      fix x gid show "saved_at s' x gid = saved_at s x gid" unfolding s' m using Some by (cases "x = ep") (simp_all add: saved_at_def)
    qed
    then show ?thesis using v s' by simp
  qed
qed

lemma open_partitions_keeps:
  "open_partitions (broker_network now timeout) broker_ep addrs ps sockets s = (r, s') \<Longrightarrow> s' = s"
  by (induction ps arbitrary: sockets) (auto simp: bindC_def retC_def Let_def split: if_splits)

text \<open>
  A member that got through its preparation, with connections to brokers that serve its partitions, polls from where the
  coordinator said.
\<close>

lemma prepared_polls:
  assumes mem: "member_ok s g"
    and at: "\<forall>p \<in> set ps. resumes_at (saved_at s (gm_coordinator g) (gm_groupId g) (gm_topic g, p)) (off p) \<and> off p < 2 ^ 63 \<and> off p \<le> h p"
    and prep: "prepare_polling (broker_network now timeout) broker_ep None ps g s = (Inr st, s')"
    and socks: "\<forall>p \<in> set ps. \<exists>ep. map_of (pl_sockets st) p = Some ep \<and> served s (gm_topic g) log h p ep"
  shows "polling s' log h off ps st"
proof -
  let ?net = "broker_network now timeout"
  have at': "\<forall>p \<in> set ps. resumes_at (saved_at s (gm_coordinator g) (gm_groupId g) (gm_topic g, p)) (off p) \<and> off p < 2 ^ 63" using at by blast
  obtain offsets g1 s1 where r: "resume_offsets ?net None ps g [] s = (Inr (offsets, g1), s1)"
    "same_view s s1" "same_member g g1" "saved_at s1 (gm_coordinator g) (gm_groupId g) = saved_at s (gm_coordinator g) (gm_groupId g)"
    "map_of offsets = (\<lambda>p. if p \<in> set ps then Some (of_nat (off p)) else map_of [] p)"
    using resume_offsets_read [OF mem at', of now timeout "[]"] by blast
  obtain m s2 where m: "call ?net (gm_coordinator g1) Metadata (gm_correlationId g1) (encode_metadata_request [] \<lparr>mreq_topic = gm_topic g1\<rparr>)
      decode_metadata_response s1 = (m, s2)" by fastforce
  note M = metadata_call_keeps [OF m]
  let ?g2 = "g1\<lparr>gm_correlationId := gm_correlationId g1 + 1\<rparr>"
  obtain resp where resp: "m = Inr resp" using prep r(1) m by (cases m) (auto simp: prepare_polling_def main_call_def bindC_def)
  obtain o' s3 where op: "open_partitions ?net broker_ep (partition_endpoints (mresp_partitions resp)) ps [] s2 = (o', s3)" by fastforce
  have "s3 = s2" by (rule open_partitions_keeps [OF op])
  then obtain sockets where st: "st = \<lparr>pl_member = ?g2, pl_offsets = offsets, pl_sockets = sockets\<rparr>" "s' = s2"
    using prep r(1) m resp op by (cases o') (auto simp: prepare_polling_def main_call_def bindC_def retC_def)
  have g2: "same_member g ?g2" using r(3) by (rule same_member_trans) (simp add: same_member_def)
  have v: "same_view s s2" by (rule same_view_trans [OF r(2) conjunct1 [OF M]])
  have "member_ok s2 ?g2" using member_view [OF mem v] same_member_fields [OF g2] by (simp add: member_ok_def)
  moreover have "saved_at s2 (gm_coordinator g) (gm_groupId g) = saved_at s (gm_coordinator g) (gm_groupId g)" using M r(4) by simp
  ultimately show ?thesis
    using at socks r(5) same_member_fields [OF g2] served_view [OF _ v] unfolding polling_def st by auto
qed

lemma second_member_prints:
  assumes "polling s log h off' qs st" "distinct qs" "set qs \<subseteq> set ps"
    and "\<forall>p \<in> set ps. off p \<le> off' p \<and> printed_of p printed = drop (off p) (take (off' p) (log p))"
  shows "\<exists>more st' s' off2. poll_rounds (broker_network now timeout) qs m st s = (Inr (more, st'), s') \<and>
    (\<forall>p \<in> set qs. off' p \<le> off2 p \<and> off2 p \<le> h p \<and> printed_of p more = drop (off' p) (take (off2 p) (log p)) \<and>
       printed_of p (printed @ more) = drop (off p) (take (off2 p) (log p)) \<and> (h p - off' p \<le> m \<longrightarrow> off2 p = h p))"
proof -
  obtain more st' s' off2 where r: "poll_rounds (broker_network now timeout) qs m st s = (Inr (more, st'), s')"
    "polling s' log h off2 qs st'"
    "\<forall>p \<in> set qs. off' p \<le> off2 p \<and> printed_of p more = drop (off' p) (take (off2 p) (log p)) \<and> (h p - off' p \<le> m \<longrightarrow> off2 p = h p)"
    using poll_rounds_read [OF assms(1,2)] by blast
  have "printed_of p (printed @ more) = drop (off p) (take (off2 p) (log p))" if p: "p \<in> set qs" for p
    using bspec [OF r(3) p] bspec [OF assms(4) subsetD [OF assms(3) p]] drop_take_append [of "off p" "off' p" "off2 p" "log p"]
    by simp
  then show ?thesis using r pollingD(1) [OF r(2)] by blast
qed

text \<open>
  C10: a group reads every record once. A member stands in each of its partitions at the group's committed offset. After
  any number of rounds it has printed, of every partition, exactly the records from that offset on, in order, up to the
  high watermark if there were rounds enough. The member that is given some of these partitions next, asking the same
  coordinator, resumes right behind the last record printed; and once it has the metadata and is connected to brokers that
  serve them, whatever number of rounds it polls, it prints the records from there on, so that what the two have
  printed of a partition, one after the other, is the log from where the first stood to where the second stands: none is
  lost, none is printed twice, and with rounds enough it ends at the high watermark.
\<close>

theorem group_hands_over:
  assumes "polling s log h off ps st" "distinct ps"
    and "gm_coordinator g = gm_coordinator (pl_member st)" "gm_groupId g = gm_groupId (pl_member st)" "gm_topic g = gm_topic (pl_member st)"
    and "set qs \<subseteq> set ps" "distinct qs" "string_ok (gm_memberId g)"
  shows "\<exists>printed st' s' off' offsets g' s''.
    poll_rounds (broker_network now timeout) ps n st s = (Inr (printed, st'), s') \<and>
    (\<forall>p \<in> set ps. off p \<le> off' p \<and> off' p \<le> h p \<and> printed_of p printed = drop (off p) (take (off' p) (log p)) \<and>
       (h p - off p \<le> n \<longrightarrow> off' p = h p)) \<and>
    resume_offsets (broker_network now' timeout') None qs g [] s' = (Inr (offsets, g'), s'') \<and>
    (\<forall>p \<in> set qs. map_of offsets p = Some (of_nat (off' p))) \<and>
    (\<forall>broker_ep st2 s2.
       prepare_polling (broker_network now' timeout') broker_ep None qs g s' = (Inr st2, s2) \<and>
       (\<forall>p \<in> set qs. \<exists>ep. map_of (pl_sockets st2) p = Some ep \<and> served s' (gm_topic g) log h p ep) \<longrightarrow>
       (\<forall>now2 timeout2 m. \<exists>more st3 s3 off2. poll_rounds (broker_network now2 timeout2) qs m st2 s2 = (Inr (more, st3), s3) \<and>
          (\<forall>p \<in> set qs. off' p \<le> off2 p \<and> off2 p \<le> h p \<and>
             printed_of p more = drop (off' p) (take (off2 p) (log p)) \<and>
             printed_of p (printed @ more) = drop (off p) (take (off2 p) (log p)) \<and>
             (h p - off' p \<le> m \<longrightarrow> off2 p = h p))))"
proof -
  obtain printed st' s' off' where r: "poll_rounds (broker_network now timeout) ps n st s = (Inr (printed, st'), s')"
    "same_member (pl_member st) (pl_member st')" "polling s' log h off' ps st'"
    "\<forall>p \<in> set ps. off p \<le> off' p \<and> printed_of p printed = drop (off p) (take (off' p) (log p)) \<and> (h p - off p \<le> n \<longrightarrow> off' p = h p)"
    using poll_rounds_read [OF assms(1,2)] by blast
  note same = same_member_fields [OF r(2)]
  have mem: "member_ok s' g" using r(3) assms(3-5,8) same unfolding polling_def member_ok_def by simp
  have at: "resumes_at (saved_at s' (gm_coordinator g) (gm_groupId g) (gm_topic g, p)) (off' p) \<and> off' p < 2 ^ 63 \<and> off' p \<le> h p"
    if "p \<in> set qs" for p
  proof -
    have p: "p \<in> set ps" using that assms(6) by blast
    have "off' p < 2 ^ 32" using pollingD(1,2,3) [OF r(3) p] by linarith
    then show ?thesis using pollingD(1,4) [OF r(3) p] assms(3-5) same by simp
  qed
  then obtain offsets g' s'' where res: "resume_offsets (broker_network now' timeout') None qs g [] s' = (Inr (offsets, g'), s'')"
    "map_of offsets = (\<lambda>p. if p \<in> set qs then Some (of_nat (off' p)) else map_of [] p)"
    using resume_offsets_read [OF mem, of qs off' now' timeout' "[]"] by blast
  have second: "\<forall>broker_ep st2 s2.
       prepare_polling (broker_network now' timeout') broker_ep None qs g s' = (Inr st2, s2) \<and>
       (\<forall>p \<in> set qs. \<exists>ep. map_of (pl_sockets st2) p = Some ep \<and> served s' (gm_topic g) log h p ep) \<longrightarrow>
       (\<forall>now2 timeout2 m. \<exists>more st3 s3 off2. poll_rounds (broker_network now2 timeout2) qs m st2 s2 = (Inr (more, st3), s3) \<and>
          (\<forall>p \<in> set qs. off' p \<le> off2 p \<and> off2 p \<le> h p \<and>
             printed_of p more = drop (off' p) (take (off2 p) (log p)) \<and>
             printed_of p (printed @ more) = drop (off p) (take (off2 p) (log p)) \<and>
             (h p - off' p \<le> m \<longrightarrow> off2 p = h p)))"
    using second_member_prints [OF prepared_polls [OF mem] assms(7,6)] at r(4) by blast
  have first: "\<forall>p \<in> set ps. off p \<le> off' p \<and> off' p \<le> h p \<and> printed_of p printed = drop (off p) (take (off' p) (log p)) \<and>
       (h p - off p \<le> n \<longrightarrow> off' p = h p)" using r(4) pollingD(1) [OF r(3)] by blast
  have "\<forall>p \<in> set qs. map_of offsets p = Some (of_nat (off' p))" using res(2) by simp
  then show ?thesis using r(1) first res(1) second by blast
qed

text \<open>One broker that leads partition 0 and coordinates the group; two rounds, then the next member.\<close>

definition demo_poll :: poll where
  "demo_poll = \<lparr>pl_member = \<lparr>gm_coordinator = (''h'', 9092), gm_correlationId = 1, gm_groupId = ''g'', gm_topic = ''t'',
     gm_memberId = ''m'', gm_generationId = 1\<rparr>, pl_offsets = [(0, 0)], pl_sockets = [(0, (''h'', 9092))]\<rparr>"

lemma demo_polling:
  "polling [(''h'', 9092) \<mapsto> demo_broker\<lparr>bk_partitions := [((''t'', 0), demo_partition)]\<rparr>] (\<lambda>_. demo_log) (\<lambda>_. 2) (\<lambda>_. 0) [0] demo_poll"
proof -
  let ?b = "demo_broker\<lparr>bk_partitions := [((''t'', 0), demo_partition)]\<rparr>" and ?ep = "(''h'', 9092)"
  have "not_leader ?b (''t'', 0) = None" using demo_broker_fields(1) by (simp add: not_leader_def)
  moreover have "no_wrap kMaxPollBytes demo_log" by (simp add: no_wrap_def demo_log_def frame_size_def kMaxPollBytes_def)
  ultimately have "served [?ep \<mapsto> ?b] ''t'' (\<lambda>_. demo_log) (\<lambda>_. 2) 0 ?ep"
    by (simp add: served_def part_at_def demo_partition demo_log_ok high_watermark_def)
  moreover have "saved_at [?ep \<mapsto> ?b] ?ep ''g'' (''t'', 0) = None"
    by (simp add: saved_at_def saved_in_def demo_broker_def new_broker_def new_coordinator_def get_or_create_group_def
        new_group_def load_offsets_if_needed_def)
  ultimately show ?thesis by (simp add: polling_def demo_poll_def member_ok_def string_ok_def resumes_at_def)
qed

text \<open>The second member gets through: the broker is the leader its metadata names.\<close>

lemma demo_second:
  "\<exists>st2 s2. prepare_polling (broker_network 8 0) (''h'', 9092) None [0] (pl_member demo_poll)
      [(''h'', 9092) \<mapsto> demo_broker\<lparr>bk_partitions := [((''t'', 0), demo_partition)]\<rparr>] = (Inr st2, s2) \<and>
     map_of (pl_sockets st2) 0 = Some (''h'', 9092)"
proof -
  let ?b = "demo_broker\<lparr>bk_partitions := [((''t'', 0), demo_partition)]\<rparr>" and ?ep = "(''h'', 9092 :: u16)" and ?net = "broker_network 8 0"
  let ?s = "[?ep \<mapsto> ?b]" and ?g = "pl_member demo_poll"
  let ?req = "\<lparr>foreq_groupId = ''g'', foreq_topic = ''t'', foreq_partitionId = 0\<rparr>"
  have g: "gm_coordinator ?g = ?ep" "gm_groupId ?g = ''g''" "gm_topic ?g = ''t''" by (simp_all add: demo_poll_def)
  have req: "fetch_offset_request_ok ?req" by (simp add: fetch_offset_request_ok_def string_ok_def)
  have "resumes_at (saved_at ?s ?ep (foreq_groupId ?req) (foreq_topic ?req, foreq_partitionId ?req)) 0"
    using pollingD(4) [OF demo_polling, of 0] g by simp
  from fetch_offset_call [where s = ?s and ep = ?ep, OF _ req this, of ?b 8 0 "gm_correlationId ?g"] obtain resp c where
    f: "call ?net ?ep FetchOffset (gm_correlationId ?g) (encode_fetch_offset_request [] ?req) decode_fetch_offset_response ?s =
      (Inr resp, [?ep \<mapsto> ?b\<lparr>bk_groupCoordinator := c\<rparr>])" by auto
  let ?b1 = "?b\<lparr>bk_groupCoordinator := c\<rparr>"
  let ?resp = "\<lparr>mresp_errorCode = NoError, mresp_partitions = [\<lparr>pmeta_partitionId = 0, pmeta_leaderId = 1, pmeta_leaderHost = ''h'', pmeta_leaderPort = 9092\<rparr>]\<rparr>"
  have parse: "parse decode_metadata_request (encode_metadata_request [] \<lparr>mreq_topic = ''t''\<rparr>) = Inr \<lparr>mreq_topic = ''t''\<rparr>"
    by (rule parse_put [OF metadata_request.faithful]) (simp add: metadata_request_ok_def string_ok_def)
  obtain b2 where d: "dispatch ?b1 \<lparr>rf_requestType = request_type_u16 Metadata, rf_correlationId = i, rf_payload = encode_metadata_request [] \<lparr>mreq_topic = ''t''\<rparr>\<rparr> 8 0 =
      Inr (Answer (encode_metadata_response [] ?resp), [], b2)" for i
    by (simp add: dispatch_def request_type_of_def handle_metadata_def parse partition_count_for_def demo_broker_def new_broker_def)
  have ok: "metadata_response_ok ?resp" by (simp add: metadata_response_ok_def partition_metadata_ok_def list_ok_def string_ok_def)
  note m = network_call [where s = "[?ep \<mapsto> ?b1]" and ep = ?ep and put = encode_metadata_response, OF _ d metadata_response.faithful ok]
  show ?thesis
    using f m g
    by (simp add: prepare_polling_def main_call_def bindC_def retC_def partition_endpoints_def)
      (simp add: bindC_def retC_def Let_def)
qed

lemma group_hands_over_witness:
  "\<exists>st2 s2 more st3 s3. prepare_polling (broker_network 8 0) (''h'', 9092) None [0] (pl_member demo_poll)
       [(''h'', 9092) \<mapsto> demo_broker\<lparr>bk_partitions := [((''t'', 0), demo_partition)]\<rparr>] = (Inr st2, s2) \<and>
     poll_rounds (broker_network 9 0) [0] 2 st2 s2 = (Inr (more, st3), s3) \<and> printed_of 0 more = demo_log"
proof -
  let ?s = "[(''h'', 9092) \<mapsto> demo_broker\<lparr>bk_partitions := [((''t'', 0), demo_partition)]\<rparr>]" and ?g = "pl_member demo_poll"
  have side: "distinct [0 :: u32]" "set [0 :: u32] \<subseteq> set [0]" "string_ok (gm_memberId ?g)"
    by (simp_all add: demo_poll_def string_ok_def)
  obtain st2 s2 where prep: "prepare_polling (broker_network 8 0) (''h'', 9092) None [0] ?g ?s = (Inr st2, s2)"
    "map_of (pl_sockets st2) 0 = Some (''h'', 9092)" using demo_second by blast
  have serves: "served ?s (gm_topic ?g) (\<lambda>_. demo_log) (\<lambda>_. 2) 0 (''h'', 9092)"
    using demo_polling by (auto simp: polling_def demo_poll_def)
  obtain printed st' s' off' where first: "poll_rounds (broker_network 7 0) [0] 0 demo_poll ?s = (Inr (printed, st'), s')"
    "\<forall>p \<in> set [0]. 0 \<le> off' p \<and> off' p \<le> 2 \<and> printed_of p printed = drop 0 (take (off' p) demo_log) \<and> (2 - 0 \<le> (0 :: nat) \<longrightarrow> off' p = 2)"
    and second: "\<forall>broker_ep st2 s2. prepare_polling (broker_network 8 0) broker_ep None [0] ?g s' = (Inr st2, s2) \<and>
       (\<forall>p \<in> set [0]. \<exists>ep. map_of (pl_sockets st2) p = Some ep \<and> served s' (gm_topic ?g) (\<lambda>_. demo_log) (\<lambda>_. 2) p ep) \<longrightarrow>
       (\<forall>now2 timeout2 m. \<exists>more st3 s3 off2. poll_rounds (broker_network now2 timeout2) [0] m st2 s2 = (Inr (more, st3), s3) \<and>
          (\<forall>p \<in> set [0]. off' p \<le> off2 p \<and> off2 p \<le> 2 \<and> printed_of p more = drop (off' p) (take (off2 p) demo_log) \<and>
             printed_of p (printed @ more) = drop 0 (take (off2 p) demo_log) \<and> (2 - off' p \<le> m \<longrightarrow> off2 p = 2)))"
    using group_hands_over [OF demo_polling side(1) refl refl refl side(2,1,3), of 7 0 0 8 0] by blast
  have none: "printed = []" "s' = ?s" using first(1) by (simp_all add: retC_def)
  have socks: "\<forall>p \<in> set [0]. \<exists>ep. map_of (pl_sockets st2) p = Some ep \<and> served s' (gm_topic ?g) (\<lambda>_. demo_log) (\<lambda>_. 2) p ep"
    using prep(2) serves none(2) by auto
  have prep': "prepare_polling (broker_network 8 0) (''h'', 9092) None [0] ?g s' = (Inr st2, s2)" using prep(1) none(2) by simp
  note polls = second [THEN spec, THEN spec, THEN spec, THEN mp, OF conjI [OF prep' socks], THEN spec, THEN spec, THEN spec, of 9 0 2]
  from polls obtain more st3 s3 off2 where more: "poll_rounds (broker_network 9 0) [0] 2 st2 s2 = (Inr (more, st3), s3)"
    "\<forall>p \<in> set [0]. off' p \<le> off2 p \<and> off2 p \<le> 2 \<and> printed_of p more = drop (off' p) (take (off2 p) demo_log) \<and>
       printed_of p (printed @ more) = drop 0 (take (off2 p) demo_log) \<and> (2 - off' p \<le> (2 :: nat) \<longrightarrow> off2 p = 2)"
    by (elim exE conjE)
  have "(0 :: u32) \<in> set [0]" by simp
  note at0 = bspec [OF more(2) this]
  have "off2 0 = 2" using at0 by simp
  moreover have "printed_of 0 (printed @ more) = drop 0 (take (off2 0) demo_log)" using at0 by blast
  ultimately have "printed_of 0 (printed @ more) = drop 0 (take 2 demo_log)" by (simp only:)
  then have "printed_of 0 more = demo_log" unfolding none(1) using demo_log_ok(3) by simp
  then show ?thesis using prep(1) more(1) by (intro exI conjI)
qed

end
