(* ===== verification/Heartbeats.thy ===== *)
theory Heartbeats
  imports GroupClient
begin

text \<open>
  Consumers with their heartbeat threads: heartbeats of any members, which go over connections of their own, and members
  that leave, between the polls of one member. The coordinator may drop the polling member meanwhile and
  ask it to join again; what it prints and where it stands are not disturbed.
\<close>

unbundle bit_operations_syntax

section \<open>What a heartbeat changes at the coordinator\<close>

text \<open>Neither a heartbeat nor a leave touches a group's offsets.\<close>

lemma saved_in_put:
  "gs_offsets g = gs_offsets (get_or_create_group c gid) \<Longrightarrow> gs_offsetsLoaded g = gs_offsetsLoaded (get_or_create_group c gid) \<Longrightarrow>
     saved_in (put_group gid g c) = saved_in c"
  by (auto simp: fun_eq_iff saved_in_def get_or_create_group_def put_group_def load_offsets_if_needed_def Let_def split: option.split)

lemma heartbeat_saved: "saved_in (snd (heartbeat c req now1 now2)) = saved_in c"
proof -
  let ?g = "get_or_create_group c (hbreq_groupId req)"
  have same: "saved_in (put_group (hbreq_groupId req) ?g c) = saved_in c" by (rule saved_in_put) simp_all
  have "saved_in (put_group (hbreq_groupId req) (?g\<lparr>gs_members := ms, gs_needsRebalance := r\<rparr>) (put_group (hbreq_groupId req) ?g c)) = saved_in c" for ms r
    unfolding same [symmetric] by (rule saved_in_put) (simp_all add: get_or_create_group_def put_group_def)
  then show ?thesis using same by (simp add: heartbeat_def Let_def split: option.split)
qed

lemma leave_saved: "saved_in (snd (leave_group c req)) = saved_in c"
  unfolding leave_group_def Let_def snd_conv by (rule saved_in_put) simp_all

section \<open>The brokers around it\<close>

definition undisturbed :: "(endpoint \<Rightarrow> broker option) \<Rightarrow> (endpoint \<Rightarrow> broker option) \<Rightarrow> bool" where
  "undisturbed s s' \<longleftrightarrow> same_view s s' \<and> saved_at s' = saved_at s"

lemma undisturbed_coordinator:
  assumes "s ep = Some b" "saved_in c = saved_in (bk_groupCoordinator b)"
  shows "undisturbed s (s(ep \<mapsto> b\<lparr>bk_groupCoordinator := c\<rparr>))"
  using same_view_coordinator [where s = s and ep = ep, OF assms(1)] assms
  by (simp add: undisturbed_def saved_at_def fun_eq_iff)

lemma undisturbed_group_call:
  assumes "\<And>b. dispatch b \<lparr>rf_requestType = request_type_u16 ty, rf_correlationId = i, rf_payload = payload\<rparr> now timeout =
      group_handler dec oper enc b payload"
    and "\<And>c req. saved_in (snd (oper c req)) = saved_in c"
  shows "undisturbed s (snd (call (broker_network now timeout) ep ty i payload get s))"
proof (cases "s ep")
  case None
  then show ?thesis by (simp add: call_def broker_network_def undisturbed_def)
next
  case (Some b)
  let ?frame = "\<lparr>rf_requestType = request_type_u16 ty, rf_correlationId = i, rf_payload = payload\<rparr>"
  have "snd (call (broker_network now timeout) ep ty i payload get s) = s \<or>
      (\<exists>req. snd (call (broker_network now timeout) ep ty i payload get s) =
         s(ep \<mapsto> b\<lparr>bk_groupCoordinator := snd (oper (bk_groupCoordinator b) req)\<rparr>))"
  proof (cases "parse dec payload")
    case (Inl e)
    then show ?thesis
      using Some assms(1) [of b] by (auto simp: call_def broker_network_def handle_def group_handler_def split: sum.split prod.split)
  next
    case (Inr req)
    obtain resp c' where o: "oper (bk_groupCoordinator b) req = (resp, c')" by fastforce
    then have "snd (call (broker_network now timeout) ep ty i payload get s) = s(ep \<mapsto> b\<lparr>bk_groupCoordinator := c'\<rparr>)"
      using Some Inr assms(1) [of b] by (auto simp: call_def broker_network_def handle_def group_handler_def split: sum.split prod.split)
    then show ?thesis using o by (intro disjI2 exI [of _ req]) simp
  qed
  then show ?thesis
    using undisturbed_coordinator [where s = s and ep = ep, OF Some] assms(2) by (auto simp: undisturbed_def)
qed

lemma heartbeat_undisturbed:
  "undisturbed s (snd (heartbeat_once (broker_network now timeout) ep i groupId memberId generationId s))"
proof -
  have "snd (heartbeat_once (broker_network now timeout) ep i groupId memberId generationId s) =
      snd (call (broker_network now timeout) ep Heartbeat i (encode_heartbeat_request []
        \<lparr>hbreq_groupId = groupId, hbreq_memberId = memberId, hbreq_generationId = generationId\<rparr>) decode_heartbeat_response s)"
    by (simp add: heartbeat_once_def bindC_def retC_def split: prod.split sum.split)
  moreover have "undisturbed s (snd (call (broker_network now timeout) ep Heartbeat i payload decode_heartbeat_response s))" for payload
    by (rule undisturbed_group_call [where dec = decode_heartbeat_request and oper = "\<lambda>g req. heartbeat g req now now"
          and enc = encode_heartbeat_response])
      (simp_all add: dispatch_def request_type_of_def handle_heartbeat_def heartbeat_saved)
  ultimately show ?thesis by simp
qed

lemma leave_undisturbed: "undisturbed s (snd (leave_call (broker_network now timeout) g s))"
proof -
  let ?payload = "encode_leave_group_request [] \<lparr>lgreq_groupId = gm_groupId g, lgreq_memberId = gm_memberId g\<rparr>"
  have "undisturbed s (snd (call (broker_network now timeout) (gm_coordinator g) LeaveGroup (gm_correlationId g) ?payload (\<lambda>r. Inr ((), r)) s))"
    by (rule undisturbed_group_call [where dec = decode_leave_group_request and oper = leave_group and enc = encode_leave_group_response])
      (simp_all add: dispatch_def request_type_of_def handle_leave_group_def leave_saved)
  moreover have "snd (leave_call (broker_network now timeout) g s) =
      snd (call (broker_network now timeout) (gm_coordinator g) LeaveGroup (gm_correlationId g) ?payload (\<lambda>r. Inr ((), r)) s)"
    by (simp add: leave_call_def main_call_def bindC_def retC_def split: prod.split sum.split)
  ultimately show ?thesis by simp
qed

section \<open>Polls among heartbeats\<close>

text \<open>
  What happens one after the other: this member polls a partition, somebody's heartbeat thread beats, another
  member leaves; each at a time of its own.
\<close>

datatype turn =
    PollOf u64 u32 u32
  | BeatOf u64 u32 endpoint u32 string string u32
  | LeaveOf u64 u32 group_member

fun run_turns :: "turn list \<Rightarrow> poll \<Rightarrow> (endpoint \<Rightarrow> broker option, (u32 \<times> log_record list) list \<times> poll) client" where
  "run_turns [] st = retC ([], st)"
| "run_turns (PollOf now timeout p # ts) st =
     bindC (poll_partition (broker_network now timeout) p st) (\<lambda>(printed, st).
     bindC (run_turns ts st) (\<lambda>(more, st). retC ((p, printed) # more, st)))"
| "run_turns (BeatOf now timeout ep i groupId memberId generationId # ts) st =
     (\<lambda>s. run_turns ts st (snd (heartbeat_once (broker_network now timeout) ep i groupId memberId generationId s)))"
| "run_turns (LeaveOf now timeout g # ts) st = (\<lambda>s. run_turns ts st (snd (leave_call (broker_network now timeout) g s)))"

definition polls_of :: "u32 \<Rightarrow> turn list \<Rightarrow> nat" where
  "polls_of p ts = length (filter (\<lambda>t. case t of PollOf _ _ q \<Rightarrow> q = p | _ \<Rightarrow> False) ts)"

lemma polls_of_simps [simp]:
  "polls_of p [] = 0" "polls_of p (PollOf now timeout q # ts) = (if q = p then Suc (polls_of p ts) else polls_of p ts)"
  "polls_of p (BeatOf now timeout ep i gi m g # ts) = polls_of p ts" "polls_of p (LeaveOf now timeout gm # ts) = polls_of p ts"
  by (simp_all add: polls_of_def)

lemma polling_undisturbed: "polling s log h off ps st \<Longrightarrow> undisturbed s s' \<Longrightarrow> polling s' log h off ps st"
proof -
  assume pol: "polling s log h off ps st" and un: "undisturbed s s'"
  then have v: "same_view s s'" "saved_at s' = saved_at s" by (simp_all add: undisturbed_def)
  have "served s' topic log h p ep" if "served s topic log h p ep" for topic p ep using served_view [OF that v(1)] .
  then show "polling s' log h off ps st" using pol member_view [OF _ v(1)] unfolding polling_def v(2) by blast
qed

lemma run_turns_read:
  assumes "polling s log h off ps st" "distinct ps" "\<forall>now timeout p. PollOf now timeout p \<in> set ts \<longrightarrow> p \<in> set ps"
  shows "\<exists>printed st' s' off'. run_turns ts st s = (Inr (printed, st'), s') \<and>
    same_member (pl_member st) (pl_member st') \<and> polling s' log h off' ps st' \<and>
    (\<forall>p \<in> set ps. off p \<le> off' p \<and> printed_of p printed = drop (off p) (take (off' p) (log p)) \<and>
       (h p - off p \<le> polls_of p ts \<longrightarrow> off' p = h p))"
  using assms(1,3)
proof (induction ts arbitrary: s off st)
  case Nil
  show ?case
    by (intro exI [of _ "[]"] exI [of _ st] exI [of _ s] exI [of _ off])
      (use Nil(1) pollingD(1) [OF Nil(1)] in \<open>auto simp: retC_def intro: le_antisym\<close>)
next
  case (Cons t ts)
  have ts: "\<forall>now timeout p. PollOf now timeout p \<in> set ts \<longrightarrow> p \<in> set ps" using Cons.prems(2) by simp
  show ?case
  proof (cases t)
    case (BeatOf now timeout ep i gid m g)
    show ?thesis using Cons.IH [OF polling_undisturbed [OF Cons.prems(1) heartbeat_undisturbed] ts] by (simp add: BeatOf)
  next
    case (LeaveOf now timeout g)
    show ?thesis using Cons.IH [OF polling_undisturbed [OF Cons.prems(1) leave_undisturbed] ts] by (simp add: LeaveOf)
  next
    case (PollOf now timeout q)
    let ?recs = "fetched log h off q"
    let ?off = "off(q := off q + length ?recs)"
    have q: "q \<in> set ps" using Cons.prems(2) by (auto simp: PollOf)
    obtain st1 s1 where one: "poll_partition (broker_network now timeout) q st s = (Inr (?recs, st1), s1)"
      "same_member (pl_member st) (pl_member st1)" "polling s1 log h ?off ps st1"
      using poll_partition_reads [OF Cons.prems(1) q assms(2), of now timeout] by blast
    from Cons.IH [OF one(3) ts] obtain printed st2 s2 off' where
      more: "run_turns ts st1 s1 = (Inr (printed, st2), s2)" "same_member (pl_member st1) (pl_member st2)" "polling s2 log h off' ps st2"
      "\<forall>p \<in> set ps. ?off p \<le> off' p \<and> printed_of p printed = drop (?off p) (take (off' p) (log p)) \<and> (h p - ?off p \<le> polls_of p ts \<longrightarrow> off' p = h p)"
      by blast
    note sl = fetched_slice [where off = off and h = h and log = log and p = q, OF pollingD(1,2) [OF Cons.prems(1) q]]
    have "off p \<le> off' p \<and> printed_of p ((q, ?recs) # printed) = drop (off p) (take (off' p) (log p)) \<and>
        (h p - off p \<le> polls_of p (t # ts) \<longrightarrow> off' p = h p)" if p: "p \<in> set ps" for p
    proof (cases "p = q")
      case False
      then show ?thesis using bspec [OF more(4) p] by (simp add: printed_of_def PollOf)
    next
      case True
      have le: "off q \<le> off q + length ?recs" "off q + length ?recs \<le> off' q" using bspec [OF more(4) q] by simp_all
      have "printed_of q ((q, ?recs) # printed) = ?recs @ printed_of q printed" by (simp add: printed_of_def)
      also have "\<dots> = drop (off q) (take (off q + length ?recs) (log q)) @ drop (off q + length ?recs) (take (off' q) (log q))"
        using bspec [OF more(4) q] sl(2) by simp
      also have "\<dots> = drop (off q) (take (off' q) (log q))" by (rule drop_take_append [OF le])
      finally have pr: "printed_of q ((q, ?recs) # printed) = drop (off q) (take (off' q) (log q))" .
      have "h q - (off q + length ?recs) \<le> polls_of q ts" if "h q - off q \<le> Suc (polls_of q ts)"
      proof (cases "off q < h q")
        case True
        then show ?thesis using that sl(3) by linarith
      qed simp
      then show ?thesis using pr le bspec [OF more(4) q] by (simp add: PollOf True)
    qed
    then show ?thesis using one(1) more(1,3) same_member_trans [OF one(2) more(2)]
      by (intro exI [of _ "(q, ?recs) # printed"] exI [of _ st2] exI [of _ s2] exI [of _ off']) (simp add: bindC_def retC_def PollOf)
  qed
qed

text \<open>
  C11: heartbeats do not disturb a consumer. Whatever heartbeats any members send to any coordinator between the polls of a
  member, and whoever leaves the group meanwhile, what the member prints of each of its partitions
  is the log from where the group stood up to where its committed offset then stands, each record once, and a
  partition polled often enough is printed up to its high watermark. This holds also when the coordinator has
  dropped the member: the commits of a member that is gone are still taken.
\<close>

theorem heartbeats_leave_polls_alone:
  assumes "polling s log h off ps st" "distinct ps" "\<forall>now timeout p. PollOf now timeout p \<in> set ts \<longrightarrow> p \<in> set ps"
    and "g = pl_member st"
  shows "\<exists>printed st' s' off'. run_turns ts st s = (Inr (printed, st'), s') \<and>
    (\<forall>p \<in> set ps. off p \<le> off' p \<and> off' p \<le> h p \<and> printed_of p printed = drop (off p) (take (off' p) (log p)) \<and>
       resumes_at (saved_at s' (gm_coordinator g) (gm_groupId g) (gm_topic g, p)) (off' p) \<and>
       (h p - off p \<le> polls_of p ts \<longrightarrow> off' p = h p))"
proof -
  obtain printed st' s' off' where r: "run_turns ts st s = (Inr (printed, st'), s')" "same_member g (pl_member st')"
    "polling s' log h off' ps st'" "\<forall>p \<in> set ps. off p \<le> off' p \<and> printed_of p printed = drop (off p) (take (off' p) (log p)) \<and>
       (h p - off p \<le> polls_of p ts \<longrightarrow> off' p = h p)"
    using run_turns_read [OF assms(1-3)] assms(4) by blast
  then show ?thesis using pollingD(1,4) [OF r(3)] same_member_fields [OF r(2)]
    by (intro exI [of _ printed] exI [of _ st'] exI [of _ s'] exI [of _ off']) simp
qed

text \<open>The member's own heartbeat names a generation that is not there: it is told to join again, and polls on.\<close>

definition demo_turns :: "turn list" where
  "demo_turns = [PollOf 7 0 0, BeatOf 8 0 (''h'', 9092) 1 ''g'' ''m'' 1, LeaveOf 9 0 (pl_member demo_poll), PollOf 10 0 0]"

lemma heartbeats_leave_polls_alone_witness:
  "\<exists>printed st' s'. run_turns demo_turns demo_poll
       [(''h'', 9092) \<mapsto> demo_broker\<lparr>bk_partitions := [((''t'', 0), demo_partition)]\<rparr>] = (Inr (printed, st'), s') \<and>
     printed_of 0 printed = demo_log"
proof -
  let ?s = "[(''h'', 9092) \<mapsto> demo_broker\<lparr>bk_partitions := [((''t'', 0), demo_partition)]\<rparr>]"
  have side: "distinct [0 :: u32]" "\<forall>now timeout p. PollOf now timeout p \<in> set demo_turns \<longrightarrow> p \<in> set [0]" "polls_of 0 demo_turns = 2"
    by (simp_all add: demo_turns_def)
  obtain printed st' s' off' where r: "run_turns demo_turns demo_poll ?s = (Inr (printed, st'), s')"
    "\<forall>p \<in> set [0]. 0 \<le> off' p \<and> off' p \<le> 2 \<and> printed_of p printed = drop 0 (take (off' p) demo_log) \<and>
       resumes_at (saved_at s' (gm_coordinator (pl_member demo_poll)) (gm_groupId (pl_member demo_poll)) (gm_topic (pl_member demo_poll), p)) (off' p) \<and>
       (2 - 0 \<le> polls_of p demo_turns \<longrightarrow> off' p = 2)"
    using heartbeats_leave_polls_alone [OF demo_polling side(1,2) refl] by blast
  then show ?thesis using side(3) demo_log_ok(3) by auto
qed

end
