(* ===== verification/Wire.thy ===== *)
theory Wire
  imports ClientProps Sockets
begin

text \<open>
  The network of the client properties (\<open>broker_network\<close>, one step per request) against the bytes that make it up: the
  client writes a frame in a send loop, the server's session reads it, handles it and writes the answer in a send loop of
  its own, the client reads the answer. Kernels may cut, interrupt and break off both loops anywhere, and the connection
  may lose the end of what was sent in either direction, or stall for good.
\<close>

unbundle bit_operations_syntax

section \<open>The server's side\<close>

text \<open>
  The handler \<open>main\<close> gives the server. A request that waits is answered by the section after its wait; \<open>meanwhile\<close> is
  what the broker's other sessions and threads do to it in between.
\<close>

definition broker_handler :: "u64 \<Rightarrow> u32 \<Rightarrow> (broker \<Rightarrow> broker) \<Rightarrow> broker \<Rightarrow> request_frame \<Rightarrow> unit + (response_frame \<times> broker)" where
  "broker_handler now timeout meanwhile b req =
     (case handle b req now timeout of
        Inl _ \<Rightarrow> Inl ()
      | Inr (Inl resp, _, b') \<Rightarrow> Inr (resp, b')
      | Inr (Inr (corr, w), _, b') \<Rightarrow> Inr (handle_after_wait (meanwhile b') corr w))"

text \<open>One step per request, the ones that wait included.\<close>

definition served_network :: "u64 \<Rightarrow> u32 \<Rightarrow> (broker \<Rightarrow> broker) \<Rightarrow> (endpoint \<Rightarrow> broker option) network" where
  "served_network now timeout meanwhile =
     \<lparr>net_connect = (\<lambda>s ep. (s ep \<noteq> None, s)),
      net_call = (\<lambda>s ep frame. case s ep of
          None \<Rightarrow> (Lost, s)
        | Some b \<Rightarrow> (case broker_handler now timeout meanwhile b frame of
             Inl _ \<Rightarrow> (Lost, s)
           | Inr (resp, b') \<Rightarrow> (Replied resp, s(ep \<mapsto> b'))))\<rparr>"

lemma served_immediate:
  assumes "\<And>b w out b'. s ep = Some b \<Longrightarrow> handle b frame now timeout \<noteq> Inr (Inr w, out, b')"
  shows "net_call (served_network now timeout meanwhile) s ep frame = net_call (broker_network now timeout) s ep frame"
  using assms by (auto simp: served_network_def broker_network_def broker_handler_def split: option.split sum.split prod.split)

section \<open>A request over the wire\<close>

text \<open>
  What the other side gets of the bytes that were sent: all of them, or the first ones before the connection ends, or the
  first ones and then nothing, while the connection stays open.
\<close>

datatype delivery = Whole | Cut nat | Stall nat

datatype arrival = Arrived bytes | Stalled bytes

definition carry :: "delivery \<Rightarrow> bytes \<Rightarrow> arrival" where
  "carry d bs =
     (case d of
        Whole \<Rightarrow> Arrived bs
      | Cut n \<Rightarrow> Arrived (take n bs)
      | Stall n \<Rightarrow> if n < length bs then Stalled (take n bs) else Arrived bs)"

definition received :: "arrival \<Rightarrow> bytes" where
  "received a = (case a of Arrived bs \<Rightarrow> bs | Stalled bs \<Rightarrow> bs)"

text \<open>
  The way back: what the client reads of the server's answer, and whether the broker lives. A send loop that is blocked for
  good has not sent a whole frame and leaves the reader waiting.
\<close>

definition send_answer :: "io_answer list \<Rightarrow> delivery \<Rightarrow> bytes \<Rightarrow> reply \<times> bool" where
  "send_answer server down out =
     (case send_loop server out [] of
        None \<Rightarrow> (Silent, True)
      | Some (e, back) \<Rightarrow>
          (case carry down back of
             Stalled _ \<Rightarrow> Silent
           | Arrived bs \<Rightarrow> (case read_response_frame bs of Inl _ \<Rightarrow> Lost | Inr (resp, _) \<Rightarrow> Replied resp),
           e \<noteq> Inl KilledBySignal))"

text \<open>
  The whole call. A client whose send fails has its connection lost, or is killed; the broker has got the beginning of
  a frame. A broker whose send is answered with the signal is gone, with all its sessions.
\<close>

record wire =
  wr_client :: "io_answer list"
  wr_up :: delivery
  wr_server :: "io_answer list"
  wr_down :: delivery

definition wire_call :: "wire \<Rightarrow> u64 \<Rightarrow> u32 \<Rightarrow> (broker \<Rightarrow> broker) \<Rightarrow> (endpoint \<Rightarrow> broker option) \<Rightarrow> endpoint \<Rightarrow> request_frame \<Rightarrow>
    reply \<times> (endpoint \<Rightarrow> broker option)" where
  "wire_call w now timeout meanwhile s ep frame =
     (case s ep of
        None \<Rightarrow> (Lost, s)
      | Some b \<Rightarrow>
          (let serve = session (broker_handler now timeout meanwhile) b
           in case send_loop (wr_client w) (write_request_frame frame) [] of
                None \<Rightarrow> (Silent, s)
              | Some (Inl e, sent) \<Rightarrow>
                  (if e = KilledBySignal then PipeBroken else Lost, s(ep \<mapsto> snd (serve (received (carry (wr_up w) sent)))))
              | Some (Inr _, sent) \<Rightarrow>
                  (case carry (wr_up w) sent of
                     Stalled bs \<Rightarrow> (Silent, s(ep \<mapsto> snd (serve bs)))
                   | Arrived bs \<Rightarrow>
                       (let (out, b') = serve bs;
                            (r, alive) = send_answer (wr_server w) (wr_down w) out
                        in (r, if alive then s(ep \<mapsto> b') else s(ep := None))))))"

section \<open>Whole frames and cut frames\<close>

text \<open>A cut request is not handled; a whole one is handled once.\<close>

lemma session_cut: "request_frame_ok f \<Longrightarrow> n < length (write_request_frame f) \<Longrightarrow> session h b (take n (write_request_frame f)) = ([], b)"
  by (simp add: session.simps [of h b "take n (write_request_frame f)"] read_cut_request)

lemma session_one:
  "request_frame_ok f \<Longrightarrow> session h b (write_request_frame f) =
     (case h b f of Inl _ \<Rightarrow> ([], b) | Inr (resp, b') \<Rightarrow> (write_response_frame resp, b'))"
  using read_write_request [of f "[]"] by (simp add: session.simps [of h b "write_request_frame f"] session_nil split: sum.split prod.split)

lemma proper_prefix_take: "prefix xs ys \<Longrightarrow> length xs < length ys \<Longrightarrow> \<exists>n < length ys. xs = take n ys"
  by (auto simp: prefix_def intro!: exI [of _ "length xs"])

lemma received_prefix: "prefix (received (carry d bs)) bs"
  by (cases d) (simp_all add: carry_def received_def take_is_prefix)

lemma carry_cases:
  obtains "carry d bs = Arrived bs" | n where "n < length bs" "carry d bs = Arrived (take n bs)"
    | n where "n < length bs" "carry d bs = Stalled (take n bs)"
proof (cases d)
  case (Cut n)
  then show ?thesis using that by (cases "n < length bs") (auto simp: carry_def)
next
  case (Stall n)
  then show ?thesis using that by (cases "n < length bs") (auto simp: carry_def)
qed (use that in \<open>simp add: carry_def\<close>)

text \<open>What is sent until a loop stops is handled by nobody, however much of it arrives.\<close>

lemma session_stopped:
  assumes "request_frame_ok f" "send_loop answers (write_request_frame f) [] = Some (Inl e, sent)"
  shows "session h b (received (carry d sent)) = ([], b)"
proof -
  have "prefix sent (write_request_frame f)" using send_loop_prefix [OF assms(2)] by simp
  then have "prefix (received (carry d sent)) (write_request_frame f)" by (rule prefix_order.order_trans [OF received_prefix])
  moreover have "length (received (carry d sent)) < length (write_request_frame f)"
    using prefix_length_le [OF received_prefix [of d sent]] send_loop_stops(1) [OF assms(2)] by simp
  ultimately obtain n where "n < length (write_request_frame f)" "received (carry d sent) = take n (write_request_frame f)"
    using proper_prefix_take by blast
  then show ?thesis using session_cut [OF assms(1)] by simp
qed

lemma read_none: "read_response_frame [] = Inl ConnectionClosed"
  by (simp add: read_response_frame_def recv_all_def)

lemma send_answer_nothing: "send_answer server down [] = (Lost, True)"
proof -
  have "send_loop server [] [] = Some (Inr (), [])" by (cases server) simp_all
  moreover have "carry down [] = Arrived []" by (cases down) (simp_all add: carry_def)
  ultimately show ?thesis by (simp add: send_answer_def read_none)
qed

lemma send_answer_frame:
  assumes ok: "response_frame_ok resp" and a: "send_answer server down (write_response_frame resp) = (r, alive)"
  shows "r = Replied resp \<and> alive \<or> r = Lost \<or> r = Silent" "\<not> alive \<Longrightarrow> Sigpipe \<in> set server"
    "list_all smooth server \<Longrightarrow> length (write_response_frame resp) \<le> moves server \<Longrightarrow> down = Whole \<Longrightarrow> r = Replied resp \<and> alive"
proof -
  let ?f = "write_response_frame resp"
  have cut: "read_response_frame (take n bs) = Inl ConnectionClosed" if "prefix bs ?f" "n < length bs \<or> length bs < length ?f" for n bs
  proof -
    have "prefix (take n bs) ?f" by (rule prefix_order.order_trans [OF take_is_prefix that(1)])
    moreover have "length (take n bs) < length ?f" using that(2) prefix_length_le [OF that(1)] by auto
    ultimately obtain m where "m < length ?f" "take n bs = take m ?f" using proper_prefix_take by blast
    then show ?thesis using read_cut_response [OF ok] by simp
  qed
  have "(r = Replied resp \<and> alive \<or> r = Lost \<or> r = Silent) \<and> (\<not> alive \<longrightarrow> Sigpipe \<in> set server)"
  proof (cases "send_loop server ?f []")
    case (Some x)
    obtain e sent where x: "x = (e, sent)" by (cases x)
    have pre: "prefix sent ?f" "e = Inr () \<longrightarrow> sent = ?f" using send_loop_prefix Some x by fastforce+
    have stop: "e = Inl e' \<Longrightarrow> length sent < length ?f \<and> (e' = KilledBySignal \<longrightarrow> Sigpipe \<in> set server)" for e'
      using send_loop_stops Some x by fastforce
    have alive: "alive \<longleftrightarrow> e \<noteq> Inl KilledBySignal" using a Some x by (auto simp: send_answer_def)
    have r: "r = (case carry down sent of Stalled _ \<Rightarrow> Silent
        | Arrived bs \<Rightarrow> (case read_response_frame bs of Inl _ \<Rightarrow> Lost | Inr (resp, _) \<Rightarrow> Replied resp))"
      using a Some x by (auto simp: send_answer_def)
    have "r = Replied resp \<and> e = Inr () \<or> r = Lost \<or> r = Silent"
    proof (rule carry_cases [of down sent])
      assume c: "carry down sent = Arrived sent"
      show ?thesis
      proof (cases e)
        case (Inl e')
        then show ?thesis using cut [OF pre(1), of "length sent"] stop [OF Inl] r c by simp
      next
        case (Inr u)
        then show ?thesis using pre(2) read_write_response [OF ok, of "[]"] r c by simp
      qed
    qed (use r cut [OF pre(1)] in simp_all)
    moreover have "\<not> alive \<longrightarrow> Sigpipe \<in> set server" using alive stop by auto
    ultimately show ?thesis using alive by auto
  qed (use a in \<open>simp add: send_answer_def\<close>)
  then show "r = Replied resp \<and> alive \<or> r = Lost \<or> r = Silent" "\<not> alive \<Longrightarrow> Sigpipe \<in> set server" by blast+
  show "r = Replied resp \<and> alive" if "list_all smooth server" "length ?f \<le> moves server" "down = Whole"
    using a that send_loop_returns [of server "[]" ?f] read_write_response [OF ok, of "[]"] by (simp add: send_answer_def carry_def)
qed

section \<open>Every way a call can go\<close>

definition wire_outcome :: "wire \<Rightarrow> request_frame \<Rightarrow> (endpoint \<Rightarrow> broker option) \<Rightarrow> endpoint \<Rightarrow> (endpoint \<Rightarrow> broker option) \<Rightarrow>
    reply \<Rightarrow> reply \<Rightarrow> (endpoint \<Rightarrow> broker option) \<Rightarrow> bool" where
  "wire_outcome w frame s ep t answer r s' \<longleftrightarrow>
     (s' = s \<or> s' = t \<or> s' = t(ep := None)) \<and>
     (\<forall>resp. r = Replied resp \<longrightarrow> answer = Replied resp \<and> s' = t) \<and>
     (r = PipeBroken \<longrightarrow> Sigpipe \<in> set (wr_client w) \<and> s' = s) \<and>
     (s ep \<noteq> None \<and> s' ep = None \<longrightarrow> Sigpipe \<in> set (wr_server w) \<and> s' = t(ep := None) \<and> r \<in> {Lost, Silent}) \<and>
     (list_all smooth (wr_client w) \<and> length (write_request_frame frame) \<le> moves (wr_client w) \<and> wr_up w = Whole \<and>
      list_all smooth (wr_server w) \<and> (\<forall>resp. answer = Replied resp \<longrightarrow> length (write_response_frame resp) \<le> moves (wr_server w)) \<and>
      wr_down w = Whole \<longrightarrow> r = answer \<and> s' = t)"

text \<open>The request did not arrive whole.\<close>

lemma outcome_nothing:
  assumes "s ep = Some b" "r \<noteq> PipeBroken \<or> Sigpipe \<in> set (wr_client w)" "\<And>resp. r \<noteq> Replied resp"
    and "\<not> (list_all smooth (wr_client w) \<and> length (write_request_frame frame) \<le> moves (wr_client w) \<and> wr_up w = Whole)"
  shows "wire_outcome w frame s ep t answer r s"
  using assms by (auto simp: wire_outcome_def)

lemma wire_call_cases:
  assumes ok: "request_frame_ok frame"
    and fit: "\<forall>b resp b'. s ep = Some b \<and> broker_handler now timeout meanwhile b frame = Inr (resp, b') \<longrightarrow> response_frame_ok resp"
    and b: "s ep = Some b"
    and wire: "wire_call w now timeout meanwhile s ep frame = (r, s')"
    and step: "net_call (served_network now timeout meanwhile) s ep frame = (answer, t)"
  shows "wire_outcome w frame s ep t answer r s'"
proof -
  let ?f = "write_request_frame frame" and ?h = "broker_handler now timeout meanwhile"
  have same: "s(ep \<mapsto> b) = s" using b by (rule fun_upd_idem)
  note returns = send_loop_returns [of "wr_client w" "[]" ?f]
  show ?thesis
  proof (cases "send_loop (wr_client w) ?f []")
    case None
    then have "r = Silent" "s' = s" "\<not> (list_all smooth (wr_client w) \<and> length ?f \<le> moves (wr_client w) \<and> wr_up w = Whole)"
      using wire b returns by (auto simp: wire_call_def)
    then show ?thesis using outcome_nothing [where s = s and ep = ep, OF b, of r w frame t answer] by simp
  next
    case (Some x)
    obtain e sent where x: "x = (e, sent)" by (cases x)
    show ?thesis
    proof (cases e)
      case (Inl e')
      then have loop: "send_loop (wr_client w) ?f [] = Some (Inl e', sent)" using Some x by simp
      have "s' = s" using wire session_stopped [OF ok loop, of ?h b "wr_up w"] by (simp add: wire_call_def b loop same)
      moreover have "r = (if e' = KilledBySignal then PipeBroken else Lost)" using wire by (simp add: wire_call_def b loop)
      ultimately show ?thesis
        using outcome_nothing [where s = s and ep = ep, OF b, of r w frame t answer] returns loop send_loop_stops(2) [OF loop]
        by (auto split: if_splits)
    next
      case (Inr u)
      then have loop: "send_loop (wr_client w) ?f [] = Some (Inr (), ?f)" using Some x send_loop_prefix [of "wr_client w" ?f "[]" e sent] by simp
      show ?thesis
      proof (rule carry_cases [of "wr_up w" ?f])
        fix n assume n: "n < length ?f" "carry (wr_up w) ?f = Arrived (take n ?f)"
        have "r = Lost" "s' = s" using wire by (simp_all add: wire_call_def b loop n session_cut [OF ok n(1)] send_answer_nothing same)
        moreover have "length (take n ?f) < length ?f" using n(1) by simp
        then have "wr_up w \<noteq> Whole" using n(2) by (auto simp: carry_def simp del: length_take)
        ultimately show ?thesis using outcome_nothing [where s = s and ep = ep, OF b, of r w frame t answer] by simp
      next
        fix n assume n: "n < length ?f" "carry (wr_up w) ?f = Stalled (take n ?f)"
        have "r = Silent" "s' = s" using wire by (simp_all add: wire_call_def b loop n session_cut [OF ok n(1)] same)
        moreover have "length (take n ?f) < length ?f" using n(1) by simp
        then have "wr_up w \<noteq> Whole" using n(2) by (auto simp: carry_def simp del: length_take)
        ultimately show ?thesis using outcome_nothing [where s = s and ep = ep, OF b, of r w frame t answer] by simp
      next
        assume c: "carry (wr_up w) ?f = Arrived ?f"
        show ?thesis
        proof (cases "?h b frame")
          case (Inl u)
          have "r = Lost" "s' = s" using wire by (simp_all add: wire_call_def b loop c session_one [OF ok] Inl send_answer_nothing same)
          moreover have "answer = Lost" "t = s" using step b Inl by (simp_all add: served_network_def)
          ultimately show ?thesis using b by (simp add: wire_outcome_def)
        next
          case (Inr a)
          obtain resp b' where a: "a = (resp, b')" by (cases a)
          have resp: "response_frame_ok resp" using fit b Inr a by blast
          obtain r1 alive where sa: "send_answer (wr_server w) (wr_down w) (write_response_frame resp) = (r1, alive)" by fastforce
          have "r = r1" "s' = (if alive then s(ep \<mapsto> b') else s(ep := None))"
            using wire by (simp_all add: wire_call_def b loop c session_one [OF ok] Inr a sa)
          moreover have "answer = Replied resp" "t = s(ep \<mapsto> b')" using step b Inr a by (simp_all add: served_network_def)
          ultimately show ?thesis using send_answer_frame [OF resp sa] by (auto simp: wire_outcome_def)
        qed
      qed
    qed
  qed
qed

section \<open>Properties\<close>

text \<open>
  C14: The network the client properties are stated with is what the wire gives, short of hanging and killing. Whatever the
  kernels of both sides do with the bytes and however much of them arrives, a request over the wire, one that is answered
  after a wait included, either does nothing at the broker or what one call does; the client gets the answer of that call,
  or an exception, or waits forever, never another answer. A process dies only of the signal for a send into a closed
  connection: the client, before the broker has got the request, or the broker, which has then done what the call does
  and is gone with the answer not delivered. With kernels that raise no errors and move bytes often enough, and nothing
  lost between them, the client gets the answer. For a request that is answered at once, one call is \<open>broker_network\<close>'s.
\<close>

theorem wire_refines_calls:
  assumes "request_frame_ok frame"
    and "\<forall>b resp b'. s ep = Some b \<and> broker_handler now timeout meanwhile b frame = Inr (resp, b') \<longrightarrow> response_frame_ok resp"
    and "wire_call w now timeout meanwhile s ep frame = (r, s')" "net_call (served_network now timeout meanwhile) s ep frame = (answer, t)"
  shows "(s' = s \<or> s' = t \<or> s' = t(ep := None)) \<and>
    (\<forall>resp. r = Replied resp \<longrightarrow> answer = Replied resp \<and> s' = t) \<and>
    (r = PipeBroken \<longrightarrow> Sigpipe \<in> set (wr_client w) \<and> s' = s) \<and>
    (s ep \<noteq> None \<and> s' ep = None \<longrightarrow> Sigpipe \<in> set (wr_server w) \<and> s' = t(ep := None) \<and> r \<in> {Lost, Silent}) \<and>
    (list_all smooth (wr_client w) \<and> length (write_request_frame frame) \<le> moves (wr_client w) \<and> wr_up w = Whole \<and>
     list_all smooth (wr_server w) \<and> (\<forall>resp. answer = Replied resp \<longrightarrow> length (write_response_frame resp) \<le> moves (wr_server w)) \<and>
     wr_down w = Whole \<longrightarrow> r = answer \<and> s' = t) \<and>
    ((\<forall>b a out b'. s ep = Some b \<longrightarrow> handle b frame now timeout \<noteq> Inr (Inr a, out, b')) \<longrightarrow>
       net_call (broker_network now timeout) s ep frame = (answer, t))"
proof -
  have last: "(\<forall>b a out b'. s ep = Some b \<longrightarrow> handle b frame now timeout \<noteq> Inr (Inr a, out, b')) \<longrightarrow>
       net_call (broker_network now timeout) s ep frame = (answer, t)"
    using served_immediate [of s ep frame now timeout meanwhile] assms(4) by metis
  show ?thesis
  proof (cases "s ep")
    case None
    then show ?thesis using assms(3,4) last by (simp add: wire_call_def served_network_def)
  next
    case (Some b)
    have "wire_outcome w frame s ep t answer r s'" by (rule wire_call_cases [OF assms(1,2) Some assms(3,4)])
    then show ?thesis using last unfolding wire_outcome_def by blast
  qed
qed

text \<open>A probe of ten bytes, sent byte by byte and answered through an interrupted call.\<close>

definition demo_probe :: request_frame where
  "demo_probe = \<lparr>rf_requestType = request_type_u16 BrokerHeartbeat, rf_correlationId = 5, rf_payload = []\<rparr>"

definition demo_wire :: "io_answer list \<Rightarrow> wire" where
  "demo_wire server = \<lparr>wr_client = replicate 10 (Ready 0), wr_up = Whole, wr_server = server, wr_down = Whole\<rparr>"

lemma demo_probe_answer:
  "broker_handler 7 0 meanwhile demo_broker demo_probe = Inr (\<lparr>sf_correlationId = 5, sf_payload = [0]\<rparr>, demo_broker)"
  by (simp add: broker_handler_def handle_def dispatch_def request_type_of_def demo_probe_def broker_handle_broker_heartbeat_def parse_def
      decode_broker_heartbeat_request_def retG_def demo_broker_fields encode_broker_heartbeat_response_def put_bool_def put_u8_def)

theorem wire_refines_calls_witness:
  "wire_call (demo_wire (Interrupted # replicate 9 (Ready 0))) 7 0 id [(''h'', 9092) \<mapsto> demo_broker] (''h'', 9092) demo_probe =
    (Replied \<lparr>sf_correlationId = 5, sf_payload = [0]\<rparr>, [(''h'', 9092) \<mapsto> demo_broker])"
proof -
  let ?s = "[(''h'', 9092) \<mapsto> demo_broker]" and ?ep = "(''h'', 9092)" and ?w = "demo_wire (Interrupted # replicate 9 (Ready 0))"
  let ?resp = "\<lparr>sf_correlationId = 5, sf_payload = [0]\<rparr>"
  have ok: "request_frame_ok demo_probe" "response_frame_ok ?resp" by (simp_all add: request_frame_ok_def response_frame_ok_def demo_probe_def)
  have len: "length (write_request_frame demo_probe) = 10" "length (write_response_frame ?resp) = 9"
    by (simp_all add: write_request_frame_def write_response_frame_def demo_probe_def put_apps)
  have mv: "moves (replicate 10 (Ready 0)) = 10" "moves (Interrupted # replicate 9 (Ready 0)) = 9" by (simp_all add: numeral_eq_Suc)
  have net: "net_call (served_network 7 0 id) ?s ?ep demo_probe = (Replied ?resp, ?s)" by (simp add: served_network_def demo_probe_answer)
  obtain r s' where w: "wire_call ?w 7 0 id ?s ?ep demo_probe = (r, s')" by fastforce
  have fit: "\<forall>b resp b'. ?s ?ep = Some b \<and> broker_handler 7 0 id b demo_probe = Inr (resp, b') \<longrightarrow> response_frame_ok resp"
    using ok(2) demo_probe_answer by simp
  have k: "list_all smooth (wr_client ?w) \<and> length (write_request_frame demo_probe) \<le> moves (wr_client ?w) \<and> wr_up ?w = Whole \<and>
    list_all smooth (wr_server ?w) \<and> (\<forall>resp. Replied ?resp = Replied resp \<longrightarrow> length (write_response_frame resp) \<le> moves (wr_server ?w)) \<and> wr_down ?w = Whole"
    using len mv by (simp add: list_all_iff demo_wire_def)
  have "r = Replied ?resp \<and> s' = ?s" using wire_refines_calls [OF ok(1) fit w net] k by blast
  then show ?thesis using w by simp
qed

text \<open>
  A client that goes away before its answer is sent can end the broker: when the kernel answers the first \<open>send\<close> of the
  answer with \<open>SIGPIPE\<close>, the request is handled, and the process, with every other session of it, is gone.
\<close>

theorem broken_pipe_kills_broker:
  assumes "request_frame_ok frame" "s ep = Some b" "broker_handler now timeout meanwhile b frame = Inr (resp, b')"
    and "list_all smooth (wr_client w)" "length (write_request_frame frame) \<le> moves (wr_client w)" "wr_up w = Whole"
    and "wr_server w = Sigpipe # later"
  shows "\<exists>r. wire_call w now timeout meanwhile s ep frame = (r, s(ep := None))"
proof -
  have loop: "send_loop (wr_client w) (write_request_frame frame) [] = Some (Inr (), write_request_frame frame)"
    using send_loop_returns [OF assms(4), of "[]"] assms(5) by simp
  have "0 < length (write_response_frame resp)" by (simp add: write_response_frame_def put_apps)
  then have "send_loop (wr_server w) (write_response_frame resp) [] = Some (Inl KilledBySignal, [])" using assms(7) by simp
  then show ?thesis
    using loop assms(2,3,6) by (simp add: wire_call_def carry_def session_one [OF assms(1)] send_answer_def split: prod.split)
qed

theorem broken_pipe_kills_broker_witness:
  "\<exists>r. wire_call (demo_wire [Sigpipe]) 7 0 id [(''h'', 9092) \<mapsto> demo_broker] (''h'', 9092) demo_probe =
    (r, [(''h'', 9092) \<mapsto> demo_broker]((''h'', 9092) := None))"
proof (rule broken_pipe_kills_broker [OF _ _ demo_probe_answer])
  show "request_frame_ok demo_probe" by (simp add: request_frame_ok_def demo_probe_def)
  show "length (write_request_frame demo_probe) \<le> moves (wr_client (demo_wire [Sigpipe]))"
    by (simp add: write_request_frame_def demo_probe_def demo_wire_def put_apps numeral_eq_Suc)
qed (simp_all add: demo_wire_def list_all_iff)

end
