(* ===== verification/Arguments.thy ===== *)
theory Arguments
  imports Clients
begin

text \<open>
  The \<open>main\<close> functions of the four programs (\<open>src/cli\<close>): reading the command line, the checks before anything is sent, and
  what is run. A loop over \<open>argv\<close> is the same in all four; what an option does to the variables is a function of its own.
  Every way to end without success is a value: the usage text, \<open>exit(1)\<close> in the middle, an exception that nothing catches.
\<close>

unbundle bit_operations_syntax

section \<open>The loop over the arguments\<close>

datatype program_error =
    UsageShown
  | UnknownCommand string
  | UnknownArgument string
  | MissingValue string
  | BadValue usage_error
  | CannotOpen string
  | ClientFailed client_error
  | GaveUp

datatype 'a option_use = Switch 'a | Takes "string \<Rightarrow> usage_error + 'a" | NoOption

fun parse_args :: "('a \<Rightarrow> string \<Rightarrow> 'a option_use) \<Rightarrow> string list \<Rightarrow> 'a \<Rightarrow> program_error + 'a" where
  "parse_args opts [] a = Inr a"
| "parse_args opts (arg # args) a =
     (case opts a arg of
        Switch a \<Rightarrow> parse_args opts args a
      | NoOption \<Rightarrow> Inl (UnknownArgument arg)
      | Takes f \<Rightarrow>
          (case args of
             [] \<Rightarrow> Inl (MissingValue arg)
           | v # args' \<Rightarrow> (case f v of Inl e \<Rightarrow> Inl (BadValue e) | Inr a \<Rightarrow> parse_args opts args' a)))"

definition value_error :: "usage_error + 'a \<Rightarrow> program_error + 'a" where
  "value_error r = (case r of Inl e \<Rightarrow> Inl (BadValue e) | Inr a \<Rightarrow> Inr a)"

text \<open>From here on something has been sent.\<close>

definition client_result :: "(client_error + 'a) \<times> 's \<Rightarrow> (program_error + 'a) \<times> 's" where
  "client_result r = (case r of (Inl e, s) \<Rightarrow> (Inl (ClientFailed e), s) | (Inr a, s) \<Rightarrow> (Inr a, s))"

section \<open>mk-produce\<close>

record produce_args =
  pg_brokerAddr :: string
  pg_topic :: string
  pg_key :: "string option"
  pg_value :: string
  pg_filePath :: string
  pg_acks :: u8
  pg_partitionOverride :: "u32 option"

definition produce_defaults :: produce_args where
  "produce_defaults = \<lparr>pg_brokerAddr = [], pg_topic = [], pg_key = None, pg_value = [], pg_filePath = [], pg_acks = 1,
     pg_partitionOverride = None\<rparr>"

definition produce_option :: "produce_args \<Rightarrow> string \<Rightarrow> produce_args option_use" where
  "produce_option a arg =
     (if arg = ''--broker'' then Takes (\<lambda>v. Inr (a\<lparr>pg_brokerAddr := v\<rparr>))
      else if arg = ''--topic'' then Takes (\<lambda>v. Inr (a\<lparr>pg_topic := v\<rparr>))
      else if arg = ''--key'' then Takes (\<lambda>v. Inr (a\<lparr>pg_key := Some v\<rparr>))
      else if arg = ''--value'' then Takes (\<lambda>v. Inr (a\<lparr>pg_value := v\<rparr>))
      else if arg = ''--file'' then Takes (\<lambda>v. Inr (a\<lparr>pg_filePath := v\<rparr>))
      else if arg = ''--acks'' then Takes (\<lambda>v. bindE (stoul v) (\<lambda>n. Inr (a\<lparr>pg_acks := ucast n\<rparr>)))
      else if arg = ''--partition'' then Takes (\<lambda>v. bindE (stoul v) (\<lambda>n. Inr (a\<lparr>pg_partitionOverride := Some (ucast n)\<rparr>)))
      else NoOption)"

text \<open>\<open>read_file\<close>, over what the machine's files hold.\<close>

definition read_file :: "(string \<Rightarrow> bytes option) \<Rightarrow> string \<Rightarrow> program_error + bytes" where
  "read_file disk path = (case disk path of None \<Rightarrow> Inl (CannotOpen path) | Some bs \<Rightarrow> Inr bs)"

definition record_value :: "(string \<Rightarrow> bytes option) \<Rightarrow> produce_args \<Rightarrow> program_error + bytes" where
  "record_value disk a = (if pg_filePath a \<noteq> [] then read_file disk (pg_filePath a) else Inr (string_bytes (pg_value a)))"

definition produce_command :: "(string \<Rightarrow> bytes option) \<Rightarrow> string list \<Rightarrow> program_error + (produce_args \<times> bytes \<times> endpoint)" where
  "produce_command disk argv =
     bindE (parse_args produce_option argv produce_defaults) (\<lambda>a.
       if pg_brokerAddr a = [] \<or> pg_topic a = [] then Inl UsageShown
       else bindE (record_value disk a) (\<lambda>val. bindE (value_error (split_broker (pg_brokerAddr a))) (\<lambda>ep. Inr (a, val, ep))))"

definition mk_produce :: "'s network \<Rightarrow> (string \<Rightarrow> bytes option) \<Rightarrow> (u32 \<Rightarrow> u32) \<Rightarrow> string list \<Rightarrow> 's \<Rightarrow>
    (program_error + u64 \<times> u32 list) \<times> 's" where
  "mk_produce net disk random argv s =
     (case produce_command disk argv of
        Inl e \<Rightarrow> (Inl e, s)
      | Inr (a, val, ep) \<Rightarrow>
          (case client_result (produce_main net ep (pg_topic a) (map_option string_bytes (pg_key a)) val (pg_acks a)
                   (pg_partitionOverride a) random s) of
             (Inl e, s) \<Rightarrow> (Inl e, s)
           | (Inr (None, _), s) \<Rightarrow> (Inl GaveUp, s)
           | (Inr (Some base, sleeps), s) \<Rightarrow> (Inr (base, sleeps), s)))"

section \<open>mk-admin\<close>

record admin_args =
  ag_brokerAddr :: string
  ag_topic :: string
  ag_partitions :: u32
  ag_replicationFactor :: u32

definition admin_defaults :: admin_args where
  "admin_defaults = \<lparr>ag_brokerAddr = [], ag_topic = [], ag_partitions = 1, ag_replicationFactor = 1\<rparr>"

definition admin_option :: "admin_args \<Rightarrow> string \<Rightarrow> admin_args option_use" where
  "admin_option a arg =
     (if arg = ''--broker'' then Takes (\<lambda>v. Inr (a\<lparr>ag_brokerAddr := v\<rparr>))
      else if arg = ''--topic'' then Takes (\<lambda>v. Inr (a\<lparr>ag_topic := v\<rparr>))
      else if arg = ''--partitions'' then Takes (\<lambda>v. bindE (stoul v) (\<lambda>n. Inr (a\<lparr>ag_partitions := ucast n\<rparr>)))
      else if arg = ''--replication-factor'' then Takes (\<lambda>v. bindE (stoul v) (\<lambda>n. Inr (a\<lparr>ag_replicationFactor := ucast n\<rparr>)))
      else NoOption)"

definition admin_command :: "string list \<Rightarrow> program_error + (admin_args \<times> endpoint)" where
  "admin_command argv =
     (case argv of
        [] \<Rightarrow> Inl UsageShown
      | command # args \<Rightarrow>
          if command \<noteq> ''create-topic'' then Inl (UnknownCommand command)
          else bindE (parse_args admin_option args admin_defaults) (\<lambda>a.
                 if ag_brokerAddr a = [] \<or> ag_topic a = [] \<or> ag_partitions a = 0 then Inl UsageShown
                 else bindE (value_error (split_broker (ag_brokerAddr a))) (\<lambda>ep. Inr (a, ep))))"

definition mk_admin :: "'s network \<Rightarrow> string list \<Rightarrow> 's \<Rightarrow> (program_error + unit) \<times> 's" where
  "mk_admin net argv s =
     (case admin_command argv of
        Inl e \<Rightarrow> (Inl e, s)
      | Inr (a, ep) \<Rightarrow>
          (case client_result (create_topic_main net ep (ag_topic a) (ag_partitions a) (ag_replicationFactor a) s) of
             (Inl e, s) \<Rightarrow> (Inl e, s)
           | (Inr created, s) \<Rightarrow> (if created then Inr () else Inl GaveUp, s)))"

section \<open>mk-consume\<close>

record consume_args =
  cg_brokerAddr :: string
  cg_topic :: string
  cg_groupId :: string
  cg_partitionId :: u32
  cg_offset :: u64
  cg_haveOffsetOverride :: bool

definition consume_defaults :: consume_args where
  "consume_defaults = \<lparr>cg_brokerAddr = [], cg_topic = [], cg_groupId = [], cg_partitionId = 0, cg_offset = 0,
     cg_haveOffsetOverride = False\<rparr>"

definition consume_option :: "consume_args \<Rightarrow> string \<Rightarrow> consume_args option_use" where
  "consume_option a arg =
     (if arg = ''--broker'' then Takes (\<lambda>v. Inr (a\<lparr>cg_brokerAddr := v\<rparr>))
      else if arg = ''--topic'' then Takes (\<lambda>v. Inr (a\<lparr>cg_topic := v\<rparr>))
      else if arg = ''--partition'' then Takes (\<lambda>v. bindE (stoul v) (\<lambda>n. Inr (a\<lparr>cg_partitionId := ucast n\<rparr>)))
      else if arg = ''--group'' then Takes (\<lambda>v. Inr (a\<lparr>cg_groupId := v\<rparr>))
      else if arg = ''--from-beginning'' then Switch (a\<lparr>cg_offset := 0, cg_haveOffsetOverride := True\<rparr>)
      else if arg = ''--offset'' then Takes (\<lambda>v. bindE (stoul v) (\<lambda>n. Inr (a\<lparr>cg_offset := n, cg_haveOffsetOverride := True\<rparr>)))
      else NoOption)"

definition consume_command :: "string list \<Rightarrow> program_error + (consume_args \<times> endpoint)" where
  "consume_command argv =
     bindE (parse_args consume_option argv consume_defaults) (\<lambda>a.
       if cg_brokerAddr a = [] \<or> cg_topic a = [] then Inl UsageShown
       else bindE (value_error (split_broker (cg_brokerAddr a))) (\<lambda>ep. Inr (a, ep)))"

text \<open>How long the endless loops run is the schedule's: \<open>polls\<close> of direct mode, \<open>turns\<close> of group mode. What is printed is returned.\<close>

definition mk_consume :: "'s network \<Rightarrow> nat \<Rightarrow> (nat \<times> bool) list \<Rightarrow> string list \<Rightarrow> 's \<Rightarrow> (program_error + log_record list) \<times> 's" where
  "mk_consume net polls turns argv s =
     (case consume_command argv of
        Inl e \<Rightarrow> (Inl e, s)
      | Inr (a, ep) \<Rightarrow> client_result
          (if cg_groupId a \<noteq> []
           then bindC (run_group_mode net ep (cg_topic a) (cg_groupId a) (if cg_haveOffsetOverride a then Some (cg_offset a) else None) turns)
                  (\<lambda>(printed, _). retC (concat (map snd printed))) s
           else bindC (direct_start net ep (cg_topic a) (cg_partitionId a) (cg_offset a)) (\<lambda>d.
                bindC (direct_steps net (cg_topic a) (cg_partitionId a) polls d) (\<lambda>(printed, _). retC printed)) s))"

section \<open>mk-broker\<close>

record broker_args =
  bg_id :: "u32 option"
  bg_port :: "u16 option"
  bg_dataDir :: string
  bg_host :: string
  bg_peersSpec :: "string option"
  bg_unclean :: bool

definition broker_defaults :: broker_args where
  "broker_defaults = \<lparr>bg_id = None, bg_port = None, bg_dataDir = [], bg_host = ''0.0.0.0'', bg_peersSpec = None, bg_unclean = False\<rparr>"

definition broker_option :: "broker_args \<Rightarrow> string \<Rightarrow> broker_args option_use" where
  "broker_option a arg =
     (if arg = ''--id'' then Takes (\<lambda>v. bindE (stoul v) (\<lambda>n. Inr (a\<lparr>bg_id := Some (ucast n)\<rparr>)))
      else if arg = ''--port'' then Takes (\<lambda>v. bindE (stoul v) (\<lambda>n. Inr (a\<lparr>bg_port := Some (ucast n)\<rparr>)))
      else if arg = ''--data-dir'' then Takes (\<lambda>v. Inr (a\<lparr>bg_dataDir := v\<rparr>))
      else if arg = ''--host'' then Takes (\<lambda>v. Inr (a\<lparr>bg_host := v\<rparr>))
      else if arg = ''--peers'' then Takes (\<lambda>v. Inr (a\<lparr>bg_peersSpec := Some v\<rparr>))
      else if arg = ''--unclean-leader-election'' then Switch (a\<lparr>bg_unclean := True\<rparr>)
      else NoOption)"

text \<open>What the broker and its server are made with.\<close>

record broker_config =
  bc_id :: u32
  bc_host :: string
  bc_port :: u16
  bc_dataDir :: string
  bc_peers :: "(u32, address) omap option"
  bc_unclean :: bool

definition mk_broker :: "string list \<Rightarrow> program_error + broker_config" where
  "mk_broker argv =
     bindE (parse_args broker_option argv broker_defaults) (\<lambda>a.
       case (bg_id a, bg_port a) of
         (Some i, Some port) \<Rightarrow>
           if bg_dataDir a = [] then Inl UsageShown
           else bindE (value_error (broker_peers (bg_peersSpec a) i (bg_host a) port)) (\<lambda>peers.
                  Inr \<lparr>bc_id = i, bc_host = bg_host a, bc_port = port, bc_dataDir = bg_dataDir a, bc_peers = peers,
                       bc_unclean = bg_unclean a\<rparr>)
       | _ \<Rightarrow> Inl UsageShown)"

section \<open>Reading back printed arguments\<close>

lemma stoul_digits: "n < 2 ^ 64 \<Longrightarrow> stoul (nat_digits n) = Inr (of_nat n)"
  by (simp add: stoul_def stoull_digits nat_digits_all)

lemma unat_small: "unat (w :: u32) < 2 ^ 64" "unat (p :: u16) < 2 ^ 64"
  using unsigned_less [of w, where ?'a = nat] unsigned_less [of p, where ?'a = nat] by simp_all

lemma stoul_number: "stoul (nat_digits (unat w)) = Inr (ucast (w :: u32))" "stoul (nat_digits (unat p)) = Inr (ucast (p :: u16))"
  using stoul_digits [OF unat_small(1), of w] stoul_digits [OF unat_small(2), of p] by simp_all

lemma ucast_number: "ucast (ucast w :: u64) = (w :: u32)" "ucast (ucast p :: u64) = (p :: u16)"
  by (transfer, simp add: take_bit_take_bit)+

lemma no_separators: "CHR ''@'' \<notin> set (nat_digits n)" "CHR '':'' \<notin> set (nat_digits n)" "CHR '','' \<notin> set (nat_digits n)"
  using nat_digits_all [of n] by (auto simp: is_digit_def)

lemma find_char_append: "c \<notin> set xs \<Longrightarrow> find_char c (xs @ c # ys) = Some (length xs)"
  by (induction xs) auto

lemma rfind_None: "c \<notin> set ys \<Longrightarrow> rfind c ys = None"
  by (induction ys) auto

lemma rfind_append: "c \<notin> set ys \<Longrightarrow> rfind c (xs @ c # ys) = Some (length xs)"
  by (induction xs) (auto simp: rfind_None)

definition peer_text :: "u32 \<times> address \<Rightarrow> string" where
  "peer_text e = nat_digits (unat (fst e)) @ CHR ''@'' # addr_host (snd e) @ CHR '':'' # nat_digits (unat (addr_port (snd e)))"

lemma parse_peer_text: "parse_peer (peer_text e) = Inr e"
proof -
  obtain i addr where e: "e = (i, addr)" by (cases e)
  let ?i = "nat_digits (unat i)" let ?p = "nat_digits (unat (addr_port addr))"
  have tx: "peer_text e = ?i @ CHR ''@'' # addr_host addr @ CHR '':'' # ?p"
    "peer_text e = (?i @ CHR ''@'' # addr_host addr) @ CHR '':'' # ?p" by (simp_all add: peer_text_def e)
  have pos: "find_char (CHR ''@'') (peer_text e) = Some (length ?i)" unfolding tx(1) by (intro find_char_append no_separators)
  have colon: "rfind (CHR '':'') (peer_text e) = Some (length ?i + 1 + length (addr_host addr))"
    unfolding tx(2) by (subst rfind_append) (simp_all add: no_separators)
  have parts: "take (length ?i) (peer_text e) = ?i" "drop (Suc (length ?i + 1 + length (addr_host addr))) (peer_text e) = ?p"
    "take (length ?i + 1 + length (addr_host addr) - length ?i - 1) (drop (Suc (length ?i)) (peer_text e)) = addr_host addr"
    by (simp_all add: tx(1))
  show ?thesis
    unfolding parse_peer_def pos colon prod.case option.case parts stoul_number bindE_simps ucast_number by (simp add: e)
qed

fun peers_text :: "(u32, address) omap \<Rightarrow> string" where
  "peers_text [] = []"
| "peers_text [e] = peer_text e"
| "peers_text (e # es) = peer_text e @ CHR '','' # peers_text es"

lemma getlines_one: "xs \<noteq> [] \<Longrightarrow> c \<notin> set xs \<Longrightarrow> getlines c xs = [xs]"
proof -
  assume a: "xs \<noteq> []" "c \<notin> set xs"
  have t: "takeWhile (\<lambda>x. x \<noteq> c) xs = xs" using a(2) by (auto simp: takeWhile_eq_all_conv)
  have d: "dropWhile (\<lambda>x. x \<noteq> c) xs = []" using a(2) by (auto simp: dropWhile_eq_Nil_conv)
  show ?thesis unfolding getlines.simps [of c xs] t d using a(1) by (simp add: getlines.simps [of c "[]"])
qed

lemma getlines_append: "c \<notin> set xs \<Longrightarrow> getlines c (xs @ c # ys) = xs # getlines c ys"
proof -
  assume a: "c \<notin> set xs"
  have "takeWhile (\<lambda>x. x \<noteq> c) (xs @ c # ys) = xs" "dropWhile (\<lambda>x. x \<noteq> c) (xs @ c # ys) = c # ys"
    using a by (subst takeWhile_append2 dropWhile_append2; auto)+
  then show ?thesis by (subst getlines.simps) simp
qed

lemma getlines_peers:
  assumes "\<forall>e \<in> set es. CHR '','' \<notin> set (addr_host (snd e))"
  shows "getlines (CHR '','') (peers_text es) = map peer_text es"
  using assms
proof (induction es rule: peers_text.induct)
  case 1
  then show ?case by (simp add: getlines.simps [of _ "[]"])
next
  case (2 e)
  then show ?case by (simp add: getlines_one peer_text_def no_separators)
next
  case (3 e e' es)
  have "CHR '','' \<notin> set (peer_text e)" using 3(2) by (simp add: peer_text_def no_separators)
  then show ?case using 3 by (simp add: getlines_append)
qed

lemma omap_put_same: "omap_ok m \<Longrightarrow> map_of m k = Some v \<Longrightarrow> omap_put k v m = m"
proof (induction k v m rule: omap_put.induct)
  case (2 k v k' v' m)
  have "k' < k" if "k \<noteq> k'"
  proof -
    have "(k, v) \<in> set m" using 2(3) that by (auto dest: map_of_SomeD split: if_splits)
    then show ?thesis using 2(2) by (force simp: omap_ok_Cons)
  qed
  then show ?case using 2 by (auto simp: omap_ok_Cons split: if_splits)
qed simp

lemma parse_tokens_text: "omap_ok (m @ es) \<Longrightarrow> parse_tokens (map peer_text es) m = Inr (m @ es)"
proof (induction es arbitrary: m)
  case (Cons e es)
  obtain i addr where e: "e = (i, addr)" by (cases e)
  have "\<forall>k' \<in> fst ` set m. k' < i" using Cons.prems by (auto simp: omap_ok_def sorted_wrt_append e)
  then have "omap_put i addr m = m @ [e]" by (simp add: omap_put_last e)
  then show ?case using Cons parse_peer_text [of e] by (simp add: e)
qed simp

lemma parse_peers_text:
  "omap_ok es \<Longrightarrow> \<forall>e \<in> set es. CHR '','' \<notin> set (addr_host (snd e)) \<Longrightarrow> parse_peers (peers_text es) = Inr es"
  using parse_tokens_text [of "[]" es] by (simp add: parse_peers_def getlines_peers)

definition broker_command_line :: "broker_config \<Rightarrow> string list" where
  "broker_command_line cfg =
     [''--id'', nat_digits (unat (bc_id cfg)), ''--port'', nat_digits (unat (bc_port cfg)), ''--data-dir'', bc_dataDir cfg,
      ''--host'', bc_host cfg] @
     (case bc_peers cfg of None \<Rightarrow> [] | Some ps \<Rightarrow> [''--peers'', peers_text ps]) @
     (if bc_unclean cfg then [''--unclean-leader-election''] else [])"

section \<open>Properties\<close>

text \<open>
  The broker's configuration survives the command line: the id, the address, the data directory, the peers and the
  election mode written as \<open>mk-broker\<close>'s options, the peers as \<open>id@host:port,...\<close>, are what the broker is made with, for
  every host without a comma (it may hold colons and at-signs) and every id and port of its width; the broker itself is
  among the peers it is made with.
\<close>

theorem broker_configuration_roundtrip:
  assumes "bc_dataDir cfg \<noteq> []"
    and "\<And>ps. bc_peers cfg = Some ps \<Longrightarrow> omap_ok ps \<and> (\<forall>e \<in> set ps. CHR '','' \<notin> set (addr_host (snd e))) \<and>
      map_of ps (bc_id cfg) = Some \<lparr>addr_host = bc_host cfg, addr_port = bc_port cfg\<rparr>"
  shows "mk_broker (broker_command_line cfg) = Inr cfg"
proof -
  have peers: "broker_peers (map_option peers_text (bc_peers cfg)) (bc_id cfg) (bc_host cfg) (bc_port cfg) = Inr (bc_peers cfg)"
    using assms(2) by (cases "bc_peers cfg") (simp_all add: broker_peers_def parse_peers_text omap_put_same)
  have "parse_args broker_option (broker_command_line cfg) broker_defaults =
      Inr \<lparr>bg_id = Some (bc_id cfg), bg_port = Some (bc_port cfg), bg_dataDir = bc_dataDir cfg, bg_host = bc_host cfg,
           bg_peersSpec = map_option peers_text (bc_peers cfg), bg_unclean = bc_unclean cfg\<rparr>"
    by (simp add: broker_command_line_def broker_option_def broker_defaults_def stoul_number ucast_number split: option.split)
  then show ?thesis using assms(1) peers by (simp add: mk_broker_def value_error_def)
qed

text \<open>Three brokers, one with an IPv6 address.\<close>

definition demo_config :: broker_config where
  "demo_config = \<lparr>bc_id = 2, bc_host = ''::1'', bc_port = 9092, bc_dataDir = ''d'',
     bc_peers = Some [(1, \<lparr>addr_host = ''a'', addr_port = 9091\<rparr>), (2, \<lparr>addr_host = ''::1'', addr_port = 9092\<rparr>),
                      (3, \<lparr>addr_host = ''c'', addr_port = 9093\<rparr>)],
     bc_unclean = True\<rparr>"

theorem broker_configuration_roundtrip_witness:
  "mk_broker (broker_command_line demo_config) = Inr demo_config"
  by (rule broker_configuration_roundtrip) (auto simp: demo_config_def omap_ok_def)

definition rejected :: "program_error \<Rightarrow> bool" where
  "rejected e \<longleftrightarrow> (\<forall>ce. e \<noteq> ClientFailed ce) \<and> e \<noteq> GaveUp"

lemma rejected_simps [simp]:
  "rejected UsageShown" "rejected (UnknownCommand x)" "rejected (UnknownArgument x)" "rejected (MissingValue x)" "rejected (BadValue u)"
  "rejected (CannotOpen x)" "\<not> rejected (ClientFailed c)" "\<not> rejected GaveUp"
  by (simp_all add: rejected_def)

definition names_nothing :: "string list \<Rightarrow> bool" where
  "names_nothing argv \<longleftrightarrow> ''--broker'' \<notin> set argv \<or> ''--topic'' \<notin> set argv"

definition keeps :: "('a \<Rightarrow> string \<Rightarrow> 'a option_use) \<Rightarrow> ('a \<Rightarrow> 'b) \<Rightarrow> string \<Rightarrow> bool" where
  "keeps opts sel arg \<longleftrightarrow> (\<forall>a x. x \<noteq> arg \<longrightarrow>
     (case opts a x of NoOption \<Rightarrow> True | Switch b \<Rightarrow> sel b = sel a | Takes f \<Rightarrow> (\<forall>v b. f v = Inr b \<longrightarrow> sel b = sel a)))"

lemma keepsD:
  assumes "keeps opts sel arg" "x \<noteq> arg"
  shows "opts a x = Switch b \<Longrightarrow> sel b = sel a" "opts a x = Takes f \<Longrightarrow> f v = Inr b \<Longrightarrow> sel b = sel a"
proof -
  have c: "case opts a x of NoOption \<Rightarrow> True | Switch b \<Rightarrow> sel b = sel a | Takes f \<Rightarrow> (\<forall>v b. f v = Inr b \<longrightarrow> sel b = sel a)"
    using assms unfolding keeps_def by blast
  show "opts a x = Switch b \<Longrightarrow> sel b = sel a" "opts a x = Takes f \<Longrightarrow> f v = Inr b \<Longrightarrow> sel b = sel a" using c by simp_all
qed

lemma parse_args_keeps:
  assumes "keeps opts sel arg" "parse_args opts argv a = Inr a'" "arg \<notin> set argv"
  shows "sel a' = sel a"
  using assms(2,3)
proof (induction argv arbitrary: a rule: length_induct)
  case (1 argv)
  have IH: "sel a' = sel b" if "length ys < length argv" "parse_args opts ys b = Inr a'" "arg \<notin> set ys" for ys b
    using 1(1) that by blast
  show ?case
  proof (cases argv)
    case (Cons x args)
    have ne: "x \<noteq> arg" "arg \<notin> set args" using 1(3) Cons by auto
    show ?thesis
    proof (cases "opts a x")
      case (Switch b)
      then have "parse_args opts args b = Inr a'" using 1(2) Cons by simp
      then show ?thesis using IH [of args b] ne Cons keepsD(1) [OF assms(1) ne(1) Switch] by simp
    next
      case (Takes f)
      then obtain v args' where args: "args = v # args'" using 1(2) Cons by (cases args) auto
      then obtain b where b: "f v = Inr b" "parse_args opts args' b = Inr a'" using 1(2) Cons Takes by (cases "f v") auto
      show ?thesis using IH [of args' b] b ne args Cons keepsD(2) [OF assms(1) ne(1) Takes b(1)] by simp
    qed (use 1(2) Cons in simp)
  qed (use 1(2) in simp)
qed

lemma keeps_produce: "keeps produce_option pg_brokerAddr ''--broker''" "keeps produce_option pg_topic ''--topic''"
  unfolding keeps_def produce_option_def
  by (intro allI impI, simp split: if_split, auto simp: bindE_def split: sum.splits)+

lemma keeps_admin: "keeps admin_option ag_brokerAddr ''--broker''" "keeps admin_option ag_topic ''--topic''"
  unfolding keeps_def admin_option_def
  by (intro allI impI, simp split: if_split, auto simp: bindE_def split: sum.splits)+

lemma keeps_consume: "keeps consume_option cg_brokerAddr ''--broker''" "keeps consume_option cg_topic ''--topic''"
  unfolding keeps_def consume_option_def
  by (intro allI impI, simp split: if_split, auto simp: bindE_def split: sum.splits)+

lemma parse_args_error: "parse_args opts argv a = Inl e \<Longrightarrow> rejected e"
  by (induction opts argv a rule: parse_args.induct) (auto split: option_use.splits list.splits sum.splits)

lemma value_error_rejected: "value_error r = Inl e \<Longrightarrow> rejected e"
  by (auto simp: value_error_def split: sum.splits)

lemma produce_command_error: "produce_command disk argv = Inl e \<Longrightarrow> rejected e"
  by (auto simp: produce_command_def bindE_def record_value_def read_file_def dest: parse_args_error value_error_rejected split: sum.splits if_splits option.splits)

lemma admin_command_error: "admin_command argv = Inl e \<Longrightarrow> rejected e"
  by (auto simp: admin_command_def bindE_def dest: parse_args_error value_error_rejected split: sum.splits if_splits list.splits)

lemma consume_command_error: "consume_command argv = Inl e \<Longrightarrow> rejected e"
  by (auto simp: consume_command_def bindE_def dest: parse_args_error value_error_rejected split: sum.splits if_splits)

lemma request_named:
  assumes "names_nothing argv"
  shows "\<exists>e. produce_command disk argv = Inl e" "\<exists>e. admin_command argv = Inl e" "\<exists>e. consume_command argv = Inl e"
proof -
  have "pg_brokerAddr a = [] \<or> pg_topic a = []" if "parse_args produce_option argv produce_defaults = Inr a" for a
    using assms parse_args_keeps [OF keeps_produce(1) that] parse_args_keeps [OF keeps_produce(2) that]
    by (auto simp: names_nothing_def produce_defaults_def)
  then show "\<exists>e. produce_command disk argv = Inl e" by (auto simp: produce_command_def bindE_def split: sum.split)
  have "ag_brokerAddr a = [] \<or> ag_topic a = []" if "parse_args admin_option (tl argv) admin_defaults = Inr a" for a
  proof -
    have "arg \<notin> set argv \<Longrightarrow> arg \<notin> set (tl argv)" for arg by (cases argv) auto
    then show ?thesis
      using assms parse_args_keeps [OF keeps_admin(1) that] parse_args_keeps [OF keeps_admin(2) that]
      by (auto simp: names_nothing_def admin_defaults_def)
  qed
  then show "\<exists>e. admin_command argv = Inl e" by (auto simp: admin_command_def bindE_def split: sum.split list.split)
  have "cg_brokerAddr a = [] \<or> cg_topic a = []" if "parse_args consume_option argv consume_defaults = Inr a" for a
    using assms parse_args_keeps [OF keeps_consume(1) that] parse_args_keeps [OF keeps_consume(2) that]
    by (auto simp: names_nothing_def consume_defaults_def)
  then show "\<exists>e. consume_command argv = Inl e" by (auto simp: consume_command_def bindE_def split: sum.split)
qed

lemma accepted_errors:
  "produce_command disk argv = Inr x \<Longrightarrow> mk_produce net disk random argv s = (Inl e, s') \<Longrightarrow> \<not> rejected e"
  "admin_command argv = Inr y \<Longrightarrow> mk_admin net argv s = (Inl e, s') \<Longrightarrow> \<not> rejected e"
  "consume_command argv = Inr z \<Longrightarrow> mk_consume net polls turns argv s = (Inl e, s') \<Longrightarrow> \<not> rejected e"
  by (auto simp: mk_produce_def mk_admin_def mk_consume_def client_result_def
    split: prod.splits sum.splits option.splits if_splits)

text \<open>
  A rejected command line sends nothing: when \<open>mk-produce\<close>, \<open>mk-admin\<close> or \<open>mk-consume\<close> ends with the usage text, with
  an unknown command or option, a missing or malformed value, or a file it cannot open, the network is as it was before;
  and every command line that names no broker or no topic ends so.
\<close>

theorem rejected_command_line_sends_nothing:
  "(mk_produce net disk random argv s = (Inl e, s') \<and> rejected e \<longrightarrow> s' = s) \<and>
   (mk_admin net argv s = (Inl e', s') \<and> rejected e' \<longrightarrow> s' = s) \<and>
   (mk_consume net polls turns argv s = (Inl e'', s') \<and> rejected e'' \<longrightarrow> s' = s) \<and>
   (names_nothing argv \<longrightarrow>
      (\<exists>e. mk_produce net disk random argv s = (Inl e, s) \<and> rejected e) \<and> (\<exists>e. mk_admin net argv s = (Inl e, s) \<and> rejected e) \<and>
      (\<exists>e. mk_consume net polls turns argv s = (Inl e, s) \<and> rejected e))"
proof (intro conjI impI; (elim conjE)?)
  show "s' = s" if "mk_produce net disk random argv s = (Inl e, s')" "rejected e"
    using that accepted_errors(1) [OF _ that(1)] by (cases "produce_command disk argv") (auto simp: mk_produce_def)
  show "s' = s" if "mk_admin net argv s = (Inl e', s')" "rejected e'"
    using that accepted_errors(2) [OF _ that(1)] by (cases "admin_command argv") (auto simp: mk_admin_def)
  show "s' = s" if "mk_consume net polls turns argv s = (Inl e'', s')" "rejected e''"
    using that accepted_errors(3) [OF _ that(1)] by (cases "consume_command argv") (auto simp: mk_consume_def)
  assume n: "names_nothing argv"
  show "\<exists>e. mk_produce net disk random argv s = (Inl e, s) \<and> rejected e"
    using request_named(1) [OF n, of disk] produce_command_error by (auto simp: mk_produce_def)
  show "\<exists>e. mk_admin net argv s = (Inl e, s) \<and> rejected e"
    using request_named(2) [OF n] admin_command_error by (auto simp: mk_admin_def)
  show "\<exists>e. mk_consume net polls turns argv s = (Inl e, s) \<and> rejected e"
    using request_named(3) [OF n] consume_command_error by (auto simp: mk_consume_def)
qed

definition demo_network :: "nat network" where
  "demo_network = \<lparr>net_connect = (\<lambda>s _. (True, Suc s)), net_call = (\<lambda>s _ _. (Lost, Suc s))\<rparr>"

theorem rejected_command_line_sends_nothing_witness:
  "mk_produce demo_network (\<lambda>_. None) (\<lambda>_. 0) [''--topic'', ''t'', ''--acks''] 0 = (Inl (MissingValue ''--acks''), 0) \<and>
   mk_admin demo_network [''drop-topic''] 0 = (Inl (UnknownCommand ''drop-topic''), 0) \<and>
   (\<exists>e. mk_consume demo_network 1 [] [''--topic'', ''t''] 0 = (Inl e, 0) \<and> rejected e)"
proof -
  have p: "fst (mk_produce demo_network (\<lambda>_. None) (\<lambda>_. 0) [''--topic'', ''t'', ''--acks''] 0) = Inl (MissingValue ''--acks'')"
    and a: "fst (mk_admin demo_network [''drop-topic''] 0) = Inl (UnknownCommand ''drop-topic'')"
    by (simp_all add: mk_produce_def produce_command_def produce_option_def mk_admin_def admin_command_def)
  note sent = rejected_command_line_sends_nothing [of demo_network "\<lambda>_. None" "\<lambda>_. 0"]
  have "names_nothing [''--topic'', ''t'']" by (simp add: names_nothing_def)
  then have "\<exists>e. mk_consume demo_network 1 [] [''--topic'', ''t''] 0 = (Inl e, 0) \<and> rejected e" using sent [of "[''--topic'', ''t'']" 0 GaveUp 0 GaveUp 1 "[]" GaveUp] by blast
  moreover have "snd (mk_produce demo_network (\<lambda>_. None) (\<lambda>_. 0) [''--topic'', ''t'', ''--acks''] 0) = 0"
    using sent [of "[''--topic'', ''t'', ''--acks'']" 0 "MissingValue ''--acks''"
      "snd (mk_produce demo_network (\<lambda>_. None) (\<lambda>_. 0) [''--topic'', ''t'', ''--acks''] 0)"] p by (simp add: prod_eq_iff)
  moreover have "snd (mk_admin demo_network [''drop-topic''] 0) = 0"
    using sent [of "[''drop-topic'']" 0 GaveUp "snd (mk_admin demo_network [''drop-topic''] 0)" "UnknownCommand ''drop-topic''"] a
    by (simp add: prod_eq_iff)
  ultimately show ?thesis using p a by (simp add: prod_eq_iff)
qed

text \<open>
  Numbers on the producer's command line are taken modulo their width: of a port, an \<open>--acks\<close> and a \<open>--partition\<close>
  that fit 64 bits, the request has the lowest 16, 8 and 32 bits, without a word: an \<open>--acks\<close> of 511 is the 255 that waits for
  the whole in-sync set, a port of 74628 is 9092, partition 4294967296 is partition 0.
\<close>

theorem producer_numbers_wrap:
  assumes "topic \<noteq> []" "p < 2 ^ 64" "n < 2 ^ 64" "m < 2 ^ 64"
  shows "produce_command disk [''--broker'', host @ CHR '':'' # nat_digits p, ''--topic'', topic, ''--value'', v,
      ''--acks'', nat_digits n, ''--partition'', nat_digits m] =
    Inr (\<lparr>pg_brokerAddr = host @ CHR '':'' # nat_digits p, pg_topic = topic, pg_key = None, pg_value = v, pg_filePath = [],
          pg_acks = of_nat (n mod 256), pg_partitionOverride = Some (of_nat (m mod 2 ^ 32))\<rparr>,
         string_bytes v, (host, of_nat (p mod 2 ^ 16)))"
proof -
  have wrap: "ucast (of_nat n :: u64) = (of_nat (n mod 256) :: u8)" "ucast (of_nat m :: u64) = (of_nat (m mod 2 ^ 32) :: u32)"
    "ucast (of_nat p :: u64) = (of_nat (p mod 2 ^ 16) :: u16)"
    using assms(2-4) by (simp_all add: word_eq_iff_unsigned unsigned_ucast_eq unsigned_of_nat take_bit_eq_mod mod_mod_cancel
      word_of_nat_eq_iff)
  have "split_broker (host @ CHR '':'' # nat_digits p) = Inr (host, of_nat (p mod 2 ^ 16))"
    using rfind_append [OF no_separators(2) [of p], of host] stoul_digits [OF assms(2)] wrap(3) by (simp add: split_broker_def)
  then show ?thesis
    using assms(1) wrap(1,2)
    by (simp add: produce_command_def produce_option_def produce_defaults_def record_value_def value_error_def
        stoul_digits [OF assms(3)] stoul_digits [OF assms(4)])
qed

theorem producer_numbers_wrap_witness:
  "\<exists>a. produce_command (\<lambda>_. None) [''--broker'', ''h'' @ CHR '':'' # nat_digits 74628, ''--topic'', ''t'', ''--value'', ''v'',
      ''--acks'', nat_digits 511, ''--partition'', nat_digits 4294967296] = Inr (a, string_bytes ''v'', (''h'', 9092)) \<and>
    pg_acks a = 255 \<and> pg_partitionOverride a = Some 0"
  by (subst producer_numbers_wrap) simp_all

end
