(* ===== verification/TornFiles.thy ===== *)
theory TornFiles
  imports ClusterLemmas
begin

text \<open>
  Crashes in the middle of writing the controller's state files. \<open>persist_state\<close> and \<open>persist_assignments\<close> open
  the file with \<open>ios::trunc\<close> and write its new text, so a crash leaves a prefix of that text, from the empty one
  (the program died between the opening and the flush) to the whole. What a restarted broker reads back then, and
  what that means for elections.
\<close>

definition torn_file :: "nat \<Rightarrow> string option \<Rightarrow> string option" where
  "torn_file n file = map_option (take n) file"

section \<open>A number that was cut short\<close>

lemma take_nat_digits:
  "0 < n \<Longrightarrow> n \<le> length (nat_digits v) \<Longrightarrow> take n (nat_digits v) = nat_digits (v div 10 ^ (length (nat_digits v) - n))"
proof (induction v arbitrary: n rule: nat_digits.induct)
  case (1 v)
  show ?case
  proof (cases "v < 10")
    case True
    then have "length (nat_digits v) = 1" by (simp add: nat_digits.simps)
    with 1 have "n = length (nat_digits v)" by simp
    then show ?thesis by simp
  next
    case False
    then have d: "nat_digits v = nat_digits (v div 10) @ [digit_char (v mod 10)]" by (subst nat_digits.simps) simp
    show ?thesis
    proof (cases "n = length (nat_digits v)")
      case False
      then have n: "n \<le> length (nat_digits (v div 10))" using 1(3) by (simp add: d)
      then have "length (nat_digits v) - n = Suc (length (nat_digits (v div 10)) - n)" by (simp add: d)
      moreover have "take n (nat_digits v) = take n (nat_digits (v div 10))" using n by (simp add: d)
      ultimately show ?thesis using 1(1) [OF \<open>\<not> v < 10\<close> 1(2) n] by (simp add: div_mult2_eq)
    qed simp
  qed
qed

lemma take_digits_cases:
  "take n (nat_digits v) = [] \<or> (\<exists>m. take n (nat_digits v) = nat_digits (v div 10 ^ m))"
proof (cases "n = 0")
  case False
  then have n: "0 < min n (length (nat_digits v))" "min n (length (nat_digits v)) \<le> length (nat_digits v)" by simp_all
  have "take n (nat_digits v) = take (min n (length (nat_digits v))) (nat_digits v)" by (simp add: min_def)
  then show ?thesis using take_nat_digits [OF n] by auto
qed simp

text \<open>The vote is an id or \<open>-1\<close>, of which the sign alone is no number.\<close>

lemma neg_one_div: "(- 1 :: int) div 10 ^ m = - 1"
  by (simp add: div_eq_minus1)

lemma take_vote_cases:
  assumes "- 1 \<le> i"
  shows "take n (to_string_i64 i) = [] \<or> take n (to_string_i64 i) = ''-'' \<or>
     (\<exists>m. take n (to_string_i64 i) = to_string_i64 (i div 10 ^ m))"
proof (cases "i < 0")
  case True
  with assms have i: "i = - 1" by simp
  then have t: "to_string_i64 i = [CHR ''-'', digit_char 1]" by (simp add: to_string_i64_def nat_digits.simps)
  have "take n (to_string_i64 i) = to_string_i64 (i div 10 ^ 0)" if "2 \<le> n" using that t by simp
  moreover have "n = 0 \<or> n = 1 \<or> 2 \<le> n" by linarith
  ultimately show ?thesis using t by fastforce
next
  case False
  then have "nat i div 10 ^ m = nat (i div 10 ^ m)" "\<not> i div 10 ^ m < 0" for m
    by (simp_all add: nat_div_distrib nat_power_eq not_less pos_imp_zdiv_nonneg_iff)
  then show ?thesis using take_digits_cases [of n "nat i"] False by (auto simp: to_string_i64_def)
qed

lemma div_pow_le: "0 \<le> i \<Longrightarrow> i div 10 ^ m \<le> (i :: int)"
  using zdiv_mono2 [of i 1 "10 ^ m"] by simp

lemma vote_in_range: "- 1 \<le> i \<Longrightarrow> in_i64 i \<Longrightarrow> in_i64 (i div 10 ^ m)"
proof (cases "i < 0")
  case False
  then have "0 \<le> i div 10 ^ m" "i div 10 ^ m \<le> i" by (simp_all add: pos_imp_zdiv_nonneg_iff div_pow_le)
  then show "in_i64 i \<Longrightarrow> in_i64 (i div 10 ^ m)" by (simp add: in_i64_def)
next
  case True
  then show "- 1 \<le> i \<Longrightarrow> in_i64 i \<Longrightarrow> in_i64 (i div 10 ^ m)" by (cases "i = - 1") (simp_all add: neg_one_div)
qed

text \<open>A stream with nothing left, or that has failed: reading a number that was cut ends in one.\<close>

definition ended :: "instream \<Rightarrow> bool" where
  "ended strm \<longleftrightarrow> strm = None \<or> strm = Some []"

lemma in_u32_ended: "ended strm \<Longrightarrow> fst (in_u32 strm old) = None"
  by (auto simp: ended_def in_u32_def)

lemma in_u32_skip: "is_space c \<Longrightarrow> in_u32 (Some (c # t)) old = in_u32 (Some t) old"
  by (simp add: in_u32_def)

lemma in_u32_cut_digits: "ended (fst (in_u32 (Some (take n (to_string_u32 v))) old))"
proof -
  have "take n (to_string_u32 v) = [] \<or> (\<exists>m. take n (to_string_u32 v) = nat_digits (unat v div 10 ^ m))"
    unfolding to_string_u32_def by (rule take_digits_cases)
  then show ?thesis
  proof (elim disjE exE)
    fix m
    assume d: "take n (to_string_u32 v) = nat_digits (unat v div 10 ^ m)"
    have "unat v div 10 ^ m < 2 ^ 32"
      by (rule le_less_trans [OF div_le_dividend]) (use unsigned_less [of v, where ?'a = nat] in simp)
    then have "take n (to_string_u32 v) = to_string_u32 (of_nat (unat v div 10 ^ m)) @ []"
      unfolding d append_Nil2 by (rule nat_digits_u32)
    then show ?thesis using in_u32_print(1) [of "[]" "of_nat (unat v div 10 ^ m)" old] by (simp only: at_gap_simps fst_conv ended_def simp_thms)
  next
    assume z: "take n (to_string_u32 v) = []"
    show ?thesis unfolding z by (simp add: in_u32_def ended_def)
  qed
qed

section \<open>The state file\<close>

lemma in_i64_stream_end [simp]: "in_i64_stream (Some []) old = (None, old)" "in_i64_stream (Some ''-'') old = (None, 0)"
  "in_i64_stream None old = (None, old)"
  by (simp_all add: in_i64_stream_def is_space_def split_number_def)

text \<open>The text after the term: its newline and what is left of the vote.\<close>

lemma read_cut_vote:
  assumes "- 1 \<le> i" "in_i64 i"
  shows "fst (in_i64_stream (Some (take n ([newline] @ to_string_i64 i @ [newline]))) 0) = None \<or>
    (\<exists>m rest. in_i64_stream (Some (take n ([newline] @ to_string_i64 i @ [newline]))) 0 = (Some rest, i div 10 ^ m))"
proof (cases n)
  case (Suc n')
  have skip: "in_i64_stream (Some (take n ([newline] @ to_string_i64 i @ [newline]))) 0 =
      in_i64_stream (Some (take n' (to_string_i64 i @ [newline]))) 0"
    by (simp add: Suc in_i64_stream_skip newline_def)
  show ?thesis
  proof (cases "n' \<le> length (to_string_i64 i)")
    case False
    then have "take n' (to_string_i64 i @ [newline]) = to_string_i64 (i div 10 ^ 0) @ [newline]" by simp
    then show ?thesis unfolding skip using in_i64_print [of "[newline]" i 0] assms(2) by (auto simp: newline_def intro!: exI [of _ 0])
  next
    case True
    then have t: "take n' (to_string_i64 i @ [newline]) = take n' (to_string_i64 i) @ []" by simp
    have num: "in_i64_stream (Some (to_string_i64 (i div 10 ^ m) @ [])) 0 = (Some [], i div 10 ^ m)" for m
      by (rule in_i64_print) (simp_all add: vote_in_range [OF assms])
    show ?thesis
      using take_vote_cases [OF assms(1), of n'] unfolding skip t
    proof (elim disjE exE)
      fix m
      assume "take n' (to_string_i64 i) = to_string_i64 (i div 10 ^ m)"
      then show "fst (in_i64_stream (Some (take n' (to_string_i64 i) @ [])) 0) = None \<or>
          (\<exists>m rest. in_i64_stream (Some (take n' (to_string_i64 i) @ [])) 0 = (Some rest, i div 10 ^ m))"
        using num [of m] by auto
    qed (simp_all only: append.simps append_Nil2 in_i64_stream_end fst_conv simp_thms)
  qed
qed simp

lemma load_torn_state:
  assumes "- 1 \<le> cc_votedFor c" "in_i64 (cc_votedFor c)"
    and "cc_raft_file c0 = torn_file n (cc_raft_file (persist_state c))"
  shows "load_state c0 = c0 \<or> (\<exists>m. load_state c0 = c0\<lparr>cc_term := cc_term c, cc_votedFor := cc_votedFor c div 10 ^ m\<rparr>)"
proof -
  define tm where "tm = to_string_u32 (cc_term c)"
  define vt where "vt = [newline] @ to_string_i64 (cc_votedFor c) @ [newline]"
  have f: "cc_raft_file c0 = Some (take n tm @ take (n - length tm) vt)"
    unfolding assms(3) by (simp add: torn_file_def persist_state_def tm_def vt_def)
  show ?thesis
  proof (cases "n \<le> length tm")
    case True
    have "ended (fst (in_u32 (Some (take n tm)) 0))" unfolding tm_def by (rule in_u32_cut_digits)
    then have "load_state c0 = c0"
      using True by (auto simp: load_state_def f ended_def Let_def split: prod.split)
    then show ?thesis ..
  next
    case False
    then have "at_gap (take (n - length tm) vt)" by (cases "n - length tm") (simp_all add: vt_def newline_def)
    then have u: "in_u32 (Some (tm @ take (n - length tm) vt)) 0 = (Some (take (n - length tm) vt), cc_term c)"
      unfolding tm_def by (rule in_u32_print(1))
    have "take n tm = tm" using False by simp
    then show ?thesis
      using read_cut_vote [OF assms(1,2), of "n - length tm"] u unfolding vt_def [symmetric]
      by (auto simp: load_state_def f Let_def split: prod.split)
  qed
qed

section \<open>The assignments file\<close>

lemma read_ids_ended: "ended strm \<Longrightarrow> ended (fst (snd (read_ids n strm i)))"
proof (induction n arbitrary: strm i)
  case (Suc n)
  have "ended (fst (in_u32 strm i))" using in_u32_ended [OF Suc.prems, of i] by (simp add: ended_def)
  from Suc.IH [OF this, of "snd (in_u32 strm i)"] show ?case by (simp add: case_prod_beta Let_def)
qed simp

text \<open>A field of a line that was cut somewhere: it is whole and the cut is behind it, or the text ends in it.\<close>

lemma in_u32_cut:
  assumes "at_gap t"
  shows "ended (fst (in_u32 (Some (take k (CHR '' '' # to_string_u32 v @ t))) old)) \<or>
    (\<exists>k'. in_u32 (Some (take k (CHR '' '' # to_string_u32 v @ t))) old = (Some (take k' t), v))"
proof (cases "k \<le> Suc (length (to_string_u32 v))")
  case False
  then have "take k (CHR '' '' # to_string_u32 v @ t) = CHR '' '' # to_string_u32 v @ take (k - Suc (length (to_string_u32 v))) t"
    by (cases k) simp_all
  moreover have "at_gap (take (k - Suc (length (to_string_u32 v))) t)"
    using assms False by (cases t) (auto simp: take_Cons')
  ultimately show ?thesis using in_u32_print(2) [of "take (k - Suc (length (to_string_u32 v))) t" v old] by metis
next
  case True
  show ?thesis
  proof (cases k)
    case (Suc k')
    then have t: "take k (CHR '' '' # to_string_u32 v @ t) = CHR '' '' # take k' (to_string_u32 v)" using True by simp
    show ?thesis unfolding t in_u32_skip [OF is_space_chars(1)] using in_u32_cut_digits [of k' v old] ..
  qed (simp add: in_u32_def ended_def)
qed

lemma in_word_cut:
  assumes "word_text topic" "ws = [] \<or> ws = [newline]"
  shows "ended (fst (in_word (Some (ws @ take n topic)) old))"
proof -
  have t: "\<forall>c \<in> set (take n topic). \<not> is_space c" using assms(1) set_take_subset by (force simp: word_text_def)
  have "in_word (Some (ws @ take n topic)) old = (if take n topic = [] then (None, old) else (Some [], take n topic))" for old
  proof (cases "take n topic = []")
    case False
    with t have "word_text (take n topic)" by (simp only: word_text_def simp_thms)
    then have "in_word (Some (ws @ take n topic @ [])) old = (Some [], take n topic)"
      using assms(2) in_word_print(1) [of "[]" "take n topic" old] in_word_print(2) [of "[]" "take n topic" newline old]
      by (auto simp only: at_gap_simps append.simps newline_def is_space_chars simp_thms)
    with False show ?thesis by (simp only: append_Nil2 if_False)
  next
    case True
    show ?thesis unfolding True using assms(2) by (auto simp: in_word_def newline_def)
  qed
  then show ?thesis by (simp only: ended_def fst_conv split: if_split) simp
qed

lemma read_ids_cut:
  assumes "at_gap t"
  shows "ended (fst (snd (read_ids (length ids) (Some (take k (ids_text ids @ t))) i))) \<or>
    (\<exists>k'. fst (snd (read_ids (length ids) (Some (take k (ids_text ids @ t))) i)) = Some (take k' t))"
proof (induction ids arbitrary: k i)
  case Nil
  then show ?case by (auto simp: ids_text_def)
next
  case (Cons a ids)
  let ?s = "in_u32 (Some (take k (CHR '' '' # to_string_u32 a @ (ids_text ids @ t)))) i"
  have l: "ids_text (a # ids) @ t = CHR '' '' # to_string_u32 a @ (ids_text ids @ t)" by (simp add: ids_text_def)
  have r: "fst (snd (read_ids (length (a # ids)) (Some (take k (ids_text (a # ids) @ t))) i)) =
      fst (snd (read_ids (length ids) (fst ?s) (snd ?s)))"
    unfolding l by (simp add: case_prod_beta Let_def)
  show ?case
    unfolding r using in_u32_cut [OF at_gap_ids_text [OF assms, of ids], of k a i] Cons.IH read_ids_ended by (metis fst_conv snd_conv)
qed

text \<open>A torn line yields no entry or one under its own key and with its own leader, and is the last one.\<close>

lemma read_assignment_ended: "ended strm \<or> strm = Some [newline] \<Longrightarrow> read_assignment strm v = None"
  by (auto simp: ended_def read_assignment_def in_word_def newline_def in_u32_def)

lemma read_torn_line:
  assumes "storable e" "ws = [] \<or> ws = [newline]"
  shows "read_assignment (Some (ws @ take n (assignment_line e))) v = None \<or>
    (\<exists>rs isr strm v'. read_assignment (Some (ws @ take n (assignment_line e))) v =
       Some ((fst e, \<lparr>pa_leaderId = pa_leaderId (snd e), pa_replicas = rs, pa_isr = isr\<rparr>), strm, v') \<and>
       (ended strm \<or> strm = Some [newline]))"
proof -
  obtain topic p pa where e: "e = ((topic, p), pa)" by (metis surj_pair)
  have st: "word_text topic" "length (pa_replicas pa) < 2 ^ 32" "length (pa_isr pa) < 2 ^ 32" using assms(1) by (simp_all add: storable_def e)
  define t5 where "t5 = ids_text (pa_isr pa) @ [newline]"
  define t4 where "t4 = CHR '' '' # to_string_u32 (of_nat (length (pa_isr pa))) @ t5"
  define t3 where "t3 = ids_text (pa_replicas pa) @ t4"
  define t2 where "t2 = CHR '' '' # to_string_u32 (of_nat (length (pa_replicas pa))) @ t3"
  define t1 where "t1 = CHR '' '' # to_string_u32 (pa_leaderId pa) @ t2"
  define t0 where "t0 = CHR '' '' # to_string_u32 p @ t1"
  have gaps: "at_gap [newline]" "at_gap t5" "at_gap t4" "at_gap t3" "at_gap t2" "at_gap t1"
    unfolding t5_def t3_def by (auto intro!: at_gap_ids_text simp: t4_def t2_def t1_def newline_def)
  have line: "assignment_line e = topic @ t0"
    using st by (simp add: e assignment_line_def t0_def t1_def t2_def t3_def t4_def t5_def nat_digits_u32)
  define read where "read s0 t = (let (s, p) = in_u32 s0 (lv_partitionId v); (s, l) = in_u32 s (lv_leaderId v); (s, rc) = in_u32 s (lv_replicaCount v)
    in if s = None then None
       else let (rs, s, i) = read_ids (unat rc) s (lv_id v); (s, ic) = in_u32 s (lv_isrCount v); (js, s, i) = read_ids (unat ic) s i
         in Some (((t, p), \<lparr>pa_leaderId = l, pa_replicas = rs, pa_isr = js\<rparr>), s,
           \<lparr>lv_topic = t, lv_partitionId = p, lv_leaderId = l, lv_replicaCount = rc, lv_isrCount = ic, lv_id = i\<rparr>))" for s0 t
  have ra: "read_assignment strm v = read (fst (in_word strm (lv_topic v))) (snd (in_word strm (lv_topic v)))" for strm
    by (simp add: read_assignment_def read_def case_prod_beta Let_def)
  have tail: "ended (fst (snd (read_ids n' s i))) \<or> fst (snd (read_ids n' s i)) = Some [newline]"
    if "ended s \<or> n' = length (pa_isr pa) \<and> (\<exists>k. s = Some (take k t5))" for n' s i
  proof -
    have "take k [newline] = [] \<or> take k [newline] = [newline]" for k by (cases k) simp_all
    then show ?thesis using that read_ids_ended read_ids_cut [OF gaps(1), of "pa_isr pa"] unfolding t5_def ended_def by metis
  qed
  have isr: "ended (fst (snd (read_ids (unat (snd (in_u32 s old))) (fst (in_u32 s old)) i))) \<or>
      fst (snd (read_ids (unat (snd (in_u32 s old))) (fst (in_u32 s old)) i)) = Some [newline]"
    if "ended s \<or> (\<exists>k. s = Some (take k t4))" for s old i
  proof (rule tail)
    show "ended (fst (in_u32 s old)) \<or>
        unat (snd (in_u32 s old)) = length (pa_isr pa) \<and> (\<exists>k. fst (in_u32 s old) = Some (take k t5))"
      using that in_u32_cut [OF gaps(2)] in_u32_ended unat_of_nat_u32 [OF st(3)] unfolding t4_def ended_def by (metis fst_conv snd_conv)
  qed
  have replicas: "ended (fst (snd (read_ids n' s i))) \<or> (\<exists>k. fst (snd (read_ids n' s i)) = Some (take k t4))"
    if "ended s \<or> n' = length (pa_replicas pa) \<and> (\<exists>k. s = Some (take k t3))" for n' s i
    using that read_ids_ended read_ids_cut [OF gaps(3), of "pa_replicas pa"] unfolding t3_def by metis
  have count: "ended (fst (in_u32 (Some (take k t2)) old)) \<or>
      unat (snd (in_u32 (Some (take k t2)) old)) = length (pa_replicas pa) \<and> (\<exists>k'. fst (in_u32 (Some (take k t2)) old) = Some (take k' t3))" for k old
    using in_u32_cut [OF gaps(4)] unat_of_nat_u32 [OF st(2)] unfolding t2_def by (metis fst_conv snd_conv)
  have dead: "read s0 t = None" if "ended (fst (in_u32 s0 (lv_partitionId v))) \<or>
      ended (fst (in_u32 (fst (in_u32 s0 (lv_partitionId v))) (lv_leaderId v)))" for s0 t
  proof -
    have "fst (in_u32 (fst (in_u32 (fst (in_u32 s0 (lv_partitionId v))) (lv_leaderId v))) (lv_replicaCount v)) = None"
      using that in_u32_ended by (metis ended_def)
    then show ?thesis by (simp add: read_def case_prod_beta Let_def)
  qed
  have rd: "read (Some (take k t0)) topic = None \<or>
      (\<exists>rs isr strm v'. read (Some (take k t0)) topic = Some ((fst e, \<lparr>pa_leaderId = pa_leaderId (snd e), pa_replicas = rs, pa_isr = isr\<rparr>), strm, v') \<and>
       (ended strm \<or> strm = Some [newline]))" for k
  proof -
    consider "read (Some (take k t0)) topic = None" | k1 k2 where "in_u32 (Some (take k t0)) (lv_partitionId v) = (Some (take k1 t1), p)"
      "in_u32 (Some (take k1 t1)) (lv_leaderId v) = (Some (take k2 t2), pa_leaderId pa)"
    proof (cases "ended (fst (in_u32 (Some (take k t0)) (lv_partitionId v)))")
      case True
      show thesis by (rule that(1), rule dead, rule disjI1, rule True)
    next
      case False
      then obtain k1 where k1: "in_u32 (Some (take k t0)) (lv_partitionId v) = (Some (take k1 t1), p)"
        using in_u32_cut [OF gaps(6), of k p "lv_partitionId v"] unfolding t0_def by blast
      show thesis
      proof (cases "ended (fst (in_u32 (Some (take k1 t1)) (lv_leaderId v)))")
        case True
        show thesis by (rule that(1), rule dead, rule disjI2) (simp add: k1 True)
      next
        case False
        then show thesis
          using that(2) [OF k1] in_u32_cut [OF gaps(5), of k1 "pa_leaderId pa" "lv_leaderId v"] unfolding t1_def by blast
      qed
    qed
    then show ?thesis
    proof cases
      case 2
      define s3 rc where "s3 = fst (in_u32 (Some (take k2 t2)) (lv_replicaCount v))" and "rc = snd (in_u32 (Some (take k2 t2)) (lv_replicaCount v))"
      define s4 i where "s4 = fst (snd (read_ids (unat rc) s3 (lv_id v)))" and "i = snd (snd (read_ids (unat rc) s3 (lv_id v)))"
      have "ended s4 \<or> (\<exists>k. s4 = Some (take k t4))"
        unfolding s4_def using count [of k2 "lv_replicaCount v"] by (intro replicas) (simp add: s3_def rc_def)
      note z = isr [OF this, of "lv_isrCount v" i]
      show ?thesis
      proof (cases "s3 = None")
        case True
        then show ?thesis using 2 by (simp add: read_def case_prod_beta Let_def s3_def)
      next
        case False
        show ?thesis
          by (rule disjI2, intro exI conjI, rule_tac [2] z)
            (use False 2 in \<open>simp add: read_def case_prod_beta Let_def s3_def rc_def s4_def i_def e\<close>)
      qed
    qed simp
  qed
  show ?thesis
  proof (cases "n \<le> length topic")
    case True
    have "ended (fst (in_word (Some (ws @ take n topic)) (lv_topic v)))" by (rule in_word_cut [OF st(1) assms(2)])
    then have "ended (fst (in_u32 (fst (in_word (Some (ws @ take n topic)) (lv_topic v))) (lv_partitionId v)))"
      using in_u32_ended by (metis ended_def)
    then have "read_assignment (Some (ws @ take n topic)) v = None" unfolding ra by (intro dead disjI1)
    moreover have "take n (assignment_line e) = take n topic" using True by (simp add: line)
    ultimately show ?thesis by (simp only: simp_thms)
  next
    case False
    then have "take n (assignment_line e) = topic @ take (n - length topic) t0" by (simp add: line)
    moreover have "in_word (Some (ws @ topic @ take (n - length topic) t0)) (lv_topic v) = (Some (take (n - length topic) t0), topic)"
    proof -
      have g: "at_gap (take (n - length topic) t0)" using False by (cases "n - length topic") (simp_all add: t0_def)
      show ?thesis using assms(2) in_word_print(2) [OF g st(1), where c = newline and old = "lv_topic v"]
          in_word_print(1) [OF g st(1), where old = "lv_topic v"] by (auto simp: newline_def)
    qed
    ultimately show ?thesis using rd [of "n - length topic"] by (simp add: ra)
  qed
qed

text \<open>Whole lines in front of a torn one are read as they were written.\<close>

lemma take_concat_lines:
  "n < length (concat (map f xs)) \<Longrightarrow> \<exists>i k. i < length xs \<and> take n (concat (map f xs)) = concat (map f (take i xs)) @ take k (f (xs ! i)) \<and>
     length (concat (map f (take i xs))) \<le> n \<and> n < length (concat (map f (take (Suc i) xs)))"
proof (induction xs arbitrary: n)
  case (Cons x xs)
  show ?case
  proof (cases "n < length (f x)")
    case True
    then show ?thesis by (intro exI [of _ 0] exI [of _ n]) simp
  next
    case False
    then have "n - length (f x) < length (concat (map f xs))" using Cons.prems by simp
    from Cons.IH [OF this] obtain i k where ik: "i < length xs"
      "take (n - length (f x)) (concat (map f xs)) = concat (map f (take i xs)) @ take k (f (xs ! i))"
      "length (concat (map f (take i xs))) \<le> n - length (f x)" "n - length (f x) < length (concat (map f (take (Suc i) xs)))" by blast
    then show ?thesis using False by (intro exI [of _ "Suc i"] exI [of _ k]) auto
  qed
qed simp

lemma load_lines_then:
  assumes "list_all storable es" "ws = [] \<or> ws = [newline]"
  shows "\<exists>ws' v'. (ws' = [] \<or> ws' = [newline]) \<and>
    load_loop (Some (ws @ concat (map assignment_line es) @ t)) v m =
      load_loop (Some (ws' @ t)) v' (foldl (\<lambda>m (k, pa). omap_put k pa m) m es)"
  using assms
proof (induction es arbitrary: ws v m)
  case Nil
  then show ?case by auto
next
  case (Cons e es)
  obtain key pa where e: "e = (key, pa)" by (cases e)
  obtain v' where r: "read_assignment (Some (ws @ assignment_line e @ concat (map assignment_line es) @ t)) v =
      Some (e, Some (newline # concat (map assignment_line es) @ t), v')"
    using read_assignment_line [of e ws "concat (map assignment_line es) @ t" v] Cons.prems by auto
  then have "load_loop (Some (ws @ concat (map assignment_line (e # es)) @ t)) v m =
      load_loop (Some ([newline] @ concat (map assignment_line es) @ t)) v' (omap_put key pa m)"
    by (simp add: load_loop.simps [of "Some (ws @ _)"] e)
  moreover obtain ws' v'' where "ws' = [] \<or> ws' = [newline]"
    "load_loop (Some ([newline] @ concat (map assignment_line es) @ t)) v' (omap_put key pa m) =
      load_loop (Some (ws' @ t)) v'' (foldl (\<lambda>m (k, pa). omap_put k pa m) (omap_put key pa m) es)"
    using Cons.IH [of "[newline]" v' "omap_put key pa m"] Cons.prems by auto
  ultimately show ?case by (auto simp: e)
qed

lemma load_torn_line:
  assumes "storable e" "ws = [] \<or> ws = [newline]"
  shows "load_loop (Some (ws @ take n (assignment_line e))) v m = m \<or>
    (\<exists>rs isr. load_loop (Some (ws @ take n (assignment_line e))) v m =
       omap_put (fst e) \<lparr>pa_leaderId = pa_leaderId (snd e), pa_replicas = rs, pa_isr = isr\<rparr> m)"
proof (cases "read_assignment (Some (ws @ take n (assignment_line e))) v = None")
  case True
  then show ?thesis by (simp add: load_loop.simps [of "Some (ws @ take n (assignment_line e))"])
next
  case False
  then obtain rs isr strm v' where r: "read_assignment (Some (ws @ take n (assignment_line e))) v =
      Some ((fst e, \<lparr>pa_leaderId = pa_leaderId (snd e), pa_replicas = rs, pa_isr = isr\<rparr>), strm, v')"
    and "ended strm \<or> strm = Some [newline]"
    using read_torn_line [OF assms, of n v] by metis
  then have l: "load_loop strm v' m' = m'" for m' using read_assignment_ended [of strm v'] by (simp add: load_loop.simps [of strm])
  have "load_loop (Some (ws @ take n (assignment_line e))) v m =
      omap_put (fst e) \<lparr>pa_leaderId = pa_leaderId (snd e), pa_replicas = rs, pa_isr = isr\<rparr> m"
    by (subst load_loop.simps) (simp add: r l)
  then show ?thesis by blast
qed

lemma omap_ok_take_put:
  assumes "omap_ok as" "i < length as"
  shows "foldl (\<lambda>m (k, pa). omap_put k pa m) [] (take i as) = take i as"
    "omap_put (fst (as ! i)) pa (take i as) = take i as @ [(fst (as ! i), pa)]"
proof -
  have sorted: "omap_ok (take i as)" "\<forall>k \<in> fst ` set (take i as). k < fst (as ! i)"
    using assms id_take_nth_drop [OF assms(2)] unfolding omap_ok_def
    by (auto simp: sorted_wrt_append dest!: arg_cong [of _ _ "map fst"]) force
  show "omap_put (fst (as ! i)) pa (take i as) = take i as @ [(fst (as ! i), pa)]" by (rule omap_put_last [OF sorted(2)])
  show "foldl (\<lambda>m (k, pa). omap_put k pa m) [] (take i as) = take i as"
    using foldl_omap_put_sorted [of "[]" "take i as"] sorted(1) by simp
qed

section \<open>Elections with such crashes\<close>

text \<open>
  The cluster of \<open>net_step\<close> with two more events: the program dies while the section that starts an election, or the
  one that answers a vote request, writes the state file, so nothing is sent, and starts again with the \<open>n\<close> bytes
  that reached the file.
\<close>

datatype crash_event =
    Section event
  | CrashInElection u32 u64 u32 nat u64 u32
  | CrashInVote nat u64 u32 nat u64 u32

definition crash_writing :: "node \<Rightarrow> controller \<Rightarrow> nat \<Rightarrow> u64 \<Rightarrow> u32 \<Rightarrow> node" where
  "crash_writing nd c n later timeout = restart (nd\<lparr>nd_ctl := c\<lparr>cc_raft_file := torn_file n (cc_raft_file c)\<rparr>\<rparr>) later timeout"

fun crash_step :: "(u32, address) omap \<Rightarrow> crash_event \<Rightarrow> net \<Rightarrow> net option" where
  "crash_step peers (Section e) s = net_step peers e s"
| "crash_step peers (CrashInElection i now timeout n later timeout') s =
     (let nd = net_nodes s i
      in if i \<in> fst ` set peers \<and> nd_election nd = None \<and> nd_round nd = Idle \<and> \<not> is_leader (nd_ctl nd) \<and>
            cc_deadline (nd_ctl nd) \<le> now \<and> cc_term (nd_ctl nd) \<noteq> - 1
         then Some (set_node s i (crash_writing nd (fst (begin_election (nd_ctl nd) now timeout)) n later timeout'))
         else None)"
| "crash_step peers (CrashInVote k now timeout n later timeout') s =
     (if k < length (net_vote_calls s)
      then let (i, j, req) = net_vote_calls s ! k;
               nd = net_nodes s j;
               (resp, c) = handle_request_vote (nd_ctl nd) req now timeout
           in if rvresp_voteGranted resp then Some (set_node s j (crash_writing nd c n later timeout')) else None
      else None)"

fun run_crashes :: "(u32, address) omap \<Rightarrow> crash_event list \<Rightarrow> net \<Rightarrow> net option" where
  "run_crashes peers [] s = Some s"
| "run_crashes peers (e # es) s = (case crash_step peers e s of None \<Rightarrow> None | Some s' \<Rightarrow> run_crashes peers es s')"

text \<open>
  Broker 3 votes for broker 1, which wins term 1. Later broker 3 starts an election and dies before a byte of its
  new state is written; it comes back in term 0 without a vote and votes for broker 2, which also runs in term 1.
\<close>

definition demo_two_leaders :: "crash_event list" where
  "demo_two_leaders =
     map Section [StartElection 1 150 150, DeliverVoteCall 1 160 150, VoteReply 0 161 150, VoteCallFails 1 2, FinishElection 1] @
     [CrashInElection 3 400 150 0 500 150] @
     map Section [StartElection 2 400 150, DeliverVoteCall 3 510 150, VoteReply 1 511 150, VoteCallFails 2 1, FinishElection 2]"

text \<open>The crash of broker 3, whose vote decided term 1, makes two brokers leader of term 1 at the same time.\<close>

theorem torn_vote_file_elects_two:
  "\<exists>s. run_crashes demo_peers demo_two_leaders (init_net demo_peers False) = Some s \<and>
     is_leader (nd_ctl (net_nodes s 1)) \<and> is_leader (nd_ctl (net_nodes s 2)) \<and>
     cc_term (nd_ctl (net_nodes s 1)) = 1 \<and> cc_term (nd_ctl (net_nodes s 2)) = 1 \<and>
     net_elected s = [(2, 1), (1, 1)]"
proof -
  have "(case run_crashes demo_peers demo_two_leaders (init_net demo_peers False) of None \<Rightarrow> False | Some s \<Rightarrow>
     is_leader (nd_ctl (net_nodes s 1)) \<and> is_leader (nd_ctl (net_nodes s 2)) \<and>
     cc_term (nd_ctl (net_nodes s 1)) = 1 \<and> cc_term (nd_ctl (net_nodes s 2)) = 1 \<and>
     net_elected s = [(2, 1), (1, 1)])"
    by code_simp
  then show ?thesis by (simp split: option.splits)
qed

text \<open>A cut that reaches no digit of the vote leaves nothing to read: the controller starts in term 0 with no vote.\<close>

lemma load_no_vote:
  assumes "cc_raft_file c0 = torn_file n (cc_raft_file (persist_state c))" "n \<le> Suc (length (to_string_u32 (cc_term c)))"
  shows "load_state c0 = c0"
proof -
  define tm where "tm = to_string_u32 (cc_term c)"
  define vt where "vt = to_string_i64 (cc_votedFor c) @ [newline]"
  have f: "cc_raft_file c0 = Some (take n (tm @ [newline] @ vt))"
    unfolding assms(1) by (simp add: torn_file_def persist_state_def tm_def vt_def)
  show ?thesis
  proof (cases "n \<le> length tm")
    case True
    have "ended (fst (in_u32 (Some (take n tm)) 0))" unfolding tm_def by (rule in_u32_cut_digits)
    then show ?thesis using True by (auto simp: load_state_def f ended_def Let_def split: prod.split)
  next
    case False
    then have "take n (tm @ [newline] @ vt) = tm @ [newline]" using assms(2) by (simp add: tm_def take_Cons')
    moreover have "in_u32 (Some (tm @ [newline])) 0 = (Some [newline], cc_term c)"
      unfolding tm_def by (rule in_u32_print(1)) (simp add: newline_def)
    ultimately show ?thesis by (simp add: load_state_def f Let_def newline_def in_i64_stream_skip)
  qed
qed

lemma new_controller_starts:
  assumes "\<And>c0 :: controller. cc_raft_file c0 = file \<Longrightarrow> cc_term c0 = 0 \<Longrightarrow> cc_votedFor c0 = - 1 \<Longrightarrow>
      cc_term (load_state c0) = t \<and> cc_votedFor (load_state c0) = v"
  shows "cc_term (new_controller m unclean file assignments_file now timeout) = t"
    "cc_votedFor (new_controller m unclean file assignments_file now timeout) = v"
  by (simp_all add: assms new_controller_def reset_election_deadline_def load_assignments_def Let_def split: option.split)

text \<open>A vote request at a controller: what decides it, and what is kept.\<close>

lemma vote_decided:
  assumes "handle_request_vote c req now timeout = (resp, c')"
  shows "rvresp_voteGranted resp \<longleftrightarrow> cc_term c < rvreq_term req \<or>
      rvreq_term req = cc_term c \<and> (cc_votedFor c = - 1 \<or> cc_votedFor c = uint (rvreq_candidateId req))"
    and "rvresp_voteGranted resp \<Longrightarrow> cc_term c' = rvreq_term req \<and> cc_votedFor c' = uint (rvreq_candidateId req) \<and>
      cc_raft_file c' = cc_raft_file (persist_state c')"
  using assms
  by (auto simp: handle_request_vote_def step_down_def persist_state_def reset_election_deadline_def Let_def split: if_splits)

text \<open>
  C17: a broker killed while it writes \<open>raft_state\<close> votes twice in one term. It has granted candidate A its vote in some
  term, which a restart remembers: it refuses any other candidate B of that term. But \<open>persist_state\<close> empties the file
  before it writes it, so a broker that dies in a later write, with no digit of the new vote written, starts in term 0
  without a vote, whatever the term it was about to write; it grants B its vote in the very term in which A counted it.
\<close>

theorem torn_vote_file_votes_again:
  assumes "handle_request_vote c0 reqA now timeout = (resp, c)" "rvresp_voteGranted resp"
    and "rvreq_term reqB = rvreq_term reqA" "rvreq_candidateId reqB \<noteq> rvreq_candidateId reqA"
    and "n \<le> Suc (length (to_string_u32 (cc_term c')))"
    and "whole = new_controller m unclean (cc_raft_file c) assignments_file later timeout'"
    and "torn = new_controller m unclean (torn_file n (cc_raft_file (persist_state c'))) assignments_file later timeout'"
  shows "\<not> rvresp_voteGranted (fst (handle_request_vote whole reqB later' timeout'')) \<and>
    (\<exists>resp' c''. handle_request_vote torn reqB later' timeout'' = (resp', c'') \<and> rvresp_voteGranted resp' \<and>
       cc_term c'' = cc_term c \<and> cc_votedFor c'' = uint (rvreq_candidateId reqB) \<and> cc_votedFor c = uint (rvreq_candidateId reqA))"
proof -
  note c = vote_decided(2) [OF assms(1,2)]
  have "disk_ok (persist_state c)" using c by (simp add: disk_ok_persist uint_u32_bounds)
  then have disk: "disk_ok c" using c by (simp add: disk_ok_def persist_state_def)
  have whole: "cc_term whole = cc_term c" "cc_votedFor whole = cc_votedFor c"
    unfolding assms(6) by (rule new_controller_starts; simp add: load_state_reads [OF disk])+
  have torn: "cc_term torn = 0" "cc_votedFor torn = - 1"
    unfolding assms(7) by (rule new_controller_starts; simp add: load_no_vote [OF _ assms(5)])+
  obtain r1 d1 where r1: "handle_request_vote whole reqB later' timeout'' = (r1, d1)" by fastforce
  obtain r2 d2 where r2: "handle_request_vote torn reqB later' timeout'' = (r2, d2)" by fastforce
  have "\<not> rvresp_voteGranted r1"
    using vote_decided(1) [OF r1] whole c assms(3,4) uint_u32_bounds(3) by (auto simp: word_uint_eq_iff)
  moreover have g: "rvresp_voteGranted r2"
    using vote_decided(1) [OF r2] torn by (auto simp: word_neq_0_conv)
  ultimately show ?thesis using vote_decided(2) [OF r2 g] c assms(3) r1 r2 by simp
qed

text \<open>Broker 1 has voted for broker 2 in term 4, starts its own election of term 5 and dies before the first byte.\<close>

lemma torn_vote_file_votes_again_witness:
  "\<exists>whole torn. \<not> rvresp_voteGranted (fst (handle_request_vote whole \<lparr>rvreq_term = 4, rvreq_candidateId = 3\<rparr> 900 150)) \<and>
     rvresp_voteGranted (fst (handle_request_vote torn \<lparr>rvreq_term = 4, rvreq_candidateId = 3\<rparr> 900 150)) \<and>
     cc_term torn = 0"
proof -
  let ?A = "\<lparr>rvreq_term = 4, rvreq_candidateId = 2\<rparr>" and ?B = "\<lparr>rvreq_term = 4, rvreq_candidateId = 3\<rparr>"
  obtain resp c where r: "handle_request_vote demo_controller ?A 0 150 = (resp, c)" by fastforce
  have g: "rvresp_voteGranted resp" using vote_decided(1) [OF r] by (simp add: demo_controller_def)
  define c' where "c' = fst (begin_election c 500 150)"
  have ab: "rvreq_term ?B = rvreq_term ?A" "rvreq_candidateId ?B \<noteq> rvreq_candidateId ?A" "0 \<le> Suc (length (to_string_u32 (cc_term c')))"
    by simp_all
  define torn where "torn = new_controller (cc_membership c) False (torn_file 0 (cc_raft_file (persist_state c'))) None 800 150"
  have "cc_term torn = 0" unfolding torn_def by (rule new_controller_starts; simp add: load_no_vote [where c = c'])
  moreover have "\<not> rvresp_voteGranted (fst (handle_request_vote (new_controller (cc_membership c) False (cc_raft_file c) None 800 150) ?B 900 150)) \<and>
      rvresp_voteGranted (fst (handle_request_vote torn ?B 900 150))"
    using torn_vote_file_votes_again [OF r g ab refl refl, of "cc_membership c" False None 800 150 900 150] unfolding torn_def
    by (elim conjE exE) simp
  ultimately show ?thesis by blast
qed

text \<open>
  C35: what a broker reads from a \<open>raft_state\<close> that was cut short. Wherever the writing stopped, a restarted
  controller has the written term and the written vote, or is in term 0 without a vote, or has the written term and a vote
  whose last digits are missing: a vote for broker 12 may come back as one for broker 1. No other state is read,
  in particular never a later term.
\<close>

theorem torn_vote_file_reads:
  assumes "- 1 \<le> cc_votedFor c" "cc_votedFor c < 2 ^ 63"
    and "c' = new_controller m unclean (torn_file n (cc_raft_file (persist_state c))) assignments_file now timeout"
  shows "cc_term c' = 0 \<and> cc_votedFor c' = - 1 \<or>
    cc_term c' = cc_term c \<and> (\<exists>k. cc_votedFor c' = cc_votedFor c div 10 ^ k)"
proof -
  define c0 where "c0 = \<lparr>cc_membership = m, cc_unclean = unclean, cc_role = Follower, cc_term = 0, cc_votedFor = - 1,
    cc_leaderId = - 1, cc_deadline = 0, cc_assignments = [], cc_lastAlive = [],
    cc_raft_file = torn_file n (cc_raft_file (persist_state c)), cc_assignments_file = assignments_file\<rparr>"
  have f: "cc_raft_file c0 = torn_file n (cc_raft_file (persist_state c))" by (simp add: c0_def)
  have "in_i64 (cc_votedFor c)" using assms(1,2) by (simp add: in_i64_def)
  note l = load_torn_state [OF assms(1) this f]
  have "cc_term c' = cc_term (load_state c0)" "cc_votedFor c' = cc_votedFor (load_state c0)"
    unfolding assms(3) new_controller_def c0_def [symmetric]
    by (simp_all add: reset_election_deadline_def load_assignments_def Let_def split: option.split)
  then show ?thesis using l by (auto simp: c0_def)
qed

lemma torn_vote_file_reads_witness:
  "\<exists>c' k. c' = new_controller (cc_membership demo_controller) False
      (torn_file 4 (cc_raft_file (persist_state (demo_controller\<lparr>cc_term := 12, cc_votedFor := 34\<rparr>)))) None 0 150 \<and>
     cc_term c' = 12 \<and> cc_votedFor c' = 3 \<and> cc_votedFor c' = 34 div 10 ^ k"
proof -
  let ?c = "demo_controller\<lparr>cc_term := 12, cc_votedFor := 34\<rparr>"
  obtain c' where c': "c' = new_controller (cc_membership demo_controller) False (torn_file 4 (cc_raft_file (persist_state ?c))) None 0 150"
    by blast
  have d: "digit_char (Suc 0) = CHR ''1''" "digit_char 2 = CHR ''2''" "digit_char 3 = CHR ''3''" "digit_char 4 = CHR ''4''"
    by code_simp+
  have e: "cc_term c' = 12 \<and> cc_votedFor c' = 3" 
    by (simp add: c' new_controller_def load_assignments_def reset_election_deadline_def load_state_def torn_file_def persist_state_def
      to_string_u32_def to_string_i64_def nat_digits.simps d in_u32_def in_i64_stream_def split_number_def is_digit_def
      is_space_def digits_value_def digit_value_def newline_def demo_controller_def Let_def)
  have "cc_term c' = 0 \<and> cc_votedFor c' = - 1 \<or> cc_term c' = cc_term ?c \<and> (\<exists>k. cc_votedFor c' = cc_votedFor ?c div 10 ^ k)"
    by (rule torn_vote_file_reads [OF _ _ c']) simp_all
  then obtain k where "cc_votedFor c' = 34 div 10 ^ k" using e by auto
  then show ?thesis using c' e by blast
qed

text \<open>
  C34: what a broker reads from a \<open>cluster_assignments\<close> that was cut short. Every line that was written whole
  gives its assignment, unchanged and in order; the line in which the writing stopped gives nothing, or an
  assignment of its own partition to its own leader whose replicas and ISR may be wrong; nothing else is
  loaded. So no partition is ever loaded under another leader or another topic, but every line behind the cut is lost.
\<close>

theorem torn_assignments_keep_whole_lines:
  assumes "omap_ok (cc_assignments c)"
    and "\<forall>((topic, p), pa) \<in> set (cc_assignments c). word_text topic \<and> length (pa_replicas pa) < 2 ^ 32 \<and> length (pa_isr pa) < 2 ^ 32"
    and "n < length (concat (map assignment_line (cc_assignments c)))"
    and "c' = new_controller m unclean raft_file (torn_file n (cc_assignments_file (persist_assignments c))) now timeout"
  shows "\<exists>i. length (concat (map assignment_line (take i (cc_assignments c)))) \<le> n \<and>
      n < length (concat (map assignment_line (take (Suc i) (cc_assignments c)))) \<and>
      (cc_assignments c' = take i (cc_assignments c) \<or>
       (\<exists>rs isr. cc_assignments c' = take i (cc_assignments c) @
          [(fst (cc_assignments c ! i), \<lparr>pa_leaderId = pa_leaderId (snd (cc_assignments c ! i)), pa_replicas = rs, pa_isr = isr\<rparr>)]))"
proof -
  obtain i k where i: "i < length (cc_assignments c)" "take n (concat (map assignment_line (cc_assignments c))) =
      concat (map assignment_line (take i (cc_assignments c))) @ take k (assignment_line (cc_assignments c ! i))"
    and n: "length (concat (map assignment_line (take i (cc_assignments c)))) \<le> n"
      "n < length (concat (map assignment_line (take (Suc i) (cc_assignments c))))"
    using take_concat_lines [OF assms(3)] by blast
  have "storable e" if "e \<in> set (cc_assignments c)" for e using assms(2) that by (cases e) (auto simp: storable_def)
  then have st: "list_all storable (take i (cc_assignments c))" "storable (cc_assignments c ! i)"
    using nth_mem [OF i(1)] by (auto simp: list_all_iff dest!: in_set_takeD)
  let ?v = "\<lparr>lv_topic = [], lv_partitionId = 0, lv_leaderId = 0, lv_replicaCount = 0, lv_isrCount = 0, lv_id = 0\<rparr>"
  have c': "cc_assignments c' = load_loop (Some ([] @ concat (map assignment_line (take i (cc_assignments c))) @
      take k (assignment_line (cc_assignments c ! i)))) ?v []"
    unfolding assms(4) by (simp add: new_controller_def reset_election_deadline_def load_assignments_def load_state_keeps
      torn_file_def persist_assignments_def i(2))
  obtain ws v where ws: "ws = [] \<or> ws = [newline]" "cc_assignments c' =
      load_loop (Some (ws @ take k (assignment_line (cc_assignments c ! i)))) v (take i (cc_assignments c))"
    unfolding c' using load_lines_then [OF st(1), of "[]" "take k (assignment_line (cc_assignments c ! i))" ?v "[]"]
    unfolding omap_ok_take_put(1) [OF assms(1) i(1)] by blast
  show ?thesis
    using load_torn_line [OF st(2) ws(1), of k v "take i (cc_assignments c)"]
    unfolding ws(2) [symmetric] omap_ok_take_put(2) [OF assms(1) i(1)] using n by blast
qed

lemma torn_assignments_keep_whole_lines_witness:
  "\<exists>c' i rs isr. c' = new_controller (cc_membership demo_controller) False None
      (torn_file 9 (cc_assignments_file (persist_assignments demo_controller))) 0 150 \<and>
     (cc_assignments c' = take i (cc_assignments demo_controller) \<or>
      cc_assignments c' = take i (cc_assignments demo_controller) @
        [(fst (cc_assignments demo_controller ! i),
          \<lparr>pa_leaderId = pa_leaderId (snd (cc_assignments demo_controller ! i)), pa_replicas = rs, pa_isr = isr\<rparr>)])"
proof -
  have o: "omap_ok (cc_assignments demo_controller)" by (simp add: demo_controller_def omap_ok_def)
  have w: "\<forall>((topic, p), pa) \<in> set (cc_assignments demo_controller). word_text topic \<and> length (pa_replicas pa) < 2 ^ 32 \<and>
      length (pa_isr pa) < 2 ^ 32"
    by (simp add: demo_controller_def word_text_def is_space_def)
  have n: "9 < length (concat (map assignment_line (cc_assignments demo_controller)))"
    by (simp add: demo_controller_def assignment_line_def ids_text_def to_string_u32_def nat_digits.simps)
  obtain c' where c': "c' = new_controller (cc_membership demo_controller) False None
      (torn_file 9 (cc_assignments_file (persist_assignments demo_controller))) 0 150" by blast
  show ?thesis using torn_assignments_keep_whole_lines [OF o w n c'] c' by blast
qed

end
