(* ===== verification/TornOffsets.thy ===== *)
theory TornOffsets
  imports TornFiles GroupRuns
begin

text \<open>
  A crash while a coordinator writes a group's offsets. \<open>persist_offsets\<close> empties the file and writes every offset of the
  group again, at every commit; what a restarted coordinator reads from a file that was cut short.
\<close>

unbundle bit_operations_syntax

section \<open>Reading a cut line\<close>

lemma in_u64_ended: "ended strm \<Longrightarrow> fst (in_u64 strm old) = None"
  by (auto simp: ended_def in_u64_def)

text \<open>An offset of which only the first digits are there is a smaller one.\<close>

lemma in_u64_cut:
  assumes "at_gap t"
  shows "fst (in_u64 (Some (take k (CHR '' '' # to_string_u64 v @ t))) old) = None \<or>
    (\<exists>w \<le> v. in_u64 (Some (take k (CHR '' '' # to_string_u64 v @ t))) old = (Some [], w)) \<or>
    (\<exists>k'. in_u64 (Some (take k (CHR '' '' # to_string_u64 v @ t))) old = (Some (take k' t), v))"
proof (cases "k \<le> Suc (length (to_string_u64 v))")
  case False
  then have "take k (CHR '' '' # to_string_u64 v @ t) = CHR '' '' # to_string_u64 v @ take (k - Suc (length (to_string_u64 v))) t"
    by (cases k) simp_all
  moreover have "at_gap (take (k - Suc (length (to_string_u64 v))) t)"
    using assms False by (cases t) (auto simp: take_Cons')
  ultimately show ?thesis using in_u64_print [of "take (k - Suc (length (to_string_u64 v))) t" v old] by metis
next
  case True
  show ?thesis
  proof (cases k)
    case (Suc k')
    then have t: "take k (CHR '' '' # to_string_u64 v @ t) = CHR '' '' # take k' (to_string_u64 v)" using True by simp
    have "take k' (to_string_u64 v) = [] \<or> (\<exists>m. take k' (to_string_u64 v) = nat_digits (unat v div 10 ^ m))"
      unfolding to_string_u64_def by (rule take_digits_cases)
    then show ?thesis
    proof (elim disjE exE)
      assume z: "take k' (to_string_u64 v) = []"
      show ?thesis unfolding t z by (simp add: in_u64_def is_space_def)
    next
      fix m
      assume d: "take k' (to_string_u64 v) = nat_digits (unat v div 10 ^ m)"
      let ?w = "of_nat (unat v div 10 ^ m) :: u64"
      have "unat v div 10 ^ m < 2 ^ 64"
        by (rule le_less_trans [OF div_le_dividend]) (use unsigned_less [of v, where ?'a = nat] in simp)
      then have u: "unat ?w = unat v div 10 ^ m" by (intro unat_of_nat_u64) simp
      then have le: "?w \<le> v" unfolding word_le_nat_alt by (simp only: div_le_dividend)
      have "to_string_u64 ?w = nat_digits (unat v div 10 ^ m)" by (simp only: to_string_u64_def u)
      then have "take k' (to_string_u64 v) = to_string_u64 ?w @ []" using d by (simp only: append_Nil2)
      then have "in_u64 (Some (take k (CHR '' '' # to_string_u64 v @ t))) old = (Some [], ?w)"
        unfolding t using in_u64_print [of "[]" ?w old] by (simp only: at_gap_simps)
      with le show ?thesis by blast
    qed
  qed (simp add: in_u64_def)
qed

section \<open>The loop\<close>

lemma load_offsets_ended: "ended strm \<or> strm = Some [newline] \<Longrightarrow> load_offsets_loop strm topic p off m = m"
  by (subst load_offsets_loop.simps) (auto simp: ended_def in_word_def in_u32_def in_u64_def newline_def split: prod.split)

lemma load_torn_offset:
  assumes "storable_offset e" "ws = [] \<or> ws = [newline]"
  shows "load_offsets_loop (Some (ws @ take n (offset_line e))) topic p off m = m \<or>
    (\<exists>w \<le> snd e. load_offsets_loop (Some (ws @ take n (offset_line e))) topic p off m = omap_put (fst e) w m)"
proof -
  obtain t q v where e: "e = ((t, q), v)" by (metis surj_pair)
  have w: "word_text t" using assms(1) by (simp add: storable_offset_def e)
  define t2 where "t2 = CHR '' '' # to_string_u64 v @ [newline]"
  define t1 where "t1 = CHR '' '' # to_string_u32 q @ t2"
  have gaps: "at_gap [newline]" "at_gap t2" by (simp_all add: t2_def newline_def)
  have line: "offset_line e = t @ t1" by (simp add: e offset_line_def t1_def t2_def newline_def)
  define s0 where "s0 = Some (ws @ take n (offset_line e))"
  define s1 where "s1 = fst (in_word s0 topic)"
  define s2 where "s2 = fst (in_u32 s1 p)"
  define s3 where "s3 = fst (in_u64 s2 off)"
  have run: "load_offsets_loop s0 topic p off m = (if s3 = None then m else
      load_offsets_loop s3 (snd (in_word s0 topic)) (snd (in_u32 s1 p)) (snd (in_u64 s2 off))
        (omap_put (snd (in_word s0 topic), snd (in_u32 s1 p)) (snd (in_u64 s2 off)) m))"
    by (subst load_offsets_loop.simps) (simp add: s1_def s2_def s3_def case_prod_beta)
  show ?thesis
  proof (cases "s3 = None")
    case True
    then show ?thesis using run unfolding s0_def by simp
  next
    case False
    then have live2: "\<not> ended s2" using in_u64_ended [of s2 off] unfolding s3_def by auto
    have "\<not> ended s1"
    proof
      assume "ended s1"
      then have "s2 = None" unfolding s2_def by (rule in_u32_ended)
      then show False using live2 by (simp add: ended_def)
    qed
    note live = live2 this
    have n: "\<not> n \<le> length t"
    proof
      assume "n \<le> length t"
      then have "s0 = Some (ws @ take n t)" by (simp add: s0_def line)
      then show False using live(2) in_word_cut [OF w assms(2), of n topic] by (simp add: s1_def)
    qed
    then have "at_gap (take (n - length t) t1)" by (cases "n - length t") (simp_all add: t1_def)
    then have "in_word s0 topic = (Some (take (n - length t) t1), t)"
      using n assms(2) w in_word_print(1) [of "take (n - length t) t1" t topic]
        in_word_print(2) [of "take (n - length t) t1" t newline topic] by (auto simp: s0_def line newline_def)
    then have s1: "s1 = Some (take (n - length t) t1)" "snd (in_word s0 topic) = t" by (simp_all add: s1_def)
    obtain k where s2: "s2 = Some (take k t2)" "snd (in_u32 s1 p) = q"
      using live(1) in_u32_cut [OF gaps(2), of "n - length t" q p] unfolding s2_def s1(1) t1_def by auto
    have "\<exists>w \<le> v. snd (in_u64 s2 off) = w \<and> (ended s3 \<or> s3 = Some [newline])"
    proof -
      have "take k' [newline] = [] \<or> take k' [newline] = [newline]" for k' by (cases k') simp_all
      then show ?thesis
        using False in_u64_cut [OF gaps(1), of k v off] unfolding s3_def s2(1) t2_def ended_def by fastforce
    qed
    then show ?thesis
      using run False s1(2) s2(2) load_offsets_ended unfolding s0_def e fst_conv snd_conv by auto
  qed
qed

lemma load_offset_lines_then:
  assumes "list_all storable_offset es" "ws = [] \<or> ws = [newline]"
  shows "\<exists>ws' topic' p' off'. (ws' = [] \<or> ws' = [newline]) \<and>
    load_offsets_loop (Some (ws @ concat (map offset_line es) @ rest)) topic p off m =
      load_offsets_loop (Some (ws' @ rest)) topic' p' off' (foldl (\<lambda>m (k, v). omap_put k v m) m es)"
  using assms
proof (induction es arbitrary: ws topic p off m)
  case Nil
  then show ?case by auto
next
  case (Cons e es)
  obtain t q v where e: "e = ((t, q), v)" by (metis surj_pair)
  let ?r = "newline # concat (map offset_line es) @ rest"
  define t2 where "t2 = CHR '' '' # to_string_u64 v @ ?r"
  define t1 where "t1 = CHR '' '' # to_string_u32 q @ t2"
  have w: "word_text t" using Cons.prems(1) by (simp add: storable_offset_def e)
  have gaps: "at_gap t1" "at_gap t2" "at_gap ?r" by (simp_all add: t1_def t2_def newline_def)
  have line: "concat (map offset_line (e # es)) @ rest = t @ t1" by (simp add: e offset_line_def t1_def t2_def newline_def)
  have rd: "in_word (Some (ws @ t @ t1)) old = (Some t1, t)" for old
    using Cons.prems(2) in_word_print(2) [OF gaps(1) w, where c = newline and old = old] in_word_print(1) [OF gaps(1) w, where old = old]
    by (auto simp: newline_def)
  have n1: "in_u32 (Some t1) old = (Some t2, q)" for old unfolding t1_def by (rule in_u32_print(2) [OF gaps(2)])
  have n2: "in_u64 (Some t2) old = (Some ?r, v)" for old unfolding t2_def by (rule in_u64_print [OF gaps(3)])
  have "load_offsets_loop (Some (ws @ concat (map offset_line (e # es)) @ rest)) topic p off m =
      load_offsets_loop (Some ([newline] @ concat (map offset_line es) @ rest)) t q v (omap_put (t, q) v m)"
    unfolding line load_offsets_loop.simps [of "Some (ws @ t @ t1)"] by (simp add: rd n1 n2)
  then show ?case using Cons.IH [of "[newline]" t q v "omap_put (t, q) v m"] Cons.prems(1) by (simp add: e)
qed

section \<open>A restart after the crash\<close>

text \<open>
  C26: a crash in the middle of a commit never makes a consumer skip a record. From an offsets file that was cut anywhere a
  restarted coordinator reads the offsets of the whole lines as they were committed, and for the partition of the
  cut line nothing or an offset that is not larger than the committed one; the partitions behind the cut have no
  offset, so that their consumer starts from the beginning. Records may be read again, none is left out.
\<close>

theorem torn_offsets_never_skip:
  assumes "omap_ok (gs_offsets g)" "\<forall>((topic, p), off) \<in> set (gs_offsets g). word_text topic"
    and "n < length (concat (map offset_line (gs_offsets g)))"
    and "files = omap_put groupId (the (torn_file n (map_of (gc_files (persist_offsets c groupId g)) groupId))) (gc_files c)"
    and "offs = gs_offsets (load_offsets_if_needed (new_coordinator files brokerId host port) groupId new_group)"
  shows "\<exists>i. length (concat (map offset_line (take i (gs_offsets g)))) \<le> n \<and>
      n < length (concat (map offset_line (take (Suc i) (gs_offsets g)))) \<and>
      (offs = take i (gs_offsets g) \<or>
       (\<exists>w \<le> snd (gs_offsets g ! i). offs = take i (gs_offsets g) @ [(fst (gs_offsets g ! i), w)]))"
proof -
  obtain i k where i: "i < length (gs_offsets g)" "take n (concat (map offset_line (gs_offsets g))) =
      concat (map offset_line (take i (gs_offsets g))) @ take k (offset_line (gs_offsets g ! i))"
    and n: "length (concat (map offset_line (take i (gs_offsets g)))) \<le> n"
      "n < length (concat (map offset_line (take (Suc i) (gs_offsets g))))"
    using take_concat_lines [OF assms(3)] by blast
  have "storable_offset e" if "e \<in> set (gs_offsets g)" for e using assms(2) that by (cases e) (auto simp: storable_offset_def)
  then have st: "list_all storable_offset (take i (gs_offsets g))" "storable_offset (gs_offsets g ! i)"
    using nth_mem [OF i(1)] by (auto simp: list_all_iff dest!: in_set_takeD)
  have offs: "offs = load_offsets_loop (Some ([] @ concat (map offset_line (take i (gs_offsets g))) @
      take k (offset_line (gs_offsets g ! i)))) [] 0 0 []"
    unfolding assms(4,5)
    by (simp add: torn_file_def persist_offsets_def load_offsets_if_needed_def new_coordinator_def new_group_def i(2))
  obtain ws topic p off where ws: "ws = [] \<or> ws = [newline]"
    "offs = load_offsets_loop (Some (ws @ take k (offset_line (gs_offsets g ! i)))) topic p off (take i (gs_offsets g))"
    unfolding offs using load_offset_lines_then [OF st(1), of "[]" "take k (offset_line (gs_offsets g ! i))" "[]" 0 0 "[]"]
    unfolding omap_ok_take_put(1) [OF assms(1) i(1)] by blast
  show ?thesis
    using load_torn_offset [OF st(2) ws(1), of k topic p off "take i (gs_offsets g)"]
    unfolding ws(2) [symmetric] omap_ok_take_put(2) [OF assms(1) i(1)] using n by blast
qed

definition demo_offsets :: "(topic_partition, u64) omap" where
  "demo_offsets = [((''t'', 0), 1234)]"

lemma torn_offsets_never_skip_witness:
  "\<exists>offs i. offs = gs_offsets (load_offsets_if_needed (new_coordinator
        (omap_put ''g'' (the (torn_file 6 (map_of (gc_files (persist_offsets (new_coordinator [] 1 ''h'' 9092) ''g''
           (new_group\<lparr>gs_offsets := demo_offsets\<rparr>))) ''g''))) []) 1 ''h'' 9092) ''g'' new_group) \<and>
     (offs = take i demo_offsets \<or> (\<exists>w \<le> snd (demo_offsets ! i). offs = take i demo_offsets @ [(fst (demo_offsets ! i), w)]))"
proof -
  let ?g = "new_group\<lparr>gs_offsets := demo_offsets\<rparr>" and ?c = "new_coordinator [] 1 ''h'' 9092"
  have o: "omap_ok (gs_offsets ?g)" by (simp add: omap_ok_def demo_offsets_def)
  have w: "\<forall>((topic, p), off) \<in> set (gs_offsets ?g). word_text topic" by (simp add: word_text_def is_space_def demo_offsets_def)
  have n: "6 < length (concat (map offset_line (gs_offsets ?g)))"
    by (simp add: demo_offsets_def offset_line_def to_string_u32_def to_string_u64_def nat_digits.simps)
  have g: "gs_offsets ?g = demo_offsets" "gc_files ?c = []" by (simp_all add: new_coordinator_def)
  show ?thesis using torn_offsets_never_skip [OF o w n refl refl, of "''g''" ?c 1 "''h''" 9092] unfolding g by blast
qed

end
