(* ===== verification/TopicSections.thy ===== *)
theory TopicSections
  imports ClusterLemmas
begin

text \<open>
  \<open>ClusterController::create_topic\<close> takes the lock three times: to look at the role, to list the brokers that are
  alive, and to store and broadcast the assignments; \<open>update_isr\<close> takes it twice, to look at the role and to store the
  ISR. The sections one by one, that together they are the \<open>create_topic\<close> and \<open>update_isr\<close> of \<open>Controller\<close>, and what
  happens when an election falls between them.
\<close>

unbundle bit_operations_syntax

section \<open>The sections of a topic's creation\<close>

record creation =
  cr_broker :: u32
  cr_topic :: string
  cr_numPartitions :: u32
  cr_replicationFactor :: u32
  cr_alive :: "u32 list option"

definition create_begins :: "controller \<Rightarrow> string \<Rightarrow> u32 \<Rightarrow> u32 \<Rightarrow> creation option" where
  "create_begins c topic numPartitions replicationFactor =
     (if \<not> is_leader c then None
      else Some \<lparr>cr_broker = mb_self (cc_membership c), cr_topic = topic, cr_numPartitions = numPartitions,
             cr_replicationFactor = replicationFactor, cr_alive = None\<rparr>)"

definition create_counts :: "controller \<Rightarrow> creation \<Rightarrow> u64 \<Rightarrow> creation option" where
  "create_counts c cr now =
     (let alive = alive_broker_ids c now in if alive = [] then None else Some (cr\<lparr>cr_alive := Some alive\<rparr>))"

definition create_assigns :: "controller \<Rightarrow> creation \<Rightarrow> u32 list \<Rightarrow>
    ((u32 \<times> partition_assignment) list \<times> leader_and_isr_entry list) \<times> controller" where
  "create_assigns c cr alive =
     (let rf = min (cr_replicationFactor cr) (of_nat (length alive));
          rf = (if rf = 0 then 1 else rf);
          result = map (\<lambda>p. (of_nat p, topic_assignment alive rf p)) [0..<unat (cr_numPartitions cr)];
          c = c\<lparr>cc_assignments := foldl (\<lambda>m (p, pa). omap_put (cr_topic cr, p) pa m) (cc_assignments c) result\<rparr>
      in ((result, map (\<lambda>(p, pa). wire_entry (cr_topic cr, p) pa) result), persist_assignments c))"

text \<open>With nothing in between, the three sections of \<open>create_topic\<close> do what the whole does.\<close>

theorem create_topic_is_its_sections:
  "create_topic c topic numPartitions replicationFactor now =
     (case create_begins c topic numPartitions replicationFactor of
        None \<Rightarrow> ((None, []), c)
      | Some cr \<Rightarrow> (case create_counts c cr now of
          None \<Rightarrow> ((None, []), c)
        | Some cr' \<Rightarrow> (let ((result, entries), c') = create_assigns c cr' (the (cr_alive cr')) in ((Some result, entries), c'))))"
  by (simp add: create_topic_def create_begins_def create_counts_def create_assigns_def Let_def)

section \<open>The sections of an ISR update\<close>

record isr_store =
  iu_broker :: u32
  iu_topic :: string
  iu_partitionId :: u32
  iu_isr :: "u32 list"

definition update_begins :: "controller \<Rightarrow> string \<Rightarrow> u32 \<Rightarrow> u32 list \<Rightarrow> isr_store option" where
  "update_begins c topic partitionId isr =
     (if \<not> is_leader c then None
      else Some \<lparr>iu_broker = mb_self (cc_membership c), iu_topic = topic, iu_partitionId = partitionId, iu_isr = isr\<rparr>)"

definition update_stores :: "controller \<Rightarrow> isr_store \<Rightarrow> leader_and_isr_entry list \<times> controller" where
  "update_stores c iu =
     (let key = (iu_topic iu, iu_partitionId iu)
      in case map_of (cc_assignments c) key of
           None \<Rightarrow> ([], c)
         | Some pa \<Rightarrow>
             (let pa = pa\<lparr>pa_isr := iu_isr iu\<rparr>
              in ([wire_entry key pa], persist_assignments (c\<lparr>cc_assignments := omap_put key pa (cc_assignments c)\<rparr>))))"

theorem update_isr_is_its_sections:
  "update_isr c topic partitionId isr =
     (case update_begins c topic partitionId isr of None \<Rightarrow> ([], c) | Some iu \<Rightarrow> update_stores c iu)"
  by (simp add: update_isr_def update_begins_def update_stores_def Let_def split: option.split)

section \<open>Elections between the sections\<close>

text \<open>
  The cluster of \<open>net_step\<close> with the requests that are in the middle of \<open>create_topic\<close> or \<open>update_isr\<close>, by their
  position; a restart ends those of its broker.
\<close>

record sections =
  sc_net :: net
  sc_creations :: "creation list"
  sc_updates :: "isr_store list"

datatype topic_event =
    Elsewhere event
  | CreateBegins u32 string u32 u32
  | CreateCounts nat u64
  | CreateAssigns nat
  | UpdateBegins u32 string u32 "u32 list"
  | UpdateStores nat

definition restarted :: "event \<Rightarrow> u32 \<Rightarrow> bool" where
  "restarted e i \<longleftrightarrow> (case e of Restart j _ _ \<Rightarrow> i = j | _ \<Rightarrow> False)"

definition remove_at :: "nat \<Rightarrow> 'a list \<Rightarrow> 'a list" where
  "remove_at k xs = take k xs @ drop (Suc k) xs"

definition stored :: "net \<Rightarrow> u32 \<Rightarrow> leader_and_isr_entry list \<Rightarrow> controller \<Rightarrow> net" where
  "stored s i entries c =
     (set_node s i ((net_nodes s i)\<lparr>nd_ctl := c\<rparr>))\<lparr>net_assignments := net_assignments s @ assignments_to_peers (net_nodes s i) entries\<rparr>"

fun topic_step :: "(u32, address) omap \<Rightarrow> topic_event \<Rightarrow> sections \<Rightarrow> sections option" where
  "topic_step peers (Elsewhere e) s =
     map_option (\<lambda>n. \<lparr>sc_net = n, sc_creations = filter (\<lambda>cr. \<not> restarted e (cr_broker cr)) (sc_creations s),
                      sc_updates = filter (\<lambda>iu. \<not> restarted e (iu_broker iu)) (sc_updates s)\<rparr>)
       (net_step peers e (sc_net s))"
| "topic_step peers (CreateBegins i topic numPartitions replicationFactor) s =
     map_option (\<lambda>cr. s\<lparr>sc_creations := sc_creations s @ [cr]\<rparr>)
       (create_begins (nd_ctl (net_nodes (sc_net s) i)) topic numPartitions replicationFactor)"
| "topic_step peers (CreateCounts k now) s =
     (if k < length (sc_creations s) \<and> cr_alive (sc_creations s ! k) = None
      then let cr = sc_creations s ! k
           in Some (s\<lparr>sc_creations := (case create_counts (nd_ctl (net_nodes (sc_net s) (cr_broker cr))) cr now of
                         None \<Rightarrow> remove_at k (sc_creations s)
                       | Some cr' \<Rightarrow> (sc_creations s)[k := cr'])\<rparr>)
      else None)"
| "topic_step peers (CreateAssigns k) s =
     (if k < length (sc_creations s)
      then let cr = sc_creations s ! k
           in case cr_alive cr of
                None \<Rightarrow> None
              | Some alive \<Rightarrow>
                  (let ((result, entries), c) = create_assigns (nd_ctl (net_nodes (sc_net s) (cr_broker cr))) cr alive
                   in Some (s\<lparr>sc_net := stored (sc_net s) (cr_broker cr) entries c, sc_creations := remove_at k (sc_creations s)\<rparr>))
      else None)"
| "topic_step peers (UpdateBegins i topic partitionId isr) s =
     map_option (\<lambda>iu. s\<lparr>sc_updates := sc_updates s @ [iu]\<rparr>)
       (update_begins (nd_ctl (net_nodes (sc_net s) i)) topic partitionId isr)"
| "topic_step peers (UpdateStores k) s =
     (if k < length (sc_updates s)
      then let iu = sc_updates s ! k;
               (entries, c) = update_stores (nd_ctl (net_nodes (sc_net s) (iu_broker iu))) iu
           in Some (s\<lparr>sc_net := (if entries = [] then set_node (sc_net s) (iu_broker iu) ((net_nodes (sc_net s) (iu_broker iu))\<lparr>nd_ctl := c\<rparr>)
                                  else stored (sc_net s) (iu_broker iu) entries c),
                      sc_updates := remove_at k (sc_updates s)\<rparr>)
      else None)"

fun run_topics :: "(u32, address) omap \<Rightarrow> topic_event list \<Rightarrow> sections \<Rightarrow> sections option" where
  "run_topics peers [] s = Some s"
| "run_topics peers (e # es) s = (case topic_step peers e s of None \<Rightarrow> None | Some s' \<Rightarrow> run_topics peers es s')"

definition init_sections :: "(u32, address) omap \<Rightarrow> bool \<Rightarrow> sections" where
  "init_sections peers unclean = \<lparr>sc_net = init_net peers unclean, sc_creations = [], sc_updates = []\<rparr>"

text \<open>Elections go on as before: a section of either kind changes assignments only.\<close>

lemma sections_same_election:
  "create_assigns c cr alive = (r, c') \<Longrightarrow> same_election c c'"
  "update_stores c iu = (es, c') \<Longrightarrow> same_election c c'"
  by (auto simp: create_assigns_def update_stores_def same_election_def persist_assignments_def Let_def split: option.splits)

lemma stored_inv:
  assumes "net_inv peers s" "same_election (nd_ctl (net_nodes s i)) c"
  shows "net_inv peers (stored s i entries c)" "net_inv peers (set_node s i ((net_nodes s i)\<lparr>nd_ctl := c\<rparr>))"
  by (rule net_inv_ctl [OF assms(1) same_election_advances [OF net_invD(1) [OF assms(1)] assms(2)],
        where nd = "(net_nodes s i)\<lparr>nd_ctl := c\<rparr>"]; simp add: stored_def set_node_def)+

lemma topic_step_inv:
  assumes "net_inv peers (sc_net s)" "distinct (map fst peers)" "length peers < 2 ^ 32" "topic_step peers e s = Some s'"
  shows "net_inv peers (sc_net s')"
proof (cases e)
  case (Elsewhere ev)
  then show ?thesis using net_step_inv [OF assms(1-3)] assms(4) by auto
next
  case (CreateAssigns k)
  then obtain alive r c where c: "create_assigns (nd_ctl (net_nodes (sc_net s) (cr_broker (sc_creations s ! k)))) (sc_creations s ! k) alive = (r, c)"
    and s': "sc_net s' = stored (sc_net s) (cr_broker (sc_creations s ! k)) (snd r) c"
    using assms(4) by (auto simp: Let_def split: if_splits option.splits prod.splits)
  show ?thesis unfolding s' by (rule stored_inv(1) [OF assms(1) sections_same_election(1) [OF c]])
next
  case (UpdateStores k)
  let ?iu = "sc_updates s ! k"
  obtain entries c where c: "update_stores (nd_ctl (net_nodes (sc_net s) (iu_broker ?iu))) ?iu = (entries, c)" by fastforce
  show ?thesis
    using stored_inv [OF assms(1) sections_same_election(2) [OF c]] assms(4) unfolding UpdateStores
    by (auto simp: c Let_def split: if_splits)
qed (use assms in \<open>auto simp: Let_def split: if_splits\<close>)

theorem sections_elect_one_leader:
  assumes "run_topics peers es (init_sections peers unclean) = Some s" "distinct (map fst peers)" "length peers < 2 ^ 32"
    and "is_leader (nd_ctl (net_nodes (sc_net s) i))" "is_leader (nd_ctl (net_nodes (sc_net s) j))"
    and "cc_term (nd_ctl (net_nodes (sc_net s) i)) = cc_term (nd_ctl (net_nodes (sc_net s) j))"
  shows "i = j"
proof -
  have "net_inv peers (sc_net s')" if "net_inv peers (sc_net s0)" "run_topics peers es s0 = Some s'" for es s0 s'
    using that
  proof (induction es arbitrary: s0)
    case (Cons e es)
    then show ?case using topic_step_inv [OF Cons.prems(1) assms(2,3)] by (auto split: option.splits)
  qed simp
  then have inv: "net_inv peers (sc_net s)" using assms(1) init_inv by (metis init_sections_def sections.select_convs(1))
  let ?t = "cc_term (nd_ctl (net_nodes (sc_net s) j))"
  have "(i, ?t) \<in> set (net_elected (sc_net s))" "(j, ?t) \<in> set (net_elected (sc_net s))"
    using net_invD(4) [OF inv] assms(4-6) by metis+
  then show ?thesis
    using majorities_agree [OF net_inv_parts(2) [OF inv] assms(2)] elected_okD [OF net_inv_parts(3) [OF inv]] by blast
qed

text \<open>
  Broker 1 leads term 1 and begins to create a topic; broker 3 wins term 2 with broker 1's own vote and creates the same
  topic; then broker 1 goes on.
\<close>

definition demo_takeover_of_topic :: "topic_event list" where
  "demo_takeover_of_topic =
     map Elsewhere demo_win @ [CreateBegins 1 ''t'' 1 1, CreateCounts 0 165] @
     map Elsewhere [DeliverVoteCall 1 170 150, StartElection 3 400 150, DeliverVoteCall 2 401 150, VoteReply 2 402 150,
       VoteCallFails 3 2, FinishElection 3, CreateTopicCall 3 ''t'' 1 1 410] @
     [CreateAssigns 0, Elsewhere (DeliverAssignments 3)]"

text \<open>
  A run of three brokers: broker 1 places the topic after broker 3 did, broker 3 takes the broadcast, and so leads
  term 2 and holds an assignment that it did not make.
\<close>

theorem deposed_controller_run:
  "\<exists>s. run_topics demo_peers demo_takeover_of_topic (init_sections demo_peers False) = Some s \<and>
     is_leader (nd_ctl (net_nodes (sc_net s) 3)) \<and> cc_term (nd_ctl (net_nodes (sc_net s) 3)) = 2 \<and>
     \<not> is_leader (nd_ctl (net_nodes (sc_net s) 1)) \<and> cc_term (nd_ctl (net_nodes (sc_net s) 1)) = 2 \<and>
     (1, [\<lparr>lie_topic = ''t'', lie_partitionId = 0, lie_leaderId = 3, lie_replicas = [3], lie_isr = [3]\<rparr>]) \<in> set (net_assignments (sc_net s)) \<and>
     map_of (cc_assignments (nd_ctl (net_nodes (sc_net s) 3))) (''t'', 0) = Some \<lparr>pa_leaderId = 1, pa_replicas = [1], pa_isr = [1]\<rparr>"
  by (simp add: net_eval demo_takeover_of_topic_def create_begins_def create_counts_def create_assigns_def create_topic_def
    restarted_def alive_broker_ids_def topic_assignment_def wire_entry_def persist_assignments_def assignments_to_peers_def
    apply_leader_and_isr_def entry_assignment_def init_sections_def stored_def remove_at_def Let_def)

lemma entry_of_wire:
  "entry_assignment (wire_entry key pa) = pa" "lie_topic (wire_entry key pa) = fst key" "lie_partitionId (wire_entry key pa) = snd key"
  by (simp_all add: entry_assignment_def wire_entry_def)

text \<open>
  C32: a controller that was deposed while it creates a topic still places it. Only a controller that holds the role begins,
  and one that has lost it refuses a new request; but the section that stores looks at neither the role nor the
  term. Whatever the controllers were when they counted the brokers and when they store, every partition of the topic
  gets the placement over the brokers that were counted, in the memory and the file of the deposed controller and,
  as the broadcast carries no term, at every broker that receives it, a controller of a later term included; whatever
  either held for that partition before is overwritten, and nothing else is touched.
\<close>

theorem deposed_controller_places_topic:
  assumes "create_begins c topic n rf = Some cr" "create_counts c2 cr now = Some cr'" "cr_alive cr' = Some alive"
    and "\<not> is_leader c3" "create_assigns c3 cr' alive = ((result, entries), c4)"
  shows "is_leader c \<and> create_topic c3 topic n rf later = ((None, []), c3) \<and>
    cc_role c4 = cc_role c3 \<and> cc_term c4 = cc_term c3 \<and>
    cc_assignments_file c4 = Some (concat (map assignment_line (cc_assignments c4))) \<and>
    (\<forall>p. unat p < unat n \<longrightarrow>
       map_of (cc_assignments c4) (topic, p) = Some (placement c2 rf now (unat p)) \<and>
       (\<forall>d. map_of (cc_assignments (apply_leader_and_isr d entries)) (topic, p) = Some (placement c2 rf now (unat p)))) \<and>
    (\<forall>key. fst key \<noteq> topic \<or> unat n \<le> unat (snd key) \<longrightarrow>
       map_of (cc_assignments c4) key = map_of (cc_assignments c3) key \<and>
       (\<forall>d. map_of (cc_assignments (apply_leader_and_isr d entries)) key = map_of (cc_assignments d) key))"
proof -
  have cr: "is_leader c" "cr_topic cr = topic" "cr_numPartitions cr = n" "cr_replicationFactor cr = rf"
    using assms(1) by (auto simp: create_begins_def split: if_splits)
  have al: "alive = alive_broker_ids c2 now" "cr' = cr\<lparr>cr_alive := Some alive\<rparr>"
    using assms(2,3) by (auto simp: create_counts_def Let_def split: if_splits)
  define xs where "xs = map (\<lambda>p. (of_nat p :: u32, placement c2 rf now p)) [0..<unat n]"
  have c4: "c4 = persist_assignments (c3\<lparr>cc_assignments := foldl (\<lambda>m (p, v). omap_put (topic, p) v m) (cc_assignments c3) xs\<rparr>)"
    and es: "entries = map (\<lambda>(p, pa). wire_entry (topic, p) pa) xs"
    using assms(5) by (auto simp: create_assigns_def al cr placement_def xs_def Let_def)
  have d: "cc_assignments (apply_leader_and_isr d entries) = foldl (\<lambda>m (p, v). omap_put (topic, p) v m) (cc_assignments d) xs" for d
    unfolding es apply_leader_and_isr_def persist_assignments_def foldl_map
    by (simp add: case_prod_unfold entry_of_wire)
  have "cc_assignments c4 = foldl (\<lambda>m (p, v). omap_put (topic, p) v m) (cc_assignments c3) xs"
    by (simp add: c4 persist_assignments_def)
  note look = stored_partitions [OF this [unfolded xs_def]] stored_partitions [OF d [unfolded xs_def]]
  show ?thesis
  proof (intro conjI allI impI)
    show "create_topic c3 topic n rf later = ((None, []), c3)" using assms(4) by (simp add: create_topic_def)
    show "cc_role c4 = cc_role c3" "cc_term c4 = cc_term c3"
      "cc_assignments_file c4 = Some (concat (map assignment_line (cc_assignments c4)))"
      by (simp_all add: c4 persist_assignments_def)
  qed (use look cr(1) in blast)+
qed

lemma deposed_controller_places_topic_witness:
  "\<exists>c4 entries. map_of (cc_assignments c4) (''t'', 0) = Some (placement demo_controller 1 950 0) \<and> \<not> is_leader c4 \<and>
     (\<forall>d. map_of (cc_assignments (apply_leader_and_isr d entries)) (''t'', 0) = Some (placement demo_controller 1 950 0))"
proof -
  let ?c3 = "demo_controller\<lparr>cc_role := Follower, cc_term := 2\<rparr>"
  obtain cr where cr: "create_begins demo_controller ''t'' 1 1 = Some cr" by (simp add: create_begins_def is_leader_def demo_controller_def)
  have "alive_broker_ids demo_controller 950 \<noteq> []"
    by (simp add: alive_broker_ids_def demo_controller_def all_ids_def demo_peers_def)
  then have cr': "create_counts demo_controller cr 950 = Some (cr\<lparr>cr_alive := Some (alive_broker_ids demo_controller 950)\<rparr>)"
    by (simp add: create_counts_def)
  have c3: "\<not> is_leader ?c3" by (simp add: is_leader_def)
  obtain result entries c4 where a: "create_assigns ?c3 (cr\<lparr>cr_alive := Some (alive_broker_ids demo_controller 950)\<rparr>)
      (alive_broker_ids demo_controller 950) = ((result, entries), c4)" by (metis surj_pair)
  have al: "cr_alive (cr\<lparr>cr_alive := Some (alive_broker_ids demo_controller 950)\<rparr>) = Some (alive_broker_ids demo_controller 950)"
    by simp
  note t = deposed_controller_places_topic [OF cr cr' al c3 a, of 0]
  have "cc_role c4 = Follower" using t by simp
  then have "\<not> is_leader c4" by (simp add: is_leader_def)
  moreover have "unat (0 :: u32) < unat (1 :: u32)" by simp
  then have "map_of (cc_assignments c4) (''t'', 0) = Some (placement demo_controller 1 950 (unat (0 :: u32)))"
    "\<forall>d. map_of (cc_assignments (apply_leader_and_isr d entries)) (''t'', 0) = Some (placement demo_controller 1 950 (unat (0 :: u32)))"
    using t by blast+
  ultimately show ?thesis unfolding unat_0 by blast
qed

text \<open>An ISR update that began under the role is stored and broadcast the same way after it is lost.\<close>

theorem deposed_controller_stores_isr:
  assumes "update_begins c topic p isr = Some iu" "\<not> is_leader c2" "map_of (cc_assignments c2) (topic, p) = Some pa"
  shows "is_leader c \<and> update_isr c2 topic p isr = ([], c2) \<and>
    (\<exists>c3. update_stores c2 iu = ([wire_entry (topic, p) (pa\<lparr>pa_isr := isr\<rparr>)], c3) \<and>
       map_of (cc_assignments c3) = (map_of (cc_assignments c2))((topic, p) \<mapsto> pa\<lparr>pa_isr := isr\<rparr>))"
  using assms by (auto simp: update_begins_def update_stores_def update_isr_def persist_assignments_def Let_def split: if_splits)

lemma deposed_controller_stores_isr_witness:
  "\<exists>c iu. is_leader c \<and> update_begins c ''t'' 0 [3] = Some iu"
proof -
  obtain iu where iu: "update_begins demo_controller ''t'' 0 [3] = Some iu"
    by (simp add: update_begins_def is_leader_def demo_controller_def)
  have "\<not> is_leader (demo_controller\<lparr>cc_role := Follower\<rparr>)"
    "map_of (cc_assignments (demo_controller\<lparr>cc_role := Follower\<rparr>)) (''t'', 0) = Some \<lparr>pa_leaderId = 3, pa_replicas = [3, 1, 2], pa_isr = [3, 2]\<rparr>"
    by (simp_all add: is_leader_def demo_controller_def)
  from deposed_controller_stores_isr [OF iu this] iu show ?thesis by blast
qed

end
