(* ===== verification/Timers.thy ===== *)
theory Timers
  imports ClusterLemmas IsrManager Coordinator SamplePartition
begin

text \<open>
  The time limits of the broker. Every one of them subtracts an earlier reading of \<open>system_clock\<close> from the present one
  as unsigned 64-bit milliseconds: who is alive (\<open>alive_broker_ids\<close>), who is in sync (\<open>recompute\<close>), which member of
  a group is silent (\<open>heartbeat\<close>). What these tests decide, also for a clock that was set back.
\<close>

unbundle bit_operations_syntax

section \<open>The difference of two readings\<close>

text \<open>Not later than now, and at most \<open>d\<close> milliseconds ago.\<close>

definition recent :: "u64 \<Rightarrow> u64 \<Rightarrow> nat \<Rightarrow> bool" where
  "recent now t d \<longleftrightarrow> unat t \<le> unat now \<and> unat now \<le> unat t + d"

lemma elapsed_within:
  fixes now t d :: u64
  assumes "unat now < 2 ^ 63" "unat t < 2 ^ 63" "unat d < 2 ^ 63"
  shows "now - t \<le> d \<longleftrightarrow> recent now t (unat d)"
proof -
  have gen: "(if int b \<le> int a then int a - int b else int a - int b + 2 ^ 64) \<le> int e \<longleftrightarrow> b \<le> a \<and> a \<le> b + e"
    if "a < 2 ^ 63" "b < 2 ^ 63" "e < 2 ^ 63" for a b e :: nat
    using that by auto
  have "now - t \<le> d \<longleftrightarrow> uint (now - t) \<le> uint d" by (simp only: word_le_def)
  also have "\<dots> \<longleftrightarrow> (if uint t \<le> uint now then uint now - uint t else uint now - uint t + 2 ^ 64) \<le> uint d"
    by (simp only: uint_sub_if' if_distrib [of "\<lambda>x. x \<le> uint d"]) (simp add: uint_sub_if')
  also have "\<dots> \<longleftrightarrow> (if int (unat t) \<le> int (unat now) then int (unat now) - int (unat t)
      else int (unat now) - int (unat t) + 2 ^ 64) \<le> int (unat d)" by simp
  also have "\<dots> \<longleftrightarrow> recent now t (unat d)"
    unfolding recent_def by (rule gen [OF assms])
  finally show ?thesis .
qed

lemma unat_ucast_u32 [simp]: "unat (ucast (w :: u32) :: u64) = unat w"
  by transfer (simp add: take_bit_take_bit)

lemma small_u32: "unat (w :: u32) < 2 ^ 63"
  using unsigned_less [of w, where ?'a = nat] by simp

text \<open>
  C30: each time limit is what its name says as long as clocks read less than \<open>2\<^sup>6\<^sup>3\<close> milliseconds, and treats a reading that
  lies in the future as infinitely old. A broker counts as alive when its last answer is not in the future and at
  most 600 ms old; a follower is in sync when its last fetch is not in the future and at most 1000 ms old, and
  it lags at most 1000 records; a member of a group is dropped when its last heartbeat is older than
  its session timeout, or in the future.
\<close>

theorem timers_measure_elapsed:
  assumes "unat now < 2 ^ 63" "\<forall>i t. map_of (cc_lastAlive c) i = Some t \<longrightarrow> unat t < 2 ^ 63"
    and "\<forall>i t. map_of (ps_lastFetchMs st) i = Some t \<longrightarrow> unat t < 2 ^ 63" "unat (ms_lastHeartbeatMs ms) < 2 ^ 63"
  shows "(i \<in> set (alive_broker_ids c now) \<longleftrightarrow> i \<in> set (all_ids (cc_membership c)) \<and>
      (i = mb_self (cc_membership c) \<or> (\<exists>t. map_of (cc_lastAlive c) i = Some t \<and> recent now t 600))) \<and>
    (in_sync self leo now st j \<longleftrightarrow> j = self \<or>
      (\<exists>t progress. map_of (ps_lastFetchMs st) j = Some t \<and> map_of (ps_followerProgress st) j = Some progress \<and>
         recent now t 1000 \<and> unat progress \<le> unat leo \<and> unat leo \<le> unat progress + 1000)) \<and>
    (stale_member memberId now (m, ms) \<longleftrightarrow>
      m \<noteq> memberId \<and> \<not> recent now (ms_lastHeartbeatMs ms) (unat (ms_sessionTimeoutMs ms)))"
proof (intro conjI)
  have "now - t \<le> kAliveThresholdMs \<longleftrightarrow> recent now t 600" if "map_of (cc_lastAlive c) i = Some t" for t
    using elapsed_within [OF assms(1), of t kAliveThresholdMs] assms(2) that by (simp add: kAliveThresholdMs_def)
  then show "i \<in> set (alive_broker_ids c now) \<longleftrightarrow> i \<in> set (all_ids (cc_membership c)) \<and>
      (i = mb_self (cc_membership c) \<or> (\<exists>t. map_of (cc_lastAlive c) i = Some t \<and> recent now t 600))"
    by (auto simp: alive_broker_ids_def split: option.splits)
  have t: "now - t \<le> kReplicaLagTimeMs \<longleftrightarrow> recent now t 1000" if "map_of (ps_lastFetchMs st) j = Some t" for t
    using elapsed_within [OF assms(1), of t kReplicaLagTimeMs] assms(3) that by (simp add: kReplicaLagTimeMs_def)
  have l: "progress \<le> leo \<and> leo - progress \<le> kReplicaMaxLagMessages \<longleftrightarrow>
      unat progress \<le> unat leo \<and> unat leo \<le> unat progress + 1000" for progress
    by (auto simp: word_le_nat_alt unat_sub kReplicaMaxLagMessages_def)
  show "in_sync self leo now st j \<longleftrightarrow> j = self \<or>
      (\<exists>t progress. map_of (ps_lastFetchMs st) j = Some t \<and> map_of (ps_followerProgress st) j = Some progress \<and>
         recent now t 1000 \<and> unat progress \<le> unat leo \<and> unat leo \<le> unat progress + 1000)"
    unfolding in_sync_def using t l by (auto split: option.splits)
  show "stale_member memberId now (m, ms) \<longleftrightarrow>
      m \<noteq> memberId \<and> \<not> recent now (ms_lastHeartbeatMs ms) (unat (ms_sessionTimeoutMs ms))"
    using elapsed_within [OF assms(1,4), of "ucast (ms_sessionTimeoutMs ms)"] small_u32 [of "ms_sessionTimeoutMs ms"]
    by (simp add: stale_member_def not_le [symmetric])
qed

lemma demo_answers: "map_of (cc_lastAlive demo_controller) i = Some t \<Longrightarrow> t = 900 \<or> t = 100"
  by (simp add: demo_controller_def split: if_splits)

text \<open>A led partition with one record and a follower that fetched it at time 900.\<close>

definition demo_led :: partition_state where
  "demo_led = \<lparr>ps_partition = Some (''t'', 0), ps_replicas = [1, 2], ps_isr = [1, 2], ps_followerProgress = [(2, 0)],
     ps_lastFetchMs = [(2, 900)]\<rparr>"

lemma demo_led_fetch: "map_of (ps_lastFetchMs demo_led) i = Some t \<Longrightarrow> t = 900"
  by (simp add: demo_led_def split: if_splits)

lemma timers_measure_elapsed_witness:
  "2 \<in> set (alive_broker_ids demo_controller 1000) \<and> \<not> 3 \<in> set (alive_broker_ids demo_controller 1000) \<and>
   in_sync 1 1 1000 demo_led 2 \<and> \<not> in_sync 1 1 800 demo_led 2 \<and>
   stale_member ''a'' 1000 (''b'', \<lparr>ms_sessionTimeoutMs = 500, ms_lastHeartbeatMs = 400\<rparr>)"
proof -
  let ?ms = "\<lparr>ms_sessionTimeoutMs = 500, ms_lastHeartbeatMs = 400\<rparr>"
  have a: "\<forall>i t. map_of (cc_lastAlive demo_controller) i = Some t \<longrightarrow> unat t < 2 ^ 63"
    by (intro allI impI) (auto dest!: demo_answers)
  have f: "\<forall>i t. map_of (ps_lastFetchMs demo_led) i = Some t \<longrightarrow> unat t < 2 ^ 63"
    by (intro allI impI) (auto dest!: demo_led_fetch)
  have ids: "set (all_ids (cc_membership demo_controller)) = {1, 2, 3}" "mb_self (cc_membership demo_controller) = 1"
    "map_of (cc_lastAlive demo_controller) 2 = Some 900" "map_of (cc_lastAlive demo_controller) 3 = Some 100"
    by (simp_all add: demo_controller_def all_ids_def demo_peers_def)
  note at = timers_measure_elapsed [OF _ a f, of _ ?ms]
  show ?thesis
    using at [of 1000 2 1 1 2 "''a''" "''b''"] at [of 1000 3 1 1 2 "''a''" "''b''"] at [of 800 2 1 1 2 "''a''" "''b''"]
    by (simp add: ids recent_def demo_led_def)
qed

section \<open>A clock that is set back\<close>

lemma future_not_recent: "unat now < unat t \<Longrightarrow> \<not> recent now t d"
  by (simp add: recent_def)

lemma future_out_of_sync:
  assumes "\<forall>i t. map_of (ps_lastFetchMs st) i = Some t \<longrightarrow> unat t < 2 ^ 63 \<and> unat now < unat t" "in_sync self leo now st i"
  shows "i = self"
proof (rule ccontr)
  assume "i \<noteq> self"
  with assms(2) obtain t where t: "map_of (ps_lastFetchMs st) i = Some t" "now - t \<le> kReplicaLagTimeMs" by (rule in_syncD)
  then have "recent now t 1000" using elapsed_within [of now t kReplicaLagTimeMs] assms(1) by (force simp: kReplicaLagTimeMs_def)
  then show False using future_not_recent assms(1) t(1) by blast
qed

text \<open>
  C31: when the clock of a partition's leader is set back behind the last fetch of every follower, its next recompute takes
  all of them for dead, although they fetch: the ISR shrinks to the leader, the high watermark becomes the
  end of the log, and a producer that waits for all replicas is told that its records are replicated when no
  follower has them.
\<close>

theorem clock_back_acknowledges_unreplicated:
  assumes "map_of (im_partitions m) key = Some st" "ps_partition st = Some ref" "map_of parts ref = Some p"
    and "unat (pt_next p) < 2 ^ 63"
    and "\<forall>i t. map_of (ps_lastFetchMs st) i = Some t \<longrightarrow> unat t < 2 ^ 63 \<and> unat now < unat t"
    and "on_leader_append m parts key now = (changed, m', parts')"
  shows "set (isr_for m' key) \<subseteq> {im_selfBrokerId m} \<and> (\<forall>offset < log_end_offset p. hwm_passed m' parts' key offset)"
proof -
  obtain st' where r: "recompute (im_selfBrokerId m) st parts now = (changed, st', parts')"
    and m': "m' = m\<lparr>im_partitions := omap_put key st' (im_partitions m)\<rparr>"
    using assms(1,6) by (auto simp: on_leader_append_def split: prod.splits)
  let ?leo = "word_of_int (log_end_offset p) :: u64"
  note rc = recompute_cases [OF r assms(2,3)]
  have leo: "?leo = pt_next p" by (simp add: log_end_offset_def)
  have isr: "set (ps_isr st') \<subseteq> {im_selfBrokerId m}" unfolding rc(1) using future_out_of_sync [OF assms(5)] by auto
  then have none: "set (ps_isr st') - {im_selfBrokerId m} = {}" by blast
  then have "sint (isr_hwm (im_selfBrokerId m) ?leo st (ps_isr st')) = int (unat (pt_next p))"
    using isr_hwm_int [of ?leo "im_selfBrokerId m" st "ps_isr st'"] assms(4) by (simp add: leo none)
  then have "map_of parts' ref = Some (set_high_watermark p (log_end_offset p))"
    using assms(4) by (simp add: rc log_end_offset_def sint_small_u64)
  moreover have "ps_partition st' = Some ref" by (simp add: rc(1) assms(2))
  ultimately have "hwm_passed m' parts' key offset" if "offset < log_end_offset p" for offset
    using that by (simp add: hwm_passed_def m' set_high_watermark_def high_watermark_def)
  moreover have "isr_for m' key = ps_isr st'" by (simp add: isr_for_def m')
  ultimately show ?thesis using isr by simp
qed

lemma clock_back_acknowledges_unreplicated_witness:
  "\<exists>m' parts'. snd (on_leader_append \<lparr>im_selfBrokerId = 1, im_partitions = [((''t'', 0), demo_led)]\<rparr>
        [((''t'', 0), demo_partition)] (''t'', 0) 899) = (m', parts') \<and>
     isr_for \<lparr>im_selfBrokerId = 1, im_partitions = [((''t'', 0), demo_led)]\<rparr> (''t'', 0) = [1, 2] \<and>
     map_of (ps_followerProgress demo_led) 2 = Some 0 \<and> set (isr_for m' (''t'', 0)) \<subseteq> {1} \<and> hwm_passed m' parts' (''t'', 0) 1"
proof -
  let ?m = "\<lparr>im_selfBrokerId = 1, im_partitions = [((''t'', 0), demo_led)]\<rparr>"
  let ?parts = "[((''t'', 0 :: u32), demo_partition)]"
  obtain changed m' parts' where r: "on_leader_append ?m ?parts (''t'', 0) 899 = (changed, m', parts')" by (metis prod_cases3)
  have nxt: "pt_next demo_partition = 2" using demo_partition(1) by (auto simp: part_inv_def demo_log_def)
  have n: "unat (pt_next demo_partition) < 2 ^ 63" "log_end_offset demo_partition = 2" by (simp_all add: nxt log_end_offset_def)
  have f: "\<forall>i t. map_of (ps_lastFetchMs demo_led) i = Some t \<longrightarrow> unat t < 2 ^ 63 \<and> unat (899 :: u64) < unat t"
    by (intro allI impI) (auto dest!: demo_led_fetch)
  have i: "map_of (im_partitions ?m) (''t'', 0) = Some demo_led" by simp
  have p: "ps_partition demo_led = Some (''t'', 0)" "map_of ?parts (''t'', 0) = Some demo_partition" by (simp_all add: demo_led_def)
  have "set (isr_for m' (''t'', 0)) \<subseteq> {1} \<and> hwm_passed m' parts' (''t'', 0) 1"
    using clock_back_acknowledges_unreplicated [OF i p n(1) f r] n(2) by simp
  then show ?thesis using r by (simp add: isr_for_def demo_led_def)
qed

text \<open>The same step of the controller's clock makes every other broker dead to it, and it takes their partitions.\<close>

lemma clock_back_replaces_live_leaders:
  assumes "\<forall>i t. map_of (cc_lastAlive c) i = Some t \<longrightarrow> unat t < 2 ^ 63 \<and> unat now < unat t"
    and "self = mb_self (cc_membership c)" "self \<in> set (all_ids (cc_membership c))"
    and "map_of (cc_assignments c) key = Some pa" "pa_leaderId pa \<noteq> self" "self \<in> set (pa_isr pa)"
  shows "map_option pa_leaderId (map_of (cc_assignments (snd (check_partition_failover c now))) key) = Some self"
proof -
  have d: "\<not> now - t \<le> kAliveThresholdMs" if "map_of (cc_lastAlive c) i = Some t" for i t
    using elapsed_within [of now t kAliveThresholdMs] assms(1) that future_not_recent [of now t 600]
    by (force simp: kAliveThresholdMs_def)
  then have alive: "set (alive_broker_ids c now) = {self}"
    using assms(2,3) by (auto simp: alive_broker_ids_def split: option.splits)
  obtain r c' where r: "check_partition_failover c now = (r, c')" by (metis surj_pair)
  have "alive_others (alive_broker_ids c now) pa (pa_isr pa) = {self}"
    using assms(5,6) alive by (auto simp: alive_others_def)
  then have "pa_leaderId (failed_over c now pa) = self"
    using alive assms(5) by (simp add: failed_over_def failover_one_cases)
  then show ?thesis by (simp add: r failover_map [OF r] map_of_map_values assms(4))
qed

end
