(* ===== verification/FullDisk.thy ===== *)
theory FullDisk
  imports SamplePartition
begin

text \<open>
  Appends to a disk that takes only part of them. \<open>Segment::append\<close> writes to an \<open>ofstream\<close> and never asks whether
  the stream is still good: after the first write that falls short the stream ignores the others, but the sizes,
  the offsets and the high watermark advance as if all had been written. \<open>room\<close> is the number of bytes the
  log file still takes; the entries of the index file are taken to fit.
\<close>

unbundle bit_operations_syntax

section \<open>A short write\<close>

definition append_one_short :: "(files \<times> segment) \<times> nat \<Rightarrow> log_record \<Rightarrow> (files \<times> segment) \<times> nat" where
  "append_one_short st rec =
     (let ((fs, seg), room) = st;
          relOffset = ucast (rec_offset rec - seg_base seg);
          (fs, seg) = index_frame fs seg relOffset (seg_size seg);
          encoded = encode_record [] rec;
          fs = append_file fs (seg_log seg) (take room encoded)
      in ((fs, seg\<lparr>seg_size := seg_size seg + of_nat (length encoded),
                   seg_since := seg_since seg + of_nat (length encoded)\<rparr>), room - length encoded))"

definition seg_append_short :: "files \<Rightarrow> segment \<Rightarrow> log_record list \<Rightarrow> nat \<Rightarrow> files \<times> segment" where
  "seg_append_short fs seg records room = fst (foldl append_one_short ((fs, seg), room) records)"

definition pt_append_short :: "partition \<Rightarrow> log_record list \<Rightarrow> u64 \<Rightarrow> nat \<Rightarrow> i64 \<times> partition" where
  "pt_append_short p records now_ms room =
     (if records = [] then (sint (pt_next p), p)
      else let p = maybe_roll p;
               base = sint (pt_next p);
               (records, next) = stamp_records (pt_next p) now_ms records;
               (fs, seg) = seg_append_short (pt_files p) (last (pt_segments p)) records room;
               p = p\<lparr>pt_next := next, pt_files := fs, pt_segments := butlast (pt_segments p) @ [seg]\<rparr>
           in (base, p\<lparr>pt_hwm := sint (pt_next p)\<rparr>))"

section \<open>The same append, with the log file cut\<close>

text \<open>The files of a short append are those of the whole one but for the log file, which ends after \<open>n\<close> bytes.\<close>

definition cut_log :: "string \<Rightarrow> nat \<Rightarrow> files \<Rightarrow> files \<Rightarrow> bool" where
  "cut_log path n fs short \<longleftrightarrow>
     omap_ok fs \<and> omap_ok short \<and> (\<forall>q. q \<noteq> path \<longrightarrow> map_of short q = map_of fs q) \<and>
     map_of short path = map_option (take n) (map_of fs path)"

lemma cut_log_append_other:
  "cut_log path n fs short \<Longrightarrow> q \<noteq> path \<Longrightarrow> cut_log path n (append_file fs q d) (append_file short q d)"
  by (simp add: cut_log_def append_file_def read_whole_file_def)

lemma cut_log_append:
  assumes "cut_log path n fs short" "map_of fs path = Some old" "room = n - length old"
  shows "cut_log path n (append_file fs path d) (append_file short path (take room d))"
  using assms by (simp add: cut_log_def append_file_def read_whole_file_def)

lemma append_one_short_cut:
  assumes c: "cut_log (seg_log seg) n fs short" and ne: "seg_log seg \<noteq> seg_idx seg"
    and old: "map_of fs (seg_log seg) = Some old" "length old = sz"
    and a: "append_one (fs, seg) rec = (fs', seg')"
  shows "\<exists>short'. append_one_short ((short, seg), n - sz) rec = ((short', seg'), n - (sz + frame_size rec)) \<and>
    cut_log (seg_log seg') n fs' short' \<and> seg_log seg' = seg_log seg \<and> seg_idx seg' = seg_idx seg \<and>
    map_of fs' (seg_log seg) = Some (old @ encode_record [] rec)"
proof -
  let ?rel = "ucast (rec_offset rec - seg_base seg) :: u32"
  obtain fs1 seg1 where i: "index_frame fs seg ?rel (seg_size seg) = (fs1, seg1)" by fastforce
  obtain short1 where j: "index_frame short seg ?rel (seg_size seg) = (short1, seg1)" "cut_log (seg_log seg) n fs1 short1"
    using i c cut_log_append_other [OF c ne [symmetric]]
    by (auto simp: index_frame_def append_index_entry_def split: if_splits)
  have f: "seg_log seg1 = seg_log seg" "seg_idx seg1 = seg_idx seg" "map_of fs1 (seg_log seg) = Some old"
    using i ne old by (auto simp: index_frame_def append_index_entry_def append_file_def split: if_splits)
  have "fs' = append_file fs1 (seg_log seg) (encode_record [] rec)" "seg_log seg' = seg_log seg" "seg_idx seg' = seg_idx seg"
    using a i f by (auto simp: append_one_def)
  moreover have "append_one_short ((short, seg), n - sz) rec =
      ((append_file short1 (seg_log seg) (take (n - sz) (encode_record [] rec)), seg'), n - (sz + frame_size rec))"
    using a i j f by (auto simp: append_one_short_def append_one_def)
  ultimately show ?thesis
    using cut_log_append [OF j(2) f(3), of "n - sz" "encode_record [] rec"] f old
    by (auto simp: append_file_def read_whole_file_def)
qed

lemma seg_append_short_cut:
  assumes "cut_log (seg_log seg) n fs short" "seg_log seg \<noteq> seg_idx seg" "map_of fs (seg_log seg) = Some old"
    and "seg_append fs seg recs = (fs', seg')"
  shows "\<exists>short'. seg_append_short short seg recs (n - length old) = (short', seg') \<and> cut_log (seg_log seg') n fs' short'"
  using assms
proof (induction recs arbitrary: fs short seg old)
  case Nil
  then show ?case by (simp add: seg_append_def seg_append_short_def)
next
  case (Cons rec recs)
  obtain fs1 seg1 where a: "append_one (fs, seg) rec = (fs1, seg1)" by fastforce
  from append_one_short_cut [OF Cons.prems(1-3) refl a] obtain short1 where
    s: "append_one_short ((short, seg), n - length old) rec = ((short1, seg1), n - (length old + frame_size rec))"
      "cut_log (seg_log seg1) n fs1 short1" "seg_log seg1 = seg_log seg" "seg_idx seg1 = seg_idx seg"
      "map_of fs1 (seg_log seg) = Some (old @ encode_record [] rec)" by blast
  have "seg_append fs1 seg1 recs = (fs', seg')" using Cons.prems(4) a by (simp add: seg_append_def)
  from Cons.IH [of seg1 fs1 short1 "old @ encode_record [] rec", OF _ _ _ this] s Cons.prems(2)
  show ?case by (simp add: seg_append_short_def)
qed

lemma pt_append_short_files:
  assumes inv: "part_inv p log" and rs: "batch_ok rs" "length log + length rs < 2 ^ 63" "rs \<noteq> []"
  shows "\<exists>idx. pt_append_short p rs ts room = (int (length log), (snd (pt_append p rs ts))\<lparr>pt_files :=
    cut_active (snd (pt_append p rs ts)) (length (active_bytes (maybe_roll p)) + room) (Some idx)\<rparr>)"
proof -
  let ?n = "length (active_bytes (maybe_roll p)) + room"
  obtain rs' n' where s: "stamp_records (of_nat (length log)) ts rs = (rs', n')" by fastforce
  note st = stamp_records [OF s]
  have ok: "batch_ok rs'" "contiguous (of_nat (length log)) rs'" "length log + length rs' < 2 ^ 63"
    using st rs by (simp_all add: batch_ok_def)
  obtain closed active seg recss recs where l: "layout (maybe_roll p) closed active recss recs"
    and l1: "layout (append_active (maybe_roll p) rs') closed seg recss (recs @ rs')"
    using append_layouts [OF inv ok] by blast
  obtain fs where a: "seg_append (pt_files (maybe_roll p)) active rs' = (fs, seg)"
    "append_active (maybe_roll p) rs' = (maybe_roll p)\<lparr>pt_files := fs, pt_segments := butlast (pt_segments (maybe_roll p)) @ [seg]\<rparr>"
    using layout_active(1) [OF l] layout_active(1) [OF l1] by (cases "seg_append (pt_files (maybe_roll p)) active rs'") (auto simp: append_active_def)
  have nm: "named (seg_base active) active" "named (seg_base seg) seg" using layoutD(1,2) [OF l] layoutD(1,2) [OF l1] by simp_all
  have old: "map_of (pt_files (maybe_roll p)) (seg_log active) = Some (active_bytes (maybe_roll p))"
    using layout_active(3) [OF l] layoutD(3) [OF l] by (auto simp: seg_inv_def files_inv_def)
  have "cut_log (seg_log active) ?n (pt_files (maybe_roll p)) (pt_files (maybe_roll p))"
    using old l by (simp add: cut_log_def layout_def)
  from seg_append_short_cut [OF this _ old a(1)] obtain short where
    short: "seg_append_short (pt_files (maybe_roll p)) active rs' room = (short, seg)" "cut_log (seg_log seg) ?n fs short"
    by (auto simp: namedD(1,2) [OF nm(1)])
  have q: "snd (pt_append p rs ts) = (append_active (maybe_roll p) rs')
      \<lparr>pt_next := of_nat (length log + length rs), pt_hwm := sint (of_nat (length log + length rs) :: u64)\<rparr>"
    using pt_append_state [OF inv rs(3)] s by simp
  have "pt_append_short p rs ts room = (int (length log), (snd (pt_append p rs ts))\<lparr>pt_files := short\<rparr>)"
    using rs(3) s st part_inv_next [OF inv] layout_active(1) [OF l] short(1) part_inv_bound [OF inv]
    by (simp add: pt_append_short_def q a(2) Let_def split: prod.split)
  moreover have "short = cut_active (snd (pt_append p rs ts)) ?n (Some (the (map_of fs (seg_idx seg))))"
  proof -
    have d: "map_of fs (seg_log seg) = Some (frames (recs @ rs'))" "\<exists>d. map_of fs (seg_idx seg) = Some d"
      using layoutD(3) [OF l1] unfolding a(2) by (auto simp: seg_inv_def files_inv_def)
    have ne: "seg_log seg \<noteq> seg_idx seg" by (simp add: namedD(1,2) [OF nm(2)])
    show ?thesis
      using short(2) d ne by (intro omap_ext)
        (auto simp: cut_active_def q a(2) Let_def cut_log_def read_whole_file_def fun_eq_iff)
  qed
  ultimately show ?thesis by metis
qed

text \<open>
  C21: a produce on a full disk is acknowledged and lost. When the log file takes only a part of a batch, \<open>append\<close>
  still returns the batch's first offset and moves the end of the log and the high watermark past the whole batch,
  so its producer is told that it was written; what a restart finds is the log as it was, followed by a strict
  prefix of the batch.
\<close>

theorem full_disk_acknowledges_lost_records:
  assumes "part_inv p log" "batch_ok rs" "length log + length rs < 2 ^ 63" "rs \<noteq> []"
    and "stamped = fst (stamp_records (of_nat (length log)) ts rs)" "room < length (frames stamped)"
    and "pt_append_short p rs ts room = (base, p')"
  shows "base = int (length log) \<and> log_end_offset p' = int (length log + length rs) \<and>
    high_watermark p' = int (length log + length rs) \<and>
    (\<exists>q kept. recover (new_partition (pt_files p') (pt_maxSegBytes p')) = Inr q \<and> strict_prefix kept stamped \<and>
       part_inv q (log @ kept) \<and> high_watermark q = int (length (log @ kept)))"
proof -
  obtain idx where s: "pt_append_short p rs ts room = (int (length log), (snd (pt_append p rs ts))\<lparr>pt_files :=
      cut_active (snd (pt_append p rs ts)) (length (active_bytes (maybe_roll p)) + room) (Some idx)\<rparr>)"
    using pt_append_short_files [OF assms(1-4)] by blast
  then have p': "base = int (length log)" "p' = (snd (pt_append p rs ts))\<lparr>pt_files :=
      cut_active (snd (pt_append p rs ts)) (length (active_bytes (maybe_roll p)) + room) (Some idx)\<rparr>"
    using assms(7) by simp_all
  have sint: "sint (of_nat (length log + length rs) :: u64) = int (length log + length rs)" using assms(3) by (simp only: sint_of_nat_u64)
  have ends: "log_end_offset p' = int (length log + length rs)" "high_watermark p' = int (length log + length rs)"
    "pt_maxSegBytes p' = pt_maxSegBytes p"
    by (simp_all add: p' pt_append_state [OF assms(1,4)] log_end_offset_def high_watermark_def sint del: of_nat_add)
  obtain q where "recover (new_partition (pt_files p') (pt_maxSegBytes p')) = Inr q" "part_inv q (log @ byte_prefix room stamped)"
    "pt_hwm q = int (length (log @ byte_prefix room stamped))"
    using recover_cut_append_exact [OF assms(1-4) _ refl, of "length (active_bytes (maybe_roll p)) + room" ts "Some idx"]
    unfolding ends(3) assms(5) by (simp add: p') blast
  moreover have "strict_prefix (byte_prefix room stamped) stamped"
  proof -
    have "byte_prefix room stamped \<noteq> stamped" using byte_prefix_fits [of room stamped] assms(6) by auto
    then show ?thesis using prefix_order.le_neq_trans [OF byte_prefix_prefix] by blast
  qed
  ultimately show ?thesis using p'(1) ends unfolding high_watermark_def by blast
qed

lemma full_disk_acknowledges_lost_records_witness:
  "\<exists>base p' q kept. pt_append_short demo_fresh demo_records 7 40 = (base, p') \<and> high_watermark p' = 2 \<and>
     recover (new_partition (pt_files p') (pt_maxSegBytes p')) = Inr q \<and> strict_prefix kept demo_log \<and> part_inv q kept"
proof -
  obtain base p' where a: "pt_append_short demo_fresh demo_records 7 40 = (base, p')" by fastforce
  have st: "demo_log = fst (stamp_records (of_nat (length ([] :: log_record list))) 7 demo_records)"
    and l: "40 < length (frames demo_log)" by (simp_all add: demo_batch demo_log_ok)
  show ?thesis
    using full_disk_acknowledges_lost_records [OF demo_fresh(1) demo_batch(1) _ demo_batch(3) st l a] a
    by (simp add: demo_batch) blast
qed

end
