(* ===== verification/Spec2Isabelle.thy ===== *)
theory Spec2Isabelle
  imports StorageProps ProtocolProps Sockets ClusterProps PeerCalls ReplicationProps Takeover GroupProps BrokerProps ClientProps
    Retries GroupClient Heartbeats Wire Arguments TornFiles TornOffsets TopicSections Timers FullDisk
begin

text \<open>
  A verification development for a distributed log broker in C++ (the sources under \<open>src/\<close>, the command line
  programs under \<open>cli/\<close>).

  \<^bold>\<open>The program.\<close> A broker keeps partitioned commit logs on disk and serves a length-prefixed binary protocol over TCP.
  Brokers of a cluster elect a controller (terms, votes, heartbeats), which assigns partitions to brokers and replaces
  dead leaders; the leader of a partition appends, its followers pull, and the high watermark is what all in-sync
  replicas have. Consumers form groups: a coordinator forms generations, the group's leader assigns partitions, offsets
  are committed to a file. The command line programs are a producer, a consumer, an administrator and the broker itself.

  \<^bold>\<open>Theories and the code they model.\<close>

  \<^item> \<open>Prelude\<close>: machine types, errors as sums (\<open>bindE\<close>), \<open>std::map\<close> as an ordered association list (\<open>omap_put\<close>).
    \<open>CppText\<close>: printing and reading numbers, formatted streams, file-name parts.
  \<^item> \<open>Codec\<close> (\<open>common/codec\<close>): writers, the bounds-checked reader, the locale \<open>codec\<close>, the contract between an encoder and
    its decoder, and \<open>typed_codec\<close>, which adds that a decoder only returns values of the type; every primitive, list and
    message is an interpretation. \<open>Crc32\<close>, \<open>Murmur2\<close> (\<open>common/\<close>).
  \<^item> \<open>LogRecord\<close>, \<open>Segment\<close>, \<open>Partition\<close> (\<open>storage/\<close>): record frames, one segment with its sparse index, the commit log with
    recovery, append, replicated append and reads; files are byte lists by name. \<open>SegmentSpec\<close> and \<open>PartitionSpec\<close> hold the
    abstract view, a list of records (\<open>seg_inv\<close>, \<open>part_inv\<close>), and the lemmas that every operation implements it.
    \<open>SamplePartition\<close> and \<open>StorageProps\<close>: instances and properties. \<open>FullDisk\<close>: appends of which the log file takes only a part.
  \<^item> \<open>Messages\<close>, \<open>ClientMessages\<close>, \<open>GroupMessages\<close>, \<open>ClusterMessages\<close> (\<open>protocol/\<close>): request types, error codes and every
    message; \<open>Frames\<close> (\<open>net/\<close>): frames and the session loop over the bytes of a connection; \<open>ProtocolProps\<close>.
    \<open>Sockets\<close> (\<open>net/\<close>): the send and receive loops over what the kernel answers (bytes, an interruption, an error, or
    \<open>SIGPIPE\<close>, which ends the process, as the code sends with flags 0 and handles no signal), the descriptors that \<open>Socket\<close> objects
    own, the accept loop.
  \<^item> \<open>Controller\<close> (\<open>cluster/\<close>): membership, the controller's state and every section under its lock, both state files.
    \<open>Election\<close>: the controllers of a cluster as a step relation (\<open>net_step\<close>) whose messages are lost, repeated and delayed at
    will and whose members restart from their files; its invariant. \<open>ClusterLemmas\<close>, \<open>ClusterProps\<close>.
    \<open>PeerCalls\<close>: \<open>ClusterMembership::call\<close> over a kept connection that may break at any byte, kill the caller by \<open>SIGPIPE\<close> or stay
    silent for good, and the threads that ask for votes and send heartbeats through it. \<open>TopicSections\<close>: \<open>create_topic\<close> in its
    three sections and \<open>update_isr\<close> in its two, with elections between them (\<open>topic_step\<close>). \<open>TornFiles\<close>: crashes that cut the state files short, and elections with such crashes (\<open>crash_step\<close>).
  \<^item> \<open>IsrManager\<close>, \<open>Follower\<close> (\<open>replication/\<close>): in-sync replicas and the high watermark, one pass of the fetch loop.
    \<open>Replication\<close>: one partition with its leader and followers as a step relation (\<open>rep_step\<close>); \<open>ReplicationProps\<close>.
    \<open>Takeover\<close>: the same with the controller that hears of the ISR and elects the next leader (\<open>takeover_step\<close>);
    the reports of the ISR may arrive in any order, repeatedly or never.
  \<^item> \<open>Coordinator\<close> (\<open>group/\<close>): every operation; one that blocks is the section before its wait and the section after it.
    \<open>GroupRuns\<close>: interleavings of those sections (\<open>group_step\<close>); \<open>GroupProps\<close>. \<open>TornOffsets\<close>: an offsets file that was cut
    short. \<open>Timers\<close>: the time limits of the controller, of replication and of the groups, for a clock that may be set back.
  \<^item> \<open>Broker\<close>, \<open>Dispatch\<close> (\<open>broker/\<close>): the broker's state, every handler, the dispatch, the ISR callback and the
    reconciliation of replication with the assignments. \<open>BrokerLemmas\<close> relates a broker to the logs behind its keys
    (\<open>logs_ok\<close>); \<open>BrokerProps\<close>.
  \<^item> \<open>Clients\<close> (\<open>cli/\<close>): the programs over a network parameter, whose calls are answered, lost, left unanswered on an open
    connection (the program hangs, as sockets have no timeout) or broken (\<open>SIGPIPE\<close> kills it). \<open>ClientProps\<close> puts brokers at
    the other end, \<open>GroupClient\<close> follows a group's members over generations, \<open>Heartbeats\<close> puts heartbeats of any members
    between the polls, \<open>Wire\<close> shows that this network is what the bytes between client and server make up, \<open>Retries\<close> counts
    what the producer does before it gives up and what keeps it from returning. \<open>Arguments\<close>: the four \<open>main\<close> functions with their command lines.

  \<^bold>\<open>What the properties show.\<close> Storage: recovery after a crash or damage keeps exactly what the files prove, reads are
  slices of the log, appends extend it. Protocol: messages and frames round-trip, decoders are type sound and stay in their buffer, the loops under
  them carry every byte, no descriptor leaks, a request over the wire, waits included, is one call of the broker or
  nothing, answered, lost, or left unanswered.
  Cluster: one leader and one winner per term, a counted vote is on the voter's disk, a request sent twice counts once, answers belong to their calls, assignments survive a restart. Replication:
  followers hold prefixes, a settled high watermark is on every in-sync replica, acknowledged records survive a clean
  failover of a controller that took the leader's last report last (the code does not ensure it). Groups: one leader per generation, every partition has one reader, committed offsets
  survive, and what the members of a group print of a partition, the second after the first, is its log, each record once,
  across a hand-over and among heartbeats. Broker and clients: no request loses a record, what is produced is fetched, a redirected producer appends once; a producer gives up
  after its attempts and returns unless a request is never answered or kills it, a consumer prints the log, command lines mean what they say or send nothing. Failures of the machine: what a
  broker reads from a state file that was cut short, what time limits decide, what a disk that is full leaves of a
  batch. Some theorems state behaviour that is hardly intended, some by a reachable run: \<open>late_heartbeat_deposes_winner\<close>, \<open>early_acknowledgement\<close>,
  \<open>acknowledged_before_controller_knows\<close>, \<open>acknowledged_lost_by_reordering\<close>, \<open>replaced_leader_keeps_its_records\<close>, \<open>hwm_goes_back\<close>,
  \<open>late_waker_is_no_member\<close>, \<open>server_ends_at_failed_accept\<close>, \<open>broken_pipe_kills_broker\<close>, \<open>silent_broker_hangs_producer\<close>,
  \<open>producer_numbers_wrap\<close>, \<open>torn_vote_file_votes_again\<close>, \<open>torn_vote_file_elects_two\<close>, \<open>clock_back_acknowledges_unreplicated\<close>,
  \<open>full_disk_acknowledges_lost_records\<close>, \<open>deposed_controller_places_topic\<close>, \<open>deposed_controller_stores_isr\<close>.

  \<^bold>\<open>Conventions and bounds.\<close> Unsigned integers are words of their width and wrap; signed ones are integers with the
  casts written out. The clock, the random election timeout and the random partition are arguments; two readings of the
  clock that the code makes in one section are two arguments where the difference could matter and one where it could
  not. An exception is a value; a handler that throws leaves the caller's state. No fuel is used: every loop of the code
  recurses on its input, on the attempts left, or on what is left of a stream, with its termination proved; the endless
  loops of the consumer and of the server recurse on a schedule (how many rounds, which connections), over which the
  theorems quantify, and the loops over system calls on the kernel's answers, out of which they are blocked. A read that
  never returns is an outcome of its own (\<open>Hangs\<close>, \<open>NeverReturns\<close>), so that totality in HOL says nothing about it. Logs are
  bounded by \<open>2\<^sup>6\<^sup>3\<close> records (offsets are signed there), batches by what a frame of \<open>2\<^sup>3\<^sup>2\<close> bytes can hold.

  \<^bold>\<open>Not modelled.\<close> What system calls do inside, threads, sleeps and condition variables (their effect is the interleaving of
  sections, or the schedule of a loop), time limits of sockets (they have none), logging and printing. In \<open>net_step\<close> and \<open>takeover_step\<close> the
  three sections of \<open>create_topic\<close> and the two of \<open>update_isr\<close> are one step; \<open>topic_step\<close> separates them. The network of
  \<open>ClientProps\<close> loses a request that waits (acknowledgement by all replicas, joining, synchronising); \<open>served_network\<close> of \<open>Wire\<close> answers it.
  The decoders' \<open>reserve\<close> of a count that is too large for memory throws before the end of the buffer is reached; the model
  throws at that end. \<open>load_assignments\<close> reads into variables that start uninitialised; the model starts them at 0 or, on
  later lines, at the value of the line before. What a consumer printed is the value of a run that ends normally: of a
  run that a failed commit ends, the records printed before it are not in the result. A topic or group name is a
  name, not a path: names that escape or share a directory are not considered. When a reconciliation throws midway, the model drops what it had changed. Crashes tear the active log file
  and lose or corrupt its index, and cut the state files of the controller (\<open>TornFiles\<close>) and of groups (\<open>TornOffsets\<close>); the
  step relations other than \<open>crash_step\<close> take those files to be written whole. Writes fall short only in \<open>FullDisk\<close>.
\<close>

end
